(* ===== verification/Prelude.thy ===== *)
theory Prelude
  imports Main "HOL-Library.AList" "HOL-Library.Sublist"
begin

text \<open>
  The shared prelude: the result type of the crate, the Rust integer operations the sources use
  (checked and saturating addition at their width), the result monad, and the generic lemmas on
  lists and options the component theories share.  The collections \<open>mobius_simps\<close> (unfolding
  rules of small wrappers) and \<open>mobius_inv\<close> (an operation keeps its invariant) are filled by the
  components and consumed by their property proofs.
\<close>

named_theorems mobius_simps \<open>unfolding rules for small wrapper definitions\<close>
named_theorems mobius_inv \<open>an operation preserves its component's invariant\<close>

subsection \<open>The crate's error and result types\<close>

text \<open>
  \<open>lib.rs\<close>: the provider failure with its retry metadata, and the error enum.  Payloads owned
  by third-party crates (I/O, HTTP, JSON, SQLite errors) are kept as their text.
\<close>

datatype provider_error_kind = Other | StreamInterrupted

record provider_error =
  pe_message :: string
  pe_status :: "nat option"
  pe_retryable :: bool
  pe_retry_after :: "string option"
  pe_kind :: provider_error_kind

datatype error =
    Poisoned string
  | StorageFull
  | Config string
  | Duplicate string
  | Unknown string
  | Provider provider_error
  | Auth string
  | Sandbox string
  | Tool string
  | CheckpointErr string
  | Busy string
  | Stopped string
  | Rollback error error
  | PublicationDurability string
  | Io string
  | Http string
  | JsonErr string
  | Sqlite string

type_synonym 'a res = "error + 'a"

definition res_bind :: "'e + 'a \<Rightarrow> ('a \<Rightarrow> 'e + 'b) \<Rightarrow> 'e + 'b" where
  "res_bind m f = (case m of Inl e \<Rightarrow> Inl e | Inr x \<Rightarrow> f x)"

lemma res_bind_simps [simp]:
  "res_bind (Inl e) f = Inl e"
  "res_bind (Inr x) f = f x"
  by (simp_all add: res_bind_def)

lemma res_bind_Inr_iff: "res_bind m f = Inr y \<longleftrightarrow> (\<exists>x. m = Inr x \<and> f x = Inr y)"
  by (cases m) auto

lemma res_bind_Inl_iff: "res_bind m f = Inl e \<longleftrightarrow> m = Inl e \<or> (\<exists>x. m = Inr x \<and> f x = Inl e)"
  by (cases m) auto

lemma res_bind_assoc: "res_bind (res_bind m f) g = res_bind m (\<lambda>x. res_bind (f x) g)"
  by (cases m) simp_all

definition require :: "bool \<Rightarrow> 'e \<Rightarrow> 'e + unit" where
  "require b e = (if b then Inr () else Inl e)"

lemma require_simps [simp]:
  "require b e = Inr u \<longleftrightarrow> b"
  "require b e = Inl e' \<longleftrightarrow> \<not> b \<and> e' = e"
  by (auto simp: require_def)

text \<open>A \<open>for\<close> loop whose body may return early with an error.\<close>

fun for_each :: "('a \<Rightarrow> 'e + unit) \<Rightarrow> 'a list \<Rightarrow> 'e + unit" where
  "for_each f [] = Inr ()"
| "for_each f (x # xs) = res_bind (f x) (\<lambda>_. for_each f xs)"

lemma for_each_Inr_iff: "for_each f xs = Inr u \<longleftrightarrow> (\<forall>x \<in> set xs. f x = Inr ())"
  by (induction xs) (auto simp: res_bind_Inr_iff)

lemma for_each_Inl_D: "for_each f xs = Inl e \<Longrightarrow> \<exists>x \<in> set xs. f x = Inl e"
  by (induction xs) (auto simp: res_bind_Inl_iff)

text \<open>Collecting the results of a fallible map, stopping at the first error.\<close>

fun map_res :: "('a \<Rightarrow> 'e + 'b) \<Rightarrow> 'a list \<Rightarrow> 'e + 'b list" where
  "map_res f [] = Inr []"
| "map_res f (x # xs) = res_bind (f x) (\<lambda>y. res_bind (map_res f xs) (\<lambda>ys. Inr (y # ys)))"

lemma map_res_Inr_D: "map_res f xs = Inr ys \<Longrightarrow> length ys = length xs \<and> (\<forall>i < length xs. f (xs ! i) = Inr (ys ! i))"
  by (induction xs arbitrary: ys) (auto simp: res_bind_Inr_iff nth_Cons split: nat.splits)

lemma map_res_total: "(\<And>x. x \<in> set xs \<Longrightarrow> f x = Inr (g x)) \<Longrightarrow> map_res f xs = Inr (map g xs)"
  by (induction xs) simp_all

text \<open>A loop over a list with an accumulator and an early exit (\<open>Inl\<close>).\<close>

fun fold_res :: "('s \<Rightarrow> 'a \<Rightarrow> 'r + 's) \<Rightarrow> 's \<Rightarrow> 'a list \<Rightarrow> 'r + 's" where
  "fold_res f s [] = Inr s"
| "fold_res f s (x # xs) = res_bind (f s x) (\<lambda>s'. fold_res f s' xs)"

lemma fold_res_append: "fold_res f s (xs @ ys) = res_bind (fold_res f s xs) (\<lambda>s'. fold_res f s' ys)"
  by (induction xs arbitrary: s) (simp_all add: res_bind_assoc)

subsection \<open>Rust integers\<close>

text \<open>
  \<open>usize\<close> and \<open>u64\<close> are naturals below \<open>2 ^ 64\<close>, \<open>i64\<close> an integer in two's complement range.
  Checked operations return \<open>None\<close> outside the range, saturating ones stop at its end.
\<close>

definition u64_max :: nat where "u64_max = 2 ^ 64 - 1"
definition i64_max :: int where "i64_max = 2 ^ 63 - 1"
definition i64_min :: int where "i64_min = - (2 ^ 63)"

definition is_u64 :: "nat \<Rightarrow> bool" where "is_u64 n \<longleftrightarrow> n \<le> u64_max"
definition is_i64 :: "int \<Rightarrow> bool" where "is_i64 i \<longleftrightarrow> i64_min \<le> i \<and> i \<le> i64_max"

definition u64_checked_add :: "nat \<Rightarrow> nat \<Rightarrow> nat option" where
  "u64_checked_add a b = (if a + b \<le> u64_max then Some (a + b) else None)"

definition i64_checked_add :: "int \<Rightarrow> int \<Rightarrow> int option" where
  "i64_checked_add a b = (if i64_min \<le> a + b \<and> a + b \<le> i64_max then Some (a + b) else None)"

definition sat_add :: "nat \<Rightarrow> nat \<Rightarrow> nat" where
  "sat_add a b = min (a + b) u64_max"

definition sat_mul :: "nat \<Rightarrow> nat \<Rightarrow> nat" where
  "sat_mul a b = min (a * b) u64_max"

lemma u64_checked_add_Some [simp]:
  "u64_checked_add a b = Some c \<longleftrightarrow> c = a + b \<and> a + b \<le> u64_max"
  by (auto simp: u64_checked_add_def)

lemma i64_checked_add_Some [simp]:
  "i64_checked_add a b = Some c \<longleftrightarrow> c = a + b \<and> is_i64 (a + b)"
  by (auto simp: i64_checked_add_def is_i64_def)

lemma sat_add_le_max [simp]: "sat_add a b \<le> u64_max"
  by (simp add: sat_add_def)

lemma sat_mul_le_max [simp]: "sat_mul a b \<le> u64_max"
  by (simp add: sat_mul_def)

lemma sat_add_assoc: "sat_add (sat_add a b) c = sat_add a (sat_add b c)"
  by (simp add: sat_add_def)

lemma sat_add_mono: "a \<le> a' \<Longrightarrow> b \<le> b' \<Longrightarrow> sat_add a b \<le> sat_add a' b'"
  by (simp add: sat_add_def)

lemma sat_add_ge_left: "a \<le> u64_max \<Longrightarrow> a \<le> sat_add a b"
  by (simp add: sat_add_def)

subsection \<open>Lists\<close>

fun position :: "('a \<Rightarrow> bool) \<Rightarrow> 'a list \<Rightarrow> nat option" where
  "position P [] = None"
| "position P (x # xs) = (if P x then Some 0 else map_option Suc (position P xs))"

lemma position_None [simp]: "position P xs = None \<longleftrightarrow> (\<forall>x \<in> set xs. \<not> P x)"
  by (induction xs) auto

lemma position_SomeD:
  "position P xs = Some i \<Longrightarrow> i < length xs \<and> P (xs ! i) \<and> (\<forall>j < i. \<not> P (xs ! j))"
proof (induction xs arbitrary: i)
  case (Cons x xs)
  show ?case
  proof (cases "P x")
    case False
    with Cons.prems obtain k where k: "position P xs = Some k" "i = Suc k" by auto
    from Cons.IH [OF k(1)] False k(2) show ?thesis
      by (auto simp: nth_Cons split: nat.splits)
  qed (use Cons.prems in simp)
qed simp

lemma position_Some_iff:
  "position P xs = Some i \<longleftrightarrow> i < length xs \<and> P (xs ! i) \<and> (\<forall>j < i. \<not> P (xs ! j))"
proof
  assume r: "i < length xs \<and> P (xs ! i) \<and> (\<forall>j < i. \<not> P (xs ! j))"
  then obtain k where k: "position P xs = Some k"
    by (metis position_None nth_mem not_None_eq)
  from position_SomeD [OF k] r have "k = i" by (metis linorder_neqE_nat)
  with k show "position P xs = Some i" by simp
qed (rule position_SomeD)

text \<open>\<open>rposition\<close>: the last index that satisfies the predicate.\<close>

definition rposition :: "('a \<Rightarrow> bool) \<Rightarrow> 'a list \<Rightarrow> nat option" where
  "rposition P xs = map_option (\<lambda>i. length xs - 1 - i) (position P (rev xs))"

lemma rposition_SomeD:
  assumes "rposition P xs = Some i"
  shows "i < length xs \<and> P (xs ! i) \<and> (\<forall>j. i < j \<and> j < length xs \<longrightarrow> \<not> P (xs ! j))"
proof -
  obtain k where k: "position P (rev xs) = Some k" "i = length xs - 1 - k"
    using assms by (auto simp: rposition_def)
  from position_SomeD [OF k(1)] have pos: "k < length xs" "P (rev xs ! k)" "\<forall>j < k. \<not> P (rev xs ! j)" by auto
  have "\<not> P (xs ! j)" if "i < j" "j < length xs" for j
    using pos(1,3) that k(2) by (auto simp: rev_nth dest!: spec [of _ "length xs - 1 - j"])
  with pos k(2) show ?thesis by (auto simp: rev_nth)
qed

lemma rposition_None [simp]: "rposition P xs = None \<longleftrightarrow> (\<forall>x \<in> set xs. \<not> P x)"
  by (simp add: rposition_def)

lemma find_rev_None [simp]: "find P (rev xs) = None \<longleftrightarrow> (\<forall>x \<in> set xs. \<not> P x)"
  by (auto simp: find_None_iff)

definition remove_nth :: "nat \<Rightarrow> 'a list \<Rightarrow> 'a list" where
  "remove_nth i xs = take i xs @ drop (Suc i) xs"

lemma remove_nth_append: "remove_nth (length xs) (xs @ y # ys) = xs @ ys"
  by (simp add: remove_nth_def)

lemma length_remove_nth: "i < length xs \<Longrightarrow> length (remove_nth i xs) = length xs - 1"
  by (simp add: remove_nth_def)

lemma set_remove_nth: "set (remove_nth i xs) \<subseteq> set xs"
  by (auto simp: remove_nth_def dest: in_set_takeD in_set_dropD)

lemma insert_remove_nth: "i < length xs \<Longrightarrow> take i (remove_nth i xs) @ xs ! i # drop i (remove_nth i xs) = xs"
  by (simp add: remove_nth_def id_take_nth_drop [symmetric])

end
