(* ===== verification/Rust_Str.thy ===== *)
theory Rust_Str
  imports Prelude
begin

text \<open>
  Rust's \<open>str\<close> as the sources use it.  A string is its list of UTF-8 bytes (\<open>char\<close> is a byte), so
  \<open>length\<close> is \<open>str::len\<close>.  \<open>trim\<close> removes the characters of Unicode's \<open>White_Space\<close> property,
  recognised by their UTF-8 encodings at either end; \<open>lines\<close>, \<open>split_inclusive\<close>,
  \<open>strip_prefix\<close>, \<open>starts_with\<close>, \<open>ends_with\<close> and \<open>replace\<close> follow the standard library.
\<close>

subsection \<open>White space\<close>

definition is_ws_seq :: "string \<Rightarrow> bool" where
  "is_ws_seq s = (case map (of_char :: char \<Rightarrow> nat) s of
      [x] \<Rightarrow> (9 \<le> x \<and> x \<le> 13) \<or> x = 32
    | [x, y] \<Rightarrow> x = 194 \<and> (y = 133 \<or> y = 160)
    | [x, y, z] \<Rightarrow> (x = 225 \<and> y = 154 \<and> z = 128)
        \<or> (x = 226 \<and> y = 128 \<and> ((128 \<le> z \<and> z \<le> 138) \<or> z = 168 \<or> z = 169 \<or> z = 175))
        \<or> (x = 226 \<and> y = 129 \<and> z = 159) \<or> (x = 227 \<and> y = 128 \<and> z = 128)
    | _ \<Rightarrow> False)"

lemma is_ws_seq_Nil [simp]: "\<not> is_ws_seq []"
  by (simp add: is_ws_seq_def)

definition ws_len :: "string \<Rightarrow> nat" where
  "ws_len s = (if is_ws_seq (take 1 s) then 1 else if is_ws_seq (take 2 s) then 2
     else if is_ws_seq (take 3 s) then 3 else 0)"

definition ws_len_end :: "string \<Rightarrow> nat" where
  "ws_len_end s = (if is_ws_seq (drop (length s - 1) s) then 1
     else if is_ws_seq (drop (length s - 2) s) then 2
     else if is_ws_seq (drop (length s - 3) s) then 3 else 0)"

lemma ws_len_pos: "0 < ws_len s \<longleftrightarrow> (\<exists>k \<in> {1, 2, 3}. is_ws_seq (take k s))"
  by (auto simp: ws_len_def)

lemma ws_len_end_pos: "0 < ws_len_end s \<longleftrightarrow> (\<exists>k \<in> {1, 2, 3}. is_ws_seq (drop (length s - k) s))"
  by (auto simp: ws_len_end_def)

lemma ws_len_nonempty: "0 < ws_len s \<Longrightarrow> s \<noteq> []"
  by (auto simp: ws_len_pos)

lemma ws_len_end_nonempty: "0 < ws_len_end s \<Longrightarrow> s \<noteq> []"
  by (auto simp: ws_len_end_pos)

function trim_start :: "string \<Rightarrow> string" where
  "trim_start s = (if ws_len s = 0 then s else trim_start (drop (ws_len s) s))"
  by pat_completeness auto
termination
  by (relation "measure length") (auto simp: length_greater_0_conv dest: ws_len_nonempty intro: diff_less)

function trim_end :: "string \<Rightarrow> string" where
  "trim_end s = (if ws_len_end s = 0 then s else trim_end (take (length s - ws_len_end s) s))"
  by pat_completeness auto
termination
  by (relation "measure length") (auto simp: length_greater_0_conv dest: ws_len_end_nonempty intro: diff_less)

declare trim_start.simps [simp del] trim_end.simps [simp del]

definition trim :: "string \<Rightarrow> string" where
  "trim s = trim_end (trim_start s)"

abbreviation blank :: "string \<Rightarrow> bool" where
  "blank s \<equiv> trim s = []"

lemma trim_start_fix: "ws_len (trim_start s) = 0"
proof (induction s rule: trim_start.induct)
  case (1 s)
  then show ?case by (cases "ws_len s = 0") (simp_all add: trim_start.simps [of s])
qed

lemma trim_end_fix: "ws_len_end (trim_end s) = 0"
proof (induction s rule: trim_end.induct)
  case (1 s)
  then show ?case by (cases "ws_len_end s = 0") (simp_all add: trim_end.simps [of s])
qed

lemma trim_end_prefix: "prefix (trim_end s) s"
proof (induction s rule: trim_end.induct)
  case (1 s)
  show ?case
  proof (cases "ws_len_end s = 0")
    case False
    with 1 have "prefix (trim_end (take (length s - ws_len_end s) s)) s"
      using prefix_order.trans take_is_prefix by blast
    with False show ?thesis by (simp add: trim_end.simps [of s])
  qed (simp add: trim_end.simps [of s])
qed

lemma trim_start_suffix: "suffix (trim_start s) s"
proof (induction s rule: trim_start.induct)
  case (1 s)
  show ?case
  proof (cases "ws_len s = 0")
    case False
    with 1 have "suffix (trim_start (drop (ws_len s) s)) s"
      using suffix_order.trans suffix_drop by blast
    with False show ?thesis by (simp add: trim_start.simps [of s])
  qed (simp add: trim_start.simps [of s])
qed

lemma length_trim_le: "length (trim s) \<le> length s"
  unfolding trim_def
  by (meson order_trans prefix_length_le suffix_length_le trim_end_prefix trim_start_suffix)

lemma ws_len_prefix:
  assumes "prefix p s" and "ws_len s = 0"
  shows "ws_len p = 0"
proof (rule ccontr)
  assume "ws_len p \<noteq> 0"
  then have "\<exists>k \<in> {1, 2, 3}. is_ws_seq (take k p)" using ws_len_pos by (metis neq0_conv)
  then obtain k where k: "k \<in> {1, 2, 3}" "is_ws_seq (take k p)" by blast
  from assms(1) obtain r where s: "s = p @ r" by (auto elim: prefixE)
  show False
  proof (cases "k \<le> length p")
    case True
    with k s assms(2) show False by (auto simp: ws_len_def split: if_splits)
  next
    case False
    then have p: "take k p = take (length p) s" "length p < k" by (simp_all add: s)
    with k(2) have "length p \<noteq> 0" by (auto simp: is_ws_seq_def)
    with k(1) p(2) have "length p = 1 \<or> length p = 2" by (cases "length p") auto
    with k(2) p(1) assms(2) show False by (auto simp: ws_len_def split: if_splits)
  qed
qed

lemma trim_start_noop: "ws_len s = 0 \<Longrightarrow> trim_start s = s"
  by (simp add: trim_start.simps [of s])

lemma trim_end_noop: "ws_len_end s = 0 \<Longrightarrow> trim_end s = s"
  by (simp add: trim_end.simps [of s])

lemma trim_idem [simp]: "trim (trim s) = trim s"
proof -
  have "ws_len (trim s) = 0"
    unfolding trim_def by (rule ws_len_prefix [OF trim_end_prefix trim_start_fix])
  then have "trim_start (trim s) = trim s" by (rule trim_start_noop)
  moreover have "trim_end (trim s) = trim s"
    unfolding trim_def by (rule trim_end_noop [OF trim_end_fix])
  ultimately show ?thesis by (simp add: trim_def [of "trim s"])
qed

lemma trim_Nil [simp]: "trim [] = []"
  using length_trim_le [of "[]"] by simp

lemma blank_imp_trim_fix: "\<not> blank s \<Longrightarrow> s \<noteq> []"
  by auto

subsection \<open>Lines, prefixes and suffixes\<close>

definition strip_prefix :: "string \<Rightarrow> string \<Rightarrow> string option" where
  "strip_prefix p s = (if take (length p) s = p then Some (drop (length p) s) else None)"

definition starts_with :: "string \<Rightarrow> string \<Rightarrow> bool" where
  "starts_with p s \<longleftrightarrow> take (length p) s = p"

definition ends_with :: "string \<Rightarrow> string \<Rightarrow> bool" where
  "ends_with p s \<longleftrightarrow> length p \<le> length s \<and> drop (length s - length p) s = p"

lemma strip_prefix_append [simp]: "strip_prefix p (p @ s) = Some s"
  by (simp add: strip_prefix_def)

lemma strip_prefix_Some: "strip_prefix p s = Some r \<longleftrightarrow> s = p @ r"
  by (auto simp: strip_prefix_def) (metis append_take_drop_id)

lemma starts_with_iff: "starts_with p s \<longleftrightarrow> prefix p s"
  by (auto simp: starts_with_def prefix_def) (metis append_take_drop_id)

lemma ends_with_iff: "ends_with p s \<longleftrightarrow> suffix p s"
proof
  assume "ends_with p s"
  then show "suffix p s" unfolding ends_with_def by (metis suffix_drop)
qed (auto simp: ends_with_def suffix_def)

fun split_inclusive :: "char \<Rightarrow> string \<Rightarrow> string list" where
  "split_inclusive c [] = []"
| "split_inclusive c (x # xs) = (if x = c then [x] # split_inclusive c xs
     else (case split_inclusive c xs of [] \<Rightarrow> [[x]] | l # ls \<Rightarrow> (x # l) # ls))"

lemma concat_split_inclusive [simp]: "concat (split_inclusive c s) = s"
  by (induction s) (auto split: list.splits)

abbreviation LF :: char where "LF \<equiv> CHR 0x0A"
abbreviation CR :: char where "CR \<equiv> CHR 0x0D"

definition strip_cr :: "string \<Rightarrow> string" where
  "strip_cr l = (if l \<noteq> [] \<and> last l = CR then butlast l else l)"

definition strip_line_ending :: "string \<Rightarrow> string" where
  "strip_line_ending l = (if l \<noteq> [] \<and> last l = LF then strip_cr (butlast l) else l)"

definition lines :: "string \<Rightarrow> string list" where
  "lines s = map strip_line_ending (split_inclusive LF s)"

fun replace_char :: "char \<Rightarrow> string \<Rightarrow> string \<Rightarrow> string" where
  "replace_char c r [] = []"
| "replace_char c r (x # xs) = (if x = c then r else [x]) @ replace_char c r xs"

lemma replace_char_id [simp]: "replace_char c [c] s = s"
  by (induction s) simp_all

lemma split_inclusive_no_sep: "c \<notin> set l \<Longrightarrow> split_inclusive c (l @ c # s) = (l @ [c]) # split_inclusive c s"
  by (induction l) auto

lemma lines_cons: "LF \<notin> set l \<Longrightarrow> lines (l @ LF # s) = strip_cr l # lines s"
  by (simp add: lines_def split_inclusive_no_sep strip_line_ending_def)

lemma lines_Nil [simp]: "lines [] = []"
  by (simp add: lines_def)

text \<open>\<open>str::replace\<close> with a nonempty pattern: leftmost, non-overlapping occurrences.\<close>

fun replace_str :: "string \<Rightarrow> string \<Rightarrow> string \<Rightarrow> string" where
  "replace_str pat to [] = []"
| "replace_str pat to (x # xs) =
     (if pat \<noteq> [] \<and> starts_with pat (x # xs)
      then to @ replace_str pat to (drop (length pat - 1) xs)
      else x # replace_str pat to xs)"

subsection \<open>Decimal rendering of unsigned integers\<close>

definition digit :: "nat \<Rightarrow> char" where
  "digit d = char_of (48 + d)"

fun show_nat :: "nat \<Rightarrow> string" where
  "show_nat n = (if n < 10 then [digit n] else show_nat (n div 10) @ [digit (n mod 10)])"

declare show_nat.simps [simp del]

lemma digit_inj: "d < 10 \<Longrightarrow> d' < 10 \<Longrightarrow> digit d = digit d' \<Longrightarrow> d = d'"
  by (simp add: digit_def char_of_eq_iff take_bit_eq_mod)

lemma of_char_digit: "d < 10 \<Longrightarrow> of_char (digit d) = 48 + d"
  by (simp add: digit_def take_bit_eq_mod)

lemma show_nat_digits: "c \<in> set (show_nat n) \<Longrightarrow> \<exists>d < 10. c = digit d"
proof (induction n rule: show_nat.induct)
  case (1 n)
  then show ?case
    by (cases "n < 10") (auto simp: show_nat.simps [of n] intro: exI [of _ "n mod 10"])
qed

lemma show_nat_nonempty [simp]: "show_nat n \<noteq> []" "[] \<noteq> show_nat n"
  by (subst show_nat.simps, simp)+

lemma show_nat_inj: "show_nat m = show_nat n \<Longrightarrow> m = n"
proof (induction m arbitrary: n rule: show_nat.induct)
  case (1 m)
  show ?case
  proof (cases "m < 10")
    case True
    with "1.prems" show ?thesis
      by (auto simp: show_nat.simps [of m] show_nat.simps [of n] dest: digit_inj split: if_splits)
  next
    case False
    with "1.prems" have n: "\<not> n < 10"
      by (auto simp: show_nat.simps [of m] show_nat.simps [of n] split: if_splits)
    with False "1.prems" have eq: "show_nat (m div 10) = show_nat (n div 10)"
      and d: "digit (m mod 10) = digit (n mod 10)"
      by (simp_all add: show_nat.simps [of m] show_nat.simps [of n])
    from "1.IH" [OF False eq] digit_inj [OF _ _ d] show ?thesis
      by (metis div_mult_mod_eq mod_less_divisor zero_less_numeral)
  qed
qed

lemma hyphen_not_digit: "CHR ''-'' \<notin> set (show_nat n)"
proof
  assume "CHR ''-'' \<in> set (show_nat n)"
  then obtain d where d: "d < 10" "CHR ''-'' = digit d" by (auto dest: show_nat_digits)
  then have "(of_char CHR ''-'' :: nat) = 48 + d" using of_char_digit by simp
  then show False by simp
qed

fun join :: "string \<Rightarrow> string list \<Rightarrow> string" where
  "join sep [] = []"
| "join sep [s] = s"
| "join sep (s # t # ts) = s @ sep @ join sep (t # ts)"

end
