(* ===== verification/Json.thy ===== *)
theory Json
  imports Rust_Str
begin

text \<open>
  JSON values as the crate handles them (\<open>serde_json::Value\<close>) and the accessors the sources call.
  An object is an association list with one entry per key; \<open>obj_insert\<close> replaces an entry or adds
  one, \<open>obj_remove\<close> drops it.  Numbers keep the three shapes of the source: an unsigned and a
  negative integer, and a float by its bit pattern.
\<close>

datatype number = PosInt nat | NegInt int | Float64 nat

datatype json =
    JNull
  | JBool bool
  | JNumber number
  | JString string
  | JArray "json list"
  | JObject "(string \<times> json) list"

fun json_get :: "string \<Rightarrow> json \<Rightarrow> json option" where
  "json_get k (JObject fs) = map_of fs k"
| "json_get k _ = None"

fun as_str :: "json \<Rightarrow> string option" where
  "as_str (JString s) = Some s"
| "as_str _ = None"

fun as_array :: "json \<Rightarrow> json list option" where
  "as_array (JArray xs) = Some xs"
| "as_array _ = None"

fun as_object :: "json \<Rightarrow> (string \<times> json) list option" where
  "as_object (JObject fs) = Some fs"
| "as_object _ = None"

fun as_bool :: "json \<Rightarrow> bool option" where
  "as_bool (JBool b) = Some b"
| "as_bool _ = None"

fun as_u64 :: "json \<Rightarrow> nat option" where
  "as_u64 (JNumber (PosInt n)) = Some n"
| "as_u64 _ = None"

text \<open>\<open>value.get(k).and_then(Value::as_str)\<close>, the accessor used throughout.\<close>

definition get_str :: "string \<Rightarrow> json \<Rightarrow> string option" where
  "get_str k v = Option.bind (json_get k v) as_str"

definition get_array :: "string \<Rightarrow> json \<Rightarrow> json list option" where
  "get_array k v = Option.bind (json_get k v) as_array"

abbreviation obj_insert :: "string \<Rightarrow> json \<Rightarrow> (string \<times> json) list \<Rightarrow> (string \<times> json) list" where
  "obj_insert \<equiv> AList.update"

abbreviation obj_remove :: "string \<Rightarrow> (string \<times> json) list \<Rightarrow> (string \<times> json) list" where
  "obj_remove \<equiv> AList.delete"

lemma json_get_insert [simp]:
  "json_get k (JObject (obj_insert k' v fs)) = (if k = k' then Some v else json_get k (JObject fs))"
  by (simp add: update_conv')

lemma json_get_remove [simp]:
  "json_get k (JObject (obj_remove k' fs)) = (if k = k' then None else json_get k (JObject fs))"
  by (simp add: delete_conv')

lemma get_str_insert [simp]:
  "get_str k (JObject (obj_insert k' v fs)) = (if k = k' then as_str v else get_str k (JObject fs))"
  by (simp add: get_str_def update_conv')

lemma get_str_remove [simp]:
  "get_str k (JObject (obj_remove k' fs)) = (if k = k' then None else get_str k (JObject fs))"
  by (simp add: get_str_def delete_conv')

lemma get_array_insert [simp]:
  "get_array k (JObject (obj_insert k' v fs)) = (if k = k' then as_array v else get_array k (JObject fs))"
  by (simp add: get_array_def update_conv')

lemma get_array_remove [simp]:
  "get_array k (JObject (obj_remove k' fs)) = (if k = k' then None else get_array k (JObject fs))"
  by (simp add: get_array_def delete_conv')

lemma as_object_Some [simp]: "as_object v = Some fs \<longleftrightarrow> v = JObject fs"
  by (cases v) auto

lemma as_str_Some [simp]: "as_str v = Some s \<longleftrightarrow> v = JString s"
  by (cases v) auto

lemma as_array_Some [simp]: "as_array v = Some xs \<longleftrightarrow> v = JArray xs"
  by (cases v) auto

lemma json_get_SomeD: "json_get k v = Some x \<Longrightarrow> \<exists>fs. v = JObject fs"
  by (cases v) auto

subsection \<open>Fields the crate adds to model items\<close>

definition FIELD :: string where "FIELD = ''_mobius_delivery_once''"
definition INTERNAL_MESSAGE_FIELD :: string where "INTERNAL_MESSAGE_FIELD = ''_mobius_internal''"
definition CONTEXT_COMPACTED_MARKER :: string where "CONTEXT_COMPACTED_MARKER = ''context_compacted''"
definition ATTACHMENT_CONTEXT_MARKER :: string where "ATTACHMENT_CONTEXT_MARKER = ''attachments''"
definition MESSAGE_METADATA_FIELD :: string where "MESSAGE_METADATA_FIELD = ''_mobius_message''"
definition ATTACHMENTS_FIELD :: string where "ATTACHMENTS_FIELD = ''_mobius_attachments''"
definition REPLAY_REASONING_FIELD :: string where "REPLAY_REASONING_FIELD = ''_mobius_reasoning''"
definition PROMPT_CACHE_BREAKPOINT_FIELD :: string where
  "PROMPT_CACHE_BREAKPOINT_FIELD = ''_mobius_prompt_cache_breakpoint''"
definition TOOL_ERROR_FIELD :: string where "TOOL_ERROR_FIELD = ''_mobius_is_error''"
definition TOOL_LOAD_MARKER :: string where "TOOL_LOAD_MARKER = ''tool_load''"

lemmas field_names = FIELD_def INTERNAL_MESSAGE_FIELD_def CONTEXT_COMPACTED_MARKER_def
  ATTACHMENT_CONTEXT_MARKER_def MESSAGE_METADATA_FIELD_def ATTACHMENTS_FIELD_def
  REPLAY_REASONING_FIELD_def PROMPT_CACHE_BREAKPOINT_FIELD_def TOOL_ERROR_FIELD_def
  TOOL_LOAD_MARKER_def

definition internal_message_kind :: "json \<Rightarrow> string option" where
  "internal_message_kind message = get_str INTERNAL_MESSAGE_FIELD message"

definition is_internal_message :: "json \<Rightarrow> bool" where
  "is_internal_message message \<longleftrightarrow> internal_message_kind message \<noteq> None"

definition set_field :: "json \<Rightarrow> string \<Rightarrow> json \<Rightarrow> json" where
  "set_field target field value = (case as_object target of
      Some fs \<Rightarrow> JObject (obj_insert field value fs) | None \<Rightarrow> target)"

definition user_message :: "string \<Rightarrow> json" where
  "user_message text = JObject [(''role'', JString ''user''),
     (''content'', JArray [JObject [(''type'', JString ''input_text''), (''text'', JString text)]])]"

definition internal_user_message :: "string \<Rightarrow> string \<Rightarrow> json" where
  "internal_user_message kind text = set_field (user_message text) INTERNAL_MESSAGE_FIELD (JString kind)"

lemma internal_user_message_kind [simp]:
  "internal_message_kind (internal_user_message kind text) = Some kind"
  by (simp add: internal_message_kind_def internal_user_message_def set_field_def user_message_def get_str_def)

lemma user_message_not_internal [simp]: "internal_message_kind (user_message text) = None"
  by (simp add: internal_message_kind_def get_str_def user_message_def field_names)

lemma internal_user_message_role [simp]:
  "get_str ''role'' (internal_user_message kind text) = Some ''user''"
  by (simp add: internal_user_message_def set_field_def user_message_def get_str_def field_names)

end
