(* ===== verification/Protocol.thy ===== *)
theory Protocol
  imports Json
begin

text \<open>
  The protocol boundary: identifiers, provider errors, symbols, message authors, submissions and
  the validation every submission passes before the agent sees it (\<open>src/lib.rs\<close>,
  \<open>src/identifier.rs\<close>, \<open>src/session_id.rs\<close>, \<open>src/protocol\<close>, \<open>src/agent/mod.rs\<close>).
  Code outside the repository enters as parameters: the UUID parser and the byte length of a
  value's JSON encoding.
\<close>

subsection \<open>Provider errors\<close>

definition provider_error_new :: "string \<Rightarrow> provider_error" where
  "provider_error_new message = \<lparr>pe_message = message, pe_status = None, pe_retryable = False,
     pe_retry_after = None, pe_kind = Other\<rparr>"

definition provider_error_retryable :: "string \<Rightarrow> provider_error" where
  "provider_error_retryable message = (provider_error_new message)\<lparr>pe_retryable := True\<rparr>"

definition stream_interrupted :: "string option \<Rightarrow> provider_error" where
  "stream_interrupted retry_after = \<lparr>pe_message = ''model response stream was interrupted'',
     pe_status = None, pe_retryable = True, pe_retry_after = retry_after, pe_kind = StreamInterrupted\<rparr>"

definition provider_error_http :: "string \<Rightarrow> nat \<Rightarrow> string option \<Rightarrow> provider_error" where
  "provider_error_http message status retry_after = \<lparr>pe_message = message, pe_status = Some status,
     pe_retryable = (status = 408 \<or> status = 429 \<or> (500 \<le> status \<and> status \<le> 599)),
     pe_retry_after = retry_after, pe_kind = Other\<rparr>"

definition is_quota_code :: "string \<Rightarrow> bool" where
  "is_quota_code code \<longleftrightarrow> code \<in> {''insufficient_quota'', ''quota_exceeded'',
     ''billing_hard_limit_reached'', ''billing_not_active'', ''usage_limit_reached'',
     ''credit_limit_exceeded''}"

definition with_code :: "provider_error \<Rightarrow> string option \<Rightarrow> provider_error" where
  "with_code e code = (case code of
      Some c \<Rightarrow> if is_quota_code c then e\<lparr>pe_retryable := False\<rparr> else e
    | None \<Rightarrow> e)"

subsection \<open>Identifiers\<close>

datatype ascii_case = AnyCase | Lower

definition is_ascii_upper :: "char \<Rightarrow> bool" where
  "is_ascii_upper c \<longleftrightarrow> 65 \<le> (of_char c :: nat) \<and> (of_char c :: nat) \<le> 90"

definition is_ascii_lower :: "char \<Rightarrow> bool" where
  "is_ascii_lower c \<longleftrightarrow> 97 \<le> (of_char c :: nat) \<and> (of_char c :: nat) \<le> 122"

definition is_ascii_digit :: "char \<Rightarrow> bool" where
  "is_ascii_digit c \<longleftrightarrow> 48 \<le> (of_char c :: nat) \<and> (of_char c :: nat) \<le> 57"

definition is_ascii :: "char \<Rightarrow> bool" where
  "is_ascii c \<longleftrightarrow> (of_char c :: nat) < 128"

definition ascii_letter :: "ascii_case \<Rightarrow> char \<Rightarrow> bool" where
  "ascii_letter cs c = (case cs of AnyCase \<Rightarrow> is_ascii_upper c \<or> is_ascii_lower c | Lower \<Rightarrow> is_ascii_lower c)"

definition valid_ascii_identifier :: "string \<Rightarrow> nat \<Rightarrow> ascii_case \<Rightarrow> char list \<Rightarrow> bool" where
  "valid_ascii_identifier value max_bytes cs separators \<longleftrightarrow>
     value \<noteq> [] \<and> length value \<le> max_bytes
     \<and> list_all (\<lambda>byte. is_ascii byte \<and>
          (ascii_letter cs byte \<or> is_ascii_digit byte \<or> byte \<in> set separators)) value"

definition MAX_IDENTIFIER_BYTES :: nat where "MAX_IDENTIFIER_BYTES = 4 * 1024"

definition validate_identifier :: "string \<Rightarrow> string \<Rightarrow> nat \<Rightarrow> unit res" where
  "validate_identifier name value limit =
     (if blank value then Inl (Config (name @ '' cannot be empty''))
      else if limit < length value then Inl (Config (name @ '' exceeds size limit''))
      else Inr ())"

lemma validate_identifier_ok [simp]:
  "validate_identifier name value limit = Inr u \<longleftrightarrow> \<not> blank value \<and> length value \<le> limit"
  by (auto simp: validate_identifier_def)

definition en_dash :: string where "en_dash = [CHR 0xE2, CHR 0x80, CHR 0x93]"

text \<open>\<open>SessionId\<close>: a checked identity; the constructor is the only way in from outside.\<close>

definition session_id_new :: "string \<Rightarrow> string res" where
  "session_id_new value =
     (if blank value \<or> 4096 < length value
      then Inl (Config (''session ID must be 1'' @ en_dash @ ''4096 bytes''))
      else Inr value)"

subsection \<open>Symbols\<close>

datatype frontend_symbol =
    SymAgent | SymBrain | SymBranch | SymChat | SymDelete | SymEdit | SymProgress | SymPromote
  | SymRoute | SymSearch | SymShield | SymShieldAlert | SymShieldCheck | SymShieldOff | SymSparkle
  | SymStorage | SymTask | SymVoice | SymSteer | SymQueue | SymQuestion | SymPlus | SymCompaction
  | SymCustom string

fun symbol_as_str :: "frontend_symbol \<Rightarrow> string" where
  "symbol_as_str SymAgent = ''agent''"
| "symbol_as_str SymBrain = ''brain''"
| "symbol_as_str SymBranch = ''branch''"
| "symbol_as_str SymChat = ''chat''"
| "symbol_as_str SymDelete = ''delete''"
| "symbol_as_str SymEdit = ''edit''"
| "symbol_as_str SymProgress = ''progress''"
| "symbol_as_str SymPromote = ''promote''"
| "symbol_as_str SymRoute = ''route''"
| "symbol_as_str SymSearch = ''search''"
| "symbol_as_str SymShield = ''shield''"
| "symbol_as_str SymShieldAlert = ''shield_alert''"
| "symbol_as_str SymShieldCheck = ''shield_check''"
| "symbol_as_str SymShieldOff = ''shield_off''"
| "symbol_as_str SymSparkle = ''sparkle''"
| "symbol_as_str SymStorage = ''storage''"
| "symbol_as_str SymTask = ''task''"
| "symbol_as_str SymVoice = ''voice''"
| "symbol_as_str SymSteer = ''steer''"
| "symbol_as_str SymQueue = ''queue''"
| "symbol_as_str SymQuestion = ''question''"
| "symbol_as_str SymPlus = ''plus''"
| "symbol_as_str SymCompaction = ''compaction''"
| "symbol_as_str (SymCustom name) = name"

definition symbol_from_wire :: "string \<Rightarrow> frontend_symbol" where
  "symbol_from_wire name =
    (if name = ''agent'' then SymAgent else if name = ''brain'' then SymBrain
     else if name = ''branch'' then SymBranch else if name = ''chat'' then SymChat
     else if name = ''delete'' then SymDelete else if name = ''edit'' then SymEdit
     else if name = ''progress'' then SymProgress else if name = ''promote'' then SymPromote
     else if name = ''route'' then SymRoute else if name = ''search'' then SymSearch
     else if name = ''shield'' then SymShield else if name = ''shield_alert'' then SymShieldAlert
     else if name = ''shield_check'' then SymShieldCheck else if name = ''shield_off'' then SymShieldOff
     else if name = ''sparkle'' then SymSparkle else if name = ''storage'' then SymStorage
     else if name = ''task'' then SymTask else if name = ''voice'' then SymVoice
     else if name = ''steer'' then SymSteer else if name = ''queue'' then SymQueue
     else if name = ''question'' then SymQuestion else if name = ''plus'' then SymPlus
     else if name = ''compaction'' then SymCompaction else SymCustom name)"

text \<open>The wire name of a decoded symbol is the name it was decoded from.\<close>

lemma symbol_as_str_from_wire: "symbol_as_str (symbol_from_wire name) = name"
  by (simp add: symbol_from_wire_def)

text \<open>Decoding is canonical: a custom glyph never carries a known name.\<close>

lemma symbol_from_wire_as_str:
  "symbol_from_wire (symbol_as_str s) = s \<longleftrightarrow>
     (\<forall>name. s = SymCustom name \<longrightarrow> symbol_from_wire name = SymCustom name)"
  by (cases s) (simp_all add: symbol_from_wire_def)

subsection \<open>Messages\<close>

record session_file_reference =
  sf_id :: string
  sf_name :: string
  sf_size :: nat
  sf_media_type :: string

record session_file_limits =
  max_attachment_references :: nat
  max_file_bytes :: nat
  max_session_files :: nat
  max_session_bytes :: nat
  max_upload_chunk_bytes :: nat

definition default_session_file_limits :: session_file_limits where
  "default_session_file_limits = \<lparr>max_attachment_references = 16, max_file_bytes = 250 * 1024 * 1024,
     max_session_files = 512, max_session_bytes = 250 * 1024 * 1024,
     max_upload_chunk_bytes = 256 * 1024\<rparr>"

datatype message_source =
    SrcSession string
  | SrcExternal string string
  | SrcCall string

fun message_source_id :: "message_source \<Rightarrow> string" where
  "message_source_id (SrcSession session_id) = session_id"
| "message_source_id (SrcExternal source_id event_id) = source_id"
| "message_source_id (SrcCall call_id) = call_id"

text \<open>\<open>Source message_id source cause_id ancestry handle symbol\<close>, in the field order of the code.\<close>

datatype message_author =
    User
  | Source string message_source "string option" "string list" string "frontend_symbol option"

definition push_new :: "string list \<Rightarrow> string \<Rightarrow> string list" where
  "push_new lineage i = (if i \<in> set lineage then lineage else lineage @ [i])"

fun causal_origin :: "message_author \<Rightarrow> string option \<times> string list" where
  "causal_origin User = (None, [])"
| "causal_origin (Source message_id source cause_id ancestry handle symbol) =
     (let origin = (case cause_id of Some c \<Rightarrow> Some c
                    | None \<Rightarrow> (case source of SrcExternal _ event_id \<Rightarrow> Some event_id | _ \<Rightarrow> None))
      in (Some message_id,
          foldl push_new ancestry ((case origin of None \<Rightarrow> [] | Some c \<Rightarrow> [c]) @ [message_id])))"

lemma push_new_distinct: "distinct xs \<Longrightarrow> distinct (push_new xs i)"
  by (simp add: push_new_def)

lemma push_new_set [simp]: "set (push_new xs i) = insert i (set xs)"
  by (auto simp: push_new_def)

lemma foldl_push_new_distinct: "distinct xs \<Longrightarrow> distinct (foldl push_new xs ys)"
  by (induction ys arbitrary: xs) (simp_all add: push_new_distinct)

lemma foldl_push_new_set: "set (foldl push_new xs ys) = set xs \<union> set ys"
  by (induction ys arbitrary: xs) auto

lemma foldl_push_new_length: "length (foldl push_new xs ys) \<le> length xs + length ys"
proof (induction ys arbitrary: xs)
  case (Cons y ys)
  have "length (foldl push_new (push_new xs y) ys) \<le> length (push_new xs y) + length ys"
    by (rule Cons.IH)
  also have "\<dots> \<le> length xs + length (y # ys)" by (simp add: push_new_def)
  finally show ?case by simp
qed simp

datatype active_message_delivery = DeliverSteer | DeliverQueue

datatype message_delivery = DTurn | DSteer | DQueue

record message_target =
  checkpoint_sequence :: nat
  batch_item_count :: nat

record message_reply =
  reply_target :: message_target
  reply_text :: string

record message_event =
  me_author :: message_author
  me_delivery :: message_delivery
  me_text :: string
  me_attachments :: "session_file_reference list"
  me_reply :: "message_reply option"
  me_target :: "message_target option"

record message_submission =
  ms_author :: message_author
  ms_text :: string
  ms_attachments :: "session_file_reference list"
  ms_reply :: "message_reply option"
  ms_requested_delivery :: "active_message_delivery option"
  ms_target_turn_id :: "string option"

text \<open>\<open>MessageEvent::reply_text\<close>: the text a reply to this message must quote.\<close>

definition message_reply_text :: "message_event \<Rightarrow> string option" where
  "message_reply_text e =
     (if me_text e \<noteq> [] then Some (me_text e)
      else if me_attachments e \<noteq> [] then Some (join '', '' (map sf_name (me_attachments e)))
      else None)"

subsection \<open>Validation of message content\<close>

definition MAX_MESSAGE_BYTES :: nat where "MAX_MESSAGE_BYTES = 1024 * 1024"
definition MAX_SERIALIZED_MESSAGE_BYTES :: nat where
  "MAX_SERIALIZED_MESSAGE_BYTES = MAX_MESSAGE_BYTES * 2"
definition MAX_CAPABILITY_INPUT_BYTES :: nat where "MAX_CAPABILITY_INPUT_BYTES = 64 * 1024"
definition MAX_TOOL_NAME_BYTES :: nat where "MAX_TOOL_NAME_BYTES = 256"
definition MAX_OPERATION_BYTES :: nat where "MAX_OPERATION_BYTES = 256"
definition MAX_HANDLE_BYTES :: nat where "MAX_HANDLE_BYTES = 256"

fun validate_author :: "message_author \<Rightarrow> string \<Rightarrow> session_file_reference list \<Rightarrow> unit res" where
  "validate_author User text attachments =
     (if blank text \<and> attachments = [] then Inl (Config ''user message cannot be empty'') else Inr ())"
| "validate_author (Source message_id source cause_id ancestry handle symbol) text attachments =
     (if 16 < length ancestry \<or> card (set ancestry) \<noteq> length ancestry
      then Inl (Config ''source causal ancestry exceeds its bound or repeats an event'')
      else res_bind (for_each (\<lambda>i. validate_identifier ''source cause ID'' i MAX_IDENTIFIER_BYTES)
                       ((case cause_id of None \<Rightarrow> [] | Some c \<Rightarrow> [c]) @ ancestry)) (\<lambda>_.
        res_bind (validate_identifier ''source message ID'' message_id MAX_IDENTIFIER_BYTES) (\<lambda>_.
        res_bind (case source of
            SrcExternal source_id event_id \<Rightarrow>
              res_bind (validate_identifier ''message source ID'' source_id MAX_IDENTIFIER_BYTES)
                (\<lambda>_. validate_identifier ''source event ID'' event_id MAX_IDENTIFIER_BYTES)
          | _ \<Rightarrow> Inr ()) (\<lambda>_.
        res_bind (validate_identifier ''source handle'' handle MAX_HANDLE_BYTES) (\<lambda>_.
        res_bind (case symbol of
            Some s \<Rightarrow> validate_identifier ''source symbol'' (symbol_as_str s) MAX_HANDLE_BYTES
          | None \<Rightarrow> Inr ()) (\<lambda>_.
        if blank text then Inl (Config ''source message cannot be empty'')
        else if attachments \<noteq> [] then Inl (Config ''source messages cannot carry attachments'')
        else Inr ()))))))"

fun validate_attachment_list ::
    "(string \<Rightarrow> bool) \<Rightarrow> string list \<Rightarrow> session_file_reference list \<Rightarrow> unit res" where
  "validate_attachment_list uuid_ok ids [] = Inr ()"
| "validate_attachment_list uuid_ok ids (a # as) =
     (if sf_id a \<in> set ids then Inl (Config ''attachment IDs must be unique per message'')
      else if \<not> uuid_ok (sf_id a) then Inl (Config ''attachment ID must be a UUID'')
      else res_bind (validate_identifier ''attachment name'' (sf_name a) 255) (\<lambda>_.
        res_bind (validate_identifier ''attachment media type'' (sf_media_type a) 127) (\<lambda>_.
        if sf_size a = 0 then Inl (Config ''attachment size must be positive'')
        else validate_attachment_list uuid_ok (sf_id a # ids) as)))"

definition validate_message_content ::
    "(string \<Rightarrow> bool) \<Rightarrow> message_author \<Rightarrow> string \<Rightarrow> session_file_reference list \<Rightarrow> unit res" where
  "validate_message_content uuid_ok author text attachments =
     (if MAX_MESSAGE_BYTES < length text then Inl (Config ''message exceeds size limit'')
      else res_bind (validate_author author text attachments)
             (\<lambda>_. validate_attachment_list uuid_ok [] attachments))"

fun sum_attachment_sizes :: "session_file_limits \<Rightarrow> nat \<Rightarrow> session_file_reference list \<Rightarrow> nat res" where
  "sum_attachment_sizes limits bytes [] = Inr bytes"
| "sum_attachment_sizes limits bytes (a # as) =
     (if max_file_bytes limits < sf_size a
      then Inl (Config (''attachment size must be 1'' @ en_dash @ show_nat (max_file_bytes limits) @ '' bytes''))
      else case u64_checked_add bytes (sf_size a) of
             None \<Rightarrow> Inl (Config ''attachment sizes overflowed'')
           | Some bytes' \<Rightarrow> sum_attachment_sizes limits bytes' as)"

definition validate_message_attachments ::
    "session_file_reference list \<Rightarrow> session_file_limits \<Rightarrow> unit res" where
  "validate_message_attachments attachments limits =
     (if max_attachment_references limits < length attachments
      then Inl (Config (''message cannot reference more than ''
             @ show_nat (max_attachment_references limits) @ '' attachments''))
      else res_bind (sum_attachment_sizes limits 0 attachments) (\<lambda>bytes.
        if max_session_bytes limits < bytes
        then Inl (Config (''message attachments exceed the '' @ show_nat (max_session_bytes limits)
               @ ''-byte session limit''))
        else Inr ()))"

text \<open>
  \<open>serialized_len\<close> of the submission: its JSON length, or the serializer's error.
\<close>

definition message_submission_validate ::
    "(string \<Rightarrow> bool) \<Rightarrow> (message_submission \<Rightarrow> nat res) \<Rightarrow> message_submission \<Rightarrow> session_file_limits \<Rightarrow> unit res"
  where
  "message_submission_validate uuid_ok submission_len m limits =
     res_bind (case ms_target_turn_id m of
         Some turn_id \<Rightarrow> validate_identifier ''target turn ID'' turn_id MAX_IDENTIFIER_BYTES
       | None \<Rightarrow> Inr ()) (\<lambda>_.
     res_bind (case ms_reply m of
         Some reply \<Rightarrow> (if reply_text reply = [] then Inl (Config ''quoted message cannot be empty'')
                       else if MAX_MESSAGE_BYTES < length (reply_text reply)
                       then Inl (Config ''quoted message exceeds size limit'') else Inr ())
       | None \<Rightarrow> Inr ()) (\<lambda>_.
     res_bind (validate_message_content uuid_ok (ms_author m) (ms_text m) (ms_attachments m)) (\<lambda>_.
     res_bind (validate_message_attachments (ms_attachments m) limits) (\<lambda>_.
     res_bind (submission_len m) (\<lambda>bytes.
       if MAX_SERIALIZED_MESSAGE_BYTES < bytes
       then Inl (Config ''message exceeds serialized size limit'') else Inr ())))))"

subsection \<open>Operations and submissions\<close>

datatype review_decision = Approved | ApprovedForSession | Denied string | Abort

datatype op =
    Message message_submission
  | Interrupt string
  | ExecApproval string review_decision
  | CapabilityCommand string string string "string option" "message_target option"
  | SetModel string
  | ResumeSession string

record submission =
  sub_id :: string
  sub_op :: op

definition submission_message :: "string \<Rightarrow> message_submission \<Rightarrow> submission" where
  "submission_message fresh_uuid m = \<lparr>
     sub_id = (case ms_author m of Source message_id _ _ _ _ _ \<Rightarrow> message_id | User \<Rightarrow> fresh_uuid),
     sub_op = Message m\<rparr>"

definition validate_submission ::
    "(string \<Rightarrow> bool) \<Rightarrow> (message_submission \<Rightarrow> nat res) \<Rightarrow> submission \<Rightarrow> unit res" where
  "validate_submission uuid_ok submission_len s =
     res_bind (validate_identifier ''submission ID'' (sub_id s) MAX_IDENTIFIER_BYTES) (\<lambda>_.
       case sub_op s of
         Message m \<Rightarrow> message_submission_validate uuid_ok submission_len m default_session_file_limits
       | Interrupt turn_id \<Rightarrow> validate_identifier ''turn ID'' turn_id MAX_IDENTIFIER_BYTES
       | ExecApproval i _ \<Rightarrow> validate_identifier ''approval ID'' i MAX_IDENTIFIER_BYTES
       | CapabilityCommand capability command arguments input _ \<Rightarrow>
           res_bind (validate_identifier ''capability ID'' capability MAX_OPERATION_BYTES) (\<lambda>_.
           res_bind (validate_identifier ''command'' command MAX_OPERATION_BYTES) (\<lambda>_.
             if MAX_CAPABILITY_INPUT_BYTES < length arguments
             then Inl (Config ''middleware command arguments exceed size limit'')
             else if (case input of Some i \<Rightarrow> MAX_CAPABILITY_INPUT_BYTES < length i | None \<Rightarrow> False)
             then Inl (Config ''middleware command input exceeds size limit'')
             else Inr ()))
       | SetModel route \<Rightarrow> validate_identifier ''model route'' route MAX_IDENTIFIER_BYTES
       | ResumeSession _ \<Rightarrow> Inr ())"

subsection \<open>Tool calls and token usage\<close>

record tool_call =
  tc_call_id :: string
  tc_name :: string
  tc_arguments :: json

record token_usage =
  input_tokens :: int
  cached_input_tokens :: int
  cache_write_input_tokens :: int
  output_tokens :: int
  reasoning_output_tokens :: int
  total_tokens :: int

definition usage_zero :: token_usage where
  "usage_zero = \<lparr>input_tokens = 0, cached_input_tokens = 0, cache_write_input_tokens = 0,
     output_tokens = 0, reasoning_output_tokens = 0, total_tokens = 0\<rparr>"

definition usage_checked_sum :: "token_usage \<Rightarrow> token_usage \<Rightarrow> token_usage option" where
  "usage_checked_sum a b =
     Option.bind (i64_checked_add (input_tokens a) (input_tokens b)) (\<lambda>input.
     Option.bind (i64_checked_add (cached_input_tokens a) (cached_input_tokens b)) (\<lambda>cached.
     Option.bind (i64_checked_add (cache_write_input_tokens a) (cache_write_input_tokens b)) (\<lambda>cwrite.
     Option.bind (i64_checked_add (output_tokens a) (output_tokens b)) (\<lambda>output.
     Option.bind (i64_checked_add (reasoning_output_tokens a) (reasoning_output_tokens b)) (\<lambda>reasoning.
     Option.bind (i64_checked_add (total_tokens a) (total_tokens b)) (\<lambda>total.
       Some \<lparr>input_tokens = input, cached_input_tokens = cached, cache_write_input_tokens = cwrite,
             output_tokens = output, reasoning_output_tokens = reasoning, total_tokens = total\<rparr>))))))"

text \<open>\<open>checked_add\<close> updates in place; on overflow the receiver keeps its value.\<close>

definition usage_checked_add :: "token_usage \<Rightarrow> token_usage \<Rightarrow> token_usage \<times> unit option" where
  "usage_checked_add self other = (case usage_checked_sum self other of
      Some s \<Rightarrow> (s, Some ()) | None \<Rightarrow> (self, None))"

definition usage_ok :: "token_usage \<Rightarrow> bool" where
  "usage_ok u \<longleftrightarrow> is_i64 (input_tokens u) \<and> is_i64 (cached_input_tokens u)
     \<and> is_i64 (cache_write_input_tokens u) \<and> is_i64 (output_tokens u)
     \<and> is_i64 (reasoning_output_tokens u) \<and> is_i64 (total_tokens u)"

definition usage_plus :: "token_usage \<Rightarrow> token_usage \<Rightarrow> token_usage" where
  "usage_plus a b = \<lparr>input_tokens = input_tokens a + input_tokens b,
     cached_input_tokens = cached_input_tokens a + cached_input_tokens b,
     cache_write_input_tokens = cache_write_input_tokens a + cache_write_input_tokens b,
     output_tokens = output_tokens a + output_tokens b,
     reasoning_output_tokens = reasoning_output_tokens a + reasoning_output_tokens b,
     total_tokens = total_tokens a + total_tokens b\<rparr>"

lemma usage_checked_sum_Some:
  "usage_checked_sum a b = Some s \<longleftrightarrow> s = usage_plus a b \<and> usage_ok (usage_plus a b)"
  by (auto simp: usage_checked_sum_def usage_plus_def usage_ok_def bind_eq_Some_conv)

end
