(* ===== verification/Events.thy ===== *)
theory Events
  imports Protocol "HOL-Library.Char_ord" "HOL-Library.List_Lexorder"
begin

text \<open>
  The event side of the protocol: payload records of \<open>src/protocol/events.rs\<close>, ordered content of
  \<open>src/protocol/content.rs\<close>, widgets and blocks of \<open>src/protocol/frontend.rs\<close>, and the event and
  model-event types of \<open>src/protocol/mod.rs\<close> with their operations.  Descriptor blocks of
  \<open>src/protocol/ui.rs\<close> are only carried here and stay in their JSON form.
\<close>

subsection \<open>Ordered content\<close>

datatype image_detail = DetailAuto | DetailLow | DetailHigh

record image_rendition =
  ir_file :: session_file_reference
  ir_width :: nat
  ir_height :: nat

record image_reference =
  im_file :: session_file_reference
  im_width :: nat
  im_height :: nat
  im_detail :: image_detail
  im_rendition :: "image_rendition option"

datatype content_part =
    PText string
  | PImage image_reference
  | PFile session_file_reference

type_synonym tool_content = "content_part list"

definition tool_content_text :: "tool_content \<Rightarrow> string" where
  "tool_content_text parts = join [LF] (List.map_filter
     (\<lambda>part. case part of PText text \<Rightarrow> Some text | PImage _ \<Rightarrow> None | PFile _ \<Rightarrow> None) parts)"

definition tool_content_files :: "tool_content \<Rightarrow> session_file_reference list" where
  "tool_content_files parts = List.map_filter
     (\<lambda>part. case part of PImage img \<Rightarrow> Some (im_file img) | PFile file \<Rightarrow> Some file | PText _ \<Rightarrow> None) parts"

definition content_of_text :: "string \<Rightarrow> tool_content" where
  "content_of_text text = [PText text]"

lemma tool_content_text_of_text [simp]: "tool_content_text (content_of_text s) = s"
  by (simp add: tool_content_text_def content_of_text_def List.map_filter_def)

subsection \<open>Event payloads\<close>

datatype error_kind =
    EkConfiguration | EkDuplicateRegistration | EkUnknownRegistration | EkProvider | EkAuthentication
  | EkSandbox | EkTool | EkCheckpoint | EkBusy | EkStopped | EkRollback | EkIo | EkHttp | EkJson | EkStorage

record error_event =
  ee_kind :: error_kind
  ee_message :: string
  ee_retryable :: bool
  ee_status :: "nat option"
  ee_retry_after :: "string option"

text \<open>The \<open>Display\<close> texts of \<open>crate::Error\<close>.\<close>

fun error_display :: "error \<Rightarrow> string" where
  "error_display (Poisoned s) = ''internal lock poisoned: '' @ s"
| "error_display StorageFull = ''storage is full; free up space before adding files''"
| "error_display (Config s) = ''configuration error: '' @ s"
| "error_display (Duplicate s) = ''duplicate registration: '' @ s"
| "error_display (Unknown s) = ''unknown registration: '' @ s"
| "error_display (Provider e) = ''provider error: '' @ pe_message e"
| "error_display (Auth s) = ''authentication error: '' @ s"
| "error_display (Sandbox s) = ''sandbox: '' @ s"
| "error_display (Tool s) = ''tool error: '' @ s"
| "error_display (CheckpointErr s) = ''checkpoint error: '' @ s"
| "error_display (Busy s) = ''agent busy: '' @ s"
| "error_display (Stopped s) = ''agent stopped: '' @ s"
| "error_display (Rollback p r) = error_display p @ ''; rollback failed: '' @ error_display r"
| "error_display (PublicationDurability s) =
     ''state was replaced, but its durability could not be confirmed: '' @ s"
| "error_display (Io s) = s"
| "error_display (Http s) = s"
| "error_display (JsonErr s) = s"
| "error_display (Sqlite s) = ''checkpoint storage error''"

definition error_class :: "error \<Rightarrow> error_kind \<times> bool \<times> nat option \<times> string option" where
  "error_class e = (case e of
      Config _ \<Rightarrow> (EkConfiguration, False, None, None)
    | Duplicate _ \<Rightarrow> (EkDuplicateRegistration, False, None, None)
    | Unknown _ \<Rightarrow> (EkUnknownRegistration, False, None, None)
    | Provider p \<Rightarrow> (EkProvider, pe_retryable p, pe_status p, pe_retry_after p)
    | Auth _ \<Rightarrow> (EkAuthentication, False, None, None)
    | Sandbox _ \<Rightarrow> (EkSandbox, False, None, None)
    | Tool _ \<Rightarrow> (EkTool, False, None, None)
    | CheckpointErr _ \<Rightarrow> (EkCheckpoint, False, None, None)
    | Busy _ \<Rightarrow> (EkBusy, False, None, None)
    | Stopped _ \<Rightarrow> (EkStopped, False, None, None)
    | Poisoned _ \<Rightarrow> (EkStopped, False, None, None)
    | Rollback _ _ \<Rightarrow> (EkRollback, False, None, None)
    | Io _ \<Rightarrow> (EkIo, False, None, None)
    | PublicationDurability _ \<Rightarrow> (EkIo, False, None, None)
    | Http _ \<Rightarrow> (EkHttp, False, None, None)
    | JsonErr _ \<Rightarrow> (EkJson, False, None, None)
    | StorageFull \<Rightarrow> (EkStorage, False, None, None)
    | Sqlite _ \<Rightarrow> (EkStorage, False, None, None))"

definition error_event_from :: "error \<Rightarrow> error_event" where
  "error_event_from e = (case error_class e of (kind, retryable, status, retry_after) \<Rightarrow>
     \<lparr>ee_kind = kind, ee_message = error_display e, ee_retryable = retryable, ee_status = status,
      ee_retry_after = retry_after\<rparr>)"

datatype prompt_cache_mode = PcmUnsupported | PcmImplicit | PcmExplicit
datatype prompt_cache_outcome = PcoUnsupported | PcoHit | PcoWrite | PcoMiss | PcoContextRewrite

record prompt_cache_diagnostics =
  pd_capability :: prompt_cache_mode
  pd_context_epoch :: nat
  pd_outcome :: prompt_cache_outcome
  pd_rewrite_reasons :: "string list"

record model_step_diagnostics =
  md_provider :: string
  md_prompt_cache :: prompt_cache_diagnostics

datatype model_step_content_phase = Reasoning | Commentary | FinalAnswer

datatype model_step_annotation =
    UrlCitation string string "string option" nat nat
  | FileCitation string string nat
  | ContainerFileCitation string string string nat nat
  | FilePath string nat
  | DocumentCharacterCitation string nat "string option" "string option" nat nat
  | DocumentPageCitation string nat "string option" "string option" nat nat
  | DocumentContentBlockCitation string nat "string option" "string option" nat nat
  | SearchResultCitation string nat string "string option" nat nat
  | WebSearchResultCitation string string "string option" string

record model_step_content =
  sc_output_index :: nat
  sc_part_index :: nat
  sc_phase :: model_step_content_phase
  sc_text :: string
  sc_annotations :: "model_step_annotation list"

datatype model_step_outcome =
    StepCompleted bool "string list" token_usage
  | StepFailed
  | StepInterrupted
  | StepRetrying

record turn_started_event =
  ts_idle :: bool
  ts_turn_id :: string
  ts_model_context_window :: "int option"

record turn_complete_event =
  tcp_idle :: bool
  tcp_turn_id :: string

record turn_aborted_event =
  ta_idle :: bool
  ta_turn_id :: string
  ta_reason :: string

record assistant_message_event =
  am_session_id :: string
  am_turn_id :: string
  am_model_step_id :: string
  am_content :: "model_step_content list"
  am_target :: "message_target option"

definition assistant_reply_text :: "assistant_message_event \<Rightarrow> string option" where
  "assistant_reply_text m = map_option sc_text
     (find (\<lambda>item. sc_phase item \<noteq> Reasoning \<and> sc_text item \<noteq> []) (rev (am_content m)))"

record assistant_content_delta_event =
  ad_session_id :: string
  ad_turn_id :: string
  ad_model_step_id :: string
  ad_delta :: string
  ad_phase :: model_step_content_phase

record model_step_started_event =
  ss_session_id :: string
  ss_turn_id :: string
  ss_model_step_id :: string
  ss_step_index :: nat
  ss_started_at_ms :: int

record model_step_completed_event =
  se_session_id :: string
  se_turn_id :: string
  se_model_step_id :: string
  se_step_index :: nat
  se_started_at_ms :: int
  se_completed_at_ms :: int
  se_outcome :: model_step_outcome
  se_diagnostics :: "model_step_diagnostics option"

record model_changed_event =
  mc_route :: string
  mc_model :: string
  mc_reasoning_effort :: "string option"
  mc_model_context_window :: "int option"

record session_context =
  cx_owner_id :: string
  cx_tenant_id :: "string option"
  cx_user_id :: "string option"
  cx_user_name :: "string option"
  cx_workspace_id :: "string option"
  cx_workspace_label :: "string option"
  cx_origin_label :: "string option"

definition session_context_validate :: "session_context \<Rightarrow> unit res" where
  "session_context_validate c = validate_identifier ''session owner ID'' (cx_owner_id c) MAX_IDENTIFIER_BYTES"

record session_configured_event =
  sg_session_id :: string
  sg_context :: session_context
  sg_model :: model_changed_event

record session_resume_requested_event =
  sq_session_id :: string
  sq_context :: session_context

record tool_call_begin_event =
  tb_turn_id :: string
  tb_call_id :: string
  tb_name :: string
  tb_arguments :: json

record tool_call_end_event =
  te_turn_id :: string
  te_call_id :: string
  te_name :: string
  te_output :: tool_content
  te_is_error :: bool

record tool_load_event =
  tl_turn_id :: string
  tl_load_id :: string
  tl_catalog_revision :: string
  tl_tools :: "string list"

datatype context_part_kind =
    CpInstructions | CpSkills | CpCapabilities | CpTools | CpMessages | CpToolCalls | CpToolResults
  | CpMemory | CpReasoning | CpDeferredTools

record context_part =
  cp_kind :: context_part_kind
  cp_tokens :: int
  cp_items :: nat

record context_breakdown =
  cb_parts :: "context_part list"
  cb_compaction_buffer :: int

record token_usage_info =
  ti_total_token_usage :: token_usage
  ti_last_token_usage :: token_usage
  ti_model_context_window :: "int option"
  ti_context :: "context_breakdown option"

record token_count_event =
  tk_info :: "token_usage_info option"
  tk_rate_limits :: "json option"

datatype web_search_action =
    WsSearch "string list"
  | WsOpenPage "string option"
  | WsFindInPage "string option" "string option"
  | WsInterrupted
  | WsOther

record web_search_begin_event =
  wb_session_id :: string
  wb_turn_id :: string
  wb_model_step_id :: string
  wb_call_id :: string

record web_search_end_event =
  we_session_id :: string
  we_turn_id :: string
  we_model_step_id :: string
  we_call_id :: string
  we_action :: web_search_action


subsection \<open>Frontend blocks and widgets\<close>

type_synonym ui_block = json

datatype frontend_tone = Neutral | SuccessTone | WarningTone | ErrorTone
datatype frontend_priority = Primary | Secondary
datatype frontend_slot =
    Header | ComposerHeader | ComposerFooter | MessageActions | TranscriptTail | Navigation | ChatMenu | Attention
datatype frontend_list_item_state = Plain | Pending | InProgress | Completed | Failed | Interrupted
datatype frontend_block_update = Replace | Append
datatype frontend_block_state = BlockPending | BlockComplete
datatype frontend_block_role = Activity | RoleTool | WebSearch | Artifact | ApprovalRole | Notice
datatype frontend_block_format = PlainText | UnifiedDiff | ImageFormat | Ui

record frontend_progress =
  fp_completed :: nat
  fp_total :: nat

record frontend_editor =
  fe_title :: string
  fe_label :: string
  fe_description :: string
  fe_submit_label :: string

record frontend_action =
  fa_id :: string
  fa_label :: string
  fa_symbol :: frontend_symbol
  fa_tone :: frontend_tone
  fa_op :: op
  fa_input_from_label :: bool
  fa_editor :: "frontend_editor option"

text \<open>\<open>FrontendAction::into_operation\<close>: a labelled choice fills the command's input.\<close>

definition into_operation :: "frontend_action \<Rightarrow> op" where
  "into_operation a = (case fa_op a of
      CapabilityCommand capability command arguments _ target \<Rightarrow>
        (if fa_input_from_label a then CapabilityCommand capability command arguments (Some (fa_label a)) target
         else fa_op a)
    | _ \<Rightarrow> fa_op a)"

record frontend_action_list_item =
  fi_id :: string
  fi_text :: string
  fi_state :: frontend_list_item_state
  fi_actions :: "frontend_action list"

datatype frontend_widget_content =
  ActionList string "frontend_action_list_item list" "frontend_action list"

record frontend_widget =
  fw_id :: string
  fw_slot :: frontend_slot
  fw_text :: string
  fw_tone :: frontend_tone
  fw_symbol :: "frontend_symbol option"
  fw_icon_only :: bool
  fw_progress :: "frontend_progress option"
  fw_content :: "frontend_widget_content option"
  fw_action :: "op option"
  fw_count :: "nat option"
  fw_priority :: frontend_priority

definition pending_attention_items :: "frontend_widget \<Rightarrow> frontend_action_list_item list" where
  "pending_attention_items w = filter (\<lambda>item. fi_state item = Pending)
     (case (fw_slot w, fw_content w) of (Attention, Some (ActionList _ items _)) \<Rightarrow> items | _ \<Rightarrow> [])"

record frontend_link =
  fl_label :: string
  fl_href :: string

record frontend_block =
  fb_id :: "string option"
  fb_group :: "string option"
  fb_update :: frontend_block_update
  fb_state :: frontend_block_state
  fb_role :: frontend_block_role
  fb_title :: string
  fb_text :: string
  fb_symbol :: "frontend_symbol option"
  fb_links :: "frontend_link list"
  fb_files :: "session_file_reference list"
  fb_content :: tool_content
  fb_format :: frontend_block_format
  fb_tone :: frontend_tone
  fb_ui :: "ui_block list"

definition block_default :: frontend_block where
  "block_default = \<lparr>fb_id = None, fb_group = None, fb_update = Replace, fb_state = BlockComplete,
     fb_role = Activity, fb_title = [], fb_text = [], fb_symbol = None, fb_links = [], fb_files = [],
     fb_content = [], fb_format = PlainText, fb_tone = Neutral, fb_ui = []\<rparr>"

record rendered_block =
  rb_capability :: string
  rb_block :: frontend_block

text \<open>
  \<open>FrontendBlockUpdate::apply\<close>: a replacement discards the current text; an appended chunk is
  separated from it by exactly one added newline when neither side brings one.
\<close>

definition block_update_apply :: "frontend_block_update \<Rightarrow> string \<Rightarrow> string \<Rightarrow> string" where
  "block_update_apply self current text =
     (let current = (if self = Replace then []
                     else if current \<noteq> [] \<and> text \<noteq> [] \<and> \<not> ends_with [LF] current \<and> \<not> starts_with [LF] text
                     then current @ [LF] else current)
      in current @ text)"

record approval_call =
  ac_call_id :: string
  ac_name :: string
  ac_arguments :: json
  ac_preview :: "frontend_block option"

record exec_approval_request_event =
  ea_id :: string
  ea_turn_id :: string
  ea_calls :: "approval_call list"
  ea_reason :: string

record frontend_picker_option =
  po_label :: string
  po_description :: string
  po_detail :: string
  po_symbol :: "frontend_symbol option"
  po_shows_detail :: bool
  po_op :: op

datatype frontend_preview_kind = PreviewAgent | PreviewCall
datatype frontend_preview_update = PreviewReplace | PreviewPrepend

subsection \<open>Events\<close>

text \<open>
  \<open>EventMsg\<close> and \<open>FrontendEvent\<close> refer to each other: a preview carries events.  A preview event is
  its sequence, submission id, time and event.
\<close>

datatype event_msg =
    MessageDelta string
  | ErrorMsg error_event
  | Warning string
  | SubmissionRejected string
  | SessionConfigured session_configured_event
  | TurnStarted turn_started_event
  | TurnComplete turn_complete_event
  | TurnAborted turn_aborted_event
  | MessageMsg message_event
  | AssistantMessage assistant_message_event
  | AssistantContentDelta assistant_content_delta_event
  | ModelStepStarted model_step_started_event
  | ModelStepCompleted model_step_completed_event
  | SessionHistory "event_msg list"
  | ModelChanged model_changed_event
  | SessionResumeRequested session_resume_requested_event
  | ToolCallBegin tool_call_begin_event
  | ToolCallEnd tool_call_end_event
  | ToolLoadMsg tool_load_event
  | ExecApprovalRequest exec_approval_request_event
  | TokenCount token_count_event
  | ContextCompacted
  | WebSearchBegin web_search_begin_event
  | WebSearchEnd web_search_end_event
  | Frontend frontend_event
and frontend_event =
    Render string frontend_block
  | Widget string frontend_widget
  | RemoveWidget string string
  | Picker string "frontend_picker_option list"
  | Preview frontend_preview_kind "frontend_list_item_state option" "frontend_symbol option" "nat option"
      "int option" string string string string frontend_preview_update
      "(nat \<times> string option \<times> int \<times> event_msg) list" "op option"
  | OpenSession string

record event =
  ev_submission_id :: "string option"
  ev_msg :: event_msg

text \<open>
  \<open>message_target_mut\<close> is a view of the target slot; the model gives the read and the write through
  it, both undefined on every event that is not a complete message.
\<close>

fun message_target_of :: "event_msg \<Rightarrow> message_target option option" where
  "message_target_of (MessageMsg m) = Some (me_target m)"
| "message_target_of (AssistantMessage m) = Some (am_target m)"
| "message_target_of _ = None"

fun set_message_target :: "message_target option \<Rightarrow> event_msg \<Rightarrow> event_msg" where
  "set_message_target t (MessageMsg m) = MessageMsg (m\<lparr>me_target := t\<rparr>)"
| "set_message_target t (AssistantMessage m) = AssistantMessage (m\<lparr>am_target := t\<rparr>)"
| "set_message_target t e = e"

fun event_message :: "event_msg \<Rightarrow> message_event option" where
  "event_message (MessageMsg m) = Some m"
| "event_message _ = None"

lemma message_target_set [simp]:
  "message_target_of (set_message_target t e) = map_option (\<lambda>_. t) (message_target_of e)"
  by (cases e) simp_all

subsection \<open>Model events\<close>

datatype model_event =
    TextDelta string
  | CommentaryDelta string
  | ReasoningDelta string
  | ToolCallReady tool_call
  | WebSearchStarted string
  | WebSearchCompleted string web_search_action

fun into_event :: "model_event \<Rightarrow> string \<Rightarrow> string \<Rightarrow> string \<Rightarrow> event_msg option" where
  "into_event (ToolCallReady _) session turn step = None"
| "into_event (TextDelta d) session turn step = Some (AssistantContentDelta
     \<lparr>ad_session_id = session, ad_turn_id = turn, ad_model_step_id = step, ad_delta = d, ad_phase = FinalAnswer\<rparr>)"
| "into_event (CommentaryDelta d) session turn step = Some (AssistantContentDelta
     \<lparr>ad_session_id = session, ad_turn_id = turn, ad_model_step_id = step, ad_delta = d, ad_phase = Commentary\<rparr>)"
| "into_event (ReasoningDelta d) session turn step = Some (AssistantContentDelta
     \<lparr>ad_session_id = session, ad_turn_id = turn, ad_model_step_id = step, ad_delta = d, ad_phase = Reasoning\<rparr>)"
| "into_event (WebSearchStarted call) session turn step = Some (WebSearchBegin
     \<lparr>wb_session_id = session, wb_turn_id = turn, wb_model_step_id = step, wb_call_id = call\<rparr>)"
| "into_event (WebSearchCompleted call action) session turn step = Some (WebSearchEnd
     \<lparr>we_session_id = session, we_turn_id = turn, we_model_step_id = step, we_call_id = call, we_action = action\<rparr>)"

text \<open>
  \<open>ModelEventTracker\<close>: the ids of searches started and not finished.  The code keeps a \<open>BTreeSet\<close> of
  strings; the model keeps its elements in ascending byte order, which is the order they are drained in.
\<close>

definition tracker_observe :: "string list \<Rightarrow> model_event \<Rightarrow> string list" where
  "tracker_observe pending e = (case e of
      WebSearchStarted call \<Rightarrow> insort_insert call pending
    | WebSearchCompleted call _ \<Rightarrow> removeAll call pending
    | TextDelta _ \<Rightarrow> pending
    | CommentaryDelta _ \<Rightarrow> pending
    | ReasoningDelta _ \<Rightarrow> pending
    | ToolCallReady _ \<Rightarrow> pending)"

definition tracker_interrupted :: "string list \<Rightarrow> string list \<times> model_event list" where
  "tracker_interrupted pending = ([], map (\<lambda>call. WebSearchCompleted call WsInterrupted) pending)"

text \<open>Specification: a search is open when it was started and no completion follows.\<close>

fun search_open :: "string \<Rightarrow> model_event list \<Rightarrow> bool" where
  "search_open call [] = False"
| "search_open call (e # es) = (search_open call es
     \<or> (e = WebSearchStarted call \<and> (\<forall>action. WebSearchCompleted call action \<notin> set es)))"

lemma search_open_snoc:
  "search_open call (es @ [e]) \<longleftrightarrow> e = WebSearchStarted call
     \<or> search_open call es \<and> (\<forall>action. e \<noteq> WebSearchCompleted call action)"
  by (induction es) auto

lemma set_tracker_observe:
  "set (tracker_observe p e) = {call. e = WebSearchStarted call
     \<or> call \<in> set p \<and> (\<forall>action. e \<noteq> WebSearchCompleted call action)}"
  by (cases e) (auto simp: tracker_observe_def set_insort_insert)

lemma tracker_observe_ok:
  "sorted p \<and> distinct p \<Longrightarrow> sorted (tracker_observe p e) \<and> distinct (tracker_observe p e)"
  by (cases e) (auto simp: tracker_observe_def sorted_insort_insert distinct_insort_insert
      distinct_removeAll removeAll_filter_not_eq sorted_filter [where f = id, simplified])

lemma tracker_fold_ok:
  "sorted (foldl tracker_observe [] es) \<and> distinct (foldl tracker_observe [] es)"
  by (induction es rule: rev_induct) (simp_all add: tracker_observe_ok)

lemma tracker_fold_open: "set (foldl tracker_observe [] es) = {call. search_open call es}"
  by (induction es rule: rev_induct) (auto simp: set_tracker_observe search_open_snoc)

lemma foldl_observe_completed:
  "foldl tracker_observe p (map (\<lambda>call. WebSearchCompleted call a) calls) = filter (\<lambda>c. c \<notin> set calls) p"
  by (induction calls arbitrary: p)
     (auto simp: tracker_observe_def removeAll_filter_not_eq intro!: filter_cong)

subsection \<open>Presentation of framework events\<close>

definition ellipsis :: string where "ellipsis = [CHR 0xE2, CHR 0x80, CHR 0xA6]"

fun web_search_text :: "web_search_action \<Rightarrow> string \<times> string \<times> frontend_tone" where
  "web_search_text (WsSearch queries) = (''Searched the web'', join [LF] queries, SuccessTone)"
| "web_search_text (WsOpenPage url) =
     (''Opened a web page'', (case url of Some u \<Rightarrow> u | None \<Rightarrow> []), SuccessTone)"
| "web_search_text (WsFindInPage url pattern) = (''Searched a web page'',
     (case (url, pattern) of
        (Some u, Some p) \<Rightarrow> p @ [LF] @ u
      | (Some u, None) \<Rightarrow> u
      | (None, Some p) \<Rightarrow> p
      | (None, None) \<Rightarrow> []), SuccessTone)"
| "web_search_text WsInterrupted = (''Web search interrupted'', [], WarningTone)"
| "web_search_text WsOther = (''Web search complete'', [], SuccessTone)"

definition notice :: "string \<Rightarrow> string \<Rightarrow> frontend_tone \<Rightarrow> frontend_block" where
  "notice title text tone = block_default\<lparr>fb_role := Notice, fb_title := title, fb_text := text, fb_tone := tone\<rparr>"

fun presentation :: "event_msg \<Rightarrow> rendered_block option" where
  "presentation (ErrorMsg e) = Some \<lparr>rb_capability = ''agent'', rb_block = notice ''Error'' (ee_message e) ErrorTone\<rparr>"
| "presentation (Warning text) = Some \<lparr>rb_capability = ''agent'', rb_block = notice ''Warning'' text WarningTone\<rparr>"
| "presentation (TurnAborted turn) = Some \<lparr>rb_capability = ''agent'',
     rb_block = (notice ''Turn aborted'' (ta_reason turn) WarningTone)\<lparr>fb_group := Some (ta_turn_id turn)\<rparr>\<rparr>"
| "presentation (ModelStepCompleted step) =
     (if se_outcome step = StepRetrying
      then Some \<lparr>rb_capability = ''agent'',
        rb_block = (notice (''Reconnecting'' @ ellipsis) [] WarningTone)
          \<lparr>fb_id := Some (se_model_step_id step @ ''/retry''), fb_group := Some (se_turn_id step)\<rparr>\<rparr>
      else None)"
| "presentation (WebSearchBegin s) = Some \<lparr>rb_capability = ''web_search'',
     rb_block = block_default\<lparr>fb_id := Some (wb_model_step_id s @ ''/'' @ wb_call_id s),
       fb_group := Some (wb_turn_id s), fb_state := BlockPending, fb_role := WebSearch,
       fb_title := ''Searching the web'', fb_symbol := Some SymSearch\<rparr>\<rparr>"
| "presentation (WebSearchEnd s) = (case web_search_text (we_action s) of (title, text, tone) \<Rightarrow>
     Some \<lparr>rb_capability = ''web_search'',
       rb_block = \<lparr>fb_id = Some (we_model_step_id s @ ''/'' @ we_call_id s),
         fb_group = Some (we_turn_id s), fb_update = Replace, fb_state = BlockComplete, fb_role = WebSearch,
         fb_title = title, fb_text = text, fb_symbol = Some SymSearch, fb_links = [], fb_files = [],
         fb_content = [], fb_format = PlainText, fb_tone = tone, fb_ui = []\<rparr>\<rparr>)"
| "presentation (Frontend (Render capability block)) = Some \<lparr>rb_capability = capability, rb_block = block\<rparr>"
| "presentation _ = None"

end
