(* ===== verification/Tool_Output.thy ===== *)
theory Tool_Output
  imports Events
begin

text \<open>
  Bounding what a tool returns to the model and to the interface (\<open>src/middleware/tools.rs\<close> with
  \<open>truncate_utf8\<close> of \<open>src/lib.rs\<close>): \<open>capped\<close> keeps the two ends of a text around a marker,
  \<open>cap_content\<close> shares one budget over the text parts of a result, \<open>compact_output\<close> makes the
  preview of a few lines.  Cuts are made at character boundaries of the UTF-8 bytes.
\<close>

subsection \<open>Character boundaries\<close>

definition is_continuation :: "char \<Rightarrow> bool" where
  "is_continuation c \<longleftrightarrow> 128 \<le> (of_char c :: nat) \<and> (of_char c :: nat) < 192"

definition is_char_boundary :: "string \<Rightarrow> nat \<Rightarrow> bool" where
  "is_char_boundary s i \<longleftrightarrow> i = 0 \<or> i = length s \<or> (i < length s \<and> \<not> is_continuation (s ! i))"

fun floor_boundary :: "string \<Rightarrow> nat \<Rightarrow> nat" where
  "floor_boundary s 0 = 0"
| "floor_boundary s (Suc i) = (if is_char_boundary s (Suc i) then Suc i else floor_boundary s i)"

definition floor_char_boundary :: "string \<Rightarrow> nat \<Rightarrow> nat" where
  "floor_char_boundary s i = (if length s \<le> i then length s else floor_boundary s i)"

function ceil_char_boundary :: "string \<Rightarrow> nat \<Rightarrow> nat" where
  "ceil_char_boundary s i = (if length s \<le> i then length s
     else if is_char_boundary s i then i else ceil_char_boundary s (Suc i))"
  by pat_completeness auto
termination by (relation "measure (\<lambda>(s, i). length s - i)") auto

declare ceil_char_boundary.simps [simp del]

definition truncate_utf8 :: "string \<Rightarrow> nat \<Rightarrow> string" where
  "truncate_utf8 value max_bytes = take (floor_char_boundary value max_bytes) value"

lemma floor_boundary_le: "floor_boundary s i \<le> i"
  by (induction i) (auto intro: le_SucI)

lemma floor_boundary_is: "is_char_boundary s (floor_boundary s i)"
  by (induction i) (auto simp: is_char_boundary_def)

lemma floor_char_boundary:
  "floor_char_boundary s i \<le> i" "floor_char_boundary s i \<le> length s"
  "is_char_boundary s (floor_char_boundary s i)"
  using floor_boundary_le [of s i] floor_boundary_is [of s i]
  by (auto simp: floor_char_boundary_def is_char_boundary_def)

lemma ceil_char_boundary:
  "i \<le> length s \<Longrightarrow> i \<le> ceil_char_boundary s i \<and> ceil_char_boundary s i \<le> length s
    \<and> is_char_boundary s (ceil_char_boundary s i)"
proof (induction s i rule: ceil_char_boundary.induct)
  case (1 s i)
  show ?case
  proof (cases "length s \<le> i")
    case True
    then have "ceil_char_boundary s i = length s" by (simp add: ceil_char_boundary.simps [of s i])
    with "1.prems" show ?thesis by (simp add: is_char_boundary_def)
  next
    case False
    with "1.IH" show ?thesis
      by (cases "is_char_boundary s i") (simp_all add: ceil_char_boundary.simps [of s i])
  qed
qed

lemma truncate_utf8_prefix: "prefix (truncate_utf8 s n) s"
  by (simp add: truncate_utf8_def take_is_prefix)

lemma length_truncate_utf8 [simp]: "length (truncate_utf8 s n) = floor_char_boundary s n"
  using floor_char_boundary(2) [of s n] by (simp add: truncate_utf8_def)

subsection \<open>Capped text\<close>

definition cap_marker :: "string \<Rightarrow> nat \<Rightarrow> string" where
  "cap_marker output omitted =
     ellipsis @ ''['' @ show_nat omitted @ '' of '' @ show_nat (length output) @ '' bytes truncated]'' @ ellipsis"

definition capped :: "string \<Rightarrow> nat \<Rightarrow> string" where
  "capped output limit =
     (if length output \<le> limit then output
      else (let widest = length (cap_marker output (length output)) in
        if limit < widest then truncate_utf8 output limit
        else (let budget = limit - widest;
                  left_budget = budget div 2;
                  right_budget = budget - left_budget;
                  left = truncate_utf8 output left_budget;
                  right_start = ceil_char_boundary output (length output - right_budget);
                  omitted = right_start - length left
              in left @ cap_marker output omitted @ drop right_start output)))"

definition cap_part :: "nat \<Rightarrow> content_part \<Rightarrow> content_part \<times> nat" where
  "cap_part remaining part = (case part of
      PText text \<Rightarrow> (let t = capped text remaining in (PText t, remaining - length t))
    | _ \<Rightarrow> (part, remaining))"

fun cap_parts :: "tool_content \<Rightarrow> nat \<Rightarrow> tool_content" where
  "cap_parts [] remaining = []"
| "cap_parts (part # parts) remaining =
     (case cap_part remaining part of (p, r) \<Rightarrow> p # cap_parts parts r)"

definition cap_content :: "tool_content \<Rightarrow> nat \<Rightarrow> tool_content" where
  "cap_content content output_limit = cap_parts content output_limit"

lemma length_show_nat_mono: "m \<le> n \<Longrightarrow> length (show_nat m) \<le> length (show_nat n)"
proof (induction n arbitrary: m rule: show_nat.induct)
  case (1 n)
  show ?case
  proof (cases "n < 10")
    case True
    with "1.prems" show ?thesis by (simp add: show_nat.simps [of n] show_nat.simps [of m])
  next
    case False
    then have "length (show_nat (m div 10)) \<le> length (show_nat (n div 10))"
      using "1.IH" "1.prems" by (simp add: div_le_mono)
    with False show ?thesis
      using show_nat.simps [of m] show_nat.simps [of n] by (cases "m < 10") (auto simp: Suc_le_eq)
  qed
qed

lemma length_cap_marker_mono: "m \<le> n \<Longrightarrow> length (cap_marker s m) \<le> length (cap_marker s n)"
  by (simp add: cap_marker_def length_show_nat_mono)

text \<open>The shape of a capped text: the whole, a prefix, or the two ends with the exact number of bytes left out.\<close>

lemma capped_cases:
  assumes "limit < length s"
  obtains (short) "limit < length (cap_marker s (length s))" "capped s limit = truncate_utf8 s limit"
  | (ends) l r where "prefix l s" "suffix r s" "length l + length r < length s"
      "length l + length r \<le> limit - length (cap_marker s (length s))"
      "length (cap_marker s (length s)) \<le> limit"
      "is_char_boundary s (length l)" "is_char_boundary s (length s - length r)"
      "capped s limit = l @ cap_marker s (length s - length l - length r) @ r"
proof (cases "limit < length (cap_marker s (length s))")
  case True
  with assms show thesis by (intro short) (simp_all add: capped_def Let_def)
next
  case False
  define b where "b = limit - length (cap_marker s (length s))"
  define lb where "lb = b div 2"
  define i where "i = ceil_char_boundary s (length s - (b - lb))"
  define l where "l = truncate_utf8 s lb"
  define r where "r = drop i s"
  have b: "b < length s" "lb \<le> b" using assms False by (simp_all add: b_def lb_def)
  have i: "length s - (b - lb) \<le> i" "i \<le> length s" "is_char_boundary s i"
    using ceil_char_boundary [of "length s - (b - lb)" s] by (simp_all add: i_def)
  have len: "length l \<le> lb" "length r = length s - i"
    using floor_char_boundary(1) [of s lb] by (simp_all add: l_def r_def)
  have eq: "length s - length l - length r = i - length l" using len(2) i(2) by linarith
  show thesis
  proof (intro ends [of l r])
    show "capped s limit = l @ cap_marker s (length s - length l - length r) @ r"
      unfolding eq unfolding r_def l_def i_def lb_def b_def using assms False
      by (simp add: capped_def Let_def add_ac)
    show "is_char_boundary s (length l)" using floor_char_boundary(3) [of s lb] by (simp add: l_def)
    show "is_char_boundary s (length s - length r)" using len(2) i(2,3) by simp
    show "length l + length r < length s" "length l + length r \<le> limit - length (cap_marker s (length s))"
      using len i(1) b by (simp_all add: b_def [symmetric])
    show "length (cap_marker s (length s)) \<le> limit" using False by simp
  qed (simp_all add: l_def r_def truncate_utf8_prefix suffix_drop)
qed

lemma capped_length: "length (capped s limit) \<le> limit"
proof (cases "limit < length s")
  case True
  then show ?thesis
  proof (cases rule: capped_cases)
    case short
    then show ?thesis by (simp add: floor_char_boundary(1))
  next
    case (ends l r)
    have "length (cap_marker s (length s - length l - length r)) \<le> length (cap_marker s (length s))"
      by (rule length_cap_marker_mono) simp
    with ends show ?thesis by simp
  qed
qed (simp add: capped_def)

lemma capped_id [simp]: "length s \<le> limit \<Longrightarrow> capped s limit = s"
  by (simp add: capped_def)

definition text_total :: "tool_content \<Rightarrow> nat" where
  "text_total parts = sum_list (map (\<lambda>p. case p of PText t \<Rightarrow> length t | _ \<Rightarrow> 0) parts)"

lemma cap_parts_total: "text_total (cap_parts parts n) \<le> n"
proof (induction parts arbitrary: n)
  case (Cons p ps)
  show ?case
  proof (cases p)
    case (PText t)
    from Cons.IH [of "n - length (capped t n)"] capped_length [of t n] PText show ?thesis
      by (simp add: text_total_def cap_part_def Let_def)
  qed (use Cons.IH [of n] in \<open>simp_all add: text_total_def cap_part_def\<close>)
qed (simp add: text_total_def)

lemma cap_parts_id: "text_total parts \<le> n \<Longrightarrow> cap_parts parts n = parts"
proof (induction parts arbitrary: n)
  case (Cons p ps)
  then show ?case by (cases p) (simp_all add: text_total_def cap_part_def Let_def)
qed simp

lemma tool_content_files_cap [simp]: "tool_content_files (cap_parts parts n) = tool_content_files parts"
  by (induction parts arbitrary: n)
    (auto simp: tool_content_files_def cap_part_def Let_def List.map_filter_def split: content_part.splits)

subsection \<open>The interface preview\<close>

definition MAX_TOOL_UI_BYTES :: nat where "MAX_TOOL_UI_BYTES = 512"
definition MAX_TOOL_UI_LINES :: nat where "MAX_TOOL_UI_LINES = 5"

definition compact_output :: "string \<Rightarrow> string" where
  "compact_output output =
     (let ls = lines output; total_lines = length ls in
      if length output \<le> MAX_TOOL_UI_BYTES \<and> total_lines \<le> MAX_TOOL_UI_LINES then output
      else (let kept_lines = (if MAX_TOOL_UI_LINES < total_lines then MAX_TOOL_UI_LINES - 1 else total_lines);
                line_budget = MAX_TOOL_UI_BYTES div max kept_lines 1;
                append = (\<lambda>l. capped l line_budget)
            in if total_lines \<le> MAX_TOOL_UI_LINES then join [LF] (map append ls)
               else (let head_lines = (MAX_TOOL_UI_LINES - 1) div 2;
                         note = ellipsis @ '' +'' @ show_nat (total_lines - (MAX_TOOL_UI_LINES - 1)) @ '' lines'';
                         tail = rev (take (MAX_TOOL_UI_LINES - 1 - head_lines) (rev ls))
                     in join [LF] (map append (take head_lines ls @ [note] @ tail)))))"

lemma split_inclusive_no_inner: "l \<in> set (split_inclusive c s) \<Longrightarrow> l \<noteq> [] \<and> c \<notin> set (butlast l)"
  by (induction s arbitrary: l) (fastforce split: list.splits if_splits)+

lemma set_strip_cr: "set (strip_cr l) \<subseteq> set l"
  by (auto simp: strip_cr_def dest: in_set_butlastD)

lemma lines_no_LF: "l \<in> set (lines s) \<Longrightarrow> LF \<notin> set l"
proof -
  assume "l \<in> set (lines s)"
  then obtain k where k: "k \<in> set (split_inclusive LF s)" "l = strip_line_ending k" by (auto simp: lines_def)
  from split_inclusive_no_inner [OF k(1)] have ne: "k \<noteq> []" and bl: "LF \<notin> set (butlast k)" by auto
  show "LF \<notin> set l"
  proof (cases "last k = LF")
    case True
    with ne k(2) bl set_strip_cr [of "butlast k"] show ?thesis by (auto simp: strip_line_ending_def)
  next
    case False
    then have "LF \<notin> set k" using bl append_butlast_last_id [OF ne] by (metis rotate1.simps(2) set_ConsD set_rotate1)
    with False k(2) ne show ?thesis by (simp add: strip_line_ending_def)
  qed
qed

lemma length_split_inclusive: "length (split_inclusive c s) \<le> Suc (count_list s c)"
proof (induction s)
  case (Cons x xs)
  then show ?case by (cases "split_inclusive c xs") auto
qed simp

lemma count_list_join:
  "\<forall>l \<in> set ls. LF \<notin> set l \<Longrightarrow> count_list (join [LF] ls) LF = length ls - 1"
  by (induction "[LF]" ls rule: join.induct) (auto simp: count_notin)

lemma length_lines_join:
  assumes "\<forall>l \<in> set ls. LF \<notin> set l"
  shows "length (lines (join [LF] ls)) \<le> length ls"
proof (cases ls)
  case (Cons a as)
  then show ?thesis
    using length_split_inclusive [of LF "join [LF] ls"] count_list_join [OF assms] by (simp add: lines_def)
qed simp

lemma length_join_le: "\<forall>l \<in> set ls. length l \<le> n \<Longrightarrow> length (join [c] ls) \<le> length ls * (n + 1)"
  by (induction "[c]" ls rule: join.induct) auto

lemma show_nat_no_LF: "LF \<notin> set (show_nat n)"
proof
  assume "LF \<in> set (show_nat n)"
  then obtain d where d: "d < 10" "LF = digit d" by (auto dest: show_nat_digits)
  then have "(of_char LF :: nat) = 48 + d" using of_char_digit by metis
  then show False by simp
qed

lemma capped_no_LF: "LF \<notin> set s \<Longrightarrow> LF \<notin> set (capped s n)"
proof (cases "n < length s")
  case True
  assume s: "LF \<notin> set s"
  from True show ?thesis
  proof (cases rule: capped_cases)
    case short
    with s truncate_utf8_prefix [of s n] show ?thesis by (auto dest: set_mono_prefix)
  next
    case (ends l r)
    have "LF \<notin> set (cap_marker s k)" for k
      by (simp add: cap_marker_def ellipsis_def show_nat_no_LF)
    moreover have "LF \<notin> set l" using s set_mono_prefix [OF ends(1)] by blast
    moreover have "LF \<notin> set r" using s set_mono_suffix [OF ends(2)] by blast
    ultimately show ?thesis using ends(8) by simp
  qed
qed simp

text \<open>Every preview that is not the text itself joins at most five capped lines.\<close>

lemma compact_output_shape:
  obtains (whole) "compact_output s = s" "length s \<le> 512" "length (lines s) \<le> 5"
  | (preview) ls n where "compact_output s = join [LF] (map (\<lambda>l. capped l n) ls)" "length ls \<le> 5"
      "\<forall>l \<in> set ls. LF \<notin> set l" "length ls * (n + 1) \<le> 645"
proof (cases "length s \<le> 512 \<and> length (lines s) \<le> 5")
  case True
  then show thesis
    by (intro whole) (simp_all add: compact_output_def Let_def MAX_TOOL_UI_BYTES_def MAX_TOOL_UI_LINES_def)
next
  case False
  show thesis
  proof (cases "length (lines s) \<le> 5")
    case True
    let ?k = "length (lines s)"
    have "compact_output s = join [LF] (map (\<lambda>l. capped l (512 div max ?k 1)) (lines s))"
      using False True by (simp add: compact_output_def Let_def MAX_TOOL_UI_BYTES_def MAX_TOOL_UI_LINES_def)
    moreover have "?k * (512 div max ?k 1 + 1) \<le> 645"
    proof -
      have "?k * (512 div max ?k 1) \<le> 512" by (cases "?k = 0") (auto simp: max_def)
      with True show ?thesis by (simp add: algebra_simps)
    qed
    ultimately show thesis using True lines_no_LF by (intro preview) auto
  next
    case long: False
    define nt where "nt = ellipsis @ '' +'' @ show_nat (length (lines s) - 4) @ '' lines''"
    define ls where "ls = take 2 (lines s) @ [nt] @ rev (take 2 (rev (lines s)))"
    have "compact_output s = join [LF] (map (\<lambda>l. capped l 128) ls)"
      using False long
      by (simp add: compact_output_def Let_def MAX_TOOL_UI_BYTES_def MAX_TOOL_UI_LINES_def ls_def nt_def)
    moreover have "length ls = 5" using long by (simp add: ls_def)
    moreover have "\<forall>l \<in> set ls. LF \<notin> set l"
      using lines_no_LF
      by (auto simp: ls_def nt_def ellipsis_def show_nat_no_LF dest!: in_set_takeD)
    ultimately show thesis by (intro preview) auto
  qed
qed

subsection \<open>Properties\<close>

text \<open>
  C35. Tool output is bounded and cut honestly.  The text a result gives to the model never exceeds the
  output limit in total, content within the limit and every file reference pass through unchanged, and a
  text that is cut between its two ends keeps a prefix and a suffix that both end at character
  boundaries, around a marker that states exactly how many bytes are missing.
\<close>

theorem cap_content_bounded:
  "text_total (cap_content content limit) \<le> limit
    \<and> (text_total content \<le> limit \<longrightarrow> cap_content content limit = content)
    \<and> tool_content_files (cap_content content limit) = tool_content_files content
    \<and> (limit < length s \<longrightarrow> length (cap_marker s (length s)) \<le> limit \<longrightarrow>
        (\<exists>l r. capped s limit = l @ cap_marker s (length s - length l - length r) @ r \<and> prefix l s \<and> suffix r s
          \<and> length l + length r < length s
          \<and> is_char_boundary s (length l) \<and> is_char_boundary s (length s - length r)))"
proof (intro conjI impI)
  assume "limit < length s" and fits: "length (cap_marker s (length s)) \<le> limit"
  then show "\<exists>l r. capped s limit = l @ cap_marker s (length s - length l - length r) @ r \<and> prefix l s \<and> suffix r s
      \<and> length l + length r < length s
      \<and> is_char_boundary s (length l) \<and> is_char_boundary s (length s - length r)"
  proof (cases rule: capped_cases)
    case short
    with fits show ?thesis by simp
  qed blast
qed (simp_all add: cap_content_def cap_parts_total cap_parts_id)

theorem cap_content_bounded_witness:
  "text_total (cap_content [PText ''abc'', PText ''de''] 4) \<le> 4
    \<and> (\<exists>l r. capped (replicate 60 CHR ''x'') 50 = l @ cap_marker (replicate 60 CHR ''x'') (60 - length l - length r) @ r
        \<and> length l + length r < 60)"
proof -
  have "length (cap_marker (replicate 60 CHR ''x'') (length (replicate 60 CHR ''x''))) \<le> 50" by code_simp
  then show ?thesis
    using cap_content_bounded [of "[PText ''abc'', PText ''de'']" 4 "''a''"]
      cap_content_bounded [of "[]" 50 "replicate 60 CHR ''x''"]
    unfolding length_replicate by (elim conjE) auto
qed

text \<open>The preview of a tool's output in the interface has at most five lines and at most 645 bytes.\<close>

lemma compact_output_bounded:
  "length (lines (compact_output s)) \<le> 5 \<and> length (compact_output s) \<le> 645"
proof (cases s rule: compact_output_shape)
  case whole
  then show ?thesis by simp
next
  case (preview ls n)
  have "length (join [LF] (map (\<lambda>l. capped l n) ls)) \<le> length (map (\<lambda>l. capped l n) ls) * (n + 1)"
    by (rule length_join_le) (simp add: capped_length)
  moreover have "length (lines (join [LF] (map (\<lambda>l. capped l n) ls))) \<le> length (map (\<lambda>l. capped l n) ls)"
    by (rule length_lines_join) (simp add: preview(3) capped_no_LF)
  ultimately show ?thesis using preview by simp
qed

end
