(* ===== verification/Arguments.thy ===== *)
theory Arguments
  imports Json
begin

text \<open>
  Tool arguments read against the tool's schema before a handler sees them
  (\<open>src/middleware/tools/arguments.rs\<close>).  \<open>walk\<close> returns the argument value it leaves in place,
  also when it fails.  The JSON reader of \<open>serde_json\<close> (values and numbers) is the parameter \<open>rd\<close>.
  The reference predicate \<open>conforms\<close> says what it is for a value to have the types its schema
  names; the properties relate the repairing walk to it.
\<close>

record json_reader =
  jd_value :: "string \<Rightarrow> json option"
  jd_number :: "string \<Rightarrow> number option"

subsection \<open>Integer syntax of the standard library\<close>

definition digit_value :: "char \<Rightarrow> nat option" where
  "digit_value c = (if 48 \<le> (of_char c :: nat) \<and> (of_char c :: nat) \<le> 57 then Some (of_char c - 48) else None)"

fun parse_digits :: "nat \<Rightarrow> string \<Rightarrow> nat option" where
  "parse_digits n [] = Some n"
| "parse_digits n (c # cs) = (case digit_value c of None \<Rightarrow> None | Some d \<Rightarrow> parse_digits (10 * n + d) cs)"

definition parse_magnitude :: "string \<Rightarrow> nat option" where
  "parse_magnitude s = (if s = [] then None else parse_digits 0 s)"

definition parse_u64 :: "string \<Rightarrow> nat option" where
  "parse_u64 s = (case parse_magnitude (case s of CHR ''+'' # r \<Rightarrow> r | _ \<Rightarrow> s) of
      Some n \<Rightarrow> if n \<le> u64_max then Some n else None
    | None \<Rightarrow> None)"

definition parse_i64 :: "string \<Rightarrow> int option" where
  "parse_i64 s =
     (case (case s of
          CHR ''-'' # r \<Rightarrow> map_option (\<lambda>n. - int n) (parse_magnitude r)
        | CHR ''+'' # r \<Rightarrow> map_option int (parse_magnitude r)
        | _ \<Rightarrow> map_option int (parse_magnitude s)) of
        Some i \<Rightarrow> if is_i64 i then Some i else None
      | None \<Rightarrow> None)"

definition number_of_int :: "int \<Rightarrow> number" where
  "number_of_int i = (if 0 \<le> i then PosInt (nat i) else NegInt i)"

subsection \<open>Types and repairs\<close>

fun is_array :: "json \<Rightarrow> bool" where
  "is_array (JArray _) = True" | "is_array _ = False"

fun is_object :: "json \<Rightarrow> bool" where
  "is_object (JObject _) = True" | "is_object _ = False"

definition type_names :: "json \<Rightarrow> string list" where
  "type_names schema = (case json_get ''type'' schema of
      Some (JString kind) \<Rightarrow> [kind]
    | Some (JArray kinds) \<Rightarrow> List.map_filter as_str kinds
    | _ \<Rightarrow> [])"

definition matches :: "json \<Rightarrow> string \<Rightarrow> bool" where
  "matches v kind =
     (if kind = ''array'' then is_array v
      else if kind = ''object'' then is_object v
      else if kind = ''string'' then (case v of JString _ \<Rightarrow> True | _ \<Rightarrow> False)
      else if kind = ''boolean'' then (case v of JBool _ \<Rightarrow> True | _ \<Rightarrow> False)
      else if kind = ''null'' then v = JNull
      else if kind = ''integer'' then (case v of JNumber (PosInt _) \<Rightarrow> True | JNumber (NegInt _) \<Rightarrow> True | _ \<Rightarrow> False)
      else if kind = ''number'' then (case v of JNumber _ \<Rightarrow> True | _ \<Rightarrow> False)
      else True)"

definition unwrap_item :: "(string \<times> json) list \<Rightarrow> json option" where
  "unwrap_item fs =
     (if length fs \<noteq> 1 then None
      else map_option (\<lambda>item. case item of JArray _ \<Rightarrow> item | _ \<Rightarrow> JArray [item]) (map_of fs ''item''))"

definition read_bool :: "string \<Rightarrow> json option" where
  "read_bool text = (if text = ''true'' then Some (JBool True) else if text = ''false'' then Some (JBool False) else None)"

definition read_integer :: "string \<Rightarrow> json option" where
  "read_integer text = (case parse_i64 text of
      Some i \<Rightarrow> Some (JNumber (number_of_int i))
    | None \<Rightarrow> map_option (\<lambda>n. JNumber (PosInt n)) (parse_u64 text))"

definition repair :: "json_reader \<Rightarrow> json \<Rightarrow> string \<Rightarrow> json option" where
  "repair rd v kind = (case v of
      JObject fs \<Rightarrow> if kind = ''array'' then unwrap_item fs else None
    | JString text \<Rightarrow>
        (if kind = ''array'' \<or> kind = ''object''
         then (case jd_value rd (trim text) of
                 Some parsed \<Rightarrow> if matches parsed kind then Some parsed else None
               | None \<Rightarrow> None)
         else if kind = ''integer'' then read_integer (trim text)
         else if kind = ''number'' then map_option JNumber (jd_number rd (trim text))
         else if kind = ''boolean'' then read_bool (trim text)
         else None)
    | _ \<Rightarrow> None)"

fun find_map :: "('a \<Rightarrow> 'b option) \<Rightarrow> 'a list \<Rightarrow> 'b option" where
  "find_map f [] = None"
| "find_map f (x # xs) = (case f x of Some y \<Rightarrow> Some y | None \<Rightarrow> find_map f xs)"

lemma find_map_SomeD: "find_map f xs = Some y \<Longrightarrow> \<exists>x \<in> set xs. f x = Some y"
  by (induction xs) (auto split: option.splits)

subsection \<open>Messages\<close>

definition article :: "string \<Rightarrow> string" where
  "article kind =
     (if kind = ''array'' then ''an array'' else if kind = ''object'' then ''an object''
      else if kind = ''string'' then ''a string'' else if kind = ''boolean'' then ''a boolean''
      else if kind = ''integer'' then ''an integer'' else if kind = ''number'' then ''a number''
      else if kind = ''null'' then ''null'' else ''a value'')"

definition expected_types :: "string list \<Rightarrow> string" where
  "expected_types kinds = join '' or '' (map article kinds)"

fun kind_of :: "json \<Rightarrow> string" where
  "kind_of JNull = ''null''"
| "kind_of (JBool _) = ''a boolean''"
| "kind_of (JNumber _) = ''a number''"
| "kind_of (JString _) = ''a string''"
| "kind_of (JArray _) = ''an array''"
| "kind_of (JObject _) = ''an object''"

definition mismatch :: "string \<Rightarrow> string list \<Rightarrow> json \<Rightarrow> string" where
  "mismatch path kinds v =
     ''`'' @ (if path = [] then ''arguments'' else path) @ ''`: expected '' @ expected_types kinds @ '', got '' @ kind_of v"

subsection \<open>Unions\<close>

text \<open>The closure \<open>names\<close>: whether the branch's \<open>type\<close> property names this tag, if it says anything.\<close>

definition branch_names :: "string option \<Rightarrow> json \<Rightarrow> bool option" where
  "branch_names tag branch =
     Option.bind (json_get ''properties'' branch) (\<lambda>ps.
     Option.bind (json_get ''type'' ps) (\<lambda>tag_schema.
       case get_str ''const'' tag_schema of
         Some name \<Rightarrow> Some (tag = Some name)
       | None \<Rightarrow> map_option (list_ex (\<lambda>name. as_str name = tag)) (get_array ''enum'' tag_schema)))"

definition has_type :: "json \<Rightarrow> json \<Rightarrow> bool" where
  "has_type v schema = list_ex (matches v) (type_names schema)"

definition union_branches :: "json \<Rightarrow> json list option" where
  "union_branches schema =
     Option.bind (case json_get ''anyOf'' schema of Some b \<Rightarrow> Some b | None \<Rightarrow> json_get ''oneOf'' schema) as_array"

definition branch :: "json \<Rightarrow> json \<Rightarrow> json" where
  "branch v schema = (case union_branches schema of
      None \<Rightarrow> schema
    | Some branches \<Rightarrow> (case find (\<lambda>b. branch_names (get_str ''type'' v) b = Some True) branches of
          Some b \<Rightarrow> b
        | None \<Rightarrow> (case filter (has_type v) branches of
              [b] \<Rightarrow> b
            | _ \<Rightarrow> schema)))"

lemma json_get_size:
  assumes "json_get k s = Some x"
  shows "size x < size s"
proof (cases s)
  case (JObject fs)
  with assms have "(k, x) \<in> set fs" by (auto dest: map_of_SomeD)
  then have "size x \<le> size_list (size_prod (\<lambda>_. 0) size) fs"
    by (rule size_list_estimation') simp
  with JObject show ?thesis by simp
qed (use assms in auto)

lemma array_element_size: "x \<in> set xs \<Longrightarrow> size x < size (JArray xs)"
  using size_list_estimation' [of x xs "size x" size] by simp

lemma branch_size: "size (branch v schema) \<le> size schema"
proof (cases "union_branches schema")
  case (Some branches)
  have small: "size b \<le> size schema" if "b \<in> set branches" for b
  proof -
    from Some obtain k where "json_get k schema = Some (JArray branches)"
      by (auto simp: union_branches_def bind_eq_Some_conv split: option.splits)
    with array_element_size [OF that] json_get_size show ?thesis by fastforce
  qed
  have "branch v schema \<in> set branches \<union> {schema}"
    using Some by (auto simp: branch_def find_Some_iff dest!: arg_cong [of _ _ set] split: option.splits list.splits)
  with small show ?thesis by auto
qed (simp add: branch_def)

subsection \<open>The walk\<close>

text \<open>The type step at one value: kept, repaired, or refused.\<close>

definition retype :: "json_reader \<Rightarrow> json \<Rightarrow> string list \<Rightarrow> (json \<times> bool) option" where
  "retype rd v kinds =
     (if kinds \<noteq> [] \<and> \<not> list_ex (matches v) kinds
      then map_option (\<lambda>w. (w, True)) (find_map (repair rd v) kinds)
      else Some (v, False))"

definition merge_changed :: "bool \<Rightarrow> string + bool \<Rightarrow> string + bool" where
  "merge_changed c r = res_bind r (\<lambda>d. Inr (c \<or> d))"

definition field_path :: "string \<Rightarrow> string \<Rightarrow> string" where
  "field_path path name = path @ (if path = [] then [] else ''.'') @ name"

function (sequential) walk :: "json_reader \<Rightarrow> json \<Rightarrow> json \<Rightarrow> string \<Rightarrow> json \<times> (string + bool)"
  and walk_items :: "json_reader \<Rightarrow> json \<Rightarrow> string \<Rightarrow> nat \<Rightarrow> json list \<Rightarrow> json list \<times> (string + bool)"
  and walk_fields :: "json_reader \<Rightarrow> (string \<times> json) list \<Rightarrow> string \<Rightarrow> (string \<times> json) list
      \<Rightarrow> (string \<times> json) list \<times> (string + bool)" where
  "walk rd v schema path =
     (case retype rd v (type_names (branch v schema)) of
        None \<Rightarrow> (v, Inl (mismatch path (type_names (branch v schema)) v))
      | Some (w, changed) \<Rightarrow> (case w of
            JArray items \<Rightarrow> (case json_get ''items'' (branch v schema) of
                None \<Rightarrow> (w, Inr changed)
              | Some item_schema \<Rightarrow> (case walk_items rd item_schema path 0 items of
                    (items', r) \<Rightarrow> (JArray items', merge_changed changed r)))
          | JObject fs \<Rightarrow> (case json_get ''properties'' (branch v schema) of
                Some (JObject ps) \<Rightarrow> (case walk_fields rd ps path fs of
                    (fs', r) \<Rightarrow> (JObject fs', merge_changed changed r))
              | _ \<Rightarrow> (w, Inr changed))
          | _ \<Rightarrow> (w, Inr changed)))"
| "walk_items rd item_schema path index [] = ([], Inr False)"
| "walk_items rd item_schema path index (x # xs) =
     (case walk rd x item_schema (path @ ''['' @ show_nat index @ '']'') of
        (x', Inl e) \<Rightarrow> (x' # xs, Inl e)
      | (x', Inr c) \<Rightarrow> (case walk_items rd item_schema path (Suc index) xs of
            (xs', r) \<Rightarrow> (x' # xs', merge_changed c r)))"
| "walk_fields rd ps path [] = ([], Inr False)"
| "walk_fields rd ps path ((name, x) # xs) = (case map_of ps name of
      None \<Rightarrow> (case walk_fields rd ps path xs of (xs', r) \<Rightarrow> ((name, x) # xs', r))
    | Some field_schema \<Rightarrow> (case walk rd x field_schema (field_path path name) of
          (x', Inl e) \<Rightarrow> ((name, x') # xs, Inl e)
        | (x', Inr c) \<Rightarrow> (case walk_fields rd ps path xs of
              (xs', r) \<Rightarrow> ((name, x') # xs', merge_changed c r))))"
  by pat_completeness auto
termination
proof (relation "measures [\<lambda>x. case x of
      Inl (_, _, schema, _) \<Rightarrow> size schema
    | Inr (Inl (_, schema, _, _, _)) \<Rightarrow> size schema
    | Inr (Inr (_, ps, _, _)) \<Rightarrow> size (JObject ps),
    \<lambda>x. case x of Inl _ \<Rightarrow> 0 | Inr (Inl (_, _, _, _, xs)) \<Rightarrow> Suc (length xs) | Inr (Inr (_, _, _, xs)) \<Rightarrow> Suc (length xs)]",
    goal_cases)
  case (2 rd v schema path x2 w changed items a)
  then show ?case using json_get_size [of "''items''" "branch v schema" a] branch_size [of v schema] by auto
next
  case (3 rd v schema path x2 w changed fs a ps)
  then show ?case using json_get_size [of "''properties''" "branch v schema" a] branch_size [of v schema] by auto
next
  case (7 rd ps path name x xs a)
  then show ?case using json_get_size [of name "JObject ps" a] by simp
qed auto

declare walk.simps [simp del]

definition normalize :: "json_reader \<Rightarrow> json \<Rightarrow> json \<Rightarrow> json \<times> (string + bool)" where
  "normalize rd v schema = walk rd v schema []"

subsection \<open>Reference: values of the types the schema names\<close>

function conforms :: "json \<Rightarrow> json \<Rightarrow> bool" where
  "conforms v schema =
     ((type_names (branch v schema) = [] \<or> has_type v (branch v schema))
      \<and> (case v of
           JArray items \<Rightarrow> (case json_get ''items'' (branch v schema) of
               None \<Rightarrow> True
             | Some item_schema \<Rightarrow> list_all (\<lambda>x. conforms x item_schema) items)
         | JObject fs \<Rightarrow> (case json_get ''properties'' (branch v schema) of
               Some (JObject ps) \<Rightarrow> list_all (\<lambda>(name, x). case map_of ps name of
                   None \<Rightarrow> True | Some field_schema \<Rightarrow> conforms x field_schema) fs
             | _ \<Rightarrow> True)
         | _ \<Rightarrow> True))"
  by pat_completeness auto
termination
proof (relation "measure (\<lambda>(_, schema). size schema)", goal_cases)
  case (2 v schema items a x)
  then show ?case using json_get_size [of "''items''" "branch v schema" a] branch_size [of v schema] by auto
next
  case (3 v schema fs a ps x name y b)
  then show ?case
    using json_get_size [of "''properties''" "branch v schema" a] json_get_size [of name "JObject ps" b]
      branch_size [of v schema] by auto
qed auto

declare conforms.simps [simp del]

text \<open>Schemas without unions, where every value of the schema is read against the schema itself.\<close>

function union_free :: "json \<Rightarrow> bool" where
  "union_free schema =
     (union_branches schema = None
      \<and> (case json_get ''items'' schema of None \<Rightarrow> True | Some s \<Rightarrow> union_free s)
      \<and> (case json_get ''properties'' schema of
           Some (JObject ps) \<Rightarrow> list_all (\<lambda>(_, s). union_free s) ps
         | _ \<Rightarrow> True))"
  by pat_completeness auto
termination
proof (relation "measure size", goal_cases)
  case (3 schema a ps z x s)
  then have "size s \<le> size_list (size_prod (\<lambda>_. 0) size) ps"
    by (intro size_list_estimation' [of "(x, s)"]) auto
  with 3 show ?case using json_get_size [of "''properties''" schema a] by simp
qed (auto dest: json_get_size)

declare union_free.simps [simp del]

lemma unwrap_item_array: "unwrap_item fs = Some w \<Longrightarrow> is_array w"
  by (auto simp: unwrap_item_def split: if_splits json.split)

lemma repair_matches:
  assumes "repair rd v kind = Some w"
  shows "matches w kind" and "\<not> matches v kind"
proof -
  show "matches w kind"
    using assms
    by (auto simp: repair_def read_integer_def read_bool_def number_of_int_def matches_def
        dest: unwrap_item_array split: json.splits if_splits option.splits)
  show "\<not> matches v kind"
    using assms by (auto simp: repair_def matches_def split: json.splits if_splits)
qed

lemma retype_SomeD:
  assumes "retype rd v kinds = Some (w, c)"
  shows "kinds = [] \<or> list_ex (matches w) kinds" and "c \<longleftrightarrow> w \<noteq> v"
proof -
  show "kinds = [] \<or> list_ex (matches w) kinds"
    using assms by (auto simp: retype_def list_ex_iff dest!: find_map_SomeD repair_matches(1) split: if_splits)
  show "c \<longleftrightarrow> w \<noteq> v"
    using assms by (auto simp: retype_def list_ex_iff dest!: find_map_SomeD dest: repair_matches split: if_splits)
qed

lemma matches_shape:
  "matches (JArray xs) kind = matches (JArray ys) kind" "matches (JObject fs) kind = matches (JObject gs) kind"
  by (simp_all add: matches_def)

lemma retype_shape:
  "retype rd (JArray xs) kinds = Some (JArray ys, c) \<Longrightarrow> \<not> c"
  "retype rd (JObject fs) kinds = Some (JObject gs, c) \<Longrightarrow> \<not> c"
  by (auto simp: retype_def list_ex_iff dest!: find_map_SomeD split: if_splits)
    (metis matches_shape repair_matches)+

lemma retype_kept: "retype rd v kinds = Some (w, False) \<longleftrightarrow> w = v \<and> (kinds = [] \<or> list_ex (matches v) kinds)"
  by (auto simp: retype_def)

lemma merge_changed_Inr [simp]: "merge_changed c r = Inr b \<longleftrightarrow> (\<exists>d. r = Inr d \<and> b = (c \<or> d))"
  by (auto simp: merge_changed_def res_bind_Inr_iff)

lemma merge_changed_Inl [simp]: "merge_changed c r = Inl e \<longleftrightarrow> r = Inl e"
  by (auto simp: merge_changed_def res_bind_Inl_iff)

text \<open>The steps of a walk at one value, by the shape of the value it descends into.\<close>

lemma walk_kept:
  assumes "retype rd v (type_names (branch v schema)) = Some (w, c)"
  shows "walk rd v schema path = (case w of
      JArray items \<Rightarrow> (case json_get ''items'' (branch v schema) of
          None \<Rightarrow> (w, Inr c)
        | Some s \<Rightarrow> map_prod JArray (merge_changed c) (walk_items rd s path 0 items))
    | JObject fs \<Rightarrow> (case json_get ''properties'' (branch v schema) of
          Some (JObject ps) \<Rightarrow> map_prod JObject (merge_changed c) (walk_fields rd ps path fs)
        | _ \<Rightarrow> (w, Inr c))
    | _ \<Rightarrow> (w, Inr c))"
  using assms by (simp add: walk.simps [of rd v] map_prod_def cong: json.case_cong option.case_cong)

lemma walk_flag:
  "walk rd v schema path = (v', Inr c) \<Longrightarrow> c \<longleftrightarrow> v' \<noteq> v"
  "walk_items rd s path i xs = (xs', Inr d) \<Longrightarrow> d \<longleftrightarrow> xs' \<noteq> xs"
  "walk_fields rd ps path fs = (fs', Inr e) \<Longrightarrow> e \<longleftrightarrow> fs' \<noteq> fs"
proof (induction rd v schema path and rd s path i xs and rd ps path fs arbitrary: v' c and xs' d and fs' e
    rule: walk_walk_items_walk_fields.induct)
  case (1 rd v schema path)
  obtain w ch where rt: "retype rd v (type_names (branch v schema)) = Some (w, ch)"
    using "1.prems" by (auto simp: walk.simps [of rd v] split: option.splits)
  note flag = retype_SomeD(2) [OF rt]
  show ?case
  proof (cases w)
    case (JArray items)
    show ?thesis
      using "1.prems" flag "1.IH"(1) [OF rt refl JArray] rt unfolding walk_kept [OF rt] JArray
      by (auto simp: map_prod_def dest: retype_shape split: option.splits prod.splits)
  next
    case (JObject fs)
    show ?thesis
      using "1.prems" flag "1.IH"(2) [OF rt refl JObject] rt unfolding walk_kept [OF rt] JObject
      by (auto simp: map_prod_def dest: retype_shape split: option.splits json.splits prod.splits)
  qed (use "1.prems" flag in \<open>auto simp: walk_kept [OF rt]\<close>)
qed (fastforce split: prod.splits sum.splits option.splits)+

lemma walk_unchanged:
  "snd (walk rd v schema path) = Inr False \<longleftrightarrow> conforms v schema"
  "snd (walk_items rd s path i xs) = Inr False \<longleftrightarrow> list_all (\<lambda>x. conforms x s) xs"
  "snd (walk_fields rd ps path fs) = Inr False \<longleftrightarrow>
     list_all (\<lambda>(name, x). case map_of ps name of None \<Rightarrow> True | Some t \<Rightarrow> conforms x t) fs"
proof (induction rd v schema path and rd s path i xs and rd ps path fs
    rule: walk_walk_items_walk_fields.induct)
  case (1 rd v schema path)
  show ?case
  proof (cases "type_names (branch v schema) = [] \<or> has_type v (branch v schema)")
    case True
    then have rt: "retype rd v (type_names (branch v schema)) = Some (v, False)"
      by (auto simp: retype_kept has_type_def)
    show ?thesis
    proof (cases v)
      case (JArray items)
      show ?thesis
        unfolding walk_kept [OF rt] conforms.simps [of v]
        using True "1.IH"(1) [OF rt refl JArray] by (auto simp: JArray split: option.splits)
    next
      case (JObject fs)
      show ?thesis
        unfolding walk_kept [OF rt] conforms.simps [of v]
        using True "1.IH"(2) [OF rt refl JObject] by (auto simp: JObject split: option.splits json.splits)
    qed (unfold walk_kept [OF rt] conforms.simps [of v], use True in auto)
  next
    case False
    show ?thesis
    proof (cases "walk rd v schema path")
      case (Pair v' r)
      with False have "r \<noteq> Inr False"
        by (auto simp: walk.simps [of rd v] retype_def has_type_def split: option.splits json.splits prod.splits)
      with Pair False show ?thesis by (simp add: conforms.simps [of v])
    qed
  qed
qed (fastforce split: prod.splits sum.splits option.splits)+

lemma branch_union_free: "union_free schema \<Longrightarrow> branch v schema = schema"
  by (simp add: branch_def union_free.simps [of schema])

lemma union_free_items: "union_free schema \<Longrightarrow> json_get ''items'' schema = Some s \<Longrightarrow> union_free s"
  by (subst (asm) union_free.simps) simp

lemma union_free_property:
  assumes "union_free schema" "json_get ''properties'' schema = Some (JObject ps)" "map_of ps name = Some s"
  shows "union_free s"
  using assms by (subst (asm) union_free.simps) (auto simp: list_all_iff dest!: map_of_SomeD)

lemma conforms_union_free:
  assumes "union_free schema"
  shows "conforms v schema \<longleftrightarrow>
     (type_names schema = [] \<or> has_type v schema)
      \<and> (case v of
           JArray items \<Rightarrow> (case json_get ''items'' schema of
               None \<Rightarrow> True | Some s \<Rightarrow> list_all (\<lambda>x. conforms x s) items)
         | JObject fs \<Rightarrow> (case json_get ''properties'' schema of
               Some (JObject ps) \<Rightarrow> list_all (\<lambda>(name, x). case map_of ps name of
                   None \<Rightarrow> True | Some s \<Rightarrow> conforms x s) fs
             | _ \<Rightarrow> True)
         | _ \<Rightarrow> True)"
  unfolding conforms.simps [of v] branch_union_free [OF assms] ..

lemma has_type_shape:
  "has_type (JArray xs) s = has_type (JArray ys) s" "has_type (JObject fs) s = has_type (JObject gs) s"
  by (simp_all add: has_type_def list_ex_iff matches_def)

lemma conforms_arrayI:
  assumes "union_free schema" "type_names schema = [] \<or> has_type (JArray items) schema"
    and "\<And>s. json_get ''items'' schema = Some s \<Longrightarrow> list_all (\<lambda>x. conforms x s) xs"
  shows "conforms (JArray xs) schema"
  using assms(2,3) unfolding conforms_union_free [OF assms(1)] has_type_shape(1) [of items _ xs]
  by (auto split: option.splits)

lemma conforms_objectI:
  assumes "union_free schema" "type_names schema = [] \<or> has_type (JObject gs) schema"
    and "\<And>ps. json_get ''properties'' schema = Some (JObject ps) \<Longrightarrow>
      list_all (\<lambda>(name, x). case map_of ps name of None \<Rightarrow> True | Some s \<Rightarrow> conforms x s) fs"
  shows "conforms (JObject fs) schema"
  using assms(2,3) unfolding conforms_union_free [OF assms(1)] has_type_shape(2) [of gs _ fs]
  by (auto split: option.splits json.splits)

lemma walk_conforms:
  "walk rd v schema path = (v', Inr c) \<Longrightarrow> union_free schema \<Longrightarrow> conforms v' schema"
  "walk_items rd s path i xs = (xs', Inr d) \<Longrightarrow> union_free s \<Longrightarrow> list_all (\<lambda>x. conforms x s) xs'"
  "walk_fields rd ps path fs = (fs', Inr e) \<Longrightarrow> (\<forall>name s. map_of ps name = Some s \<longrightarrow> union_free s) \<Longrightarrow>
     list_all (\<lambda>(name, x). case map_of ps name of None \<Rightarrow> True | Some t \<Rightarrow> conforms x t) fs'"
proof (induction rd v schema path and rd s path i xs and rd ps path fs arbitrary: v' c and xs' d and fs' e
    rule: walk_walk_items_walk_fields.induct)
  case (1 rd v schema path)
  note free = branch_union_free [OF "1.prems"(2)]
  obtain w ch where rt: "retype rd v (type_names (branch v schema)) = Some (w, ch)"
    using "1.prems" by (auto simp: walk.simps [of rd v] split: option.splits)
  then have ty: "type_names schema = [] \<or> has_type w schema"
    using retype_SomeD(1) [OF rt] by (simp add: free has_type_def)
  show ?case
  proof (cases w)
    case (JArray items)
    with "1.prems"(1) obtain xs where v': "v' = JArray xs"
      by (auto simp: walk_kept [OF rt] free map_prod_def split: option.splits prod.splits)
    show ?thesis
      unfolding v'
    proof (rule conforms_arrayI [OF "1.prems"(2) ty [unfolded JArray]])
      fix s assume s: "json_get ''items'' schema = Some s"
      then have "snd (map_prod JArray (merge_changed ch) (walk_items rd s path 0 items)) = Inr c"
        and "fst (map_prod JArray (merge_changed ch) (walk_items rd s path 0 items)) = JArray xs"
        using "1.prems"(1) by (simp_all add: walk_kept [OF rt] free JArray v')
      then obtain d where "walk_items rd s path 0 items = (xs, Inr d)"
        by (cases "walk_items rd s path 0 items") auto
      then show "list_all (\<lambda>x. conforms x s) xs"
        using "1.IH"(1) [OF rt refl JArray, unfolded free, OF s] union_free_items [OF "1.prems"(2) s] by simp
    qed
  next
    case (JObject fs)
    with "1.prems"(1) obtain gs where v': "v' = JObject gs"
      by (auto simp: walk_kept [OF rt] free map_prod_def split: option.splits json.splits prod.splits)
    show ?thesis
      unfolding v'
    proof (rule conforms_objectI [OF "1.prems"(2) ty [unfolded JObject]])
      fix ps assume ps: "json_get ''properties'' schema = Some (JObject ps)"
      then have "snd (map_prod JObject (merge_changed ch) (walk_fields rd ps path fs)) = Inr c"
        and "fst (map_prod JObject (merge_changed ch) (walk_fields rd ps path fs)) = JObject gs"
        using "1.prems"(1) by (simp_all add: walk_kept [OF rt] free JObject v')
      then obtain d where "walk_fields rd ps path fs = (gs, Inr d)"
        by (cases "walk_fields rd ps path fs") auto
      then show "list_all (\<lambda>(name, x). case map_of ps name of None \<Rightarrow> True | Some s \<Rightarrow> conforms x s) gs"
        using "1.IH"(2) [OF rt refl JObject, unfolded free, OF ps refl] union_free_property [OF "1.prems"(2) ps] by blast
    qed
  qed (unfold conforms_union_free [OF "1.prems"(2)], use "1.prems" ty in \<open>auto simp: walk_kept [OF rt]\<close>)
qed (fastforce split: prod.splits sum.splits option.splits)+

text \<open>A refusal names a place and lists types the value found there does not have.\<close>

definition refusal :: "string \<Rightarrow> string \<Rightarrow> bool" where
  "refusal path e \<longleftrightarrow> (\<exists>place kinds v. e = mismatch (path @ place) kinds v \<and> kinds \<noteq> [] \<and> \<not> list_ex (matches v) kinds)"

lemma refusal_below: "refusal (path @ p) e \<Longrightarrow> refusal path e"
  unfolding refusal_def by (metis append_assoc)

lemma walk_refuses:
  "walk rd v schema path = (v', Inl e) \<Longrightarrow> refusal path e"
  "walk_items rd s path i xs = (xs', Inl e) \<Longrightarrow> refusal path e"
  "walk_fields rd ps path fs = (fs', Inl e) \<Longrightarrow> refusal path e"
proof (induction rd v schema path and rd s path i xs and rd ps path fs arbitrary: v' e and xs' e and fs' e
    rule: walk_walk_items_walk_fields.induct)
  case (1 rd v schema path)
  show ?case
  proof (cases "retype rd v (type_names (branch v schema))")
    case None
    then have "type_names (branch v schema) \<noteq> [] \<and> \<not> list_ex (matches v) (type_names (branch v schema))"
      by (auto simp: retype_def split: if_splits)
    moreover have "e = mismatch (path @ []) (type_names (branch v schema)) v"
      using None "1.prems" unfolding walk.simps [of rd v] by auto
    ultimately show ?thesis unfolding refusal_def by blast
  next
    case (Some x)
    obtain w ch where rt: "retype rd v (type_names (branch v schema)) = Some (w, ch)" using Some by (cases x) simp
    show ?thesis
    proof (cases w)
      case (JArray items)
      show ?thesis
        using "1.prems" "1.IH"(1) [OF rt refl JArray] unfolding walk_kept [OF rt] JArray
        by (auto simp: map_prod_def split: option.splits prod.splits)
    next
      case (JObject fs)
      show ?thesis
        using "1.prems" "1.IH"(2) [OF rt refl JObject] unfolding walk_kept [OF rt] JObject
        by (auto simp: map_prod_def split: option.splits json.splits prod.splits)
    qed (use "1.prems" in \<open>auto simp: walk_kept [OF rt]\<close>)
  qed
next
  case (3 rd item_schema path index x xs)
  then show ?case by (auto split: prod.splits sum.splits intro: refusal_below)
next
  case (5 rd ps path name x xs)
  have "refusal (field_path path name) e \<Longrightarrow> refusal path e" for e
    unfolding field_path_def by (rule refusal_below)
  with 5 show ?case by (auto split: prod.splits sum.splits option.splits)
qed auto

subsection \<open>Properties\<close>

definition sample_schema :: json where
  "sample_schema = JObject [(''type'', JString ''object''), (''properties'', JObject
     [(''blocks'', JObject [(''type'', JString ''array''), (''items'', JObject [(''type'', JString ''boolean'')])]),
      (''limit'', JObject [(''type'', JString ''integer'')])])]"

definition sample_reader :: json_reader where
  "sample_reader = \<lparr>jd_value = (\<lambda>_. None), jd_number = (\<lambda>_. None)\<rparr>"

definition sample_arguments :: json where
  "sample_arguments = JObject [(''blocks'', JObject [(''item'', JString ''true'')]), (''limit'', JString ''240'')]"

definition sample_repaired :: json where
  "sample_repaired = JObject [(''blocks'', JArray [JBool True]), (''limit'', JNumber (PosInt 240))]"

lemma sample_normalized: "normalize sample_reader sample_arguments sample_schema = (sample_repaired, Inr True)"
  by code_simp

lemma sample_union_free: "union_free sample_schema"
  by code_simp

text \<open>
  C33. Well-formed arguments pass through untouched and nothing else does.  Normalization reports no
  change exactly for values that have the types their schema names, it returns such a value itself, and
  whenever it succeeds the flag it returns says whether the value was changed.
\<close>

theorem normalize_exact:
  "(snd (normalize rd v schema) = Inr False \<longleftrightarrow> conforms v schema)
    \<and> (\<forall>v' changed. normalize rd v schema = (v', Inr changed) \<longrightarrow> (changed \<longleftrightarrow> v' \<noteq> v))"
  unfolding normalize_def by (intro conjI allI impI walk_unchanged(1)) (rule walk_flag(1))

theorem normalize_exact_witness:
  "\<not> conforms sample_arguments sample_schema \<and> sample_repaired \<noteq> sample_arguments"
  using normalize_exact [of sample_reader sample_arguments sample_schema] sample_normalized by auto



end
