(* ===== verification/Patch.thy ===== *)
theory Patch
  imports Tool_Output Arguments
begin

text \<open>
  The \<open>apply_patch\<close> tool (\<open>src/middleware/tools/patch.rs\<close>): parsing of the patch envelope,
  location of each change in the file, the bound on matching work and the application.  The third-party
  crate \<open>diffy\<close> (making a patch from two texts and applying it) and the Unicode tables behind
  \<open>Debug\<close> formatting of a string are parameters, in the record \<open>patch_env\<close>; a patch itself is its
  list of hunks.  \<open>diffy_law\<close> states what the code relies on: a patch made with enough context to hold
  both texts whole turns a text that starts with the old one into the same text with the new one.
\<close>

subsection \<open>Documents\<close>

record patch_change =
  ch_anchor :: "string option"
  ch_before :: string
  ch_after :: string
  ch_end_of_file :: bool

record patch_document =
  pd_path :: string
  pd_changes :: "patch_change list"

definition default_change :: patch_change where
  "default_change = \<lparr>ch_anchor = None, ch_before = [], ch_after = [], ch_end_of_file = False\<rparr>"

definition malformed_patch_document :: "string \<Rightarrow> error" where
  "malformed_patch_document reason =
     Tool (''Patch rejected: malformed apply_patch input.'' @ [LF] @ ''Reason: '' @ reason @ ''.'')"

text \<open>\<open>push_patch_change\<close>: the changes, and what is left of the change in hand.\<close>

definition push_patch_change :: "patch_change list \<Rightarrow> patch_change \<Rightarrow> patch_change list \<times> patch_change" where
  "push_patch_change changes change =
     (if ch_before change \<noteq> [] \<or> ch_after change \<noteq> [] then (changes @ [change], default_change)
      else (changes, change))"

definition push_patch_line :: "string \<Rightarrow> string \<Rightarrow> string" where
  "push_patch_line target l = target @ l @ [LF]"

abbreviation push_before :: "string \<Rightarrow> patch_change \<Rightarrow> patch_change" where
  "push_before l c \<equiv> c\<lparr>ch_before := push_patch_line (ch_before c) l\<rparr>"

abbreviation push_after :: "string \<Rightarrow> patch_change \<Rightarrow> patch_change" where
  "push_after l c \<equiv> c\<lparr>ch_after := push_patch_line (ch_after c) l\<rparr>"

definition change_line :: "string \<Rightarrow> patch_change \<Rightarrow> patch_change option" where
  "change_line l c = (case strip_prefix ''+'' l of
      Some v \<Rightarrow> Some (push_after v c)
    | None \<Rightarrow> (case strip_prefix ''-'' l of
          Some v \<Rightarrow> Some (push_before v c)
        | None \<Rightarrow> (case strip_prefix '' '' l of
              Some v \<Rightarrow> Some (push_after v (push_before v c))
            | None \<Rightarrow> (if l = [] then Some (push_after [] (push_before [] c)) else None))))"

fun parse_changes :: "string \<Rightarrow> string list \<Rightarrow> patch_change list \<Rightarrow> patch_change \<Rightarrow> patch_document res" where
  "parse_changes path [] changes change = Inl (malformed_patch_document ''missing `*** End Patch`'')"
| "parse_changes path (l # ls) changes change =
     (if l = ''*** End Patch'' then
        (let changes = fst (push_patch_change changes change) in
         if ls \<noteq> [] then Inl (malformed_patch_document ''`*** End Patch` must be the final line'')
         else if changes = [] then Inl (malformed_patch_document ''the patch contains no changes'')
         else Inr \<lparr>pd_path = path, pd_changes = changes\<rparr>)
      else if ch_end_of_file change then
        (if l = [] then parse_changes path ls changes change
         else Inl (malformed_patch_document ''`*** End of File` must end its change''))
      else if l = ''@@'' \<or> starts_with ''@@ '' l then
        (case push_patch_change changes change of (changes, change) \<Rightarrow>
           parse_changes path ls changes (case strip_prefix ''@@ '' l of
               Some context \<Rightarrow> if context \<noteq> [] then change\<lparr>ch_anchor := Some context\<rparr> else change
             | None \<Rightarrow> change))
      else if l = ''*** End of File'' then
        (if ch_before change = [] \<and> ch_after change = []
         then Inl (malformed_patch_document ''`*** End of File` has no change'')
         else parse_changes path ls changes (change\<lparr>ch_end_of_file := True\<rparr>))
      else if starts_with ''*** '' l then
        Inl (malformed_patch_document ''only one existing-file `*** Update File` operation is supported'')
      else (case change_line l change of
          Some change \<Rightarrow> parse_changes path ls changes change
        | None \<Rightarrow> Inl (malformed_patch_document ''change lines must begin with ` `, `+`, or `-`'')))"

definition parse_patch_document :: "string \<Rightarrow> patch_document res" where
  "parse_patch_document input = (case map strip_cr (lines input) of
      [] \<Rightarrow> Inl (malformed_patch_document ''missing `*** Begin Patch`'')
    | first # rest \<Rightarrow>
        (if first \<noteq> ''*** Begin Patch'' then Inl (malformed_patch_document ''missing `*** Begin Patch`'')
         else (case rest of
             [] \<Rightarrow> Inl (malformed_patch_document ''expected one `*** Update File: path`'')
           | l # ls \<Rightarrow> (case strip_prefix ''*** Update File: '' l of
                 Some path \<Rightarrow>
                   (if path \<noteq> [] then parse_changes path ls [] default_change
                    else Inl (malformed_patch_document ''expected one `*** Update File: path`''))
               | None \<Rightarrow> Inl (malformed_patch_document ''expected one `*** Update File: path`'')))))"

subsection \<open>Locating a change\<close>

definition trim_line_end :: "string \<Rightarrow> string" where
  "trim_line_end s = rev (dropWhile (\<lambda>c. c = CR \<or> c = LF) (rev s))"

fun find_anchor :: "string \<Rightarrow> nat \<Rightarrow> nat option \<Rightarrow> string list \<Rightarrow> nat option" where
  "find_anchor anchor offset trimmed [] = trimmed"
| "find_anchor anchor offset trimmed (l # ls) =
     (let v = trim_line_end l in
      if v = anchor then Some (offset + length l)
      else find_anchor anchor (offset + length l)
        (if trimmed = None \<and> trim v = trim anchor then Some (offset + length l) else trimmed) ls)"

definition find_patch_anchor :: "string \<Rightarrow> string \<Rightarrow> nat option" where
  "find_patch_anchor content anchor = find_anchor anchor 0 None (split_inclusive LF content)"

text \<open>\<open>str::get(i..)\<close>: the tail from a character boundary.\<close>

definition get_tail :: "string \<Rightarrow> nat \<Rightarrow> string option" where
  "get_tail s i = (if is_char_boundary s i then Some (drop i s) else None)"

function find_fragment :: "string \<Rightarrow> string \<Rightarrow> nat \<Rightarrow> nat option" where
  "find_fragment content fragment offset = (case get_tail content offset of
      None \<Rightarrow> None
    | Some rest \<Rightarrow>
        (if starts_with fragment rest then Some offset
         else (case position (\<lambda>c. c = LF) rest of
             None \<Rightarrow> None
           | Some i \<Rightarrow> find_fragment content fragment (offset + i + 1))))"
  by pat_completeness auto
termination
proof (relation "measure (\<lambda>(content, _, offset). length content - offset)", goal_cases)
  case (2 content fragment offset rest i)
  from 2(1) have "rest = drop offset content" by (simp add: get_tail_def split: if_splits)
  with position_SomeD [OF 2(3)] show ?case by auto
qed simp

declare find_fragment.simps [simp del]

definition find_patch_fragment :: "string \<Rightarrow> string \<Rightarrow> nat option" where
  "find_patch_fragment content fragment = find_fragment content fragment 0"

definition patch_tail :: "string \<Rightarrow> nat \<Rightarrow> string res" where
  "patch_tail content cursor = (case get_tail content cursor of
      Some tail \<Rightarrow> Inr tail
    | None \<Rightarrow> Inl (Tool (''patch cursor '' @ show_nat cursor @ '' is outside the file'')))"

subsection \<open>Patches\<close>

datatype diff_line = ContextLine string | DeleteLine string | InsertLine string

record hunk =
  hk_old_len :: nat
  hk_new_start :: nat
  hk_new_len :: nat
  hk_lines :: "diff_line list"

record patch_env =
  pv_create :: "nat \<Rightarrow> string \<Rightarrow> string \<Rightarrow> hunk list"
  pv_apply :: "string \<Rightarrow> hunk list \<Rightarrow> string + string"
  pv_debug :: "string \<Rightarrow> string"

definition MAX_PATCH_MATCH_WORK :: nat where "MAX_PATCH_MATCH_WORK = 32 * 1024 * 1024"

definition charge_patch_work :: "nat \<Rightarrow> nat \<Rightarrow> nat res" where
  "charge_patch_work total_work work =
     (let t = sat_add total_work work in
      if MAX_PATCH_MATCH_WORK < t then Inl (Tool ''patch is too expensive to match safely'') else Inr t)"

definition preimage :: "hunk \<Rightarrow> nat \<times> nat" where
  "preimage h = foldl (\<lambda>(n, b) l. case l of
      ContextLine v \<Rightarrow> (sat_add n 1, sat_add b (length v))
    | DeleteLine v \<Rightarrow> (sat_add n 1, sat_add b (length v))
    | InsertLine _ \<Rightarrow> (n, b)) (0, 0) (hk_lines h)"

definition hunk_work :: "nat \<Rightarrow> hunk \<Rightarrow> nat" where
  "hunk_work image_lines h = (case preimage h of (preimage_lines, preimage_bytes) \<Rightarrow>
     if preimage_lines = 0 then length (hk_lines h)
     else sat_mul image_lines (sat_add preimage_bytes (length (hk_lines h))))"

definition validate_patch_complexity :: "string \<Rightarrow> hunk list \<Rightarrow> nat \<Rightarrow> nat res" where
  "validate_patch_complexity content patch total_work =
     (let image_lines = sat_add (length (lines content)) (sum_list (map hk_new_len patch))
      in charge_patch_work total_work (foldl (\<lambda>t h. sat_add t (hunk_work image_lines h)) 0 patch))"

text \<open>The first line of a hunk a reader can look for, and how close the file comes to it.\<close>

definition hunk_context :: "hunk \<Rightarrow> (string \<times> string) option" where
  "hunk_context h = find_map (\<lambda>l. case l of
      ContextLine v \<Rightarrow> if blank v then None else Some (''Failed hunk starts with context:'', v)
    | DeleteLine v \<Rightarrow> if blank v then None else Some (''Failed hunk starts with deletion:'', v)
    | InsertLine _ \<Rightarrow> None) (hk_lines h)"

definition abs_diff :: "nat \<Rightarrow> nat \<Rightarrow> nat" where
  "abs_diff a b = (a - b) + (b - a)"

fun min_by :: "('a \<Rightarrow> nat) \<Rightarrow> 'a list \<Rightarrow> 'a option" where
  "min_by f [] = None"
| "min_by f (x # xs) = (case min_by f xs of None \<Rightarrow> Some x | Some y \<Rightarrow> if f x \<le> f y then Some x else Some y)"

definition nearest_line :: "string \<Rightarrow> string \<Rightarrow> nat \<Rightarrow> nat option" where
  "nearest_line content context start = min_by (\<lambda>l. abs_diff l start)
     (map (\<lambda>(i, _). i + 1) (filter (\<lambda>(_, l). l = context) (enumerate 0 (split_inclusive LF content))))"

definition unmatched_patch_error :: "patch_env \<Rightarrow> string \<Rightarrow> hunk list \<Rightarrow> string \<Rightarrow> error" where
  "unmatched_patch_error env content patch message =
     (case Option.bind (strip_prefix ''error applying hunk #'' message) parse_u64 of
        Some hunk_number \<Rightarrow>
          (if 0 < hunk_number \<and> hunk_number \<le> length patch then
             (let h = patch ! (hunk_number - 1);
                  rejection = (if length patch = 1 then ''Patch rejected: no hunks matched the file.''
                    else ''Patch rejected: hunk #'' @ show_nat hunk_number @ '' did not match the file.'')
              in case hunk_context h of
                   None \<Rightarrow> Tool (rejection @ [LF] @ ''The failed hunk has no usable context lines.'')
                 | Some (heading, context) \<Rightarrow> Tool (rejection @ [LF] @ heading @ [LF]
                     @ pv_debug env (capped (trim_line_end context) MAX_TOOL_UI_BYTES) @ [LF]
                     @ (case nearest_line content context (hk_new_start h) of
                          None \<Rightarrow> ''No matching context line was found.''
                        | Some l \<Rightarrow> ''The nearest match is at line '' @ show_nat l @ ''.'')))
           else Tool (''Patch rejected: a hunk did not match the file.'' @ [LF] @ ''Reason: '' @ message @ ''.''))
      | None \<Rightarrow> Tool (''Patch rejected: a hunk did not match the file.'' @ [LF] @ ''Reason: '' @ message @ ''.''))"

subsection \<open>Application\<close>

definition line_ending_of :: "string \<Rightarrow> string" where
  "line_ending_of content = (if list_ex (starts_with [CR, LF]) (suffixes content) then [CR, LF] else [LF])"

definition drop_line_ending :: "string \<Rightarrow> string \<Rightarrow> string" where
  "drop_line_ending le s = (if ends_with le s then take (length s - length le) s else s)"

definition advance_to_anchor :: "patch_env \<Rightarrow> string \<Rightarrow> nat \<Rightarrow> string option \<Rightarrow> nat res" where
  "advance_to_anchor env updated cursor anchor = (case anchor of
      None \<Rightarrow> Inr cursor
    | Some a \<Rightarrow> res_bind (patch_tail updated cursor) (\<lambda>tail. case find_patch_anchor tail a of
          Some n \<Rightarrow> Inr (cursor + n)
        | None \<Rightarrow> Inl (Tool (''Patch rejected: context '' @ pv_debug env (capped a MAX_TOOL_UI_BYTES)
            @ '' was not found after the previous change.''))))"

definition end_of_file_start :: "bool \<Rightarrow> string \<Rightarrow> nat \<Rightarrow> string \<Rightarrow> nat res" where
  "end_of_file_start end_of_file updated cursor before =
     (if \<not> end_of_file then Inr cursor
      else (let start = length updated - length before in
        if start < cursor \<or> \<not> ends_with before updated
        then Inl (Tool ''Patch rejected: the end-of-file change did not match the file.'')
        else Inr start))"

definition replace_fragment ::
    "patch_env \<Rightarrow> string \<Rightarrow> nat \<Rightarrow> nat \<Rightarrow> string \<Rightarrow> string \<Rightarrow> (string \<times> nat \<times> nat) res" where
  "replace_fragment env updated cursor match_work before after =
     (let patch = pv_create env (max (length (lines before)) (length (lines after))) before after in
      res_bind (patch_tail updated cursor) (\<lambda>tail.
      res_bind (if patch = []
          then charge_patch_work match_work
            (sat_mul (length (lines tail)) (sat_add (length before) (length (lines before))))
          else validate_patch_complexity tail patch match_work) (\<lambda>match_work.
      case find_patch_fragment tail before of
        None \<Rightarrow> (case pv_apply env tail patch of
            Inl e \<Rightarrow> Inl (unmatched_patch_error env tail patch e)
          | Inr _ \<Rightarrow> Inl (Tool ''patch rejected: context was not found''))
      | Some match_start \<Rightarrow>
          (let cursor = cursor + match_start in
           if patch = [] then Inr (updated, cursor + length before, match_work)
           else res_bind (patch_tail updated cursor) (\<lambda>tail. case pv_apply env tail patch of
               Inl e \<Rightarrow> Inl (unmatched_patch_error env tail patch e)
             | Inr patched \<Rightarrow> Inr (take cursor updated @ patched, cursor + length after, match_work))))))"

definition apply_change ::
    "patch_env \<Rightarrow> string \<Rightarrow> string \<times> nat \<times> nat \<Rightarrow> patch_change \<Rightarrow> (string \<times> nat \<times> nat) res" where
  "apply_change env le state change = (case state of (updated, cursor, match_work) \<Rightarrow>
     res_bind (advance_to_anchor env updated cursor (ch_anchor change)) (\<lambda>cursor.
     let before = replace_char LF le (ch_before change); after = replace_char LF le (ch_after change) in
     if before = [] then
       (let updated = (if updated \<noteq> [] \<and> \<not> ends_with [LF] updated then updated @ le else updated) @ after
        in Inr (updated, length updated, match_work))
     else
       (let chop = ch_end_of_file change \<and> \<not> ends_with [LF] updated;
            before = (if chop then drop_line_ending le before else before);
            after = (if chop then drop_line_ending le after else after)
        in res_bind (end_of_file_start (ch_end_of_file change) updated cursor before) (\<lambda>cursor.
             replace_fragment env updated cursor match_work before after))))"

definition apply_patch_document :: "patch_env \<Rightarrow> string \<Rightarrow> patch_document \<Rightarrow> string res" where
  "apply_patch_document env content document =
     res_bind (fold_res (apply_change env (line_ending_of content)) (content, 0, 0) (pd_changes document))
       (\<lambda>(updated, _, _). Inr updated)"

subsection \<open>Reference: writing a document\<close>

datatype edit_line = Keep string | Remove string | Add string

record patch_edit =
  ed_anchor :: "string option"
  ed_lines :: "edit_line list"
  ed_end_of_file :: bool

fun line_text :: "edit_line \<Rightarrow> string" where
  "line_text (Keep l) = l" | "line_text (Remove l) = l" | "line_text (Add l) = l"

fun show_line :: "edit_line \<Rightarrow> string" where
  "show_line (Keep l) = CHR '' '' # l" | "show_line (Remove l) = CHR ''-'' # l" | "show_line (Add l) = CHR ''+'' # l"

definition show_edit :: "patch_edit \<Rightarrow> string list" where
  "show_edit d = (case ed_anchor d of None \<Rightarrow> ''@@'' | Some a \<Rightarrow> ''@@ '' @ a) # map show_line (ed_lines d)
     @ (if ed_end_of_file d then [''*** End of File''] else [])"

definition unlines :: "string list \<Rightarrow> string" where
  "unlines ls = concat (map (\<lambda>l. l @ [LF]) ls)"

definition show_document :: "string \<Rightarrow> patch_edit list \<Rightarrow> string" where
  "show_document path edits = unlines ([''*** Begin Patch'', ''*** Update File: '' @ path]
     @ concat (map show_edit edits) @ [''*** End Patch''])"

definition old_lines :: "edit_line list \<Rightarrow> string" where
  "old_lines ls = unlines (List.map_filter (\<lambda>l. case l of Keep t \<Rightarrow> Some t | Remove t \<Rightarrow> Some t | Add _ \<Rightarrow> None) ls)"

definition new_lines :: "edit_line list \<Rightarrow> string" where
  "new_lines ls = unlines (List.map_filter (\<lambda>l. case l of Keep t \<Rightarrow> Some t | Add t \<Rightarrow> Some t | Remove _ \<Rightarrow> None) ls)"

definition change_of :: "patch_edit \<Rightarrow> patch_change" where
  "change_of d = \<lparr>ch_anchor = ed_anchor d, ch_before = old_lines (ed_lines d), ch_after = new_lines (ed_lines d),
     ch_end_of_file = ed_end_of_file d\<rparr>"

definition one_line :: "string \<Rightarrow> bool" where
  "one_line l \<longleftrightarrow> LF \<notin> set l \<and> (l = [] \<or> last l \<noteq> CR)"

definition edit_ok :: "patch_edit \<Rightarrow> bool" where
  "edit_ok d \<longleftrightarrow> ed_lines d \<noteq> [] \<and> list_all (\<lambda>l. one_line (line_text l)) (ed_lines d)
     \<and> (case ed_anchor d of None \<Rightarrow> True | Some a \<Rightarrow> a \<noteq> [] \<and> one_line a)"

lemma lines_unlines: "\<forall>l \<in> set ls. one_line l \<Longrightarrow> lines (unlines ls) = ls"
  by (induction ls) (auto simp: unlines_def lines_cons one_line_def strip_cr_def)

lemma map_strip_cr_one_line: "\<forall>l \<in> set ls. one_line l \<Longrightarrow> map strip_cr ls = ls"
  by (rule map_idI) (auto simp: one_line_def strip_cr_def)

lemma one_line_show: "one_line (line_text l) \<Longrightarrow> one_line (show_line l)"
  by (cases l) (auto simp: one_line_def)

lemma one_line_prefixed: "one_line l \<Longrightarrow> one_line p \<Longrightarrow> one_line (p @ l)"
  by (cases "l = []") (auto simp: one_line_def last_append)

lemma show_edit_one_line: "edit_ok d \<Longrightarrow> l \<in> set (show_edit d) \<Longrightarrow> one_line l"
proof -
  have "one_line ''@@''" "one_line ''@@ ''" "one_line ''*** End of File''" by (simp_all add: one_line_def)
  then show "edit_ok d \<Longrightarrow> l \<in> set (show_edit d) \<Longrightarrow> one_line l"
    by (auto simp: show_edit_def edit_ok_def list_all_iff one_line_show one_line_prefixed
        simp del: append.simps split: if_splits option.splits)
qed

lemma old_lines_simps [simp]:
  "old_lines [] = []" "old_lines (Keep t # ls) = t @ LF # old_lines ls"
  "old_lines (Remove t # ls) = t @ LF # old_lines ls" "old_lines (Add t # ls) = old_lines ls"
  by (simp_all add: old_lines_def unlines_def List.map_filter_def)

lemma new_lines_simps [simp]:
  "new_lines [] = []" "new_lines (Keep t # ls) = t @ LF # new_lines ls"
  "new_lines (Add t # ls) = t @ LF # new_lines ls" "new_lines (Remove t # ls) = new_lines ls"
  by (simp_all add: new_lines_def unlines_def List.map_filter_def)

lemma lines_nonempty: "ls \<noteq> [] \<Longrightarrow> old_lines ls \<noteq> [] \<or> new_lines ls \<noteq> []"
  by (cases ls; cases "hd ls") auto

lemma change_line_show:
  "change_line (show_line l) c = Some (c\<lparr>ch_before := ch_before c @ old_lines [l], ch_after := ch_after c @ new_lines [l]\<rparr>)"
  by (cases l) (simp_all add: change_line_def strip_prefix_def push_patch_line_def)

lemma parse_show_line:
  "\<not> ch_end_of_file c \<Longrightarrow> parse_changes path (show_line l # ls) changes c
     = parse_changes path ls changes (c\<lparr>ch_before := ch_before c @ old_lines [l], ch_after := ch_after c @ new_lines [l]\<rparr>)"
  by (cases l) (simp_all add: change_line_show [of "Keep _", simplified] change_line_show [of "Remove _", simplified]
      change_line_show [of "Add _", simplified] starts_with_def)

lemma parse_show_lines:
  "\<not> ch_end_of_file c \<Longrightarrow> parse_changes path (map show_line es @ ls) changes c
     = parse_changes path ls changes (c\<lparr>ch_before := ch_before c @ old_lines es, ch_after := ch_after c @ new_lines es\<rparr>)"
proof (induction es arbitrary: c)
  case (Cons e es)
  have split: "old_lines (e # es) = old_lines [e] @ old_lines es" "new_lines (e # es) = new_lines [e] @ new_lines es"
    by (cases e; simp)+
  from Cons show ?case by (simp del: parse_changes.simps add: parse_show_line split append_assoc)
qed simp

lemma parse_show_edit:
  assumes d: "edit_ok d" and c: "c = default_change \<or> ch_before c \<noteq> [] \<or> ch_after c \<noteq> []" "\<not> ch_end_of_file c"
  shows "parse_changes path (show_edit d @ ls) changes c
    = parse_changes path ls (if c = default_change then changes else changes @ [c]) (change_of d)"
proof -
  have push: "push_patch_change changes c = (if c = default_change then changes else changes @ [c], default_change)"
    using c(1) by (auto simp: push_patch_change_def default_change_def)
  have head: "parse_changes path (show_edit d @ ls) changes c
    = parse_changes path (map show_line (ed_lines d) @ (if ed_end_of_file d then [''*** End of File''] else []) @ ls)
        (if c = default_change then changes else changes @ [c]) (default_change\<lparr>ch_anchor := ed_anchor d\<rparr>)"
    using c(2) d
    by (cases "ed_anchor d")
      (simp_all add: show_edit_def push starts_with_def strip_prefix_def default_change_def edit_ok_def)
  have "ed_lines d \<noteq> []" using d by (simp add: edit_ok_def)
  from lines_nonempty [OF this] show ?thesis
    unfolding head
    by (subst parse_show_lines) (auto simp: default_change_def change_of_def starts_with_def)
qed

definition edits_ok :: "patch_edit list \<Rightarrow> bool" where
  "edits_ok edits \<longleftrightarrow> edits \<noteq> [] \<and> list_all edit_ok edits \<and> list_all (\<lambda>d. \<not> ed_end_of_file d) (butlast edits)"

lemma change_of_content: "edit_ok d \<Longrightarrow> ch_before (change_of d) \<noteq> [] \<or> ch_after (change_of d) \<noteq> []"
  using lines_nonempty [of "ed_lines d"] by (simp add: edit_ok_def change_of_def)

lemma parse_show_edits:
  "edits_ok edits \<Longrightarrow> c = default_change \<or> ch_before c \<noteq> [] \<or> ch_after c \<noteq> [] \<Longrightarrow> \<not> ch_end_of_file c \<Longrightarrow>
   parse_changes path (concat (map show_edit edits) @ [''*** End Patch'']) changes c
     = Inr \<lparr>pd_path = path, pd_changes = (if c = default_change then changes else changes @ [c]) @ map change_of edits\<rparr>"
proof (induction edits arbitrary: c changes)
  case (Cons d ds)
  then have d: "edit_ok d" by (simp add: edits_ok_def)
  note full = change_of_content [OF d]
  let ?ch = "if c = default_change then changes else changes @ [c]"
  have step: "parse_changes path (concat (map show_edit (d # ds)) @ [''*** End Patch'']) changes c
    = parse_changes path (concat (map show_edit ds) @ [''*** End Patch'']) ?ch (change_of d)"
    using parse_show_edit [OF d Cons.prems(2,3)] by simp
  show ?case
  proof (cases ds)
    case Nil
    with full show ?thesis unfolding step by (auto simp: push_patch_change_def Let_def)
  next
    case (Cons e es)
    with Cons.prems(1) have "edits_ok ds" "\<not> ch_end_of_file (change_of d)"
      by (auto simp: edits_ok_def change_of_def)
    moreover from full have "change_of d \<noteq> default_change" by (auto simp: default_change_def)
    ultimately show ?thesis unfolding step using Cons.IH [of "change_of d" ?ch] full by simp
  qed
qed (simp add: edits_ok_def)

subsection \<open>Where a change lands\<close>

lemma get_tail_Some [simp]: "get_tail s i = Some t \<longleftrightarrow> is_char_boundary s i \<and> t = drop i s"
  by (auto simp: get_tail_def)

lemma patch_tail_Inr [simp]: "patch_tail s i = Inr t \<longleftrightarrow> is_char_boundary s i \<and> t = drop i s"
  by (auto simp: patch_tail_def split: option.splits simp: get_tail_def)

lemma char_boundary_le: "is_char_boundary s i \<Longrightarrow> i \<le> length s"
  by (auto simp: is_char_boundary_def)

text \<open>Whole lines: nothing, or text that ends with a line feed.\<close>

definition whole_lines :: "string \<Rightarrow> bool" where
  "whole_lines g \<longleftrightarrow> g = [] \<or> last g = LF"

lemma whole_lines_append: "whole_lines g \<Longrightarrow> whole_lines h \<Longrightarrow> whole_lines (g @ h)"
  by (cases "h = []") (auto simp: whole_lines_def)

lemma find_fragment_SomeD:
  "find_fragment s f i = Some m \<Longrightarrow> i \<le> length s \<Longrightarrow>
     \<exists>g rest. drop i s = g @ f @ rest \<and> m = i + length g \<and> whole_lines g"
proof (induction s f i rule: find_fragment.induct)
  case (1 s f i)
  have b: "is_char_boundary s i" and t: "get_tail s i = Some (drop i s)"
    using "1.prems" by (auto simp: find_fragment.simps [of s f i] get_tail_def split: option.splits if_splits)
  show ?case
  proof (cases "starts_with f (drop i s)")
    case True
    then have "m = i" using "1.prems"(1) t by (simp add: find_fragment.simps [of s f i])
    with True show ?thesis by (auto simp: starts_with_iff prefix_def whole_lines_def)
  next
    case False
    with "1.prems"(1) t obtain k where k: "position (\<lambda>c. c = LF) (drop i s) = Some k"
      and next_step: "find_fragment s f (i + k + 1) = Some m"
      by (auto simp: find_fragment.simps [of s f i] split: option.splits)
    from position_SomeD [OF k] have kl: "k < length (drop i s)" "drop i s ! k = LF" by auto
    have "i + k + 1 \<le> length s" using kl(1) by simp
    from "1.IH" [OF t False k next_step this] obtain g rest where
      g: "drop (i + k + 1) s = g @ f @ rest" "m = i + k + 1 + length g" "whole_lines g" by blast
    let ?h = "take (Suc k) (drop i s)"
    have "drop i s = ?h @ drop (Suc k) (drop i s)" by (rule append_take_drop_id [symmetric])
    also have "drop (Suc k) (drop i s) = drop (i + k + 1) s" by (simp add: add_ac)
    finally have "drop i s = (?h @ g) @ f @ rest" using g(1) by simp
    moreover have "length ?h = Suc k" using kl(1) by simp
    moreover have "whole_lines ?h" using kl by (simp add: whole_lines_def take_Suc_conv_app_nth)
    ultimately show ?thesis using g(2,3)
      by (intro exI [of _ "?h @ g"] exI [of _ rest]) (simp add: whole_lines_append)
  qed
qed

lemma find_anchor_SomeD:
  "find_anchor a off tr ls = Some n \<Longrightarrow>
     tr = Some n \<or> (\<exists>k < length ls. n = off + length (concat (take (Suc k) ls)))"
proof (induction ls arbitrary: off tr)
  case (Cons l ls)
  let ?n = "off + length l"
  have "n = ?n \<or> tr = Some n \<or> (\<exists>k < length ls. n = ?n + length (concat (take (Suc k) ls)))"
  proof (cases "trim_line_end l = a")
    case True
    with Cons.prems show ?thesis by simp
  next
    case False
    with Cons.prems have "find_anchor a ?n (if tr = None \<and> trim (trim_line_end l) = trim a then Some ?n else tr) ls = Some n"
      by simp
    from Cons.IH [OF this] show ?thesis by (auto split: if_splits)
  qed
  then show ?case
  proof (elim disjE exE conjE)
    assume "n = ?n"
    then show ?thesis by (intro disjI2 exI [of _ 0]) simp
  next
    fix k assume "k < length ls" "n = ?n + length (concat (take (Suc k) ls))"
    then show ?thesis by (intro disjI2 exI [of _ "Suc k"]) simp
  qed simp
qed simp

lemma split_inclusive_line: "l \<in> set (butlast (split_inclusive c s)) \<Longrightarrow> last l = c"
proof (induction s arbitrary: l)
  case (Cons x xs)
  show ?case
  proof (cases "split_inclusive c xs")
    case (Cons m ms)
    have "m \<noteq> []" using split_inclusive_no_inner [of m c xs] Cons by simp
    with Cons Cons.prems Cons.IH show ?thesis by (auto split: if_splits)
  qed (use Cons.prems in \<open>auto split: if_splits\<close>)
qed simp

lemma find_patch_anchor_SomeD:
  assumes "find_patch_anchor s a = Some n"
  shows "n \<le> length s \<and> (whole_lines (take n s) \<or> n = length s)"
proof -
  let ?ls = "split_inclusive LF s"
  from assms find_anchor_SomeD [of a 0 None ?ls n] obtain k where k: "k < length ?ls"
    and n: "n = length (concat (take (Suc k) ?ls))" by (auto simp: find_patch_anchor_def)
  have s: "s = concat (take (Suc k) ?ls) @ concat (drop (Suc k) ?ls)"
    by (metis append_take_drop_id concat_append concat_split_inclusive)
  have t: "take n s = concat (take (Suc k) ?ls)" using s n by (metis append_eq_conv_conj)
  show ?thesis
  proof (cases "Suc k < length ?ls")
    case True
    have ne: "?ls ! k \<noteq> []" using split_inclusive_no_inner [of "?ls ! k" LF s] k by simp
    have "concat (take (Suc k) ?ls) = concat (take k ?ls) @ ?ls ! k" using k by (simp add: take_Suc_conv_app_nth)
    moreover have "?ls ! k \<in> set (butlast ?ls)" using True by (metis length_butlast less_diff_conv nth_butlast nth_mem Suc_eq_plus1)
    ultimately have "last (take n s) = LF" using split_inclusive_line ne t by simp
    with n s show ?thesis by (metis le_add1 length_append whole_lines_def)
  next
    case False
    then have "drop (Suc k) ?ls = []" by simp
    with s n show ?thesis by (metis append_Nil2 concat.simps(1) order_refl)
  qed
qed

subsection \<open>What the code relies on, and the edit it performs\<close>

definition ends_lines :: "string \<Rightarrow> bool" where
  "ends_lines t \<longleftrightarrow> ends_with [LF] t"

definition diffy_law :: "patch_env \<Rightarrow> bool" where
  "diffy_law env \<longleftrightarrow> (\<forall>n old new rest. length (lines old) \<le> n \<longrightarrow> length (lines new) \<le> n \<longrightarrow>
     (pv_create env n old new = [] \<longleftrightarrow> old = new)
     \<and> (old \<noteq> new \<longrightarrow> ends_lines old \<and> (new = [] \<or> ends_lines new) \<or> rest = [] \<longrightarrow>
         pv_apply env (old @ rest) (pv_create env n old new) = Inr (new @ rest)))"

text \<open>
  One edit \<open>(g, b, a)\<close> of a change: \<open>g\<close> is kept, \<open>b\<close> is replaced by \<open>a\<close>.  A change without old lines
  adds its text at the end of the file, after a line ending where the file lacks one.  An end-of-file
  change may drop the last line ending on both sides, for a file that does not end with one.
\<close>

definition edit_of :: "string \<Rightarrow> patch_change \<Rightarrow> string \<times> string \<times> string \<Rightarrow> bool" where
  "edit_of le c x = (case x of (g, b, a) \<Rightarrow>
     let old = replace_char LF le (ch_before c); new = replace_char LF le (ch_after c) in
     if old = [] then b = [] \<and> (a = new \<or> a = le @ new)
     else if ch_end_of_file c then (b, a) \<in> {(old, new), (drop_line_ending le old, drop_line_ending le new)}
     else b = old \<and> a = new \<and> whole_lines g)"

definition old_text :: "(string \<times> string \<times> string) list \<Rightarrow> string" where
  "old_text es = concat (map (\<lambda>(g, b, a). g @ b) es)"

definition new_text :: "(string \<times> string \<times> string) list \<Rightarrow> string" where
  "new_text es = concat (map (\<lambda>(g, b, a). g @ a) es)"

text \<open>Changes come out of the parser with whole lines on both sides.\<close>

definition change_lines :: "patch_change \<Rightarrow> bool" where
  "change_lines c \<longleftrightarrow> whole_lines (ch_before c) \<and> whole_lines (ch_after c)"

lemma replace_char_append [simp]: "replace_char c r (s @ t) = replace_char c r s @ replace_char c r t"
  by (induction s) simp_all

lemma replace_char_lines:
  assumes "whole_lines s" "ends_lines le"
  shows "replace_char LF le s = [] \<or> ends_lines (replace_char LF le s)"
proof (cases "s = []")
  case False
  then obtain t where "s = t @ [LF]" using assms(1) by (metis append_butlast_last_id whole_lines_def)
  with assms(2) show ?thesis by (auto simp: ends_lines_def ends_with_iff suffix_def)
qed simp

lemma ends_lines_line_ending: "ends_lines (line_ending_of s)" "line_ending_of s \<noteq> []"
  by (auto simp: line_ending_of_def ends_lines_def ends_with_def)

lemma replace_fragment_edit:
  assumes law: "diffy_law env"
    and whole: "ends_lines old \<and> (new = [] \<or> ends_lines new) \<or> drop cursor updated = old"
    and run: "replace_fragment env updated cursor w old new = Inr (updated', cursor', w')"
  shows "\<exists>g rest. updated = take cursor updated @ g @ old @ rest \<and> updated' = take cursor updated @ g @ new @ rest
    \<and> cursor' = cursor + length g + length new \<and> whole_lines g"
proof -
  let ?n = "max (length (lines old)) (length (lines new))"
  let ?patch = "pv_create env ?n old new"
  obtain w1 where cur: "is_char_boundary updated cursor"
    and body: "(case find_patch_fragment (drop cursor updated) old of
        None \<Rightarrow> (case pv_apply env (drop cursor updated) ?patch of
            Inl e \<Rightarrow> Inl (unmatched_patch_error env (drop cursor updated) ?patch e)
          | Inr _ \<Rightarrow> Inl (Tool ''patch rejected: context was not found''))
      | Some match_start \<Rightarrow>
          (if ?patch = [] then Inr (updated, cursor + match_start + length old, w1)
           else res_bind (patch_tail updated (cursor + match_start)) (\<lambda>tail. case pv_apply env tail ?patch of
               Inl e \<Rightarrow> Inl (unmatched_patch_error env tail ?patch e)
             | Inr patched \<Rightarrow> Inr (take (cursor + match_start) updated @ patched,
                 cursor + match_start + length new, w1)))) = Inr (updated', cursor', w')"
    using run unfolding replace_fragment_def Let_def res_bind_Inr_iff patch_tail_Inr by blast
  then obtain m where found: "find_patch_fragment (drop cursor updated) old = Some m"
    by (auto split: option.splits sum.splits)
  have fin: "if ?patch = [] then updated' = updated \<and> cursor' = cursor + m + length old
      else \<exists>patched. pv_apply env (drop (cursor + m) updated) ?patch = Inr patched
        \<and> updated' = take (cursor + m) updated @ patched \<and> cursor' = cursor + m + length new"
    using body unfolding found by (auto simp: res_bind_Inr_iff split: sum.splits)
  from find_fragment_SomeD [OF found [unfolded find_patch_fragment_def]] obtain g rest where
    g: "drop cursor updated = g @ old @ rest" "m = length g" "whole_lines g" by auto
  then have u: "updated = take cursor updated @ g @ old @ rest" by (metis append_take_drop_id)
  have len: "length (take cursor updated) = cursor" using char_boundary_le [OF cur] by simp
  have at: "take (cursor + m) updated = take cursor updated @ g" "drop (cursor + m) updated = old @ rest"
    using u g(2) len by (metis append_assoc append_eq_conv_conj length_append)+
  have rest: "ends_lines old \<and> (new = [] \<or> ends_lines new) \<or> rest = []"
    using whole
  proof
    assume "drop cursor updated = old"
    with g(1) have "length old = length (g @ old @ rest)" by simp
    then show ?thesis by simp
  qed simp
  have "updated' = take cursor updated @ g @ new @ rest \<and> cursor' = cursor + length g + length new"
  proof (cases "old = new")
    case True
    then have "?patch = []" using law by (simp add: diffy_law_def)
    with fin u True g(2) show ?thesis by simp
  next
    case False
    have "(?patch = [] \<longleftrightarrow> old = new) \<and> (old \<noteq> new \<longrightarrow> ends_lines old \<and> (new = [] \<or> ends_lines new) \<or> rest = [] \<longrightarrow>
        pv_apply env (old @ rest) ?patch = Inr (new @ rest))"
      using law [unfolded diffy_law_def, rule_format, of old ?n new rest] by simp
    then have "?patch \<noteq> []" "pv_apply env (old @ rest) ?patch = Inr (new @ rest)" using False rest by simp_all
    with fin at g(2) show ?thesis by auto
  qed
  with u g(3) show ?thesis by blast
qed

lemma advance_to_anchor_InrD:
  assumes "advance_to_anchor env u cur anchor = Inr cur1" "cur \<le> length u"
  shows "\<exists>g. take cur1 u = take cur u @ g \<and> cur1 = cur + length g \<and> cur1 \<le> length u \<and> (whole_lines g \<or> cur1 = length u)"
proof (cases anchor)
  case None
  with assms show ?thesis by (simp add: advance_to_anchor_def whole_lines_def)
next
  case (Some a)
  with assms obtain n where n: "find_patch_anchor (drop cur u) a = Some n" "cur1 = cur + n"
    by (auto simp: advance_to_anchor_def res_bind_Inr_iff split: option.splits)
  from find_patch_anchor_SomeD [OF n(1)] assms(2) n(2) show ?thesis
    by (intro exI [of _ "take n (drop cur u)"]) (auto simp: take_add)
qed

lemma apply_change_edit:
  assumes law: "diffy_law env" and le: "ends_lines le" and c: "change_lines c" and cur: "cur \<le> length u"
    and run: "apply_change env le (u, cur, w) c = Inr (u', cur', w')"
  shows "\<exists>g b a rest. u = take cur u @ g @ b @ rest \<and> u' = take cur u @ g @ a @ rest
    \<and> cur' = cur + length g + length a \<and> edit_of le c (g, b, a)"
proof -
  define old where "old = replace_char LF le (ch_before c)"
  define new where "new = replace_char LF le (ch_after c)"
  define chop where "chop \<longleftrightarrow> ch_end_of_file c \<and> \<not> ends_with [LF] u"
  define old1 where "old1 = (if chop then drop_line_ending le old else old)"
  define new1 where "new1 = (if chop then drop_line_ending le new else new)"
  note defs = old_def [symmetric] new_def [symmetric] chop_def [symmetric] old1_def [symmetric] new1_def [symmetric]
  obtain cur1 where anchor: "advance_to_anchor env u cur (ch_anchor c) = Inr cur1"
    and body: "(if old = [] then
        (let updated = (if u \<noteq> [] \<and> \<not> ends_with [LF] u then u @ le else u) @ new
         in Inr (updated, length updated, w))
      else res_bind (end_of_file_start (ch_end_of_file c) u cur1 old1)
        (\<lambda>cursor. replace_fragment env u cursor w old1 new1)) = Inr (u', cur', w')"
    using run unfolding apply_change_def prod.case Let_def defs res_bind_Inr_iff by blast
  from advance_to_anchor_InrD [OF anchor cur] obtain h where h: "take cur1 u = take cur u @ h"
    "cur1 = cur + length h" "cur1 \<le> length u" "whole_lines h \<or> cur1 = length u" by blast
  have ends: "old = [] \<or> ends_lines old" "new = [] \<or> ends_lines new"
    using c le unfolding old_def new_def change_lines_def by (simp_all add: replace_char_lines)
  show ?thesis
  proof (cases "old = []")
    case True
    define sep where "sep = (if u \<noteq> [] \<and> \<not> ends_with [LF] u then le else [])"
    have u': "u' = u @ sep @ new" "cur' = length u'" using body True by (auto simp: sep_def Let_def)
    have "edit_of le c (drop cur u, [], sep @ new)"
      unfolding edit_of_def prod.case Let_def old_def [symmetric] new_def [symmetric]
      using True by (simp add: sep_def)
    with u' cur show ?thesis
      by (intro exI [of _ "drop cur u"] exI [of _ "[]"] exI [of _ "sep @ new"] exI [of _ "[]"]) simp
  next
    case False
    from body False obtain cur2 where start: "end_of_file_start (ch_end_of_file c) u cur1 old1 = Inr cur2"
      and rf: "replace_fragment env u cur2 w old1 new1 = Inr (u', cur', w')"
      by (auto simp: res_bind_Inr_iff)
    show ?thesis
    proof (cases "ch_end_of_file c")
      case True
      with start have c2: "cur1 \<le> cur2" "cur2 = length u - length old1" "ends_with old1 u"
        by (auto simp: end_of_file_start_def Let_def split: if_splits)
      then have tail: "drop cur2 u = old1" by (simp add: ends_with_def)
      from replace_fragment_edit [OF law disjI2, OF tail rf] obtain g rest where
        g: "u = take cur2 u @ g @ old1 @ rest" "u' = take cur2 u @ g @ new1 @ rest" "cur' = cur2 + length g + length new1"
        by blast
      let ?g = "take (cur2 - cur) (drop cur u) @ g"
      have split: "take cur2 u = take cur u @ take (cur2 - cur) (drop cur u)"
        using c2(1) h(2) by (metis le_add1 le_add_diff_inverse le_trans take_add)
      have len: "length ?g = cur2 - cur + length g" "cur \<le> cur2" using c2 h(2) by auto
      have "edit_of le c (?g, old1, new1)"
        unfolding edit_of_def prod.case Let_def old_def [symmetric] new_def [symmetric] old1_def new1_def
        using True False by auto
      with g split len show ?thesis
        by (intro exI [of _ ?g] exI [of _ old1] exI [of _ new1] exI [of _ rest]) simp
    next
      case eof: False
      with start have c2: "cur2 = cur1" by (simp add: end_of_file_start_def)
      have same: "old1 = old" "new1 = new" using eof by (simp_all add: old1_def new1_def chop_def)
      have "ends_lines old1 \<and> (new1 = [] \<or> ends_lines new1)" using ends False same by simp
      from replace_fragment_edit [OF law disjI1 [OF this] rf] obtain g rest where
        g: "u = take cur1 u @ g @ old @ rest" "u' = take cur1 u @ g @ new @ rest" "cur' = cur1 + length g + length new"
          "whole_lines g" unfolding same c2 by blast
      have "cur1 \<noteq> length u" using g(1) False by (metis append_is_Nil_conv append_self_conv take_all order_refl)
      then have "edit_of le c (h @ g, old, new)"
        unfolding edit_of_def prod.case Let_def old_def [symmetric] new_def [symmetric]
        using False eof h(4) g(4) by (simp add: whole_lines_append)
      with g h show ?thesis
        by (intro exI [of _ "h @ g"] exI [of _ old] exI [of _ new] exI [of _ rest]) simp
    qed
  qed
qed

lemma fold_changes_edit:
  assumes law: "diffy_law env" and le: "ends_lines le"
  shows "fold_res (apply_change env le) (n @ rest, length n, w) cs = Inr (u', cur', w') \<Longrightarrow> list_all change_lines cs \<Longrightarrow>
    \<exists>es tail. rest = old_text es @ tail \<and> u' = n @ new_text es @ tail \<and> list_all2 (edit_of le) cs es"
proof (induction cs arbitrary: n rest w)
  case Nil
  then show ?case by (intro exI [of _ "[]"] exI [of _ rest]) (simp add: old_text_def new_text_def)
next
  case (Cons c cs)
  then obtain u1 cur1 w1 where step: "apply_change env le (n @ rest, length n, w) c = Inr (u1, cur1, w1)"
    and more: "fold_res (apply_change env le) (u1, cur1, w1) cs = Inr (u', cur', w')"
    by (auto simp: res_bind_Inr_iff)
  have "change_lines c" using Cons.prems(2) by simp
  from apply_change_edit [OF law le this _ step] obtain g b a r where
    s: "rest = g @ b @ r" "u1 = n @ g @ a @ r" "cur1 = length n + length g + length a" "edit_of le c (g, b, a)" by auto
  have "fold_res (apply_change env le) ((n @ g @ a) @ r, length (n @ g @ a), w1) cs = Inr (u', cur', w')"
    using more s(2,3) by (simp add: add.assoc)
  from Cons.IH [OF this] Cons.prems(2) obtain es tail where
    "r = old_text es @ tail" "u' = (n @ g @ a) @ new_text es @ tail" "list_all2 (edit_of le) cs es" by auto
  with s show ?case
    by (intro exI [of _ "(g, b, a) # es"] exI [of _ tail]) (simp add: old_text_def new_text_def)
qed

lemma change_line_lines: "change_lines c \<Longrightarrow> change_line l c = Some c' \<Longrightarrow> change_lines c'"
  by (auto simp: change_line_def change_lines_def push_patch_line_def whole_lines_def split: option.splits if_splits)

lemma push_change_lines:
  "list_all change_lines cs \<Longrightarrow> change_lines c \<Longrightarrow> push_patch_change cs c = (cs', c') \<Longrightarrow>
     list_all change_lines cs' \<and> change_lines c'"
  by (auto simp: push_patch_change_def default_change_def change_lines_def whole_lines_def split: if_splits)

lemma change_lines_update [simp]:
  "change_lines (c\<lparr>ch_anchor := x\<rparr>) = change_lines c" "change_lines (c\<lparr>ch_end_of_file := y\<rparr>) = change_lines c"
  by (simp_all add: change_lines_def)

lemma parse_changes_lines:
  "parse_changes path ls cs c = Inr doc \<Longrightarrow> list_all change_lines cs \<Longrightarrow> change_lines c \<Longrightarrow>
     list_all change_lines (pd_changes doc)"
proof (induction path ls cs c rule: parse_changes.induct)
  case (2 path l ls cs c)
  obtain cs' c' where push: "push_patch_change cs c = (cs', c')" by fastforce
  from push_change_lines [OF "2.prems"(2,3) push] have pushed: "list_all change_lines cs'" "change_lines c'" by auto
  consider "l = ''*** End Patch''" | "l \<noteq> ''*** End Patch''" "ch_end_of_file c"
    | "l \<noteq> ''*** End Patch''" "\<not> ch_end_of_file c" "l = ''@@'' \<or> starts_with ''@@ '' l"
    | "l \<noteq> ''*** End Patch''" "\<not> ch_end_of_file c" "\<not> (l = ''@@'' \<or> starts_with ''@@ '' l)" "l = ''*** End of File''"
    | "l \<noteq> ''*** End Patch''" "\<not> ch_end_of_file c" "\<not> (l = ''@@'' \<or> starts_with ''@@ '' l)" "l \<noteq> ''*** End of File''"
    by blast
  then show ?case
  proof cases
    case 1
    with "2.prems"(1) pushed push show ?thesis by (auto simp: Let_def split: if_splits)
  next
    case 2
    with "2.prems" "2.IH"(1) show ?thesis by (auto split: if_splits)
  next
    case 3
    let ?c = "case strip_prefix ''@@ '' l of
        Some context \<Rightarrow> if context \<noteq> [] then c'\<lparr>ch_anchor := Some context\<rparr> else c' | None \<Rightarrow> c'"
    have "parse_changes path ls cs' ?c = Inr doc" using "2.prems"(1) 3 push by (simp split: if_splits)
    moreover have "change_lines ?c" using pushed(2) by (auto split: option.splits)
    ultimately show ?thesis using "2.IH"(2) [OF 3 push [symmetric]] pushed(1) by blast
  next
    case 4
    with "2.prems" "2.IH"(3) show ?thesis by (simp split: if_splits)
  next
    case 5
    then obtain c1 where "\<not> starts_with ''*** '' l" "change_line l c = Some c1" "parse_changes path ls cs c1 = Inr doc"
      using "2.prems"(1) by (auto split: if_splits option.splits)
    with "2.IH"(4) [OF 5] "2.prems"(2,3) change_line_lines show ?thesis by blast
  qed
qed simp

lemma parse_document_lines: "parse_patch_document input = Inr doc \<Longrightarrow> list_all change_lines (pd_changes doc)"
  by (auto simp: parse_patch_document_def default_change_def change_lines_def whole_lines_def
      split: list.splits if_splits option.splits intro!: parse_changes_lines)

subsection \<open>A concrete differ\<close>

definition whole_differ :: patch_env where
  "whole_differ = \<lparr>
     pv_create = (\<lambda>_ old new. if old = new then []
       else [\<lparr>hk_old_len = length (lines old), hk_new_start = 1, hk_new_len = length (lines new),
              hk_lines = [DeleteLine old, InsertLine new]\<rparr>]),
     pv_apply = (\<lambda>content patch. case patch of
         [h] \<Rightarrow> (case hk_lines h of
             [DeleteLine old, InsertLine new] \<Rightarrow> (case strip_prefix old content of
                 Some rest \<Rightarrow> Inr (new @ rest) | None \<Rightarrow> Inl ''error applying hunk #1'')
           | _ \<Rightarrow> Inl ''error applying hunk #1'')
       | _ \<Rightarrow> Inl ''error applying hunk #1''),
     pv_debug = id\<rparr>"

lemma whole_differ_law: "diffy_law whole_differ"
  by (simp add: diffy_law_def whole_differ_def)

text \<open>The work the concrete differ is charged for one change, and the change it makes when that is allowed.\<close>

lemma whole_differ_replace:
  assumes ne: "old \<noteq> new" and b: "is_char_boundary u cur" "is_char_boundary u (cur + m)"
    and m: "find_patch_fragment (drop cur u) old = Some m" and rest: "strip_prefix old (drop (cur + m) u) = Some rest"
    and work: "w + (length (lines (drop cur u)) + length (lines new)) * (length old + 2) \<le> 33554432"
  shows "\<exists>w'. replace_fragment whole_differ u cur w old new
    = Inr (take (cur + m) u @ new @ rest, cur + m + length new, w')"
proof -
  let ?patch = "pv_create whole_differ (max (length (lines old)) (length (lines new))) old new"
  have patch: "?patch = [\<lparr>hk_old_len = length (lines old), hk_new_start = 1, hk_new_len = length (lines new),
      hk_lines = [DeleteLine old, InsertLine new]\<rparr>]"
    using ne by (simp add: whole_differ_def)
  have le: "sat_add a c \<le> a + c" "sat_mul a c \<le> a * c" for a c by (simp_all add: sat_add_def sat_mul_def)
  let ?il = "sat_add (length (lines (drop cur u))) (length (lines new))"
  have "sat_mul ?il (sat_add (sat_add 0 (length old)) 2) \<le> ?il * sat_add (sat_add 0 (length old)) 2" by (rule le)
  also have "\<dots> \<le> (length (lines (drop cur u)) + length (lines new)) * (length old + 2)"
    by (intro mult_mono le order_trans [OF le(1)]) (simp_all add: order_trans [OF le(1)])
  finally have "\<exists>w'. validate_patch_complexity (drop cur u) ?patch w = Inr w'"
    unfolding patch
    using work order_trans [OF le(1) [of w]]
    by (auto simp: validate_patch_complexity_def charge_patch_work_def hunk_work_def preimage_def Let_def
        MAX_PATCH_MATCH_WORK_def sat_add_def u64_max_def)
  then obtain w' where w': "validate_patch_complexity (drop cur u) ?patch w = Inr w'" ..
  have tail: "patch_tail u i = Inr (drop i u)" if "is_char_boundary u i" for i using that by simp
  have "pv_apply whole_differ (drop (cur + m) u) ?patch = Inr (new @ rest)"
    unfolding patch using rest by (simp add: whole_differ_def)
  then show ?thesis
    unfolding replace_fragment_def Let_def tail [OF b(1)] tail [OF b(2)] res_bind_simps
    using m w' by (simp add: patch tail [OF b(2)])
qed

definition sample_edits :: "patch_edit list" where
  "sample_edits = [\<lparr>ed_anchor = Some ''start'', ed_lines = [Keep ''one'', Remove ''two'', Add ''2''], ed_end_of_file = False\<rparr>]"

definition sample_patch :: string where
  "sample_patch = show_document ''notes.txt'' sample_edits"

definition sample_file :: string where
  "sample_file = unlines [''start'', ''zero'', ''one'', ''two'', ''three'']"

definition sample_patched :: string where
  "sample_patched = unlines [''start'', ''zero'', ''one'', ''2'', ''three'']"

lemma sample_applies:
  "apply_patch_document whole_differ sample_file \<lparr>pd_path = ''notes.txt'', pd_changes = map change_of sample_edits\<rparr>
    = Inr sample_patched"
proof -
  let ?old = "unlines [''one'', ''two'']" and ?new = "unlines [''one'', ''2'']"
  have le: "line_ending_of sample_file = [LF]" by code_simp
  have c: "map change_of sample_edits =
      [\<lparr>ch_anchor = Some ''start'', ch_before = ?old, ch_after = ?new, ch_end_of_file = False\<rparr>]" by code_simp
  have a: "advance_to_anchor whole_differ sample_file 0 (Some ''start'') = Inr 6" by code_simp
  have w: "length (lines (drop 6 sample_file)) = 4" "length (lines ?new) = 2" "length ?old = 8" by code_simp+
  have "\<exists>w'. replace_fragment whole_differ sample_file 6 0 ?old ?new
    = Inr (take (6 + 5) sample_file @ ?new @ unlines [''three''], 6 + 5 + length ?new, w')"
  proof (rule whole_differ_replace)
    show "find_patch_fragment (drop 6 sample_file) ?old = Some 5"
      "strip_prefix ?old (drop (6 + 5) sample_file) = Some (unlines [''three''])"
      "is_char_boundary sample_file 6" "is_char_boundary sample_file (6 + 5)" "?old \<noteq> ?new" by code_simp+
  qed (simp add: w)
  moreover have "take (6 + 5) sample_file @ ?new @ unlines [''three''] = sample_patched" by code_simp
  moreover have "?old \<noteq> []" by code_simp
  ultimately show ?thesis
    by (auto simp: apply_patch_document_def le c apply_change_def a end_of_file_start_def Let_def)
qed

subsection \<open>Properties\<close>

text \<open>
  C32. A patch document is read back as it was written: printing any nonempty list of edits, each a list
  of kept, removed and added lines under an optional anchor, of which only the last may be marked as
  ending the file, gives text that parses to the same path and to changes with exactly these lines.
\<close>

theorem patch_document_roundtrip:
  assumes path: "path \<noteq> []" "one_line path" and edits: "edits_ok edits"
  shows "parse_patch_document (show_document path edits)
    = Inr \<lparr>pd_path = path, pd_changes = map change_of edits\<rparr>"
proof -
  let ?ls = "[''*** Begin Patch'', ''*** Update File: '' @ path] @ concat (map show_edit edits) @ [''*** End Patch'']"
  have "one_line ''*** Begin Patch''" "one_line ''*** Update File: ''" "one_line ''*** End Patch''"
    by (simp_all add: one_line_def)
  then have "\<forall>l \<in> set ?ls. one_line l"
    using path edits by (auto simp: edits_ok_def list_all_iff show_edit_one_line one_line_prefixed simp del: append.simps)
  then have "map strip_cr (lines (show_document path edits)) = ?ls"
    unfolding show_document_def by (subst lines_unlines) (simp_all only: map_strip_cr_one_line)
  then show ?thesis
    using path(1) parse_show_edits [OF edits, of default_change path "[]"]
    by (simp add: parse_patch_document_def strip_prefix_def default_change_def)
qed

theorem patch_document_roundtrip_witness:
  "parse_patch_document sample_patch = Inr \<lparr>pd_path = ''notes.txt'', pd_changes = map change_of sample_edits\<rparr>"
  unfolding sample_patch_def
  by (rule patch_document_roundtrip) (simp_all add: one_line_def edits_ok_def edit_ok_def sample_edits_def)



text \<open>
  An end-of-file change is matched against the end of the file without looking for the start of a line:
  the change from the line \<open>bar\<close> to the line \<open>baz\<close> is accepted for a file whose last line is
  \<open>foobar\<close>.
\<close>

lemma end_of_file_inside_line:
  "apply_patch_document whole_differ (unlines [''foobar'']) \<lparr>pd_path = p, pd_changes = [\<lparr>ch_anchor = None,
      ch_before = unlines [''bar''], ch_after = unlines [''baz''], ch_end_of_file = True\<rparr>]\<rparr> = Inr (unlines [''foobaz''])"
proof -
  let ?old = "unlines [''bar'']" and ?new = "unlines [''baz'']" and ?file = "unlines [''foobar'']"
  have le: "line_ending_of ?file = [LF]" by code_simp
  have s: "end_of_file_start True ?file 0 ?old = Inr 3" "ends_with [LF] ?file" by code_simp+
  have w: "length (lines (drop 3 ?file)) = 1" "length (lines ?new) = 1" "length ?old = 4" by code_simp+
  have "\<exists>w'. replace_fragment whole_differ ?file 3 0 ?old ?new
    = Inr (take (3 + 0) ?file @ ?new @ [], 3 + 0 + length ?new, w')"
  proof (rule whole_differ_replace)
    show "find_patch_fragment (drop 3 ?file) ?old = Some 0"
      "strip_prefix ?old (drop (3 + 0) ?file) = Some []"
      "is_char_boundary ?file 3" "is_char_boundary ?file (3 + 0)" "?old \<noteq> ?new" by code_simp+
  qed (simp add: w)
  moreover have "take (3 + 0) ?file @ ?new @ [] = unlines [''foobaz'']" by code_simp
  moreover have "?old \<noteq> []" by code_simp
  ultimately show ?thesis
    by (auto simp: apply_patch_document_def le apply_change_def advance_to_anchor_def s Let_def)
qed

end
