(* ===== verification/Message_Queue.thy ===== *)
theory Message_Queue
  imports Events
begin

text \<open>
  The durable message queue: the queued message of \<open>src/backend/checkpoint/mod.rs\<close> and the scoped
  queue operations of \<open>src/middleware/context.rs\<close>.  A queue is the list of pending messages of a
  checkpoint; each middleware sees the entries it owns.  Its invariant is that no two entries share
  owner and identity and that it never exceeds \<open>MAX_QUEUED_MESSAGES\<close>; every operation keeps it.
\<close>

text \<open>Code outside the repository that the queue calls: UUID parsing and JSON encoding.\<close>

record codec =
  cd_uuid_ok :: "string \<Rightarrow> bool"
  cd_event_len :: "message_event \<Rightarrow> nat res"
  cd_submission_len :: "message_submission \<Rightarrow> nat res"
  cd_event_value :: "message_event \<Rightarrow> json res"
  cd_files_value :: "session_file_reference list \<Rightarrow> json res"

subsection \<open>One queued message\<close>

definition MAX_QUEUED_MESSAGES :: nat where "MAX_QUEUED_MESSAGES = 1024"
definition MAX_QUEUED_OWNER_BYTES :: nat where "MAX_QUEUED_OWNER_BYTES = 256"
definition MAX_QUEUED_ID_BYTES :: nat where "MAX_QUEUED_ID_BYTES = 4 * 1024"
definition MAX_QUEUED_TURN_ID_BYTES :: nat where "MAX_QUEUED_TURN_ID_BYTES = 4 * 1024"

datatype queued_message_boundary = BTurn | BSteer string | BQueue

fun boundary_delivery :: "queued_message_boundary \<Rightarrow> message_delivery" where
  "boundary_delivery BTurn = DTurn"
| "boundary_delivery (BSteer _) = DSteer"
| "boundary_delivery BQueue = DQueue"

fun starts_turn :: "queued_message_boundary \<Rightarrow> bool" where
  "starts_turn BTurn = True"
| "starts_turn (BSteer _) = False"
| "starts_turn BQueue = True"

record queued_message =
  qm_owner :: string
  qm_id :: string
  qm_boundary :: queued_message_boundary
  qm_author :: message_author
  qm_message :: string
  qm_attachments :: "session_file_reference list"
  qm_reply :: "message_reply option"

definition queued_event :: "queued_message \<Rightarrow> message_event" where
  "queued_event q = \<lparr>me_author = qm_author q, me_delivery = boundary_delivery (qm_boundary q),
     me_text = qm_message q, me_attachments = qm_attachments q, me_reply = qm_reply q, me_target = None\<rparr>"

definition into_parts :: "queued_message \<Rightarrow> string \<times> message_event" where
  "into_parts q = (qm_id q, \<lparr>me_author = qm_author q, me_delivery = boundary_delivery (qm_boundary q),
     me_text = qm_message q, me_attachments = qm_attachments q, me_reply = qm_reply q, me_target = None\<rparr>)"

definition validate_queued_message :: "codec \<Rightarrow> queued_message \<Rightarrow> unit res" where
  "validate_queued_message cd q =
     (if blank (qm_owner q) \<or> MAX_QUEUED_OWNER_BYTES < length (qm_owner q)
      then Inl (Config ''queued message owner is invalid'')
      else if blank (qm_id q) \<or> MAX_QUEUED_ID_BYTES < length (qm_id q)
      then Inl (Config ''queued message ID is invalid'')
      else if (case qm_boundary q of
                 BSteer turn_id \<Rightarrow> blank turn_id \<or> MAX_QUEUED_TURN_ID_BYTES < length turn_id
               | _ \<Rightarrow> False)
      then Inl (Config ''queued message turn ID is invalid'')
      else res_bind (validate_message_content (cd_uuid_ok cd) (qm_author q) (qm_message q) (qm_attachments q))
        (\<lambda>_. case cd_event_len cd (queued_event q) of
            Inl _ \<Rightarrow> Inl (Config ''queued message is invalid'')
          | Inr bytes \<Rightarrow> (if MAX_SERIALIZED_MESSAGE_BYTES < bytes
                         then Inl (Config ''queued message is invalid'') else Inr ())))"

text \<open>A failed build hands the boundary back, so that a replacement can restore it.\<close>

definition assemble ::
    "string \<Rightarrow> string \<Rightarrow> queued_message_boundary \<Rightarrow> message_event
      \<Rightarrow> (error \<times> queued_message_boundary) + queued_message" where
  "assemble owner i boundary event =
     (if me_delivery event \<noteq> boundary_delivery boundary \<or> me_target event \<noteq> None
      then Inl (Config ''queued message event is inconsistent'', boundary)
      else Inr \<lparr>qm_owner = owner, qm_id = i, qm_boundary = boundary, qm_author = me_author event,
             qm_message = me_text event, qm_attachments = me_attachments event, qm_reply = me_reply event\<rparr>)"

definition build ::
    "codec \<Rightarrow> string \<Rightarrow> string \<Rightarrow> queued_message_boundary \<Rightarrow> message_event
      \<Rightarrow> (error \<times> queued_message_boundary) + queued_message" where
  "build cd owner i boundary event =
     res_bind (assemble owner i boundary event) (\<lambda>queued.
       case validate_queued_message cd queued of
         Inr _ \<Rightarrow> Inr queued
       | Inl e \<Rightarrow> Inl (e, qm_boundary queued))"

definition drop_boundary :: "(error \<times> queued_message_boundary) + queued_message \<Rightarrow> queued_message res" where
  "drop_boundary r = (case r of Inl (e, _) \<Rightarrow> Inl e | Inr q \<Rightarrow> Inr q)"

definition queued_new ::
    "codec \<Rightarrow> string \<Rightarrow> string \<Rightarrow> queued_message_boundary \<Rightarrow> message_event \<Rightarrow> queued_message res" where
  "queued_new cd owner i boundary event = drop_boundary (build cd owner i boundary event)"

definition from_validated ::
    "string \<Rightarrow> string \<Rightarrow> queued_message_boundary \<Rightarrow> message_event \<Rightarrow> queued_message res" where
  "from_validated owner i boundary event = drop_boundary (assemble owner i boundary event)"

text \<open>
  \<open>QueuedMessage::replace\<close>: the boundary is taken out before the build (the code leaves \<open>Queue\<close> in
  its place) and put back when the build fails.
\<close>

definition queued_replace :: "codec \<Rightarrow> queued_message \<Rightarrow> string \<Rightarrow> message_event \<Rightarrow> queued_message \<times> unit res" where
  "queued_replace cd self i event =
     (let taken = self\<lparr>qm_boundary := BQueue\<rparr>
      in case build cd (qm_owner taken) i (qm_boundary self) event of
           Inr replacement \<Rightarrow> (replacement, Inr ())
         | Inl (e, boundary) \<Rightarrow> (taken\<lparr>qm_boundary := boundary\<rparr>, Inl e))"

definition promote_to_next_turn :: "queued_message \<Rightarrow> queued_message" where
  "promote_to_next_turn q = q\<lparr>qm_boundary := BQueue\<rparr>"

lemma assemble_Inr_iff:
  "assemble owner i b e = Inr q \<longleftrightarrow> me_delivery e = boundary_delivery b \<and> me_target e = None
     \<and> q = \<lparr>qm_owner = owner, qm_id = i, qm_boundary = b, qm_author = me_author e,
            qm_message = me_text e, qm_attachments = me_attachments e, qm_reply = me_reply e\<rparr>"
  by (auto simp: assemble_def)

lemma assemble_Inl: "assemble owner i b e = Inl (err, b') \<Longrightarrow> b' = b"
  by (auto simp: assemble_def split: if_splits)

lemma build_InlD: "build cd owner i b e = Inl (err, b') \<Longrightarrow> b' = b"
  by (auto simp: build_def res_bind_Inl_iff assemble_Inr_iff dest: assemble_Inl split: sum.splits)

lemma build_InrD:
  "build cd owner i b e = Inr q \<Longrightarrow> qm_owner q = owner \<and> qm_id q = i \<and> qm_boundary q = b
     \<and> validate_queued_message cd q = Inr ()"
  by (auto simp: build_def res_bind_Inr_iff assemble_Inr_iff split: sum.splits)

text \<open>Queueing an event and taking it out again gives the event back.\<close>

lemma from_validated_event: "from_validated owner i b e = Inr q \<Longrightarrow> queued_event q = e \<and> into_parts q = (i, e)"
  by (cases e) (auto simp: from_validated_def drop_boundary_def assemble_Inr_iff queued_event_def into_parts_def
      split: sum.splits)

lemma from_validated_fields:
  "from_validated owner i b e = Inr q \<Longrightarrow> qm_owner q = owner \<and> qm_id q = i \<and> qm_boundary q = b"
  by (auto simp: from_validated_def drop_boundary_def assemble_Inr_iff split: sum.splits)

lemma queued_new_fields:
  "queued_new cd owner i b e = Inr q \<Longrightarrow> qm_owner q = owner \<and> qm_id q = i \<and> qm_boundary q = b"
  by (auto simp: queued_new_def drop_boundary_def dest!: build_InrD split: sum.splits)

text \<open>A failed replacement leaves the message as it was; a successful one keeps owner and boundary.\<close>

lemma queued_replace_Inl: "queued_replace cd q i e = (q', Inl err) \<Longrightarrow> q' = q"
  by (cases q) (auto simp: queued_replace_def Let_def dest: build_InlD split: sum.splits prod.splits)

lemma queued_replace_Inr:
  "queued_replace cd q i e = (q', Inr u) \<Longrightarrow> qm_owner q' = qm_owner q \<and> qm_id q' = i
     \<and> qm_boundary q' = qm_boundary q \<and> queued_event q' = e"
  by (cases e)
     (auto simp: queued_replace_def Let_def build_def res_bind_Inr_iff assemble_Inr_iff queued_event_def
       split: sum.splits prod.splits)

subsection \<open>Model input of a message\<close>

definition MSG_SESSION :: string where "MSG_SESSION = ''Peer {handle}.''"
definition MSG_SESSION_TURN :: string where "MSG_SESSION_TURN = ''Audience: sender.''"
definition MSG_SESSION_STEER :: string where "MSG_SESSION_STEER = ''Audience: current turn.''"
definition MSG_EXTERNAL :: string where "MSG_EXTERNAL = ''Source {handle} (advisory).''"

definition user_message_with_attachments ::
    "codec \<Rightarrow> string \<Rightarrow> session_file_reference list \<Rightarrow> json res" where
  "user_message_with_attachments cd text attachments =
     (if attachments = [] then Inr (user_message text)
      else res_bind (cd_files_value cd attachments)
             (\<lambda>v. Inr (set_field (user_message text) ATTACHMENTS_FIELD v)))"

definition reply_quoted :: "message_event \<Rightarrow> string" where
  "reply_quoted e = (case me_reply e of
      None \<Rightarrow> me_text e
    | Some r \<Rightarrow> ''Replying to this earlier message:'' @ [LF, LF] @ ''> ''
        @ replace_char LF ([LF] @ ''> '') (reply_text r) @ [LF, LF] @ me_text e)"

definition message_instruction :: "message_source \<Rightarrow> message_delivery \<Rightarrow> string" where
  "message_instruction source delivery = (case source of
      SrcExternal _ _ \<Rightarrow> MSG_EXTERNAL
    | _ \<Rightarrow> MSG_SESSION @ '' '' @ (case delivery of DSteer \<Rightarrow> MSG_SESSION_STEER | _ \<Rightarrow> MSG_SESSION_TURN))"

definition message_input :: "codec \<Rightarrow> message_event \<Rightarrow> json res" where
  "message_input cd e = res_bind
     (case me_author e of
        User \<Rightarrow> user_message_with_attachments cd (reply_quoted e) (me_attachments e)
      | Source _ source _ _ handle _ \<Rightarrow> Inr (internal_user_message ''message_advisory''
          (replace_str ''{handle}'' handle (message_instruction source (me_delivery e))
             @ [LF, LF] @ reply_quoted e)))
     (\<lambda>input. res_bind (cd_event_value cd e) (\<lambda>v. Inr (set_field input MESSAGE_METADATA_FIELD v)))"

text \<open>A message prepared for its model boundary.  Every author kind of the code yields a title seed.\<close>

record prepared_message =
  pm_submission_id :: string
  pm_input :: json
  pm_event :: event_msg
  pm_title_seed :: "string option"
  pm_boundary_events :: "event_msg list"

definition prepared_new :: "codec \<Rightarrow> string \<Rightarrow> message_event \<Rightarrow> prepared_message res" where
  "prepared_new cd sid e = res_bind (message_input cd e) (\<lambda>input.
     Inr \<lparr>pm_submission_id = sid, pm_input = input, pm_event = MessageMsg e,
          pm_title_seed = (if trim (me_text e) = [] then None else Some (trim (me_text e))),
          pm_boundary_events = []\<rparr>)"

definition prepare_queued :: "codec \<Rightarrow> queued_message \<Rightarrow> prepared_message res" where
  "prepare_queued cd q = (case into_parts q of (sid, e) \<Rightarrow> prepared_new cd sid e)"

lemma prepare_queued_fields:
  "prepare_queued cd q = Inr p \<Longrightarrow> pm_submission_id p = qm_id q \<and> pm_event p = MessageMsg (queued_event q)"
  by (auto simp: prepare_queued_def prepared_new_def into_parts_def queued_event_def res_bind_Inr_iff)

subsection \<open>Queue operations\<close>

abbreviation owned_id :: "string \<Rightarrow> string \<Rightarrow> queued_message \<Rightarrow> bool" where
  "owned_id owner i q \<equiv> qm_owner q = owner \<and> qm_id q = i"

definition steers :: "string \<Rightarrow> string \<Rightarrow> queued_message \<Rightarrow> bool" where
  "steers owner turn_id q \<longleftrightarrow> qm_owner q = owner \<and> qm_boundary q = BSteer turn_id"

definition not_scoped :: error where
  "not_scoped = Config ''message queue is not scoped to a middleware''"

definition scope_owner :: "string option \<Rightarrow> string res" where
  "scope_owner owner = (case owner of Some x \<Rightarrow> Inr x | None \<Rightarrow> Inl not_scoped)"

definition queue_count :: "string option \<Rightarrow> queued_message list \<Rightarrow> nat" where
  "queue_count owner items = (case owner of None \<Rightarrow> 0
     | Some x \<Rightarrow> length (filter (\<lambda>q. qm_owner q = x) items))"

definition queue_latest :: "string option \<Rightarrow> queued_message list \<Rightarrow> queued_message option" where
  "queue_latest owner items = (case owner of None \<Rightarrow> None
     | Some x \<Rightarrow> find (\<lambda>q. qm_owner q = x) (rev items))"

definition queue_find :: "string option \<Rightarrow> string \<Rightarrow> queued_message list \<Rightarrow> queued_message option" where
  "queue_find owner i items = (case owner of None \<Rightarrow> None | Some x \<Rightarrow> find (owned_id x i) items)"

definition queue_push ::
    "queued_message list \<Rightarrow> string \<Rightarrow> string \<Rightarrow> queued_message \<Rightarrow> queued_message list \<times> bool" where
  "queue_push items owner i item =
     (if MAX_QUEUED_MESSAGES \<le> length items \<or> list_ex (owned_id owner i) items
      then (items, False) else (items @ [item], True))"

definition queue_enqueue ::
    "codec \<Rightarrow> string option \<Rightarrow> queued_message list \<Rightarrow> string \<Rightarrow> queued_message_boundary \<Rightarrow> message_event
      \<Rightarrow> queued_message list \<times> bool res" where
  "queue_enqueue cd scope items i boundary event =
     (case scope_owner scope of Inl e \<Rightarrow> (items, Inl e) | Inr owner \<Rightarrow>
       (case queued_new cd owner i boundary event of Inl e \<Rightarrow> (items, Inl e) | Inr item \<Rightarrow>
         (let (items', ok) = queue_push items owner i item in (items', Inr ok))))"

definition queue_enqueue_validated ::
    "string option \<Rightarrow> queued_message list \<Rightarrow> string \<Rightarrow> queued_message_boundary \<Rightarrow> message_event
      \<Rightarrow> queued_message list \<times> bool res" where
  "queue_enqueue_validated scope items i boundary event =
     (case scope_owner scope of Inl e \<Rightarrow> (items, Inl e) | Inr owner \<Rightarrow>
       (case from_validated owner i boundary event of Inl e \<Rightarrow> (items, Inl e) | Inr item \<Rightarrow>
         (let (items', ok) = queue_push items owner i item in (items', Inr ok))))"

definition queue_replace ::
    "codec \<Rightarrow> string option \<Rightarrow> queued_message list \<Rightarrow> string \<Rightarrow> string \<Rightarrow> message_event
      \<Rightarrow> queued_message list \<times> bool res" where
  "queue_replace cd scope items i replacement_id event =
     (case scope_owner scope of Inl e \<Rightarrow> (items, Inl e) | Inr owner \<Rightarrow>
       (case position (owned_id owner i) items of None \<Rightarrow> (items, Inr False) | Some index \<Rightarrow>
         (if list_ex (\<lambda>(candidate, item). candidate \<noteq> index \<and> owned_id owner replacement_id item)
               (enumerate 0 items)
          then (items, Inr False)
          else (case queued_replace cd (items ! index) replacement_id event of
                  (item, Inl e) \<Rightarrow> (items[index := item], Inl e)
                | (item, Inr _) \<Rightarrow> (items[index := item], Inr True)))))"

text \<open>
  \<open>extract_if\<close> drains lazily: when preparing an extracted message fails, the remaining entries stay
  queued and the error is returned.
\<close>

fun extract_prepared ::
    "('a \<Rightarrow> bool) \<Rightarrow> ('a \<Rightarrow> 'e + 'p) \<Rightarrow> 'a list \<Rightarrow> 'a list \<times> ('e + 'p list)" where
  "extract_prepared P prep [] = ([], Inr [])"
| "extract_prepared P prep (x # xs) =
     (if P x then
        (case prep x of
           Inl e \<Rightarrow> (xs, Inl e)
         | Inr p \<Rightarrow> (case extract_prepared P prep xs of
               (rest, Inl e) \<Rightarrow> (rest, Inl e)
             | (rest, Inr ps) \<Rightarrow> (rest, Inr (p # ps))))
      else (let (rest, r) = extract_prepared P prep xs in (x # rest, r)))"

definition queue_stage ::
    "codec \<Rightarrow> string option \<Rightarrow> queued_message list \<Rightarrow> string
      \<Rightarrow> queued_message list \<times> prepared_message list res" where
  "queue_stage cd scope items turn_id =
     (case scope of None \<Rightarrow> (items, Inr [])
      | Some owner \<Rightarrow> extract_prepared (steers owner turn_id) (prepare_queued cd) items)"

definition queue_next_turn ::
    "codec \<Rightarrow> string option \<Rightarrow> queued_message list \<Rightarrow> prepared_message option res" where
  "queue_next_turn cd scope items =
     res_bind (scope_owner scope) (\<lambda>owner.
       case find (\<lambda>q. qm_owner q = owner \<and> starts_turn (qm_boundary q)) items of
         None \<Rightarrow> Inr None
       | Some q \<Rightarrow> res_bind (prepare_queued cd q) (\<lambda>p. Inr (Some p)))"

definition queue_consume_next_turn ::
    "string option \<Rightarrow> queued_message list \<Rightarrow> string \<Rightarrow> queued_message list \<times> (nat \<times> queued_message) res" where
  "queue_consume_next_turn scope items i =
     (case scope_owner scope of Inl e \<Rightarrow> (items, Inl e) | Inr owner \<Rightarrow>
       (case position (\<lambda>q. owned_id owner i q \<and> starts_turn (qm_boundary q)) items of
          None \<Rightarrow> (items, Inl (CheckpointErr ''prepared message is no longer queued''))
        | Some index \<Rightarrow> (remove_nth index items, Inr (index, items ! index))))"

definition queue_promote_failed_turn ::
    "string option \<Rightarrow> queued_message list \<Rightarrow> string \<Rightarrow> queued_message list \<times> unit res" where
  "queue_promote_failed_turn scope items turn_id =
     (case scope_owner scope of Inl e \<Rightarrow> (items, Inl e) | Inr owner \<Rightarrow>
        (map (\<lambda>q. if steers owner turn_id q then promote_to_next_turn q else q) items, Inr ()))"

subsection \<open>The interface of a bounded queue with unique keys\<close>

text \<open>
  What the router relies on when it retries a submission: a push either appends exactly the new
  entry or changes nothing, and it refuses a key that is present.
\<close>

locale bounded_keyed_queue =
  fixes key :: "'a \<Rightarrow> 'k"
    and cap :: nat
    and push :: "'a list \<Rightarrow> 'a \<Rightarrow> 'a list \<times> bool"
  assumes push_accept: "push q x = (q', True) \<Longrightarrow> q' = q @ [x] \<and> length q < cap \<and> key x \<notin> key ` set q"
    and push_reject: "push q x = (q', False) \<Longrightarrow> q' = q \<and> (cap \<le> length q \<or> key x \<in> key ` set q)"
begin

lemma push_cases:
  obtains (accepted) "push q x = (q @ [x], True)" "length q < cap" "key x \<notin> key ` set q"
        | (rejected) "push q x = (q, False)" "cap \<le> length q \<or> key x \<in> key ` set q"
proof (cases "push q x")
  case (Pair q' b)
  with push_accept [of q x q'] push_reject [of q x q'] that show ?thesis by (cases b) auto
qed

lemma push_keeps_ok:
  "distinct (map key q) \<and> length q \<le> cap \<Longrightarrow>
     distinct (map key (fst (push q x))) \<and> length (fst (push q x)) \<le> cap"
  by (rule push_cases [of q x]) auto

lemma push_retry: "snd (push q x) \<Longrightarrow> push (fst (push q x)) x = (fst (push q x), False)"
  by (rule push_cases [of q x], rule_tac [1] q = "q @ [x]" and x = x in push_cases) auto

lemma push_extends: "\<exists>added. fst (push q x) = q @ added \<and> set added \<subseteq> {x}"
  by (rule push_cases [of q x]) auto

lemma pushes_extend: "\<exists>added. foldl (\<lambda>q x. fst (push q x)) q xs = q @ added \<and> subseq added xs"
proof (induction xs arbitrary: q)
  case (Cons x xs)
  from Cons.IH [of "fst (push q x)"] obtain added
    where a: "foldl (\<lambda>q x. fst (push q x)) (fst (push q x)) xs = fst (push q x) @ added" "subseq added xs"
    by blast
  show ?case
    by (rule push_cases [of q x]) (use a in \<open>auto intro: exI [of _ added] exI [of _ "x # added"]\<close>)
qed simp

lemma pushes_keep_ok:
  "distinct (map key q) \<and> length q \<le> cap \<Longrightarrow>
     distinct (map key (foldl (\<lambda>q x. fst (push q x)) q xs)) \<and> length (foldl (\<lambda>q x. fst (push q x)) q xs) \<le> cap"
  by (induction xs arbitrary: q) (simp_all add: push_keeps_ok)

end

definition queue_key :: "queued_message \<Rightarrow> string \<times> string" where
  "queue_key q = (qm_owner q, qm_id q)"

definition queue_inv :: "queued_message list \<Rightarrow> bool" where
  "queue_inv items \<longleftrightarrow> distinct (map queue_key items) \<and> length items \<le> MAX_QUEUED_MESSAGES"

definition push_entry :: "queued_message list \<Rightarrow> queued_message \<Rightarrow> queued_message list \<times> bool" where
  "push_entry items q = queue_push items (qm_owner q) (qm_id q) q"

interpretation mq: bounded_keyed_queue queue_key MAX_QUEUED_MESSAGES push_entry
proof unfold_locales
  fix q x q'
  show "push_entry q x = (q', True) \<Longrightarrow>
      q' = q @ [x] \<and> length q < MAX_QUEUED_MESSAGES \<and> queue_key x \<notin> queue_key ` set q"
    by (auto simp: push_entry_def queue_push_def queue_key_def list_ex_iff split: if_splits)
  show "push_entry q x = (q', False) \<Longrightarrow>
      q' = q \<and> (MAX_QUEUED_MESSAGES \<le> length q \<or> queue_key x \<in> queue_key ` set q)"
    by (auto simp: push_entry_def queue_push_def queue_key_def list_ex_iff image_iff split: if_splits) metis
qed

lemma queue_push_eq_entry: "qm_owner q = owner \<Longrightarrow> qm_id q = i \<Longrightarrow> queue_push items owner i q = push_entry items q"
  by (simp add: push_entry_def)

subsection \<open>Every operation keeps the invariant\<close>

lemma queue_inv_push [mobius_inv]: "queue_inv items \<Longrightarrow> queue_inv (fst (push_entry items q))"
  unfolding queue_inv_def by (rule mq.push_keeps_ok)

lemma queue_enqueue_push:
  "(\<exists>err. queue_enqueue cd scope items i b e = (items, Inl err))
     \<or> (\<exists>q owner. scope = Some owner \<and> queued_new cd owner i b e = Inr q
          \<and> queue_enqueue cd scope items i b e = map_prod id Inr (push_entry items q))"
  by (auto simp: queue_enqueue_def scope_owner_def push_entry_def
      split: sum.splits option.splits prod.splits dest: queued_new_fields)

lemma queue_enqueue_validated_push:
  "(\<exists>err. queue_enqueue_validated scope items i b e = (items, Inl err))
     \<or> (\<exists>q owner. scope = Some owner \<and> from_validated owner i b e = Inr q
          \<and> queue_enqueue_validated scope items i b e = map_prod id Inr (push_entry items q))"
  by (auto simp: queue_enqueue_validated_def scope_owner_def push_entry_def
      split: sum.splits option.splits prod.splits dest: from_validated_fields)

lemma queue_inv_enqueue [mobius_inv]:
  "queue_inv items \<Longrightarrow> queue_inv (fst (queue_enqueue cd scope items i b e))"
  using queue_enqueue_push [of cd scope items i b e] queue_inv_push by force

lemma queue_inv_enqueue_validated [mobius_inv]:
  "queue_inv items \<Longrightarrow> queue_inv (fst (queue_enqueue_validated scope items i b e))"
  using queue_enqueue_validated_push [of scope items i b e] queue_inv_push by force

lemma distinct_subseq: "subseq xs ys \<Longrightarrow> distinct ys \<Longrightarrow> distinct xs"
  by (induction rule: list_emb.induct) (auto dest: list_emb_set)

lemma queue_inv_subseq: "queue_inv items \<Longrightarrow> subseq items' items \<Longrightarrow> queue_inv items'"
  unfolding queue_inv_def
  by (meson list_emb_length order_trans distinct_subseq subseq_map)

lemma extract_prepared_subseq: "subseq (fst (extract_prepared P prep xs)) xs"
  by (induction xs) (auto simp: Let_def split: sum.splits prod.splits)

lemma extract_prepared_Inr:
  "extract_prepared P prep xs = (rest, Inr ps) \<Longrightarrow>
     rest = filter (\<lambda>x. \<not> P x) xs \<and> map prep (filter P xs) = map Inr ps"
  by (induction xs arbitrary: rest ps) (auto simp: Let_def split: if_splits sum.splits prod.splits)

lemma queue_inv_stage [mobius_inv]: "queue_inv items \<Longrightarrow> queue_inv (fst (queue_stage cd scope items t))"
  by (auto simp: queue_stage_def extract_prepared_subseq split: option.splits intro: queue_inv_subseq)

lemma remove_nth_Cons: "remove_nth i (x # xs) = (case i of 0 \<Rightarrow> xs | Suc j \<Rightarrow> x # remove_nth j xs)"
  by (simp add: remove_nth_def split: nat.split)

lemma subseq_remove_nth: "subseq (remove_nth i xs) xs"
proof (induction xs arbitrary: i)
  case Nil
  then show ?case by (simp add: remove_nth_def)
qed (auto simp: remove_nth_Cons split: nat.split)

lemma queue_inv_consume [mobius_inv]: "queue_inv items \<Longrightarrow> queue_inv (fst (queue_consume_next_turn scope items i))"
  by (auto simp: queue_consume_next_turn_def split: sum.splits option.splits
      intro: queue_inv_subseq [OF _ subseq_remove_nth])

lemma promote_key [simp]: "queue_key (promote_to_next_turn q) = queue_key q"
  by (simp add: queue_key_def promote_to_next_turn_def)

lemma queue_inv_promote [mobius_inv]: "queue_inv items \<Longrightarrow> queue_inv (fst (queue_promote_failed_turn scope items t))"
proof -
  have "map queue_key (map (\<lambda>q. if steers owner t q then promote_to_next_turn q else q) items) = map queue_key items" for owner
    by simp
  then show "queue_inv items \<Longrightarrow> ?thesis"
    by (auto simp: queue_inv_def queue_promote_failed_turn_def simp del: map_map split: sum.splits)
qed

text \<open>Replacing an entry in place by one with a fresh key keeps keys unique.\<close>

lemma distinct_map_update:
  assumes "distinct (map f xs)" and "i < length xs"
    and "\<And>j. j < length xs \<Longrightarrow> j \<noteq> i \<Longrightarrow> f (xs ! j) \<noteq> f y"
  shows "distinct (map f (xs[i := y]))"
  using assms unfolding distinct_conv_nth
  by (simp add: nth_list_update) metis

lemma queue_inv_replace [mobius_inv]:
  assumes "queue_inv items"
  shows "queue_inv (fst (queue_replace cd scope items i r e))"
proof (cases scope)
  case None
  with assms show ?thesis by (simp add: queue_replace_def scope_owner_def)
next
  case (Some owner)
  show ?thesis
  proof (cases "position (owned_id owner i) items")
    case None
    then show ?thesis using assms Some
      by (simp add: queue_replace_def scope_owner_def None del: position_None)
  next
    case (Some index)
    note pos = position_SomeD [OF Some]
    obtain item u where rep: "queued_replace cd (items ! index) r e = (item, u)" by fastforce
    let ?clash = "list_ex (\<lambda>(c, q). c \<noteq> index \<and> owned_id owner r q) (enumerate 0 items)"
    have "queue_inv (items[index := item])" if "\<not> ?clash"
    proof (cases u)
      case (Inl err)
      with rep have "item = items ! index" by (simp add: queued_replace_Inl)
      with assms show ?thesis by simp
    next
      case (Inr v)
      with rep pos have "queue_key item = (owner, r)"
        using queued_replace_Inr [of cd "items ! index" r e item v] by (simp add: queue_key_def)
      moreover have "queue_key (items ! j) \<noteq> (owner, r)" if "j < length items" "j \<noteq> index" for j
        using \<open>\<not> ?clash\<close> that by (fastforce simp: list_ex_iff in_set_enumerate_eq queue_key_def)
      ultimately show ?thesis
        using assms pos by (simp add: queue_inv_def distinct_map_update)
    qed
    with Some assms rep \<open>scope = Some owner\<close> show ?thesis
      by (auto simp: queue_replace_def scope_owner_def split: sum.splits)
  qed
qed

subsection \<open>Queue runs\<close>

text \<open>
  Any sequence of queue operations, in any order and with any scope, as a step relation; the
  reachable queues satisfy the invariant.
\<close>

inductive queue_step :: "codec \<Rightarrow> queued_message list \<Rightarrow> queued_message list \<Rightarrow> bool" for cd where
  step_enqueue: "queue_step cd items (fst (queue_enqueue cd scope items i b e))"
| step_enqueue_validated: "queue_step cd items (fst (queue_enqueue_validated scope items i b e))"
| step_replace: "queue_step cd items (fst (queue_replace cd scope items i r e))"
| step_stage: "queue_step cd items (fst (queue_stage cd scope items t))"
| step_consume: "queue_step cd items (fst (queue_consume_next_turn scope items i))"
| step_promote: "queue_step cd items (fst (queue_promote_failed_turn scope items t))"

inductive queue_reachable :: "codec \<Rightarrow> queued_message list \<Rightarrow> bool" for cd where
  reach_empty: "queue_reachable cd []"
| reach_step: "queue_reachable cd items \<Longrightarrow> queue_step cd items items' \<Longrightarrow> queue_reachable cd items'"

lemma queue_step_inv: "queue_step cd items items' \<Longrightarrow> queue_inv items \<Longrightarrow> queue_inv items'"
  by (induction rule: queue_step.induct) (simp_all add: mobius_inv)

lemma queue_reachable_inv: "queue_reachable cd items \<Longrightarrow> queue_inv items"
  by (induction rule: queue_reachable.induct) (auto simp: queue_inv_def dest: queue_step_inv [unfolded queue_inv_def])

subsection \<open>What the operations deliver\<close>

lemma find_position: "find P xs = map_option (\<lambda>i. xs ! i) (position P xs)"
  by (induction xs) (auto simp: option.map_comp comp_def)

text \<open>
  The two-phase start of a turn: the message \<open>next_turn\<close> shows is the one \<open>consume_next_turn\<close>
  removes, given that keys are unique.
\<close>

lemma position_cong_found:
  assumes "position P xs = Some i" and "\<And>j. j < length xs \<Longrightarrow> Q (xs ! j) \<Longrightarrow> P (xs ! j)" and "Q (xs ! i)"
  shows "position Q xs = Some i"
  using assms by (auto simp: position_Some_iff dest: less_trans)

lemma consume_shown_message:
  assumes shown: "queue_next_turn cd (Some owner) items = Inr (Some p)"
  shows "\<exists>i < length items. starts_turn (qm_boundary (items ! i)) \<and> qm_owner (items ! i) = owner
     \<and> prepare_queued cd (items ! i) = Inr p
     \<and> (\<forall>j < i. qm_owner (items ! j) = owner \<longrightarrow> \<not> starts_turn (qm_boundary (items ! j)))
     \<and> queue_consume_next_turn (Some owner) items (pm_submission_id p) = (remove_nth i items, Inr (i, items ! i))"
proof -
  let ?P = "\<lambda>q. qm_owner q = owner \<and> starts_turn (qm_boundary q)"
  from shown obtain q where q: "find ?P items = Some q" "prepare_queued cd q = Inr p"
    by (auto simp: queue_next_turn_def scope_owner_def res_bind_Inr_iff split: option.splits)
  then obtain i where i: "position ?P items = Some i" "q = items ! i" by (auto simp: find_position)
  note pos = position_SomeD [OF i(1)]
  have "position (\<lambda>x. owned_id owner (qm_id q) x \<and> starts_turn (qm_boundary x)) items = Some i"
    by (rule position_cong_found [OF i(1)]) (use pos i(2) in auto)
  then have "queue_consume_next_turn (Some owner) items (pm_submission_id p) = (remove_nth i items, Inr (i, items ! i))"
    using prepare_queued_fields [OF q(2)] by (simp add: queue_consume_next_turn_def scope_owner_def)
  with pos i(2) q(2) show ?thesis by (intro exI [of _ i]) simp
qed

lemma not_steers_promoted: "\<not> steers owner t (promote_to_next_turn q)"
  by (simp add: steers_def promote_to_next_turn_def)

text \<open>
  A failed turn loses no message: its steering entries become turn starters in place, all other
  entries are untouched, and afterwards no entry steers the failed turn.
\<close>

lemma promote_effect:
  assumes "queue_promote_failed_turn (Some owner) items t = (items', r)"
  shows "r = Inr () \<and> map queue_key items' = map queue_key items
     \<and> (\<forall>i < length items. items' ! i = (if steers owner t (items ! i)
            then (items ! i)\<lparr>qm_boundary := BQueue\<rparr> else items ! i))
     \<and> (\<forall>q \<in> set items'. \<not> steers owner t q)"
proof -
  have eq: "items' = map (\<lambda>q. if steers owner t q then promote_to_next_turn q else q) items" "r = Inr ()"
    using assms by (simp_all add: queue_promote_failed_turn_def scope_owner_def)
  have "map queue_key items' = map queue_key items" by (simp add: eq)
  moreover have "\<not> steers owner t q" if in_q: "q \<in> set items'" for q
  proof -
    from in_q obtain x where x: "q = (if steers owner t x then promote_to_next_turn x else x)"
      unfolding eq(1) set_map by (elim imageE)
    then show ?thesis by (cases "steers owner t x") (simp_all add: not_steers_promoted)
  qed
  moreover have "items' ! i = (if steers owner t (items ! i) then (items ! i)\<lparr>qm_boundary := BQueue\<rparr> else items ! i)"
    if "i < length items" for i
    using that by (simp add: eq(1) promote_to_next_turn_def)
  ultimately show ?thesis using eq(2) by blast
qed

end
