(* ===== verification/Journal.thy ===== *)
theory Journal
  imports Message_Queue
begin

text \<open>
  The event journal of \<open>src/backend/checkpoint/sqlite_event.rs\<close> and its queries in
  \<open>src/backend/checkpoint/sqlite.rs\<close>.  One session's part of the database is a record: the event
  high-water mark of the \<open>sessions\<close> row, the \<open>event_journal\<close> rows and the \<open>transcript_delta\<close> rows,
  each table in primary-key order.  JSON columns hold the value they encode.  A database is a map from
  session id to its part; every statement of the code selects by one session id.
\<close>

definition out_of_range :: string where
  "out_of_range = ''out of range integral type conversion attempted''"

subsection \<open>Rows\<close>

datatype stored_event =
    Inline event
  | ToolOutput "string option" string string string bool nat nat

record stream_metrics =
  sm_phase :: model_step_content_phase
  sm_first_delta_at_ms :: int
  sm_last_delta_at_ms :: int
  sm_chunk_count :: nat
  sm_utf8_bytes :: nat
  sm_longest_gap_ms :: nat

record journal_row =
  jr_sequence :: nat
  jr_recorded_at_ms :: int
  jr_kind :: string
  jr_model_step_id :: "string option"
  jr_stream_phase :: "string option"
  jr_delta_bytes :: "int option"
  jr_stored :: stored_event
  jr_metrics :: "stream_metrics list"

record session_db =
  db_latest_event_sequence :: nat
  db_journal :: "journal_row list"
  db_transcript :: "(nat \<times> json list) list"

record journal_event =
  je_sequence :: nat
  je_recorded_at_ms :: int
  je_event :: event
  je_stream_metrics :: "stream_metrics list"

record journal_page =
  ep_latest_sequence :: nat
  ep_events :: "journal_event list"
  ep_next_before_sequence :: "nat option"

subsection \<open>Storing an event\<close>

text \<open>\<open>item[key]\<close> on a JSON value is \<open>Null\<close> when the key is missing, so the accessors below agree with \<open>get\<close>.\<close>

definition text_part_matches :: "json \<Rightarrow> content_part \<Rightarrow> bool" where
  "text_part_matches stored part = (case part of
      PText text \<Rightarrow> (case as_object stored of Some fs \<Rightarrow> length fs = 2 | None \<Rightarrow> False)
        \<and> get_str ''type'' stored = Some ''input_text'' \<and> get_str ''text'' stored = Some text
    | _ \<Rightarrow> False)"

definition matching_output :: "json \<Rightarrow> tool_call_end_event \<Rightarrow> bool" where
  "matching_output item call \<longleftrightarrow>
     get_str ''type'' item = Some ''function_call_output''
   \<and> get_str ''call_id'' item = Some (te_call_id call)
   \<and> Option.bind (json_get TOOL_ERROR_FIELD item) as_bool = Some (te_is_error call)
   \<and> (case get_array ''output'' item of None \<Rightarrow> False
      | Some parts \<Rightarrow> length parts = length (te_output call)
          \<and> list_all2 text_part_matches parts (te_output call))"

fun text_bytes :: "nat \<Rightarrow> content_part list \<Rightarrow> nat option" where
  "text_bytes n [] = Some n"
| "text_bytes n (PText text # parts) = text_bytes (sat_add n (length text)) parts"
| "text_bytes n (_ # parts) = None"

definition stored_event_of :: "event \<Rightarrow> (nat \<times> json list) option \<Rightarrow> stored_event" where
  "stored_event_of e transcript = (case (ev_msg e, transcript) of
      (ToolCallEnd call, Some (transcript_sequence, items)) \<Rightarrow>
        (case text_bytes 0 (te_output call) of
           None \<Rightarrow> Inline e
         | Some bytes \<Rightarrow>
             (if bytes \<le> 4096 then Inline e
              else (case position (\<lambda>item. matching_output item call) items of
                      None \<Rightarrow> Inline e
                    | Some item_index \<Rightarrow> ToolOutput (ev_submission_id e) (te_turn_id call) (te_call_id call)
                        (te_name call) (te_is_error call) transcript_sequence item_index)))
    | _ \<Rightarrow> Inline e)"

text \<open>The index columns of an event: its kind, model step, stream phase and delta length.\<close>

fun stream_phase_name :: "model_step_content_phase \<Rightarrow> string" where
  "stream_phase_name Reasoning = ''reasoning''"
| "stream_phase_name Commentary = ''commentary''"
| "stream_phase_name FinalAnswer = ''final_answer''"

fun event_kind_step :: "event_msg \<Rightarrow> string \<times> string option" where
  "event_kind_step (ErrorMsg _) = (''error'', None)"
| "event_kind_step (Warning _) = (''warning'', None)"
| "event_kind_step (SubmissionRejected _) = (''submission_rejected'', None)"
| "event_kind_step (SessionConfigured _) = (''session_configured'', None)"
| "event_kind_step (TurnStarted _) = (''turn_started'', None)"
| "event_kind_step (TurnComplete _) = (''turn_complete'', None)"
| "event_kind_step (TurnAborted _) = (''turn_aborted'', None)"
| "event_kind_step (MessageMsg _) = (''message'', None)"
| "event_kind_step (MessageDelta _) = (''message_delta'', None)"
| "event_kind_step (AssistantMessage m) = (''assistant_message'', Some (am_model_step_id m))"
| "event_kind_step (AssistantContentDelta d) = (''assistant_content_delta'', Some (ad_model_step_id d))"
| "event_kind_step (ModelStepStarted s) = (''model_step_started'', Some (ss_model_step_id s))"
| "event_kind_step (ModelStepCompleted s) = (''model_step_completed'', Some (se_model_step_id s))"
| "event_kind_step (SessionHistory _) = (''session_history'', None)"
| "event_kind_step (ModelChanged _) = (''model_changed'', None)"
| "event_kind_step (SessionResumeRequested _) = (''session_resume_requested'', None)"
| "event_kind_step (ToolCallBegin _) = (''tool_call_begin'', None)"
| "event_kind_step (ToolCallEnd _) = (''tool_call_end'', None)"
| "event_kind_step (ToolLoadMsg _) = (''tool_load'', None)"
| "event_kind_step (ExecApprovalRequest _) = (''exec_approval_request'', None)"
| "event_kind_step (TokenCount _) = (''token_count'', None)"
| "event_kind_step ContextCompacted = (''context_compacted'', None)"
| "event_kind_step (WebSearchBegin s) = (''web_search_begin'', Some (wb_model_step_id s))"
| "event_kind_step (WebSearchEnd s) = (''web_search_end'', Some (we_model_step_id s))"
| "event_kind_step (Frontend _) = (''frontend'', None)"

record event_index_row =
  ix_kind :: string
  ix_model_step_id :: "string option"
  ix_stream_phase :: "model_step_content_phase option"
  ix_delta_bytes :: "int option"

definition event_index :: "event_msg \<Rightarrow> event_index_row res" where
  "event_index e = (case event_kind_step e of (kind, step) \<Rightarrow>
     (case e of
        AssistantContentDelta d \<Rightarrow>
          (if int (length (ad_delta d)) \<le> i64_max
           then Inr \<lparr>ix_kind = kind, ix_model_step_id = step, ix_stream_phase = Some (ad_phase d),
                     ix_delta_bytes = Some (int (length (ad_delta d)))\<rparr>
           else Inl (CheckpointErr (''stream delta length exceeds SQLite INTEGER: '' @ out_of_range)))
      | _ \<Rightarrow> Inr \<lparr>ix_kind = kind, ix_model_step_id = step, ix_stream_phase = None, ix_delta_bytes = None\<rparr>))"

definition TRANSIENT_BLOCK_ID_PREFIX :: string where "TRANSIENT_BLOCK_ID_PREFIX = ''transient:''"

definition is_transient_event :: "event_msg \<Rightarrow> bool" where
  "is_transient_event e = (case e of
      SessionHistory _ \<Rightarrow> True
    | SessionResumeRequested _ \<Rightarrow> True
    | Frontend f \<Rightarrow> (case f of
          Picker _ _ \<Rightarrow> True
        | Preview _ _ _ _ _ _ _ _ _ _ _ _ \<Rightarrow> True
        | Widget _ _ \<Rightarrow> True
        | RemoveWidget _ _ \<Rightarrow> True
        | Render _ block \<Rightarrow> (case fb_id block of None \<Rightarrow> False
              | Some i \<Rightarrow> starts_with TRANSIENT_BLOCK_ID_PREFIX i)
        | OpenSession _ \<Rightarrow> False)
    | _ \<Rightarrow> False)"

subsection \<open>Stream metrics\<close>

record stream_metric_accumulator =
  ac_first_delta_at_ms :: "int option"
  ac_last_delta_at_ms :: "int option"
  ac_chunk_count :: nat
  ac_utf8_bytes :: nat
  ac_longest_gap_ms :: nat

definition metric_default :: stream_metric_accumulator where
  "metric_default = \<lparr>ac_first_delta_at_ms = None, ac_last_delta_at_ms = None, ac_chunk_count = 0,
     ac_utf8_bytes = 0, ac_longest_gap_ms = 0\<rparr>"

definition metric_observe :: "stream_metric_accumulator \<Rightarrow> int \<Rightarrow> int \<Rightarrow> stream_metric_accumulator res" where
  "metric_observe self recorded_at_ms bytes =
     (if bytes < 0 then Inl (CheckpointErr (''stream delta has a negative length: '' @ out_of_range))
      else
        (let self = (case ac_last_delta_at_ms self of
              Some previous \<Rightarrow>
                (let recorded = max recorded_at_ms previous
                 in self\<lparr>ac_longest_gap_ms := max (ac_longest_gap_ms self) (nat (recorded - previous)),
                         ac_last_delta_at_ms := Some recorded\<rparr>)
            | None \<Rightarrow> self\<lparr>ac_first_delta_at_ms := Some recorded_at_ms, ac_last_delta_at_ms := Some recorded_at_ms\<rparr>)
         in (case u64_checked_add (ac_chunk_count self) 1 of
               None \<Rightarrow> Inl (CheckpointErr ''stream chunk count overflow'')
             | Some chunks \<Rightarrow>
                 (case u64_checked_add (ac_utf8_bytes self) (nat bytes) of
                    None \<Rightarrow> Inl (CheckpointErr ''stream byte count overflow'')
                  | Some total_bytes \<Rightarrow> Inr (self\<lparr>ac_chunk_count := chunks, ac_utf8_bytes := total_bytes\<rparr>)))))"

definition metric_finish :: "stream_metric_accumulator \<Rightarrow> model_step_content_phase \<Rightarrow> stream_metrics option" where
  "metric_finish self phase = Option.bind (ac_first_delta_at_ms self) (\<lambda>first.
     Option.bind (ac_last_delta_at_ms self) (\<lambda>last_ms.
       Some \<lparr>sm_phase = phase, sm_first_delta_at_ms = first, sm_last_delta_at_ms = last_ms,
         sm_chunk_count = ac_chunk_count self, sm_utf8_bytes = ac_utf8_bytes self,
         sm_longest_gap_ms = ac_longest_gap_ms self\<rparr>))"

fun observe_rows ::
    "(string \<times> int \<times> int) list
      \<Rightarrow> stream_metric_accumulator \<times> stream_metric_accumulator \<times> stream_metric_accumulator
      \<Rightarrow> (stream_metric_accumulator \<times> stream_metric_accumulator \<times> stream_metric_accumulator) res" where
  "observe_rows [] acc = Inr acc"
| "observe_rows ((phase, at, bytes) # rows) (r, c, f) =
     (if phase = ''reasoning'' then res_bind (metric_observe r at bytes) (\<lambda>r. observe_rows rows (r, c, f))
      else if phase = ''commentary'' then res_bind (metric_observe c at bytes) (\<lambda>c. observe_rows rows (r, c, f))
      else if phase = ''final_answer'' then res_bind (metric_observe f at bytes) (\<lambda>f. observe_rows rows (r, c, f))
      else Inl (CheckpointErr ''event journal contains an unknown stream phase''))"

definition stream_rows :: "journal_row list \<Rightarrow> string \<Rightarrow> (string \<times> int \<times> int) list" where
  "stream_rows journal step = List.map_filter (\<lambda>row.
     if jr_model_step_id row = Some step then
       (case (jr_stream_phase row, jr_delta_bytes row) of
          (Some phase, Some bytes) \<Rightarrow> Some (phase, jr_recorded_at_ms row, bytes)
        | _ \<Rightarrow> None)
     else None) journal"

definition load_stream_metrics :: "journal_row list \<Rightarrow> string \<Rightarrow> stream_metrics list res" where
  "load_stream_metrics journal step =
     res_bind (observe_rows (stream_rows journal step) (metric_default, metric_default, metric_default))
       (\<lambda>(r, c, f). Inr (List.map_filter id
          [metric_finish r Reasoning, metric_finish c Commentary, metric_finish f FinalAnswer]))"

subsection \<open>The journal transaction\<close>

record timestamped_event =
  tm_recorded_at_ms :: int
  tm_event :: event

definition inline_submission :: "stored_event \<Rightarrow> string option" where
  "inline_submission s = (case s of Inline e \<Rightarrow> ev_submission_id e | ToolOutput _ _ _ _ _ _ _ \<Rightarrow> None)"

text \<open>
  The rows dropped after an insert: the progressive deltas that a complete message supersedes (an SQL
  comparison with \<open>NULL\<close> selects nothing), all but the newest token count, and a transient event itself.
\<close>

definition superseded :: "event \<Rightarrow> event_index_row \<Rightarrow> nat \<Rightarrow> journal_row \<Rightarrow> bool" where
  "superseded e index sequence row =
     (case ev_msg e of
        MessageMsg _ \<Rightarrow> jr_kind row = ''message_delta'' \<and> ev_submission_id e \<noteq> None
          \<and> inline_submission (jr_stored row) = ev_submission_id e
      | _ \<Rightarrow>
          (if (case ev_msg e of AssistantMessage m \<Rightarrow> am_content m \<noteq> [] | _ \<Rightarrow> False) \<and> ix_model_step_id index \<noteq> None
           then jr_model_step_id row = ix_model_step_id index \<and> jr_kind row = ''assistant_content_delta''
           else if ix_kind index = ''token_count''
           then jr_kind row = ''token_count'' \<and> jr_sequence row < sequence
           else False))"

definition retain_rows :: "event \<Rightarrow> event_index_row \<Rightarrow> nat \<Rightarrow> journal_row list \<Rightarrow> journal_row list" where
  "retain_rows e index sequence rows =
     filter (\<lambda>row. \<not> (is_transient_event (ev_msg e) \<and> jr_sequence row = sequence))
       (filter (\<lambda>row. \<not> superseded e index sequence row) rows)"

definition event_metrics :: "event_index_row \<Rightarrow> journal_row list \<Rightarrow> stream_metrics list res" where
  "event_metrics index journal =
     (if ix_kind index = ''model_step_completed''
      then (case ix_model_step_id index of None \<Rightarrow> Inr [] | Some step \<Rightarrow> load_stream_metrics journal step)
      else Inr [])"

definition event_row ::
    "timestamped_event \<Rightarrow> event_index_row \<Rightarrow> nat \<Rightarrow> (nat \<times> json list) option \<Rightarrow> stream_metrics list \<Rightarrow> journal_row" where
  "event_row te index sequence transcript metrics =
     \<lparr>jr_sequence = sequence, jr_recorded_at_ms = tm_recorded_at_ms te, jr_kind = ix_kind index,
      jr_model_step_id = ix_model_step_id index,
      jr_stream_phase = map_option stream_phase_name (ix_stream_phase index),
      jr_delta_bytes = ix_delta_bytes index,
      jr_stored = stored_event_of (tm_event te) transcript, jr_metrics = metrics\<rparr>"

definition store_event ::
    "session_db option \<Rightarrow> timestamped_event \<Rightarrow> (nat \<times> json list) option
      \<Rightarrow> (session_db \<times> journal_event) res" where
  "store_event database te transcript =
     (if tm_recorded_at_ms te < 0 then Inl (CheckpointErr ''event journal timestamp cannot be negative'')
      else res_bind (event_index (ev_msg (tm_event te))) (\<lambda>index.
        (case database of
           None \<Rightarrow> Inl (CheckpointErr ''event journal session does not exist'')
         | Some db \<Rightarrow>
             (case i64_checked_add (int (db_latest_event_sequence db)) 1 of
                None \<Rightarrow> Inl (CheckpointErr ''event journal sequence overflow'')
              | Some next_sequence \<Rightarrow>
                  res_bind (event_metrics index (db_journal db)) (\<lambda>metrics.
                    let sequence = nat next_sequence
                    in Inr (db\<lparr>db_latest_event_sequence := sequence,
                               db_journal := retain_rows (tm_event te) index sequence
                                 (db_journal db @ [event_row te index sequence transcript metrics])\<rparr>,
                            \<lparr>je_sequence = sequence, je_recorded_at_ms = tm_recorded_at_ms te,
                             je_event = tm_event te, je_stream_metrics = metrics\<rparr>))))))"

fun store_events ::
    "session_db option \<Rightarrow> timestamped_event list \<Rightarrow> (nat \<times> json list) option
      \<Rightarrow> (session_db option \<times> journal_event list) res" where
  "store_events database [] transcript = Inr (database, [])"
| "store_events database (e # es) transcript =
     res_bind (store_event database e transcript) (\<lambda>(db, record).
       res_bind (store_events (Some db) es transcript) (\<lambda>(database', records). Inr (database', record # records)))"

text \<open>\<open>append_event\<close> commits on success only; an error leaves the database as it was.\<close>

definition append_event :: "session_db option \<Rightarrow> int \<Rightarrow> event \<Rightarrow> session_db option \<times> journal_event res" where
  "append_event database at e =
     (case store_event database \<lparr>tm_recorded_at_ms = at, tm_event = e\<rparr> None of
        Inl err \<Rightarrow> (database, Inl err)
      | Inr (db, record) \<Rightarrow> (Some db, Inr record))"

subsection \<open>Reading the journal\<close>

text \<open>
  Third-party code of the read path: parsing JSON text, decoding tool content from a JSON value, and
  the text of a column type error.  \<open>json_extract\<close> gives SQL \<open>NULL\<close> for a missing or null element, the
  raw text of a string and no text for a number or boolean.
\<close>

record journal_codec =
  jc_parse :: "string \<Rightarrow> json res"
  jc_content :: "json \<Rightarrow> tool_content res"
  jc_column_error :: string

definition invalid_reference :: error where
  "invalid_reference = CheckpointErr ''tool event transcript reference is missing or invalid''"

definition extract_item :: "journal_codec \<Rightarrow> json list \<Rightarrow> nat \<Rightarrow> json res" where
  "extract_item jc items index =
     (if length items \<le> index then Inl invalid_reference
      else (case items ! index of
              JNull \<Rightarrow> Inl invalid_reference
            | JString text \<Rightarrow> jc_parse jc text
            | JBool _ \<Rightarrow> Inl (Sqlite (jc_column_error jc))
            | JNumber _ \<Rightarrow> Inl (Sqlite (jc_column_error jc))
            | item \<Rightarrow> Inr item))"

definition decode_event :: "journal_codec \<Rightarrow> session_db \<Rightarrow> stored_event \<Rightarrow> event res" where
  "decode_event jc db stored = (case stored of
      Inline e \<Rightarrow> Inr e
    | ToolOutput submission_id turn_id call_id name is_error transcript_sequence item_index \<Rightarrow>
        (case map_of (db_transcript db) transcript_sequence of
           None \<Rightarrow> Inl invalid_reference
         | Some items \<Rightarrow>
             res_bind (extract_item jc items item_index) (\<lambda>item.
               if get_str ''type'' item \<noteq> Some ''function_call_output''
                 \<or> get_str ''call_id'' item \<noteq> Some call_id
                 \<or> Option.bind (json_get TOOL_ERROR_FIELD item) as_bool \<noteq> Some is_error
               then Inl invalid_reference
               else res_bind (jc_content jc (case json_get ''output'' item of Some v \<Rightarrow> v | None \<Rightarrow> JNull))
                      (\<lambda>out. Inr \<lparr>ev_submission_id = submission_id,
                         ev_msg = ToolCallEnd \<lparr>te_turn_id = turn_id, te_call_id = call_id, te_name = name,
                           te_output = out, te_is_error = is_error\<rparr>\<rparr>))))"

definition decode_journal_event :: "journal_codec \<Rightarrow> session_db \<Rightarrow> journal_row \<Rightarrow> journal_event res" where
  "decode_journal_event jc db row = res_bind (decode_event jc db (jr_stored row)) (\<lambda>e.
     Inr \<lparr>je_sequence = jr_sequence row, je_recorded_at_ms = jr_recorded_at_ms row, je_event = e,
          je_stream_metrics = jr_metrics row\<rparr>)"

definition below :: "('a \<Rightarrow> nat) \<Rightarrow> nat option \<Rightarrow> 'a list \<Rightarrow> 'a list" where
  "below key cursor xs = filter (\<lambda>x. case cursor of None \<Rightarrow> True | Some c \<Rightarrow> key x < c) xs"

definition event_page :: "journal_codec \<Rightarrow> session_db option \<Rightarrow> nat option \<Rightarrow> nat \<Rightarrow> journal_page res" where
  "event_page jc database before_sequence limit =
     (if limit = 0 then Inl (CheckpointErr ''event journal page limit must be positive'')
      else if u64_max < limit + 1 \<or> i64_max < int (limit + 1)
      then Inl (CheckpointErr ''event journal page limit is too large'')
      else if (case before_sequence of None \<Rightarrow> False | Some b \<Rightarrow> i64_max < int b)
      then Inl (CheckpointErr (''event journal cursor exceeds SQLite INTEGER: '' @ out_of_range))
      else (case database of
              None \<Rightarrow> Inl (CheckpointErr ''event journal session does not exist'')
            | Some db \<Rightarrow>
                (let rows = take (limit + 1) (below jr_sequence before_sequence (rev (db_journal db)));
                     has_more = limit < length rows
                 in res_bind (map_res (decode_journal_event jc db) (take limit rows)) (\<lambda>events.
                      Inr \<lparr>ep_latest_sequence = db_latest_event_sequence db, ep_events = events,
                           ep_next_before_sequence =
                             (if has_more then (if events = [] then None else Some (je_sequence (last events)))
                              else None)\<rparr>))))"

definition events_after ::
    "journal_codec \<Rightarrow> session_db option \<Rightarrow> nat \<Rightarrow> nat \<Rightarrow> journal_event list res" where
  "events_after jc database after_sequence limit =
     (if limit = 0 then Inl (CheckpointErr ''event catch-up limit must be positive'')
      else if i64_max < int after_sequence
      then Inl (CheckpointErr (''event cursor exceeds SQLite INTEGER: '' @ out_of_range))
      else if i64_max < int limit
      then Inl (CheckpointErr (''event limit exceeds SQLite INTEGER: '' @ out_of_range))
      else (case database of None \<Rightarrow> Inr []
            | Some db \<Rightarrow> map_res (decode_journal_event jc db)
                (take limit (filter (\<lambda>row. after_sequence < jr_sequence row) (db_journal db)))))"

text \<open>Continuing at the cursor a page returns reads strictly fewer rows: the page loops terminate.\<close>

definition rows_below :: "session_db option \<Rightarrow> nat option \<Rightarrow> nat" where
  "rows_below database cursor = (case database of None \<Rightarrow> 0
     | Some db \<Rightarrow> length (below jr_sequence cursor (db_journal db)))"

lemma map_res_last:
  "map_res f xs = Inr ys \<Longrightarrow> ys \<noteq> [] \<Longrightarrow> xs \<noteq> [] \<and> f (last xs) = Inr (last ys)"
  using map_res_Inr_D [of f xs ys]
  by (metis diff_less last_conv_nth length_0_conv length_greater_0_conv zero_less_one)

lemma decode_journal_event_sequence: "decode_journal_event jc db row = Inr j \<Longrightarrow> je_sequence j = jr_sequence row"
  by (auto simp: decode_journal_event_def res_bind_Inr_iff)

lemma length_below_less:
  assumes "x \<in> set (below key c xs)"
  shows "length (below key (Some (key x)) xs) < length (below key c xs)"
proof -
  let ?P = "\<lambda>x. case c of None \<Rightarrow> True | Some c \<Rightarrow> key x < c"
  from assms have x: "x \<in> set xs" "?P x" by (auto simp: below_def)
  then have imp: "key y < key x \<Longrightarrow> ?P y" for y by (auto split: option.splits)
  have "length (filter (\<lambda>y. key y < key x) xs) = length (filter (\<lambda>y. key y < key x) (filter ?P xs))"
    by (simp add: filter_filter) (metis (mono_tags, lifting) imp)
  also have "\<dots> < length (filter ?P xs)"
    by (rule length_filter_less [of x]) (use x in auto)
  finally show ?thesis by (simp add: below_def)
qed

lemma event_page_next:
  assumes page: "event_page jc database cursor limit = Inr page"
    and nxt: "ep_next_before_sequence page = Some n"
  shows "rows_below database (Some n) < rows_below database cursor"
proof -
  obtain db where db: "database = Some db" using page by (auto simp: event_page_def split: if_splits option.splits)
  let ?rows = "take limit (take (limit + 1) (below jr_sequence cursor (rev (db_journal db))))"
  from page db nxt have ev: "map_res (decode_journal_event jc db) ?rows = Inr (ep_events page)"
    "ep_events page \<noteq> []" "n = je_sequence (last (ep_events page))"
    by (auto simp: event_page_def Let_def res_bind_Inr_iff split: if_splits)
  from map_res_last [OF ev(1,2)] ev(3) have last: "?rows \<noteq> []" "n = jr_sequence (last ?rows)"
    by (auto dest: decode_journal_event_sequence)
  have "last ?rows \<in> set ?rows" by (rule last_in_set [OF last(1)])
  then have "last ?rows \<in> set (below jr_sequence cursor (db_journal db))"
    by (auto dest!: in_set_takeD simp: below_def)
  from length_below_less [OF this] show ?thesis by (simp add: db rows_below_def last(2))
qed

subsection \<open>Page loops\<close>

text \<open>
  The interface of a newest-first paged query: on a valid source a page from the start, or from the
  key of a returned element, is a prefix of what lies below the cursor, and the next cursor is the key
  of its last element exactly when something is left.
\<close>

locale newest_first_pages =
  fixes valid :: "'d \<Rightarrow> bool"
    and newest :: "'d \<Rightarrow> 'e list"
    and key :: "'e \<Rightarrow> nat"
    and page :: "'d \<Rightarrow> nat option \<Rightarrow> 'x + ('e list \<times> nat option)"
  assumes newest_sorted: "valid d \<Longrightarrow> sorted_wrt (\<lambda>a b. key b < key a) (newest d)"
    and page_prefix: "valid d \<Longrightarrow> c = None \<or> (\<exists>e \<in> set (newest d). c = Some (key e)) \<Longrightarrow>
      \<exists>es rest. below key c (newest d) = es @ rest
        \<and> page d c = Inr (es, if rest = [] then None else Some (key (last es)))
        \<and> (rest \<noteq> [] \<longrightarrow> es \<noteq> [])"
begin

lemma below_last:
  assumes "valid d" and "below key c (newest d) = es @ rest" and "es \<noteq> []"
  shows "below key (Some (key (last es))) (newest d) = rest \<and> last es \<in> set (newest d)"
proof -
  have srt: "sorted_wrt (\<lambda>a b. key b < key a) (below key c (newest d))"
    unfolding below_def by (intro sorted_wrt_filter newest_sorted assms(1))
  obtain es' l where es: "es = es' @ [l]" using assms(3) by (metis rev_exhaust)
  have mem: "l \<in> set (below key c (newest d))" by (simp add: assms(2) es)
  then have "key x < key l \<Longrightarrow> (case c of None \<Rightarrow> True | Some c \<Rightarrow> key x < c)" for x
    by (auto simp: below_def split: option.splits)
  then have "below key (Some (key l)) (newest d) = below key (Some (key l)) (below key c (newest d))"
    by (auto simp: below_def filter_filter intro!: filter_cong)
  also have "\<dots> = below key (Some (key l)) (es' @ l # rest)" by (simp add: assms(2) es)
  also have "\<dots> = rest"
    using srt unfolding assms(2) es
    by (auto simp: below_def sorted_wrt_append filter_empty_conv filter_id_conv dest: less_asym)
  finally show ?thesis using mem by (simp add: es below_def)
qed

end

text \<open>
  A loop that reads pages until its body stops or nothing is left computes the same as one pass over
  the whole journal: the page size does not show.  \<open>enter\<close> is what the loop does once per page.
\<close>

locale page_loop = newest_first_pages valid newest key page
  for valid :: "'d \<Rightarrow> bool" and newest :: "'d \<Rightarrow> 'e list" and key :: "'e \<Rightarrow> nat"
    and page :: "'d \<Rightarrow> nat option \<Rightarrow> 'x + ('e list \<times> nat option)" +
  fixes enter :: "'d \<Rightarrow> 's \<Rightarrow> 's"
    and body :: "'i \<Rightarrow> 's \<Rightarrow> 'e \<Rightarrow> 'r + 's"
    and finish :: "'s \<Rightarrow> 'r"
    and loop :: "'i \<Rightarrow> 'd \<Rightarrow> nat option \<Rightarrow> 's \<Rightarrow> 'x + 'r"
  assumes loop_unfold: "loop i d c s = (case page d c of Inl x \<Rightarrow> Inl x
      | Inr (es, next) \<Rightarrow> (case fold_res (body i) (enter d s) es of
            Inl r \<Rightarrow> Inr r
          | Inr s' \<Rightarrow> (case next of None \<Rightarrow> Inr (finish s') | Some n \<Rightarrow> loop i d (Some n) s')))"
    and enter_settled: "enter d s = s \<Longrightarrow> body i s e = Inr s' \<Longrightarrow> enter d s' = s'"
    and enter_idem: "enter d (enter d s) = enter d s"
begin

lemma fold_settled: "enter d s = s \<Longrightarrow> fold_res (body i) s es = Inr s' \<Longrightarrow> enter d s' = s'"
  by (induction es arbitrary: s) (auto simp: res_bind_Inr_iff dest: enter_settled)

lemma loop_from:
  assumes "valid d" and "c = None \<or> (\<exists>e \<in> set (newest d). c = Some (key e))"
  shows "loop i d c s = Inr (case fold_res (body i) (enter d s) (below key c (newest d)) of
           Inl r \<Rightarrow> r | Inr s' \<Rightarrow> finish s')"
  using assms(2)
proof (induction "length (below key c (newest d))" arbitrary: c s rule: less_induct)
  case less
  obtain es rest where pg: "below key c (newest d) = es @ rest"
    "page d c = Inr (es, if rest = [] then None else Some (key (last es)))" "rest \<noteq> [] \<longrightarrow> es \<noteq> []"
    using page_prefix [OF assms(1) less.prems] by blast
  show ?case
  proof (cases "rest = []")
    case True
    then show ?thesis by (subst loop_unfold) (simp add: pg split: sum.split)
  next
    case False
    with pg(3) have ne: "es \<noteq> []" by simp
    note lst = below_last [OF assms(1) pg(1) ne]
    have step: "loop i d (Some (key (last es))) s' = Inr (case fold_res (body i) (enter d s') rest of
        Inl r \<Rightarrow> r | Inr s'' \<Rightarrow> finish s'')" for s'
      using less.hyps [of "Some (key (last es))" s'] lst ne by (auto simp: pg(1))
    have idem: "enter d s' = s'" if "fold_res (body i) (enter d s) es = Inr s'" for s'
      by (rule fold_settled [OF enter_idem that])
    show ?thesis
      by (subst loop_unfold)
         (use False idem in \<open>auto simp: pg(1,2) step fold_res_append split: sum.split\<close>)
  qed
qed

lemma loop_whole:
  "valid d \<Longrightarrow> loop i d None s = Inr (case fold_res (body i) (enter d s) (newest d) of
     Inl r \<Rightarrow> r | Inr s' \<Rightarrow> finish s')"
  by (subst loop_from) (simp_all add: below_def)

end

subsection \<open>The journal as a paged source\<close>

definition journal_inv :: "session_db \<Rightarrow> bool" where
  "journal_inv db \<longleftrightarrow> sorted_wrt (<) (map jr_sequence (db_journal db))
     \<and> (\<forall>row \<in> set (db_journal db). 0 < jr_sequence row \<and> jr_sequence row \<le> db_latest_event_sequence db)
     \<and> int (db_latest_event_sequence db) \<le> i64_max"

definition readable :: "journal_codec \<Rightarrow> session_db \<Rightarrow> bool" where
  "readable jc db \<longleftrightarrow> (\<forall>row \<in> set (db_journal db). \<not> isl (decode_event jc db (jr_stored row)))"

definition decoded :: "journal_codec \<Rightarrow> session_db \<Rightarrow> journal_row \<Rightarrow> journal_event" where
  "decoded jc db row = projr (decode_journal_event jc db row)"

definition newest_first :: "journal_codec \<Rightarrow> session_db \<Rightarrow> journal_event list" where
  "newest_first jc db = map (decoded jc db) (rev (db_journal db))"

definition page_limit_ok :: "nat \<Rightarrow> bool" where
  "page_limit_ok limit \<longleftrightarrow> 0 < limit \<and> int (limit + 1) \<le> i64_max"

lemma decode_readable:
  assumes "readable jc db" and "row \<in> set (db_journal db)"
  shows "decode_journal_event jc db row = Inr (decoded jc db row)"
  using assms by (cases "decode_event jc db (jr_stored row)")
    (auto simp: readable_def decoded_def decode_journal_event_def)

lemma decoded_sequence: "readable jc db \<Longrightarrow> row \<in> set (db_journal db) \<Longrightarrow> je_sequence (decoded jc db row) = jr_sequence row"
  by (auto dest: decode_readable decode_journal_event_sequence)

lemma below_map:
  "(\<And>x. x \<in> set xs \<Longrightarrow> key (f x) = key' x) \<Longrightarrow> below key c (map f xs) = map f (below key' c xs)"
  by (induction xs) (auto simp: below_def split: option.splits)

lemma below_newest_first:
  "readable jc db \<Longrightarrow> below je_sequence c (newest_first jc db) = map (decoded jc db) (below jr_sequence c (rev (db_journal db)))"
  unfolding newest_first_def by (rule below_map) (auto simp: decoded_sequence)

lemma event_page_readable:
  assumes "readable jc db" and "page_limit_ok limit" and "case c of None \<Rightarrow> True | Some b \<Rightarrow> int b \<le> i64_max"
  shows "event_page jc (Some db) c limit =
    (let all = below je_sequence c (newest_first jc db); es = take limit all
     in Inr \<lparr>ep_latest_sequence = db_latest_event_sequence db, ep_events = es,
          ep_next_before_sequence = (if drop limit all = [] then None else Some (je_sequence (last es)))\<rparr>)"
proof -
  let ?below = "below jr_sequence c (rev (db_journal db))"
  have dec: "map_res (decode_journal_event jc db) (take limit ?below) = Inr (map (decoded jc db) (take limit ?below))"
    by (rule map_res_total) (auto dest!: in_set_takeD simp: below_def decode_readable [OF assms(1)])
  have lim: "\<not> u64_max < limit + 1" using assms(2)
    by (simp add: page_limit_ok_def i64_max_def u64_max_def)
  have "event_page jc (Some db) c limit =
      res_bind (map_res (decode_journal_event jc db) (take limit ?below)) (\<lambda>events.
        Inr \<lparr>ep_latest_sequence = db_latest_event_sequence db, ep_events = events,
             ep_next_before_sequence = (if limit < length ?below
               then (if events = [] then None else Some (je_sequence (last events))) else None)\<rparr>)"
    using assms(2,3) lim
    by (cases "limit < length ?below") (auto simp: event_page_def Let_def page_limit_ok_def split: option.splits)
  then show ?thesis
    using assms(2) by (auto simp: dec below_newest_first [OF assms(1)] Let_def take_map page_limit_ok_def)
qed

type_synonym journal_source = "journal_codec \<times> session_db \<times> nat"

definition source_valid :: "journal_source \<Rightarrow> bool" where
  "source_valid src = (case src of (jc, db, limit) \<Rightarrow> journal_inv db \<and> readable jc db \<and> page_limit_ok limit)"

definition source_newest :: "journal_source \<Rightarrow> journal_event list" where
  "source_newest src = (case src of (jc, db, limit) \<Rightarrow> newest_first jc db)"

definition source_page :: "journal_source \<Rightarrow> nat option \<Rightarrow> (journal_event list \<times> nat option) res" where
  "source_page src c = (case src of (jc, db, limit) \<Rightarrow>
     res_bind (event_page jc (Some db) c limit) (\<lambda>p. Inr (ep_events p, ep_next_before_sequence p)))"

lemma newest_first_sorted:
  assumes "journal_inv db" and "readable jc db"
  shows "sorted_wrt (\<lambda>a b. je_sequence b < je_sequence a) (newest_first jc db)"
proof -
  have "sorted_wrt (\<lambda>a b. jr_sequence b < jr_sequence a) (rev (db_journal db))"
    using assms(1) by (simp add: journal_inv_def sorted_wrt_rev sorted_wrt_map)
  then show ?thesis
    unfolding newest_first_def sorted_wrt_map
    by (rule sorted_wrt_mono_rel [rotated]) (simp add: decoded_sequence [OF assms(2)])
qed

lemma newest_first_cursor_ok:
  "journal_inv db \<Longrightarrow> readable jc db \<Longrightarrow> e \<in> set (newest_first jc db) \<Longrightarrow> int (je_sequence e) \<le> i64_max"
  by (fastforce simp: newest_first_def decoded_sequence journal_inv_def)

interpretation jp: newest_first_pages source_valid source_newest je_sequence source_page
proof (unfold_locales, goal_cases)
  case (1 d)
  then show ?case by (auto simp: source_valid_def source_newest_def newest_first_sorted split: prod.splits)
next
  case (2 d c)
  obtain jc db limit where d: "d = (jc, db, limit)" by (cases d)
  from 2 have ok: "journal_inv db" "readable jc db" "page_limit_ok limit" by (simp_all add: d source_valid_def)
  have cur: "case c of None \<Rightarrow> True | Some b \<Rightarrow> int b \<le> i64_max"
    using 2(2) newest_first_cursor_ok [OF ok(1,2)] by (auto simp: d source_newest_def)
  let ?all = "below je_sequence c (newest_first jc db)"
  have "limit > 0" using ok(3) by (simp add: page_limit_ok_def)
  then show ?case
    unfolding d source_newest_def source_page_def
    by (intro exI [of _ "take limit ?all"] exI [of _ "drop limit ?all"])
       (auto simp: event_page_readable [OF ok(2,3) cur] Let_def)
qed

subsection \<open>Validating a reply\<close>

definition REPLY_EVENT_PAGE_SIZE :: nat where "REPLY_EVENT_PAGE_SIZE = 256"
definition reply_target_invalid :: string where
  "reply_target_invalid = ''reply target is not a safe durable message in this chat''"
definition reply_text_changed :: string where
  "reply_text_changed = ''quoted message does not match its durable original''"

definition reply_original :: "message_reply \<Rightarrow> journal_event \<Rightarrow> string option option" where
  "reply_original reply record = (case ev_msg (je_event record) of
      MessageMsg m \<Rightarrow> (if me_target m = Some (reply_target reply) then Some (message_reply_text m) else None)
    | AssistantMessage m \<Rightarrow>
        (if am_target m = Some (reply_target reply) then Some (assistant_reply_text m) else None)
    | _ \<Rightarrow> None)"

definition reply_check :: "message_reply \<Rightarrow> unit \<Rightarrow> journal_event \<Rightarrow> string option + unit" where
  "reply_check reply u record = (case reply_original reply record of
      None \<Rightarrow> Inr ()
    | Some (Some original) \<Rightarrow> Inl (if original = reply_text reply then None else Some reply_text_changed)
    | Some None \<Rightarrow> Inl (Some reply_target_invalid))"

function reply_loop ::
    "nat \<Rightarrow> journal_codec \<Rightarrow> session_db option \<Rightarrow> message_reply \<Rightarrow> nat option \<Rightarrow> string option res" where
  "reply_loop page_size jc database reply before_sequence =
     (case event_page jc database before_sequence page_size of
        Inl e \<Rightarrow> Inl e
      | Inr page \<Rightarrow> (case fold_res (reply_check reply) () (ep_events page) of
            Inl verdict \<Rightarrow> Inr verdict
          | Inr _ \<Rightarrow> (case ep_next_before_sequence page of
                None \<Rightarrow> Inr (Some reply_target_invalid)
              | Some n \<Rightarrow> reply_loop page_size jc database reply (Some n))))"
  by pat_completeness auto
termination
  by (relation "measure (\<lambda>(page_size, jc, database, reply, cursor). rows_below database cursor)")
     (auto dest: event_page_next)

declare reply_loop.simps [simp del]

definition validate_reply ::
    "journal_codec \<Rightarrow> session_db option \<Rightarrow> message_reply \<Rightarrow> string option res" where
  "validate_reply jc database reply = reply_loop REPLY_EVENT_PAGE_SIZE jc database reply None"

interpretation rl: page_loop source_valid source_newest je_sequence source_page
    "\<lambda>_ u. u" reply_check "\<lambda>_. Some reply_target_invalid"
    "\<lambda>reply src c u. case src of (jc, db, limit) \<Rightarrow> reply_loop limit jc (Some db) reply c"
proof (unfold_locales, goal_cases)
  case (1 reply d c s)
  obtain jc db limit where d: "d = (jc, db, limit)" by (cases d)
  show ?case
    unfolding d source_page_def prod.case
    by (subst reply_loop.simps) (simp split: sum.split option.split)
qed simp_all

subsection \<open>The newest turn before a cursor\<close>

definition TURN_PAGE_BATCH_SIZE :: nat where "TURN_PAGE_BATCH_SIZE = 100"

record turn_scan =
  tp_latest_sequence :: nat
  tp_events :: "journal_event list"
  tp_found_start :: "string option"
  tp_has_earlier_turn :: bool
  tp_starts_before :: "journal_event list"
  tp_in_gap :: bool

definition turn_scan_init :: turn_scan where
  "turn_scan_init = \<lparr>tp_latest_sequence = 0, tp_events = [], tp_found_start = None,
     tp_has_earlier_turn = False, tp_starts_before = [], tp_in_gap = True\<rparr>"

definition started_turn :: "journal_event \<Rightarrow> string option" where
  "started_turn j = (case ev_msg (je_event j) of TurnStarted t \<Rightarrow> Some (ts_turn_id t) | _ \<Rightarrow> None)"

definition finished_turn :: "journal_event \<Rightarrow> string option" where
  "finished_turn j = (case ev_msg (je_event j) of
      TurnComplete t \<Rightarrow> Some (tcp_turn_id t) | TurnAborted t \<Rightarrow> Some (ta_turn_id t) | _ \<Rightarrow> None)"

text \<open>One event of the scan; \<open>Inl\<close> is the \<open>break\<close> at the start of an earlier turn.\<close>

definition turn_scan_event :: "turn_scan \<Rightarrow> journal_event \<Rightarrow> turn_scan + turn_scan" where
  "turn_scan_event s j = (case tp_found_start s of
      Some turn_id \<Rightarrow>
        (case started_turn j of
           Some t \<Rightarrow>
             (if t = turn_id
              then Inr (s\<lparr>tp_events := tp_events s @ tp_starts_before s @ [j], tp_starts_before := [], tp_in_gap := True\<rparr>)
              else Inl (s\<lparr>tp_has_earlier_turn := True\<rparr>))
         | None \<Rightarrow>
             (if finished_turn j \<noteq> None then Inr (s\<lparr>tp_in_gap := False\<rparr>)
              else if tp_in_gap s then Inr (s\<lparr>tp_starts_before := tp_starts_before s @ [j]\<rparr>)
              else Inr s))
    | None \<Rightarrow>
        Inr (s\<lparr>tp_found_start := (case started_turn j of Some t \<Rightarrow> Some t | None \<Rightarrow> tp_found_start s),
               tp_events := tp_events s @ [j]\<rparr>))"

definition turn_scan_enter :: "nat \<Rightarrow> turn_scan \<Rightarrow> turn_scan" where
  "turn_scan_enter latest s = (if tp_events s = [] then s\<lparr>tp_latest_sequence := latest\<rparr> else s)"

function turn_scan_loop ::
    "nat \<Rightarrow> journal_codec \<Rightarrow> session_db option \<Rightarrow> nat option \<Rightarrow> turn_scan \<Rightarrow> turn_scan res" where
  "turn_scan_loop page_size jc database cursor s =
     (case event_page jc database cursor page_size of
        Inl e \<Rightarrow> Inl e
      | Inr page \<Rightarrow>
          (case fold_res turn_scan_event (turn_scan_enter (ep_latest_sequence page) s) (ep_events page) of
             Inl s' \<Rightarrow> Inr s'
           | Inr s' \<Rightarrow> (case ep_next_before_sequence page of
                 None \<Rightarrow> Inr s'
               | Some n \<Rightarrow> turn_scan_loop page_size jc database (Some n) s')))"
  by pat_completeness auto
termination
  by (relation "measure (\<lambda>(page_size, jc, database, cursor, s). rows_below database cursor)")
     (auto dest: event_page_next)

declare turn_scan_loop.simps [simp del]

definition is_turn_start :: "journal_event \<Rightarrow> bool" where
  "is_turn_start j \<longleftrightarrow> started_turn j \<noteq> None"

definition is_configured :: "journal_event \<Rightarrow> bool" where
  "is_configured j = (case ev_msg (je_event j) of SessionConfigured _ \<Rightarrow> True | _ \<Rightarrow> False)"

text \<open>The newest end of the turn that starts at \<open>i\<close>, or the newest event.\<close>

definition turn_page_start :: "journal_event list \<Rightarrow> nat \<Rightarrow> nat" where
  "turn_page_start events i =
     (case position (\<lambda>j. finished_turn j = started_turn (events ! i)) (take i events) of Some k \<Rightarrow> k | None \<Rightarrow> 0)"

definition turn_page_of_scan :: "turn_scan \<Rightarrow> journal_page" where
  "turn_page_of_scan s =
     (case rposition is_turn_start (tp_events s) of
        None \<Rightarrow> \<lparr>ep_latest_sequence = tp_latest_sequence s, ep_events = [], ep_next_before_sequence = None\<rparr>
      | Some i \<Rightarrow>
          \<lparr>ep_latest_sequence = tp_latest_sequence s,
           ep_events = drop (turn_page_start (tp_events s) i) (take (Suc i) (tp_events s))
             @ (if tp_has_earlier_turn s then filter is_configured (tp_starts_before s) else []),
           ep_next_before_sequence = (if tp_has_earlier_turn s then Some (je_sequence (tp_events s ! i)) else None)\<rparr>)"

definition event_turn_page :: "journal_codec \<Rightarrow> session_db option \<Rightarrow> nat option \<Rightarrow> journal_page res" where
  "event_turn_page jc database before_sequence =
     res_bind (turn_scan_loop TURN_PAGE_BATCH_SIZE jc database before_sequence turn_scan_init)
       (\<lambda>s. Inr (turn_page_of_scan s))"

lemma turn_scan_event_latest:
  "turn_scan_event s j = Inr s' \<Longrightarrow> tp_latest_sequence s' = tp_latest_sequence s"
  by (auto simp: turn_scan_event_def split: option.splits if_splits)

lemma turn_scan_enter_eq: "turn_scan_enter n s = s \<longleftrightarrow> tp_events s \<noteq> [] \<or> tp_latest_sequence s = n"
  by (cases s) (auto simp: turn_scan_enter_def)

lemma turn_scan_event_keeps: "turn_scan_event s j = Inr s' \<Longrightarrow> tp_events s \<noteq> [] \<Longrightarrow> tp_events s' \<noteq> []"
  by (auto simp: turn_scan_event_def split: option.splits if_splits)

interpretation tl: page_loop source_valid source_newest je_sequence source_page
    "\<lambda>src. case src of (jc, db, limit) \<Rightarrow> turn_scan_enter (db_latest_event_sequence db)" "\<lambda>_ :: unit. turn_scan_event" "\<lambda>s. s"
    "\<lambda>_ src c s. case src of (jc, db, limit) \<Rightarrow> turn_scan_loop limit jc (Some db) c s"
proof (unfold_locales, goal_cases)
  case (1 i d c s)
  obtain jc db limit where d: "d = (jc, db, limit)" by (cases d)
  have "ep_latest_sequence page = db_latest_event_sequence db" if "event_page jc (Some db) c limit = Inr page" for page
    using that by (auto simp: event_page_def Let_def res_bind_Inr_iff split: if_splits)
  then show ?case
    unfolding d source_page_def prod.case
    by (subst turn_scan_loop.simps) (simp split: sum.split option.split)
next
  case (2 d s i e s')
  then show ?case
    by (auto simp: turn_scan_enter_eq turn_scan_event_latest dest: turn_scan_event_keeps split: prod.splits)
next
  case (3 d s)
  then show ?case by (auto simp: turn_scan_enter_def split: prod.splits)
qed

subsection \<open>Storing keeps the journal ordered and readable\<close>

lemma retain_rows_subseq: "subseq (retain_rows e index n rows) rows"
  by (metis retain_rows_def subseq_filter_left subseq_order.order_trans)

lemma store_event_Inr_iff:
  "store_event database te transcript = Inr (db', record) \<longleftrightarrow>
     (\<exists>db index metrics. database = Some db \<and> event_index (ev_msg (tm_event te)) = Inr index
        \<and> 0 \<le> tm_recorded_at_ms te \<and> int (Suc (db_latest_event_sequence db)) \<le> i64_max
        \<and> event_metrics index (db_journal db) = Inr metrics
        \<and> db' = db\<lparr>db_latest_event_sequence := Suc (db_latest_event_sequence db),
            db_journal := retain_rows (tm_event te) index (Suc (db_latest_event_sequence db))
              (db_journal db @ [event_row te index (Suc (db_latest_event_sequence db)) transcript metrics])\<rparr>
        \<and> record = \<lparr>je_sequence = Suc (db_latest_event_sequence db), je_recorded_at_ms = tm_recorded_at_ms te,
            je_event = tm_event te, je_stream_metrics = metrics\<rparr>)"
proof (cases database)
  case None
  then show ?thesis by (simp add: store_event_def res_bind_Inr_iff)
next
  case (Some db)
  have n: "nat (int (db_latest_event_sequence db) + 1) = Suc (db_latest_event_sequence db)" by simp
  have ok: "i64_checked_add (int (db_latest_event_sequence db)) 1 =
      (if int (Suc (db_latest_event_sequence db)) \<le> i64_max then Some (int (db_latest_event_sequence db) + 1) else None)"
    by (simp add: i64_checked_add_def i64_min_def)
  show ?thesis
    unfolding Some store_event_def option.case ok
    by (cases "tm_recorded_at_ms te < 0"; cases "int (Suc (db_latest_event_sequence db)) \<le> i64_max")
       (auto simp: res_bind_Inr_iff Let_def n [simplified])
qed

lemma decode_event_transcript: "db_transcript db' = db_transcript db \<Longrightarrow> decode_event jc db' = decode_event jc db"
  by (rule ext) (simp add: decode_event_def split: stored_event.split)

text \<open>Decoding tool content reads text parts as the encoder wrote them.\<close>

definition content_roundtrip :: "journal_codec \<Rightarrow> bool" where
  "content_roundtrip jc \<longleftrightarrow>
     (\<forall>parts out. list_all2 text_part_matches parts out \<longrightarrow> jc_content jc (JArray parts) = Inr out)"

lemma matching_output_object: "matching_output item call \<Longrightarrow> \<exists>fs. item = JObject fs"
  by (cases item) (auto simp: matching_output_def get_str_def)

lemma extract_item_object: "i < length items \<Longrightarrow> items ! i = JObject fs \<Longrightarrow> extract_item jc items i = Inr (JObject fs)"
  by (simp add: extract_item_def)

lemma decode_tool_output:
  assumes rt: "content_roundtrip jc" and items: "map_of (db_transcript db) n = Some items"
    and i: "i < length items" "matching_output (items ! i) call"
  shows "decode_event jc db (ToolOutput sid (te_turn_id call) (te_call_id call) (te_name call) (te_is_error call) n i)
    = Inr \<lparr>ev_submission_id = sid, ev_msg = ToolCallEnd call\<rparr>"
proof -
  from i(2) obtain fs where fs: "items ! i = JObject fs" using matching_output_object by blast
  with i(2) obtain parts where parts: "map_of fs ''output'' = Some (JArray parts)"
    "list_all2 text_part_matches parts (te_output call)"
    by (auto simp: matching_output_def get_array_def split: option.splits bind_splits)
  have "jc_content jc (JArray parts) = Inr (te_output call)"
    using rt parts(2) unfolding content_roundtrip_def by blast
  with i fs parts(1) items show ?thesis
    by (cases call) (simp add: decode_event_def extract_item_object matching_output_def)
qed

lemma decode_stored_event:
  assumes rt: "content_roundtrip jc"
    and tr: "\<And>n items. transcript = Some (n, items) \<Longrightarrow> items \<noteq> [] \<Longrightarrow> map_of (db_transcript db) n = Some items"
  shows "decode_event jc db (stored_event_of e transcript) = Inr e"
proof (cases "stored_event_of e transcript")
  case (Inline e')
  then have "e' = e" by (auto simp: stored_event_of_def split: event_msg.splits option.splits prod.splits if_splits)
  with Inline show ?thesis by (simp add: decode_event_def)
next
  case (ToolOutput sid turn call_id name err n i)
  then obtain call items where call: "ev_msg e = ToolCallEnd call" "transcript = Some (n, items)"
    "position (\<lambda>item. matching_output item call) items = Some i"
    "sid = ev_submission_id e" "turn = te_turn_id call" "call_id = te_call_id call" "name = te_name call"
    "err = te_is_error call"
    by (auto simp: stored_event_of_def split: event_msg.splits option.splits prod.splits if_splits)
  note pos = position_SomeD [OF call(3)]
  have "e = \<lparr>ev_submission_id = ev_submission_id e, ev_msg = ToolCallEnd call\<rparr>"
    using call(1) by (cases e) simp
  moreover from pos have "items \<noteq> []" by auto
  ultimately show ?thesis
    using decode_tool_output [OF rt tr [OF call(2)], of i call "ev_submission_id e"] pos
    by (simp add: ToolOutput call(4-8))
qed

lemma set_retain_rows: "set (retain_rows e index n rows) \<subseteq> set rows"
  by (auto simp: retain_rows_def)

lemma sorted_retain_rows:
  "sorted_wrt (<) (map jr_sequence rows) \<Longrightarrow> sorted_wrt (<) (map jr_sequence (retain_rows e index n rows))"
  by (simp add: retain_rows_def sorted_wrt_map sorted_wrt_filter)

lemma store_event_inv:
  assumes "journal_inv db" and "store_event (Some db) te transcript = Inr (db', rcd)"
  shows "journal_inv db'"
proof -
  obtain index metrics where db': "int (Suc (db_latest_event_sequence db)) \<le> i64_max"
    "db' = db\<lparr>db_latest_event_sequence := Suc (db_latest_event_sequence db),
       db_journal := retain_rows (tm_event te) index (Suc (db_latest_event_sequence db))
         (db_journal db @ [event_row te index (Suc (db_latest_event_sequence db)) transcript metrics])\<rparr>"
    using assms(2) by (auto simp: store_event_Inr_iff)
  let ?rows = "db_journal db @ [event_row te index (Suc (db_latest_event_sequence db)) transcript metrics]"
  have "sorted_wrt (<) (map jr_sequence ?rows)"
    using assms(1) by (fastforce simp: journal_inv_def sorted_wrt_append event_row_def)
  then have "sorted_wrt (<) (map jr_sequence (db_journal db'))"
    unfolding db'(2) by (simp del: map_append add: sorted_retain_rows)
  moreover have "set (db_journal db') \<subseteq> set ?rows" by (auto simp: db'(2) retain_rows_def)
  ultimately show ?thesis
    using assms(1) db'(1) by (fastforce simp: journal_inv_def db'(2) event_row_def)
qed

lemma store_event_transcript: "store_event (Some db) te tr = Inr (db', record) \<Longrightarrow> db_transcript db' = db_transcript db"
  by (auto simp: store_event_Inr_iff)

lemma store_event_readable:
  assumes rt: "content_roundtrip jc" and "readable jc db"
    and tr: "\<And>n items. transcript = Some (n, items) \<Longrightarrow> items \<noteq> [] \<Longrightarrow> map_of (db_transcript db) n = Some items"
    and st: "store_event (Some db) te transcript = Inr (db', rcd)"
  shows "readable jc db'"
proof -
  have dec: "decode_event jc db' = decode_event jc db"
    by (rule decode_event_transcript) (rule store_event_transcript [OF st])
  obtain index metrics where db': "db_journal db' = retain_rows (tm_event te) index (Suc (db_latest_event_sequence db))
         (db_journal db @ [event_row te index (Suc (db_latest_event_sequence db)) transcript metrics])"
    using st by (auto simp: store_event_Inr_iff)
  have rows: "set (db_journal db') \<subseteq>
      insert (event_row te index (Suc (db_latest_event_sequence db)) transcript metrics) (set (db_journal db))"
    unfolding db' by (rule order_trans [OF set_retain_rows]) simp
  have "decode_event jc db (stored_event_of (tm_event te) transcript) = Inr (tm_event te)"
    by (rule decode_stored_event [OF rt tr])
  with assms(2) rows show ?thesis by (auto simp: readable_def dec event_row_def)
qed

lemma event_index_kind: "event_index e = Inr index \<Longrightarrow> ix_kind index = fst (event_kind_step e)"
  by (auto simp: event_index_def split: event_msg.splits prod.splits if_splits)

lemma new_row_not_superseded:
  "event_index (ev_msg (tm_event te)) = Inr index \<Longrightarrow> \<not> superseded (tm_event te) index n (event_row te index n tr metrics)"
  by (drule event_index_kind) (auto simp: superseded_def event_row_def split: event_msg.splits)

lemma reply_fold:
  "fold_res (reply_check reply) u xs = (case find (\<lambda>j. reply_original reply j \<noteq> None) xs of
     None \<Rightarrow> Inr () | Some j \<Rightarrow> reply_check reply () j)"
  by (induction xs) (auto simp: reply_check_def split: option.splits)

text \<open>What the scan has collected is a subsequence of the events it has read.\<close>

definition scan_inv :: "turn_scan \<Rightarrow> journal_event list \<Rightarrow> bool" where
  "scan_inv s seen \<longleftrightarrow> subseq (tp_events s @ tp_starts_before s) seen
     \<and> (tp_found_start s = None \<longrightarrow> tp_starts_before s = [])"

lemma scan_inv_step:
  assumes "scan_inv s seen" and "turn_scan_event s j = r"
  shows "case r of Inl s' \<Rightarrow> scan_inv s' (seen @ [j]) | Inr s' \<Rightarrow> scan_inv s' (seen @ [j])"
proof -
  have sub: "subseq (tp_events s @ tp_starts_before s) seen" using assms(1) by (simp add: scan_inv_def)
  have ext: "subseq ((tp_events s @ tp_starts_before s) @ [j]) (seen @ [j])"
    by (rule list_emb_append_mono [OF sub]) simp
  have skip: "subseq (tp_events s @ tp_starts_before s) (seen @ [j])"
    using list_emb_append_mono [OF sub, of "[]" "[j]"] by simp
  show ?thesis
    using assms ext skip
    by (auto simp: turn_scan_event_def scan_inv_def split: option.splits if_splits)
qed

lemma scan_inv_fold:
  "scan_inv s seen \<Longrightarrow> (case fold_res turn_scan_event s js of
     Inl s' \<Rightarrow> \<exists>read rest. js = read @ rest \<and> scan_inv s' (seen @ read) | Inr s' \<Rightarrow> scan_inv s' (seen @ js))"
proof (induction js arbitrary: s seen)
  case (Cons j js)
  show ?case
  proof (cases "turn_scan_event s j")
    case (Inl s')
    with scan_inv_step [OF Cons.prems Inl] have "j # js = [j] @ js \<and> scan_inv s' (seen @ [j])" by simp
    then have "\<exists>read rest. j # js = read @ rest \<and> scan_inv s' (seen @ read)" by blast
    with Inl show ?thesis by simp
  next
    case (Inr s')
    with scan_inv_step [OF Cons.prems Inr] have "scan_inv s' (seen @ [j])" by simp
    from Cons.IH [OF this] Inr show ?thesis
      by (auto split: sum.splits) (metis append_Cons)
  qed
qed simp

lemma turn_page_start_le: "turn_page_start events i \<le> i"
proof (cases "position (\<lambda>j. finished_turn j = started_turn (events ! i)) (take i events)")
  case None
  then show ?thesis unfolding turn_page_start_def by (simp only: option.case)
next
  case (Some k)
  from position_SomeD [OF Some] show ?thesis unfolding turn_page_start_def Some by simp
qed

lemma subseq_slice: "subseq (drop a (take b xs)) xs"
proof -
  have "xs = take a (take b xs) @ drop a (take b xs) @ drop b xs" by (metis append.assoc append_take_drop_id)
  then show ?thesis by (metis list_emb_append2 list_emb_prefix subseq_order.order_refl)
qed

lemma turn_page_of_scan_subseq:
  assumes "subseq (tp_events s @ tp_starts_before s) seen"
  shows "subseq (ep_events (turn_page_of_scan s)) seen
    \<and> (\<forall>n. ep_next_before_sequence (turn_page_of_scan s) = Some n \<longrightarrow>
         (\<exists>j \<in> set (ep_events (turn_page_of_scan s)). je_sequence j = n \<and> is_turn_start j))"
proof (cases "rposition is_turn_start (tp_events s)")
  case None
  then show ?thesis by (simp add: turn_page_of_scan_def del: rposition_None)
next
  case (Some i)
  note pos = rposition_SomeD [OF Some]
  let ?slice = "drop (turn_page_start (tp_events s) i) (take (Suc i) (tp_events s))"
  have "subseq (?slice @ (if tp_has_earlier_turn s then filter is_configured (tp_starts_before s) else []))
      (tp_events s @ tp_starts_before s)"
    by (intro list_emb_append_mono subseq_slice) simp
  moreover have "tp_events s ! i \<in> set ?slice"
    using pos turn_page_start_le [of "tp_events s" i]
    by (auto simp: in_set_conv_nth intro!: exI [of _ "i - turn_page_start (tp_events s) i"])
  ultimately show ?thesis
    using assms pos by (auto simp: turn_page_of_scan_def Some intro: subseq_order.order_trans)
qed

text \<open>A batch of events, as one checkpoint commit stores it.\<close>

lemma store_events_keep:
  assumes "content_roundtrip jc"
    and tr: "\<And>n items. transcript = Some (n, items) \<Longrightarrow> items \<noteq> [] \<Longrightarrow> map_of (db_transcript db) n = Some items"
    and "journal_inv db" "readable jc db"
    and "store_events (Some db) es transcript = Inr (database', records)"
  shows "\<exists>db'. database' = Some db' \<and> journal_inv db' \<and> readable jc db' \<and> db_transcript db' = db_transcript db
    \<and> map je_event records = map tm_event es"
  using assms(2-)
proof (induction es arbitrary: db database' records)
  case (Cons e es)
  then obtain db1 r1 rs where st: "store_event (Some db) e transcript = Inr (db1, r1)"
    and rest: "store_events (Some db1) es transcript = Inr (database', rs)" and recs: "records = r1 # rs"
    by (auto simp: res_bind_Inr_iff)
  have tr1: "db_transcript db1 = db_transcript db" by (rule store_event_transcript [OF st])
  have "je_event r1 = tm_event e" using st by (auto simp: store_event_Inr_iff)
  moreover have "\<exists>db'. database' = Some db' \<and> journal_inv db' \<and> readable jc db'
      \<and> db_transcript db' = db_transcript db1 \<and> map je_event rs = map tm_event es"
    using Cons.prems rest tr1 store_event_inv [OF _ st] store_event_readable [OF assms(1) _ _ st]
    by (intro Cons.IH) auto
  ultimately show ?case by (simp add: recs tr1)
qed auto

subsection \<open>A concrete journal\<close>

text \<open>A codec that reads text parts, and a session with one finished turn, for the witnesses below.\<close>

fun decode_texts :: "json \<Rightarrow> tool_content res" where
  "decode_texts (JArray parts) = Inr (map (\<lambda>p. PText (case get_str ''text'' p of Some t \<Rightarrow> t | None \<Rightarrow> [])) parts)"
| "decode_texts _ = Inl (JsonErr ''expected an array'')"

definition text_codec :: journal_codec where
  "text_codec = \<lparr>jc_parse = \<lambda>_. Inl (JsonErr ''expected value''), jc_content = decode_texts,
     jc_column_error = ''Invalid column type''\<rparr>"

lemma text_codec_roundtrip: "content_roundtrip text_codec"
proof -
  have "map (\<lambda>p. PText (case get_str ''text'' p of Some t \<Rightarrow> t | None \<Rightarrow> [])) parts = out"
    if "list_all2 text_part_matches parts out" for parts out
    using that by (induction rule: list_all2_induct) (auto simp: text_part_matches_def split: content_part.splits)
  then show ?thesis by (simp add: content_roundtrip_def text_codec_def)
qed

definition plain_row :: "nat \<Rightarrow> event_msg \<Rightarrow> journal_row" where
  "plain_row n msg = \<lparr>jr_sequence = n, jr_recorded_at_ms = 0, jr_kind = fst (event_kind_step msg),
     jr_model_step_id = snd (event_kind_step msg), jr_stream_phase = None, jr_delta_bytes = None,
     jr_stored = Inline \<lparr>ev_submission_id = Some ''s1'', ev_msg = msg\<rparr>, jr_metrics = []\<rparr>"

definition sample_target :: message_target where
  "sample_target = \<lparr>checkpoint_sequence = 1, batch_item_count = 1\<rparr>"

definition sample_message :: message_event where
  "sample_message = \<lparr>me_author = User, me_delivery = DTurn, me_text = ''hello'', me_attachments = [],
     me_reply = None, me_target = Some sample_target\<rparr>"

definition sample_db :: session_db where
  "sample_db = \<lparr>db_latest_event_sequence = 4,
     db_journal =
       [plain_row 1 (MessageDelta ''hel''),
        plain_row 2 (TurnStarted \<lparr>ts_idle = False, ts_turn_id = ''t1'', ts_model_context_window = None\<rparr>),
        plain_row 3 (MessageMsg sample_message),
        plain_row 4 (TurnComplete \<lparr>tcp_idle = False, tcp_turn_id = ''t1''\<rparr>)],
     db_transcript = []\<rparr>"

lemma sample_db_valid: "journal_inv sample_db \<and> readable text_codec sample_db"
  by (simp add: sample_db_def journal_inv_def readable_def plain_row_def decode_event_def i64_max_def)

subsection \<open>Properties\<close>

text \<open>
  C5. Storing an event on an ordered, readable journal keeps it ordered and readable, assigns the next
  sequence number, and unless the event is transient the next newest-first page of one event returns
  exactly the stored record: a long tool output kept by reference is restored from the transcript.
\<close>

theorem store_event_durable:
  assumes inv: "journal_inv db" and rd: "readable jc db" and rt: "content_roundtrip jc"
    and tr: "\<forall>n items. transcript = Some (n, items) \<longrightarrow> items \<noteq> [] \<longrightarrow> map_of (db_transcript db) n = Some items"
    and st: "store_event (Some db) te transcript = Inr (db', rcd)"
  shows "journal_inv db' \<and> readable jc db' \<and> je_sequence rcd = Suc (db_latest_event_sequence db)
    \<and> (\<not> is_transient_event (ev_msg (tm_event te)) \<longrightarrow>
         (\<exists>page. event_page jc (Some db') None 1 = Inr page \<and> ep_events page = [rcd]))"
proof -
  have inv': "journal_inv db'" by (rule store_event_inv [OF inv st])
  have rd': "readable jc db'" using store_event_readable [OF rt rd _ st] tr by blast
  obtain index metrics where idx: "event_index (ev_msg (tm_event te)) = Inr index"
    and db': "db_journal db' = retain_rows (tm_event te) index (Suc (db_latest_event_sequence db))
      (db_journal db @ [event_row te index (Suc (db_latest_event_sequence db)) transcript metrics])"
    and rec: "rcd = \<lparr>je_sequence = Suc (db_latest_event_sequence db), je_recorded_at_ms = tm_recorded_at_ms te,
            je_event = tm_event te, je_stream_metrics = metrics\<rparr>"
    using st by (auto simp: store_event_Inr_iff)
  let ?row = "event_row te index (Suc (db_latest_event_sequence db)) transcript metrics"
  have page: "ep_events (projr (event_page jc (Some db') None 1)) = [rcd] \<and> \<not> isl (event_page jc (Some db') None 1)"
    if tran: "\<not> is_transient_event (ev_msg (tm_event te))"
  proof -
    have last: "\<exists>rows. db_journal db' = rows @ [?row]"
      unfolding db' retain_rows_def using tran new_row_not_superseded [OF idx] by simp
    then obtain rows where rows: "db_journal db' = rows @ [?row]" by blast
    have "decode_event jc db (stored_event_of (tm_event te) transcript) = Inr (tm_event te)"
      by (rule decode_stored_event [OF rt]) (use tr in blast)
    then have "decoded jc db' ?row = rcd"
      unfolding decoded_def decode_journal_event_def decode_event_transcript [OF store_event_transcript [OF st]]
      by (simp add: event_row_def rec)
    then have "take 1 (below je_sequence None (newest_first jc db')) = [rcd]"
      by (simp add: newest_first_def rows below_def)
    then show ?thesis
      using event_page_readable [OF rd', of 1 None] by (simp add: page_limit_ok_def i64_max_def Let_def)
  qed
  then show ?thesis
    using inv' rd' rec by (cases "event_page jc (Some db') None 1") auto
qed

theorem store_event_durable_witness:
  "\<exists>db' record page. store_event (Some sample_db)
        \<lparr>tm_recorded_at_ms = 7, tm_event = \<lparr>ev_submission_id = Some ''s2'', ev_msg = Warning ''w''\<rparr>\<rparr> None = Inr (db', record)
     \<and> journal_inv db' \<and> je_sequence record = 5
     \<and> event_page text_codec (Some db') None 1 = Inr page \<and> ep_events page = [record]"
proof -
  let ?te = "\<lparr>tm_recorded_at_ms = 7, tm_event = \<lparr>ev_submission_id = Some ''s2'', ev_msg = Warning ''w''\<rparr>\<rparr>"
  obtain db' rcd where st: "store_event (Some sample_db) ?te None = Inr (db', rcd)"
    by (simp add: store_event_def event_index_def event_metrics_def i64_checked_add_def i64_min_def i64_max_def
        sample_db_def Let_def)
  from store_event_durable [OF conjunct1 [OF sample_db_valid] conjunct2 [OF sample_db_valid]
      text_codec_roundtrip _ st] show ?thesis
    using st by (auto simp: is_transient_event_def sample_db_def)
qed

text \<open>
  C26. No stored event drops a durable row: only progressive message and assistant deltas, older token
  counts and the transient event itself are ever removed from the journal.
\<close>

theorem store_event_keeps_durable_rows:
  assumes "journal_inv db" and "store_event (Some db) te transcript = Inr (db', rcd)"
    and "row \<in> set (db_journal db)"
    and "jr_kind row \<notin> {''message_delta'', ''assistant_content_delta'', ''token_count''}"
  shows "row \<in> set (db_journal db')"
proof -
  obtain index metrics where db': "db_journal db' = retain_rows (tm_event te) index (Suc (db_latest_event_sequence db))
      (db_journal db @ [event_row te index (Suc (db_latest_event_sequence db)) transcript metrics])"
    using assms(2) by (auto simp: store_event_Inr_iff)
  have "jr_sequence row \<noteq> Suc (db_latest_event_sequence db)"
    using assms(1,3) by (force simp: journal_inv_def)
  moreover have "\<not> superseded (tm_event te) index (Suc (db_latest_event_sequence db)) row"
    using assms(4) by (simp add: superseded_def split: event_msg.split)
  ultimately show ?thesis using assms(3) by (simp add: db' retain_rows_def)
qed

theorem store_event_keeps_durable_rows_witness:
  "\<exists>db' record. store_event (Some sample_db)
        \<lparr>tm_recorded_at_ms = 7, tm_event = \<lparr>ev_submission_id = Some ''s1'', ev_msg = MessageMsg sample_message\<rparr>\<rparr> None = Inr (db', record)
     \<and> plain_row 3 (MessageMsg sample_message) \<in> set (db_journal db')"
proof -
  let ?te = "\<lparr>tm_recorded_at_ms = 7, tm_event = \<lparr>ev_submission_id = Some ''s1'', ev_msg = MessageMsg sample_message\<rparr>\<rparr>"
  obtain db' rcd where st: "store_event (Some sample_db) ?te None = Inr (db', rcd)"
    by (simp add: store_event_def event_index_def event_metrics_def i64_checked_add_def i64_min_def i64_max_def
        sample_db_def Let_def)
  have "plain_row 3 (MessageMsg sample_message) \<in> set (db_journal sample_db)" by (simp add: sample_db_def)
  from store_event_keeps_durable_rows [OF conjunct1 [OF sample_db_valid] st this] st show ?thesis
    by (auto simp: plain_row_def)
qed

text \<open>
  C21. A reply is accepted exactly when the newest durable message with the reply's target has a text
  and the quote equals it: the paged search over the journal returns, and its verdict is that of a
  search over all events of the session.
\<close>

theorem validate_reply_correct:
  assumes "journal_inv db" and "readable jc db"
  shows "validate_reply jc (Some db) reply =
    Inr (case find (\<lambda>j. reply_original reply j \<noteq> None) (newest_first jc db) of
           None \<Rightarrow> Some reply_target_invalid
         | Some j \<Rightarrow> (case reply_original reply j of
               Some (Some original) \<Rightarrow> (if original = reply_text reply then None else Some reply_text_changed)
             | _ \<Rightarrow> Some reply_target_invalid))"
proof -
  have "source_valid (jc, db, REPLY_EVENT_PAGE_SIZE)"
    using assms by (simp add: source_valid_def page_limit_ok_def REPLY_EVENT_PAGE_SIZE_def i64_max_def)
  note loop = rl.loop_whole [OF this, of reply "()", unfolded source_newest_def prod.case reply_fold]
  show ?thesis
  proof (cases "find (\<lambda>j. reply_original reply j \<noteq> None) (newest_first jc db)")
    case None
    with loop show ?thesis unfolding validate_reply_def by (simp only: option.case sum.case)
  next
    case (Some j)
    then have "reply_original reply j \<noteq> None" by (auto simp: find_Some_iff)
    with loop show ?thesis
      unfolding validate_reply_def Some by (auto simp: reply_check_def split: option.splits)
  qed
qed

theorem validate_reply_correct_witness:
  "validate_reply text_codec (Some sample_db) \<lparr>reply_target = sample_target, reply_text = ''hello''\<rparr> = Inr None
   \<and> validate_reply text_codec (Some sample_db) \<lparr>reply_target = sample_target, reply_text = ''hullo''\<rparr>
       = Inr (Some reply_text_changed)"
  by (simp add: validate_reply_correct [OF conjunct1 [OF sample_db_valid] conjunct2 [OF sample_db_valid]])
     (simp add: sample_db_def newest_first_def decoded_def decode_journal_event_def plain_row_def decode_event_def
       reply_original_def sample_message_def message_reply_text_def)



end
