(* ===== verification/Delivery_Once.thy ===== *)
theory Delivery_Once
  imports Protocol
begin

text \<open>
  Once-only delivery of middleware guidance, \<open>src/middleware/delivery_once.rs\<close>.  The receipts of a
  session map an owner to the keys it has delivered; an owner with no key has no entry.
\<close>

type_synonym receipts = "string \<rightharpoonup> string set"

definition receipts_contain :: "receipts \<Rightarrow> string \<Rightarrow> string \<Rightarrow> bool" where
  "receipts_contain receipts owner key = (case receipts owner of None \<Rightarrow> False | Some keys \<Rightarrow> key \<in> keys)"

definition identity :: "json \<Rightarrow> (string \<times> string) option" where
  "identity item = Option.bind (json_get FIELD item) (\<lambda>receipt.
     Option.bind (get_str ''owner'' receipt) (\<lambda>owner.
       Option.bind (get_str ''key'' receipt) (\<lambda>key. Some (owner, key))))"

definition once_separators :: "char list" where
  "once_separators = ''_-.:/''"

text \<open>
  \<open>DeliveryOnce::deliver\<close>.  \<open>made\<close> is what the closure argument builds the item; it runs only when the item
  is delivered.
\<close>

definition deliver ::
    "receipts \<Rightarrow> string \<Rightarrow> json list \<Rightarrow> string option \<Rightarrow> json \<Rightarrow> json list \<times> bool res" where
  "deliver receipts owner input key made = (case key of
      None \<Rightarrow> (input @ [made], Inr True)
    | Some key \<Rightarrow>
        (if owner = [] \<or> \<not> valid_ascii_identifier key 384 AnyCase once_separators
         then (input, Inl (Config ''invalid once-only guidance key''))
         else if receipts_contain receipts owner key \<or> list_ex (\<lambda>item. identity item = Some (owner, key)) input
         then (input, Inr False)
         else (case (if get_str ''role'' made = Some ''user'' \<and> internal_message_kind made \<noteq> None
                     then as_object made else None) of
                 None \<Rightarrow> (input, Inl (Config ''once-only guidance requires an internal user message''))
               | Some fs \<Rightarrow> (input @ [JObject (obj_insert FIELD
                     (JObject [(''owner'', JString owner), (''key'', JString key)]) fs)], Inr True))))"

definition accept :: "receipts \<Rightarrow> json \<Rightarrow> receipts \<times> bool" where
  "accept receipts item = (case identity item of
      None \<Rightarrow> (receipts, True)
    | Some (owner, key) \<Rightarrow>
        (if receipts_contain receipts owner key then (receipts, False)
         else (receipts(owner \<mapsto> insert key (case receipts owner of Some keys \<Rightarrow> keys | None \<Rightarrow> {})), True)))"

fun record_receipts :: "receipts \<Rightarrow> json list \<Rightarrow> receipts \<times> bool" where
  "record_receipts receipts [] = (receipts, False)"
| "record_receipts receipts (item # items) =
     (if identity item \<noteq> None
      then (let (receipts', accepted) = accept receipts item;
                (receipts'', changed) = record_receipts receipts' items
            in (receipts'', accepted \<or> changed))
      else record_receipts receipts items)"

definition rollback_item :: "receipts \<Rightarrow> json \<Rightarrow> receipts" where
  "rollback_item receipts item = (case identity item of
      None \<Rightarrow> receipts
    | Some (owner, key) \<Rightarrow> (case receipts owner of
          None \<Rightarrow> receipts
        | Some keys \<Rightarrow> (if keys - {key} = {} then receipts(owner := None) else receipts(owner \<mapsto> keys - {key}))))"

definition rollback :: "receipts \<Rightarrow> json list \<Rightarrow> receipts" where
  "rollback receipts items = foldl rollback_item receipts items"

text \<open>
  How the agent appends a batch (\<open>src/agent/turn.rs\<close>, \<open>src/agent/turn/model.rs\<close>): items are kept
  when their receipt is new and dropped when it was delivered before.
\<close>

fun accept_batch :: "receipts \<Rightarrow> json list \<Rightarrow> receipts \<times> json list" where
  "accept_batch receipts [] = (receipts, [])"
| "accept_batch receipts (item # items) =
     (let (receipts', ok) = accept receipts item;
          (receipts'', kept) = accept_batch receipts' items
      in (receipts'', if ok then item # kept else kept))"

subsection \<open>Lemmas\<close>

definition receipts_wf :: "receipts \<Rightarrow> bool" where
  "receipts_wf receipts \<longleftrightarrow> (\<forall>owner. receipts owner \<noteq> Some {})"

lemma receipts_contain_accept:
  "receipts_contain (fst (accept r item)) owner key \<longleftrightarrow>
     receipts_contain r owner key \<or> identity item = Some (owner, key)"
  by (auto simp: accept_def receipts_contain_def split: option.splits prod.splits if_splits)

lemma receipts_wf_accept [mobius_inv]: "receipts_wf r \<Longrightarrow> receipts_wf (fst (accept r item))"
  by (auto simp: accept_def receipts_wf_def split: option.splits prod.splits)

lemma receipts_wf_rollback_item [mobius_inv]: "receipts_wf r \<Longrightarrow> receipts_wf (rollback_item r item)"
  by (auto simp: rollback_item_def receipts_wf_def split: option.splits prod.splits if_splits)

lemma rollback_item_contain:
  "receipts_contain (rollback_item r item) owner key \<longleftrightarrow>
     receipts_contain r owner key \<and> identity item \<noteq> Some (owner, key)"
  by (auto simp: rollback_item_def receipts_contain_def split: option.splits prod.splits if_splits)

lemma receipts_ext:
  assumes "receipts_wf r" and "receipts_wf r'"
    and eq: "\<And>owner key. receipts_contain r owner key \<longleftrightarrow> receipts_contain r' owner key"
  shows "r = r'"
proof
  fix owner
  have "(\<lambda>key. receipts_contain r owner key) = (\<lambda>key. receipts_contain r' owner key)" using eq by auto
  with assms(1,2) show "r owner = r' owner"
    by (cases "r owner"; cases "r' owner") (auto simp: receipts_contain_def receipts_wf_def fun_eq_iff)
qed

lemma rollback_wf [mobius_inv]: "receipts_wf r \<Longrightarrow> receipts_wf (rollback r items)"
  by (induction items arbitrary: r) (simp_all add: rollback_def receipts_wf_rollback_item)

lemma rollback_contain:
  "receipts_contain (rollback r items) owner key \<longleftrightarrow>
     receipts_contain r owner key \<and> (\<forall>item \<in> set items. identity item \<noteq> Some (owner, key))"
proof (induction items arbitrary: r)
  case (Cons item items)
  have "rollback r (item # items) = rollback (rollback_item r item) items" by (simp add: rollback_def)
  with Cons show ?case by (auto simp: rollback_item_contain)
qed (simp add: rollback_def)

lemma accept_batch_wf [mobius_inv]: "receipts_wf r \<Longrightarrow> receipts_wf (fst (accept_batch r items))"
proof (induction items arbitrary: r)
  case (Cons item items)
  from Cons.IH [OF receipts_wf_accept [OF Cons.prems], of item] show ?case by (simp add: split_beta)
qed simp

lemma accept_batch_contain:
  "receipts_contain (fst (accept_batch r items)) owner key \<longleftrightarrow>
     receipts_contain r owner key \<or> (\<exists>item \<in> set items. identity item = Some (owner, key))"
  by (induction items arbitrary: r) (auto simp: split_beta receipts_contain_accept)

lemma accept_snd: "snd (accept r item) \<longleftrightarrow> (\<forall>owner key. identity item = Some (owner, key) \<longrightarrow> \<not> receipts_contain r owner key)"
  by (auto simp: accept_def split: option.splits)

lemma accept_batch_kept:
  "item \<in> set (snd (accept_batch r items)) \<Longrightarrow> item \<in> set items \<and> snd (accept r item)"
proof (induction items arbitrary: r)
  case (Cons x xs)
  show ?case
  proof (cases "item \<in> set (snd (accept_batch (fst (accept r x)) xs))")
    case True
    from Cons.IH [OF this] show ?thesis by (auto simp: accept_snd receipts_contain_accept)
  next
    case False
    with Cons.prems show ?thesis by (auto simp: split_beta split: if_splits)
  qed
qed simp

lemma accept_batch_covers:
  "item \<in> set items \<Longrightarrow> identity item = Some (owner, key) \<Longrightarrow> \<not> receipts_contain r owner key
     \<Longrightarrow> \<exists>kept \<in> set (snd (accept_batch r items)). identity kept = Some (owner, key)"
proof (induction items arbitrary: r)
  case (Cons x xs)
  show ?case
  proof (cases "identity x = Some (owner, key)")
    case True
    with Cons.prems(3) have "snd (accept r x)" by (simp add: accept_snd)
    with True show ?thesis by (auto simp: split_beta)
  next
    case False
    with Cons.prems have "item \<in> set xs" "\<not> receipts_contain (fst (accept r x)) owner key"
      by (auto simp: receipts_contain_accept)
    from Cons.IH [OF this(1) Cons.prems(2) this(2)] show ?thesis by (auto simp: split_beta)
  qed
qed simp

lemma identity_marked:
  "identity (JObject (obj_insert FIELD (JObject [(''owner'', JString owner), (''key'', JString key)]) fs)) = Some (owner, key)"
  by (simp add: identity_def get_str_def update_conv')

text \<open>
  Rolling back the items a batch appended restores the receipts exactly, whatever the batch held:
  duplicates inside it, items delivered earlier and items without a receipt.
\<close>

lemma rollback_undoes_batch:
  assumes "receipts_wf r" and "accept_batch r items = (r', kept)"
  shows "rollback r' kept = r"
proof (rule receipts_ext)
  from assms show "receipts_wf (rollback r' kept)" by (metis accept_batch_wf fst_conv rollback_wf)
  fix owner key
  have kept: "snd (accept r item)" if "item \<in> set kept" for item
    using accept_batch_kept [of item r items] that assms(2) by simp
  have "receipts_contain r' owner key \<longleftrightarrow>
      receipts_contain r owner key \<or> (\<exists>item \<in> set items. identity item = Some (owner, key))"
    using accept_batch_contain [of r items owner key] assms(2) by simp
  moreover have "\<exists>item \<in> set kept. identity item = Some (owner, key)"
    if "item \<in> set items" "identity item = Some (owner, key)" "\<not> receipts_contain r owner key" for item
    using accept_batch_covers [OF that] assms(2) by simp
  ultimately show "receipts_contain (rollback r' kept) owner key = receipts_contain r owner key"
    using kept unfolding rollback_contain accept_snd by blast
qed (rule assms(1))

subsection \<open>Properties\<close>

text \<open>
  C28. Guidance is delivered at most once per owner and key: once a delivered item is accepted into the
  receipts, every later delivery with that owner and key reports no delivery and changes nothing.
\<close>

theorem deliver_once:
  assumes "deliver r owner input (Some key) made = (input', Inr True)"
  shows "\<exists>item. input' = input @ [item] \<and> identity item = Some (owner, key) \<and> snd (accept r item)
    \<and> deliver r owner (input' @ later) (Some key) made' = (input' @ later, Inr False)
    \<and> deliver (fst (accept r item)) owner later (Some key) made' = (later, Inr False)"
proof -
  have ok: "owner \<noteq> []" "valid_ascii_identifier key 384 AnyCase once_separators" "\<not> receipts_contain r owner key"
    using assms by (auto simp: deliver_def split: if_splits option.splits)
  from assms obtain fs where "input' = input @
      [JObject (obj_insert FIELD (JObject [(''owner'', JString owner), (''key'', JString key)]) fs)]"
    by (auto simp: deliver_def split: if_splits option.splits)
  then obtain item where item: "input' = input @ [item]" "identity item = Some (owner, key)"
    using identity_marked by blast
  with ok show ?thesis
    by (intro exI [of _ item]) (auto simp: deliver_def accept_snd receipts_contain_accept)
qed

theorem deliver_once_witness:
  "let made = internal_user_message ''message_permissions'' ''note'';
       input' = fst (deliver Map.empty ''messages'' [] (Some ''permissions'') made)
   in deliver Map.empty ''messages'' input' (Some ''permissions'') made = (input', Inr False)"
proof -
  let ?made = "internal_user_message ''message_permissions'' ''note''"
  obtain input' where d: "deliver Map.empty ''messages'' [] (Some ''permissions'') ?made = (input', Inr True)"
    by (simp add: deliver_def valid_ascii_identifier_def is_ascii_def ascii_letter_def is_ascii_lower_def
        receipts_contain_def)
       (simp add: internal_user_message_def set_field_def user_message_def)
  from deliver_once [OF d, of "[]" ?made] d show ?thesis by (auto simp: Let_def)
qed

end
