(* ===== verification/Checkpoint.thy ===== *)
theory Checkpoint
  imports Message_Queue Delivery_Once
begin

text \<open>
  The durable checkpoint of \<open>src/backend/checkpoint/mod.rs\<close>: the turn that is running, its statistics,
  a paused approval, and the checks of \<open>src/backend/checkpoint/sqlite.rs\<close> that every checkpoint passes
  before it is stored.
\<close>

definition CHECKPOINT_VERSION :: nat where "CHECKPOINT_VERSION = 21"

datatype sandbox_mode = WorkspaceWrite | DangerFullAccess
datatype network_access = NetDenied | NetAllowed

datatype execution_phase = PhaseModel | PhaseCompletion "string option"
datatype execution_outcome = OutCompleted | OutAborted | OutFailed

record active_execution =
  ax_submission_id :: string
  ax_author :: message_author
  ax_turn_id :: string
  ax_started_at_ms :: int
  ax_model_calls :: nat
  ax_tool_calls :: nat
  ax_failed_tool_calls :: nat
  ax_usage :: token_usage
  ax_next_model_step :: nat
  ax_stop_hook_active :: bool
  ax_phase :: execution_phase
  ax_idle :: bool

record active_model_step =
  as_model_step_id :: string
  as_step_index :: nat
  as_started_at_ms :: int

record execution_record =
  xr_session_id :: string
  xr_submission_id :: string
  xr_author :: message_author
  xr_turn_id :: string
  xr_started_at_ms :: int
  xr_finished_at_ms :: int
  xr_elapsed_ms :: nat
  xr_outcome :: execution_outcome
  xr_model_calls :: nat
  xr_tool_calls :: nat
  xr_failed_tool_calls :: nat
  xr_usage :: token_usage

record execution_stats =
  xs_run_count :: nat
  xs_failed_run_count :: nat
  xs_aborted_run_count :: nat
  xs_model_calls :: nat
  xs_tool_calls :: nat
  xs_failed_tool_calls :: nat
  xs_elapsed_ms :: nat
  xs_usage :: token_usage

datatype context_rewrite_reason = RwAttachments | RwCompaction | RwModelChange | RwMemory

record context_rewrite =
  cr_epoch :: nat
  cr_reasons :: "context_rewrite_reason list"

fun rewrite_reason_str :: "context_rewrite_reason \<Rightarrow> string" where
  "rewrite_reason_str RwAttachments = ''attachments''"
| "rewrite_reason_str RwCompaction = ''compaction''"
| "rewrite_reason_str RwModelChange = ''model_change''"
| "rewrite_reason_str RwMemory = ''memory''"

subsection \<open>Execution statistics\<close>

definition stats_zero :: execution_stats where
  "stats_zero = \<lparr>xs_run_count = 0, xs_failed_run_count = 0, xs_aborted_run_count = 0, xs_model_calls = 0,
     xs_tool_calls = 0, xs_failed_tool_calls = 0, xs_elapsed_ms = 0, xs_usage = usage_zero\<rparr>"

definition stats_checked_sum :: "execution_stats \<Rightarrow> execution_stats \<Rightarrow> execution_stats option" where
  "stats_checked_sum a b =
     Option.bind (u64_checked_add (xs_run_count a) (xs_run_count b)) (\<lambda>run_count.
     Option.bind (u64_checked_add (xs_failed_run_count a) (xs_failed_run_count b)) (\<lambda>failed_run_count.
     Option.bind (u64_checked_add (xs_aborted_run_count a) (xs_aborted_run_count b)) (\<lambda>aborted_run_count.
     Option.bind (u64_checked_add (xs_model_calls a) (xs_model_calls b)) (\<lambda>model_calls.
     Option.bind (u64_checked_add (xs_tool_calls a) (xs_tool_calls b)) (\<lambda>tool_calls.
     Option.bind (u64_checked_add (xs_failed_tool_calls a) (xs_failed_tool_calls b)) (\<lambda>failed_tool_calls.
     Option.bind (u64_checked_add (xs_elapsed_ms a) (xs_elapsed_ms b)) (\<lambda>elapsed_ms.
     Option.bind (usage_checked_sum (xs_usage a) (xs_usage b)) (\<lambda>usage.
       Some \<lparr>xs_run_count = run_count, xs_failed_run_count = failed_run_count,
         xs_aborted_run_count = aborted_run_count, xs_model_calls = model_calls, xs_tool_calls = tool_calls,
         xs_failed_tool_calls = failed_tool_calls, xs_elapsed_ms = elapsed_ms, xs_usage = usage\<rparr>))))))))"

definition stats_checked_add :: "execution_stats \<Rightarrow> execution_stats \<Rightarrow> execution_stats \<times> unit option" where
  "stats_checked_add self other = (case stats_checked_sum self other of
      None \<Rightarrow> (self, None) | Some next_stats \<Rightarrow> (next_stats, Some ()))"

definition record_stats :: "execution_record \<Rightarrow> execution_stats" where
  "record_stats r = \<lparr>xs_run_count = 1,
     xs_failed_run_count = (if xr_outcome r = OutFailed then 1 else 0),
     xs_aborted_run_count = (if xr_outcome r = OutAborted then 1 else 0),
     xs_model_calls = xr_model_calls r, xs_tool_calls = xr_tool_calls r,
     xs_failed_tool_calls = xr_failed_tool_calls r, xs_elapsed_ms = xr_elapsed_ms r, xs_usage = usage_zero\<rparr>"

definition checked_record :: "execution_stats \<Rightarrow> execution_record \<Rightarrow> execution_stats \<times> unit option" where
  "checked_record self r = (case usage_checked_sum (xs_usage self) (xr_usage r) of
      None \<Rightarrow> (self, None)
    | Some usage \<Rightarrow> (case stats_checked_sum self (record_stats r) of
          None \<Rightarrow> (self, None)
        | Some next_stats \<Rightarrow> (next_stats\<lparr>xs_usage := usage\<rparr>, Some ())))"

subsection \<open>A paused approval\<close>

record pending_approval =
  pa_submission_id :: string
  pa_turn_id :: string
  pa_request_id :: string
  pa_approval_call_ids :: "string list"
  pa_authorized_call_ids :: "string list"
  pa_calls :: "tool_call list"
  pa_reason :: string
  pa_sandbox_mode :: sandbox_mode
  pa_network_access :: network_access
  pa_decision_received :: bool

definition request_event :: "pending_approval \<Rightarrow> exec_approval_request_event" where
  "request_event p = \<lparr>ea_id = pa_request_id p, ea_turn_id = pa_turn_id p,
     ea_calls = map (\<lambda>call. \<lparr>ac_call_id = tc_call_id call, ac_name = tc_name call,
         ac_arguments = tc_arguments call, ac_preview = None\<rparr>)
       (filter (\<lambda>call. tc_call_id call \<in> set (pa_approval_call_ids p)) (pa_calls p)),
     ea_reason = pa_reason p\<rparr>"

subsection \<open>The checkpoint\<close>

record checkpoint =
  ck_version :: nat
  ck_session_id :: string
  ck_session_context :: session_context
  ck_metadata :: "string \<rightharpoonup> json"
  ck_catalog_visible :: bool
  ck_first_user_message :: "string option"
  ck_model_route :: "string option"
  ck_context_model_route :: "string option"
  ck_sequence :: nat
  ck_context :: "json list"
  ck_delivered_once :: receipts
  ck_context_epoch :: nat
  ck_last_context_rewrite :: "context_rewrite option"
  ck_total_usage :: token_usage
  ck_last_usage :: "token_usage option"
  ck_pending_messages :: "queued_message list"
  ck_active_execution :: "active_execution option"
  ck_active_model_step :: "active_model_step option"
  ck_execution_stats :: execution_stats
  ck_pending_tools :: "tool_call list"
  ck_pending_approval :: "pending_approval option"

definition session_context_default :: session_context where
  "session_context_default = \<lparr>cx_owner_id = [], cx_tenant_id = None, cx_user_id = None, cx_user_name = None,
     cx_workspace_id = None, cx_workspace_label = None, cx_origin_label = None\<rparr>"

definition checkpoint_empty :: "string \<Rightarrow> checkpoint" where
  "checkpoint_empty session_id = \<lparr>ck_version = CHECKPOINT_VERSION, ck_session_id = session_id,
     ck_session_context = session_context_default, ck_metadata = Map.empty, ck_catalog_visible = True,
     ck_first_user_message = None, ck_model_route = None, ck_context_model_route = None, ck_sequence = 0,
     ck_context = [], ck_delivered_once = Map.empty, ck_context_epoch = 0, ck_last_context_rewrite = None,
     ck_total_usage = usage_zero, ck_last_usage = None, ck_pending_messages = [],
     ck_active_execution = None, ck_active_model_step = None, ck_execution_stats = stats_zero,
     ck_pending_tools = [], ck_pending_approval = None\<rparr>"

text \<open>
  \<open>Checkpoint::finish_execution\<close>: the active execution is taken out, and put back from the record when
  the statistics would overflow.
\<close>

definition finish_execution ::
    "checkpoint \<Rightarrow> execution_outcome \<Rightarrow> int \<Rightarrow> checkpoint \<times> execution_record res" where
  "finish_execution self outcome finished_at_ms =
     (if ck_active_model_step self \<noteq> None
      then (self, Inl (CheckpointErr ''turn ended with an active model step''))
      else (case ck_active_execution self of
              None \<Rightarrow> (self, Inl (CheckpointErr ''turn ended without an active execution''))
            | Some active \<Rightarrow>
                (let taken = self\<lparr>ck_active_execution := None\<rparr>;
                     finished = max finished_at_ms (ax_started_at_ms active);
                     r = \<lparr>xr_session_id = ck_session_id taken, xr_submission_id = ax_submission_id active,
                        xr_author = ax_author active, xr_turn_id = ax_turn_id active,
                        xr_started_at_ms = ax_started_at_ms active, xr_finished_at_ms = finished,
                        xr_elapsed_ms = nat \<bar>finished - ax_started_at_ms active\<bar>, xr_outcome = outcome,
                        xr_model_calls = ax_model_calls active, xr_tool_calls = ax_tool_calls active,
                        xr_failed_tool_calls = ax_failed_tool_calls active, xr_usage = ax_usage active\<rparr>
                 in case checked_record (ck_execution_stats taken) r of
                      (stats, Some _) \<Rightarrow> (taken\<lparr>ck_execution_stats := stats\<rparr>, Inr r)
                    | (stats, None) \<Rightarrow>
                        (taken\<lparr>ck_execution_stats := stats,
                            ck_active_execution := Some (active\<lparr>ax_submission_id := xr_submission_id r,
                              ax_author := xr_author r, ax_turn_id := xr_turn_id r, ax_usage := xr_usage r\<rparr>)\<rparr>,
                         Inl (CheckpointErr ''execution statistics exceed the supported range'')))))"

subsection \<open>Validation before a save\<close>

fun duplicate_queued :: "(string \<times> string) list \<Rightarrow> queued_message list \<Rightarrow> (string \<times> string) option" where
  "duplicate_queued seen [] = None"
| "duplicate_queued seen (q # qs) =
     (if (qm_owner q, qm_id q) \<in> set seen then Some (qm_owner q, qm_id q)
      else duplicate_queued ((qm_owner q, qm_id q) # seen) qs)"

definition pending_work :: "checkpoint \<Rightarrow> bool" where
  "pending_work c \<longleftrightarrow> ck_active_model_step c \<noteq> None \<or> ck_pending_tools c \<noteq> [] \<or> ck_pending_approval c \<noteq> None"

definition validate_active_execution :: "checkpoint \<Rightarrow> unit res" where
  "validate_active_execution c = (case ck_active_execution c of
      Some active \<Rightarrow>
        (if blank (ax_submission_id active) \<or> blank (ax_turn_id active)
         then Inl (CheckpointErr ''active execution identifiers cannot be empty'')
         else if ax_started_at_ms active < 0
         then Inl (CheckpointErr ''active execution start time cannot be negative'')
         else if ax_tool_calls active < ax_failed_tool_calls active
         then Inl (CheckpointErr ''active execution failed-tool count exceeds tool count'')
         else if (case ax_phase active of PhaseCompletion _ \<Rightarrow> pending_work c | PhaseModel \<Rightarrow> False)
         then Inl (CheckpointErr ''turn completion conflicts with pending model or tool work'')
         else Inr ())
    | None \<Rightarrow>
        (if pending_work c then Inl (CheckpointErr ''pending model or tool work has no active execution'')
         else Inr ()))"

definition validate_pending_approval :: "pending_approval option \<Rightarrow> unit res" where
  "validate_pending_approval a = (case a of
      None \<Rightarrow> Inr ()
    | Some p \<Rightarrow>
        (if pa_approval_call_ids p = [] \<or> \<not> distinct (pa_approval_call_ids p)
           \<or> \<not> set (pa_approval_call_ids p) \<subseteq> set (map tc_call_id (pa_calls p))
         then Inl (CheckpointErr ''pending approval selects unknown or repeated tool calls'')
         else Inr ()))"

definition validate_session_context :: "session_context \<Rightarrow> unit res" where
  "validate_session_context c = (case session_context_validate c of
      Inr u \<Rightarrow> Inr u
    | Inl (Config message) \<Rightarrow> Inl (CheckpointErr message)
    | Inl e \<Rightarrow> Inl e)"

definition validate_active_model_step :: "checkpoint \<Rightarrow> unit res" where
  "validate_active_model_step c = (case ck_active_model_step c of
      None \<Rightarrow> Inr ()
    | Some step \<Rightarrow> (case ck_active_execution c of
          None \<Rightarrow> Inl (CheckpointErr ''active model step has no active execution'')
        | Some active \<Rightarrow>
            (if blank (as_model_step_id step)
             then Inl (CheckpointErr ''active model-step identifier cannot be empty'')
             else if as_started_at_ms step < ax_started_at_ms active
             then Inl (CheckpointErr ''active model step predates its execution'')
             else Inr ())))"

definition validate_pending_messages :: "queued_message list \<Rightarrow> unit res" where
  "validate_pending_messages items =
     (if MAX_QUEUED_MESSAGES < length items
      then Inl (CheckpointErr ''queued messages exceed the durable item limit'')
      else (case duplicate_queued [] items of
              Some (owner, i) \<Rightarrow> Inl (CheckpointErr (''duplicate queued message `'' @ owner @ ''/'' @ i @ ''`''))
            | None \<Rightarrow> Inr ()))"

definition validate_checkpoint :: "checkpoint \<Rightarrow> unit res" where
  "validate_checkpoint c =
     (if ck_version c \<noteq> CHECKPOINT_VERSION
      then Inl (CheckpointErr (''unsupported checkpoint version '' @ show_nat (ck_version c)))
      else res_bind (validate_active_execution c) (\<lambda>_.
           res_bind (validate_pending_approval (ck_pending_approval c)) (\<lambda>_.
           res_bind (validate_session_context (ck_session_context c)) (\<lambda>_.
           res_bind (validate_active_model_step c) (\<lambda>_.
             validate_pending_messages (ck_pending_messages c))))))"

definition validate_execution_record :: "(string \<Rightarrow> bool) \<Rightarrow> execution_record \<Rightarrow> unit res" where
  "validate_execution_record uuid_ok r =
     res_bind (validate_message_content uuid_ok (xr_author r) ''execution origin'' []) (\<lambda>_.
       if blank (xr_submission_id r) \<or> blank (xr_turn_id r)
       then Inl (CheckpointErr ''execution record identifiers cannot be empty'')
       else if xr_started_at_ms r < 0 \<or> xr_finished_at_ms r < xr_started_at_ms r
       then Inl (CheckpointErr ''execution record has invalid timestamps'')
       else if xr_elapsed_ms r \<noteq> nat (xr_finished_at_ms r - xr_started_at_ms r)
       then Inl (CheckpointErr ''execution elapsed time does not match its timestamps'')
       else if xr_tool_calls r < xr_failed_tool_calls r
       then Inl (CheckpointErr ''execution failed-tool count exceeds tool count'')
       else Inr ())"

definition validate_execution :: "(string \<Rightarrow> bool) \<Rightarrow> checkpoint \<Rightarrow> execution_record \<Rightarrow> unit res" where
  "validate_execution uuid_ok c r =
     (if ck_active_execution c \<noteq> None
      then Inl (CheckpointErr ''a terminal execution requires an idle checkpoint'')
      else if xr_session_id r \<noteq> ck_session_id c
      then Inl (CheckpointErr ''execution record does not match its checkpoint'')
      else validate_execution_record uuid_ok r)"

subsection \<open>Lemmas\<close>

definition stats_plus :: "execution_stats \<Rightarrow> execution_stats \<Rightarrow> execution_stats" where
  "stats_plus a b = \<lparr>xs_run_count = xs_run_count a + xs_run_count b,
     xs_failed_run_count = xs_failed_run_count a + xs_failed_run_count b,
     xs_aborted_run_count = xs_aborted_run_count a + xs_aborted_run_count b,
     xs_model_calls = xs_model_calls a + xs_model_calls b, xs_tool_calls = xs_tool_calls a + xs_tool_calls b,
     xs_failed_tool_calls = xs_failed_tool_calls a + xs_failed_tool_calls b,
     xs_elapsed_ms = xs_elapsed_ms a + xs_elapsed_ms b, xs_usage = usage_plus (xs_usage a) (xs_usage b)\<rparr>"

definition stats_ok :: "execution_stats \<Rightarrow> bool" where
  "stats_ok s \<longleftrightarrow> is_u64 (xs_run_count s) \<and> is_u64 (xs_failed_run_count s) \<and> is_u64 (xs_aborted_run_count s)
     \<and> is_u64 (xs_model_calls s) \<and> is_u64 (xs_tool_calls s) \<and> is_u64 (xs_failed_tool_calls s)
     \<and> is_u64 (xs_elapsed_ms s) \<and> usage_ok (xs_usage s)"

lemma stats_checked_sum_Some:
  "stats_checked_sum a b = Some s \<longleftrightarrow> s = stats_plus a b \<and> stats_ok (stats_plus a b)"
  by (auto simp: stats_checked_sum_def stats_plus_def stats_ok_def bind_eq_Some_conv usage_checked_sum_Some is_u64_def)

lemma usage_plus_zero [simp]: "usage_plus u usage_zero = u"
  by (cases u) (simp add: usage_plus_def usage_zero_def)

definition record_full_stats :: "execution_record \<Rightarrow> execution_stats" where
  "record_full_stats r = (record_stats r)\<lparr>xs_usage := xr_usage r\<rparr>"

lemma checked_record_Some:
  assumes "checked_record self r = (s, Some u)"
  shows "s = stats_plus self (record_full_stats r) \<and> stats_ok s"
  using assms
  by (auto simp: checked_record_def usage_checked_sum_Some stats_checked_sum_Some stats_plus_def stats_ok_def
      record_full_stats_def record_stats_def split: option.splits)

lemma checked_record_None: "checked_record self r = (s, None) \<Longrightarrow> s = self"
  by (auto simp: checked_record_def split: option.splits)

lemma duplicate_queued_None:
  "duplicate_queued seen items = None \<longleftrightarrow> distinct (map queue_key items) \<and> set (map queue_key items) \<inter> set seen = {}"
  by (induction items arbitrary: seen) (auto simp: queue_key_def)

lemma validate_pending_messages_iff: "validate_pending_messages items = Inr u \<longleftrightarrow> queue_inv items"
  by (auto simp: validate_pending_messages_def queue_inv_def duplicate_queued_None split: option.splits)
     (metis duplicate_queued_None inf_bot_right list.set(1) option.distinct(1))

lemma finish_execution_Inr:
  assumes "finish_execution c outcome t = (c', Inr r)"
  obtains active where "ck_active_execution c = Some active" "ck_active_model_step c = None"
    "r = \<lparr>xr_session_id = ck_session_id c, xr_submission_id = ax_submission_id active,
        xr_author = ax_author active, xr_turn_id = ax_turn_id active,
        xr_started_at_ms = ax_started_at_ms active, xr_finished_at_ms = max t (ax_started_at_ms active),
        xr_elapsed_ms = nat (max t (ax_started_at_ms active) - ax_started_at_ms active), xr_outcome = outcome,
        xr_model_calls = ax_model_calls active, xr_tool_calls = ax_tool_calls active,
        xr_failed_tool_calls = ax_failed_tool_calls active, xr_usage = ax_usage active\<rparr>"
    "c' = c\<lparr>ck_active_execution := None,
        ck_execution_stats := stats_plus (ck_execution_stats c) (record_full_stats r)\<rparr>"
    "stats_ok (ck_execution_stats c')"
proof -
  have abs: "nat \<bar>max t s - s\<bar> = nat (max t s - s)" for s :: int by simp
  from assms that show thesis
    unfolding finish_execution_def Let_def abs
    by (auto simp del: max_def split: if_splits option.splits prod.splits dest!: checked_record_Some)
qed

lemma finish_execution_Inl:
  assumes "finish_execution c outcome t = (c', Inl e)"
  shows "c' = c"
proof (cases "ck_active_execution c")
  case None
  with assms show ?thesis by (auto simp: finish_execution_def split: if_splits)
next
  case (Some active)
  then have "c = c\<lparr>ck_active_execution := Some active\<rparr>" by simp
  with assms Some show ?thesis
    by (auto simp: finish_execution_def Let_def split: if_splits option.splits prod.splits dest!: checked_record_None)
qed

subsection \<open>Properties\<close>

text \<open>A turn that cannot be finished (a model step is active, no execution is active, or the
  statistics would overflow) leaves the checkpoint exactly as it was.\<close>

lemma finish_execution_failure_restores:
  assumes "finish_execution c outcome t = (c', Inl e)"
  shows "c' = c"
  using assms by (rule finish_execution_Inl)

definition sample_execution :: active_execution where
  "sample_execution = \<lparr>ax_submission_id = ''s1'', ax_author = User, ax_turn_id = ''t1'', ax_started_at_ms = 10,
     ax_model_calls = 2, ax_tool_calls = 3, ax_failed_tool_calls = 1, ax_usage = usage_zero,
     ax_next_model_step = 2, ax_stop_hook_active = False, ax_phase = PhaseModel, ax_idle = False\<rparr>"

definition sample_checkpoint :: checkpoint where
  "sample_checkpoint = (checkpoint_empty ''session'')\<lparr>
     ck_session_context := session_context_default\<lparr>cx_owner_id := ''owner''\<rparr>,
     ck_sequence := 1, ck_active_execution := Some sample_execution\<rparr>"


lemma sample_not_blank: "\<not> blank ''s1'' \<and> \<not> blank ''t1'' \<and> \<not> blank ''owner'' \<and> \<not> blank ''execution origin''"
  by code_simp

lemma sample_checkpoint_valid: "validate_checkpoint sample_checkpoint = Inr ()"
  by (simp add: validate_checkpoint_def sample_checkpoint_def checkpoint_empty_def validate_active_execution_def
      sample_execution_def pending_work_def validate_pending_approval_def validate_session_context_def
      session_context_validate_def session_context_default_def validate_active_model_step_def
      validate_pending_messages_def MAX_IDENTIFIER_BYTES_def validate_identifier_def MAX_QUEUED_MESSAGES_def
      sample_not_blank)


text \<open>The store's queue check accepts exactly the queues that satisfy the queue invariant, so a
  checkpoint whose queue was built by the queue operations is never refused for its queue.\<close>

lemma queue_operations_storable:
  assumes "queue_reachable cd items"
  shows "validate_pending_messages items = Inr ()"
  using queue_reachable_inv [OF assms] by (simp add: validate_pending_messages_iff)

end
