(* ===== verification/Store.thy ===== *)
theory Store
  imports Journal Checkpoint
begin

text \<open>
  Saving and loading checkpoints: \<open>src/backend/checkpoint/sqlite.rs\<close> and the split header and context
  rows of \<open>src/backend/checkpoint/sqlite_context.rs\<close>.  A session's part of the database is its header
  row, context rows, receipts, terminal executions and journal; a transaction is a function that returns
  the new part or an error, and an error leaves the database as it was.
\<close>

record session_row =
  sr_latest_sequence :: nat
  sr_header :: checkpoint
  sr_context_epoch :: nat
  sr_context_count :: nat
  sr_context_items :: "(nat \<times> nat \<times> json) list"
  sr_receipts :: "string list"
  sr_executions :: "(nat \<times> execution_record) list"
  sr_db :: session_db

type_synonym store = "string \<rightharpoonup> session_row"

definition sqlite_integer :: "nat \<Rightarrow> string \<Rightarrow> nat res" where
  "sqlite_integer value name = (if int value \<le> i64_max then Inr value
     else Inl (CheckpointErr (name @ '' exceeds SQLite INTEGER: '' @ out_of_range)))"

definition context_count :: "checkpoint \<Rightarrow> nat res" where
  "context_count c = (if int (length (ck_context c)) \<le> i64_max then Inr (length (ck_context c))
     else Inl (CheckpointErr (''context length exceeds SQLite INTEGER: '' @ out_of_range)))"

definition constraint_failed :: error where
  "constraint_failed = Sqlite ''UNIQUE constraint failed''"

subsection \<open>The context prefix\<close>

text \<open>
  The identity hint of a live session: the addresses of the shared items of the last saved context.
  Addresses are naturals; an item's address is given beside the checkpoint.
\<close>

record context_cache =
  cc_sequence :: nat
  cc_epoch :: nat
  cc_data_version :: int
  cc_items :: "nat list"

fun check_prefix :: "(nat \<Rightarrow> bool) \<Rightarrow> nat \<Rightarrow> json list \<Rightarrow> (nat \<times> json) list \<Rightarrow> unit res" where
  "check_prefix same index [] rows = Inr ()"
| "check_prefix same index (item # items) [] = Inl (CheckpointErr ''stored context item is missing'')"
| "check_prefix same index (item # items) ((stored_index, previous) # rows) =
     (if stored_index \<noteq> index then Inl (CheckpointErr ''stored context item is missing'')
      else if same index then check_prefix same (Suc index) items rows
      else if previous \<noteq> item then Inl (CheckpointErr ''context prefix changed without advancing its epoch'')
      else check_prefix same (Suc index) items rows)"

definition prefix_rows :: "session_row \<Rightarrow> (nat \<times> json) list" where
  "prefix_rows row = map snd (filter (\<lambda>(epoch, index, item).
     epoch = sr_context_epoch row \<and> index < sr_context_count row) (sr_context_items row))"

definition usable_cache :: "context_cache option \<Rightarrow> int \<Rightarrow> session_row \<Rightarrow> checkpoint \<Rightarrow> context_cache option" where
  "usable_cache cached data_version row c = (case cached of
      None \<Rightarrow> None
    | Some cache \<Rightarrow>
        (if cc_sequence cache = sr_latest_sequence row \<and> cc_epoch cache = ck_context_epoch c
           \<and> cc_data_version cache = data_version \<and> length (cc_items cache) = sr_context_count row
         then Some cache else None))"

definition same_item :: "context_cache option \<Rightarrow> nat list \<Rightarrow> nat \<Rightarrow> bool" where
  "same_item cached addresses index = (case cached of
      None \<Rightarrow> False
    | Some cache \<Rightarrow> index < length (cc_items cache) \<and> index < length addresses
        \<and> cc_items cache ! index = addresses ! index)"

definition prepare_append ::
    "session_row option \<Rightarrow> checkpoint \<Rightarrow> nat list \<Rightarrow> context_cache option \<Rightarrow> int
      \<Rightarrow> (session_row option \<times> nat \<times> bool) res" where
  "prepare_append durable c addresses cached data_version = (case durable of
      None \<Rightarrow> Inr (None, 0, False)
    | Some row \<Rightarrow>
        res_bind (sqlite_integer (ck_sequence c) ''checkpoint sequence'') (\<lambda>next_sequence.
        res_bind (sqlite_integer (ck_context_epoch c) ''context epoch'') (\<lambda>next_epoch.
        if next_sequence \<le> sr_latest_sequence row
        then Inl (CheckpointErr ''checkpoint sequence did not advance'')
        else if next_epoch < sr_context_epoch row
        then Inl (CheckpointErr ''context epoch cannot move backwards'')
        else if next_epoch \<noteq> sr_context_epoch row
        then Inr (Some (row\<lparr>sr_context_items := []\<rparr>), 0, True)
        else (let count = sr_context_count row in
          if length (ck_context c) < count
          then Inl (CheckpointErr ''context prefix was truncated without advancing its epoch'')
          else (let cache = usable_cache cached data_version row c in
            if count = 0 \<or> (cache \<noteq> None \<and> list_all (same_item cache addresses) [0..<count])
            then Inr (Some row, count, False)
            else res_bind (check_prefix (same_item cache addresses) 0 (take count (ck_context c)) (prefix_rows row))
                   (\<lambda>_. Inr (Some row, count, False)))))))"

subsection \<open>The commit\<close>

definition insert_receipts :: "string list \<Rightarrow> queued_message list \<Rightarrow> string list" where
  "insert_receipts receipts messages = foldl (\<lambda>rs q. List.insert (qm_id q) rs) receipts messages"

definition empty_session_db :: session_db where
  "empty_session_db = \<lparr>db_latest_event_sequence = 0, db_journal = [], db_transcript = []\<rparr>"

definition upsert_session :: "session_row option \<Rightarrow> checkpoint \<Rightarrow> nat \<Rightarrow> nat \<Rightarrow> session_row res" where
  "upsert_session existing c epoch count =
     (let header = c\<lparr>ck_context := []\<rparr> in case existing of
        None \<Rightarrow> Inr \<lparr>sr_latest_sequence = ck_sequence c, sr_header = header, sr_context_epoch = epoch,
             sr_context_count = count, sr_context_items = [], sr_receipts = [], sr_executions = [],
             sr_db = empty_session_db\<rparr>
      | Some row \<Rightarrow>
          (if sr_latest_sequence row < ck_sequence c
           then Inr (row\<lparr>sr_latest_sequence := ck_sequence c, sr_header := header,
                  sr_context_epoch := epoch, sr_context_count := count\<rparr>)
           else Inl (CheckpointErr ''checkpoint sequence did not advance'')))"

definition store_transcript :: "session_row \<Rightarrow> nat \<Rightarrow> json list \<Rightarrow> session_row res" where
  "store_transcript row sequence items =
     (if items = [] then Inr row
      else if map_of (db_transcript (sr_db row)) sequence \<noteq> None then Inl constraint_failed
      else Inr (row\<lparr>sr_db := (sr_db row)\<lparr>db_transcript := db_transcript (sr_db row) @ [(sequence, items)]\<rparr>\<rparr>))"

definition store_execution :: "session_row \<Rightarrow> nat \<Rightarrow> execution_record option \<Rightarrow> session_row res" where
  "store_execution row sequence execution = (case execution of
      None \<Rightarrow> Inr row
    | Some r \<Rightarrow>
        (if map_of (sr_executions row) sequence \<noteq> None then Inl constraint_failed
         else Inr (row\<lparr>sr_executions := sr_executions row @ [(sequence, r)]\<rparr>)))"

definition store_checkpoint ::
    "session_row option \<Rightarrow> checkpoint \<Rightarrow> json list \<Rightarrow> execution_record option \<Rightarrow> session_row res" where
  "store_checkpoint existing c transcript execution =
     res_bind (sqlite_integer (ck_context_epoch c) ''context epoch'') (\<lambda>epoch.
     res_bind (context_count c) (\<lambda>count.
     res_bind (upsert_session existing c epoch count) (\<lambda>row.
     res_bind (store_transcript (row\<lparr>sr_receipts := insert_receipts (sr_receipts row) (ck_pending_messages c)\<rparr>)
       (ck_sequence c) transcript) (\<lambda>row.
     store_execution row (ck_sequence c) execution))))"

fun insert_context_items :: "nat \<Rightarrow> (nat \<times> json) list \<Rightarrow> (nat \<times> nat \<times> json) list \<Rightarrow> (nat \<times> nat \<times> json) list res" where
  "insert_context_items epoch [] rows = Inr rows"
| "insert_context_items epoch ((index, item) # items) rows =
     (if i64_max < int index
      then Inl (CheckpointErr (''context index exceeds SQLite INTEGER: '' @ out_of_range))
      else if list_ex (\<lambda>(e, i, _). e = epoch \<and> i = index) rows then Inl constraint_failed
      else insert_context_items epoch items (rows @ [(epoch, index, item)]))"

definition append_context :: "session_row \<Rightarrow> checkpoint \<Rightarrow> nat \<Rightarrow> session_row res" where
  "append_context row c start =
     res_bind (sqlite_integer (ck_context_epoch c) ''context epoch'') (\<lambda>epoch.
     res_bind (insert_context_items epoch (drop start (enumerate 0 (ck_context c))) (sr_context_items row)) (\<lambda>items.
       Inr (row\<lparr>sr_context_items := items\<rparr>)))"

definition save_transaction ::
    "(string \<Rightarrow> bool) \<Rightarrow> session_row option \<Rightarrow> checkpoint \<Rightarrow> nat list \<Rightarrow> context_cache option \<Rightarrow> int
      \<Rightarrow> json list \<Rightarrow> execution_record option \<Rightarrow> timestamped_event list
      \<Rightarrow> (session_row \<times> journal_event list) res" where
  "save_transaction uuid_ok existing c addresses cached data_version transcript_delta execution events =
     res_bind (validate_checkpoint c) (\<lambda>_.
     res_bind (case execution of None \<Rightarrow> Inr () | Some r \<Rightarrow> validate_execution uuid_ok c r) (\<lambda>_.
     if i64_max < int (ck_sequence c)
     then Inl (CheckpointErr (''checkpoint sequence exceeds SQLite INTEGER: '' @ out_of_range))
     else res_bind (prepare_append existing c addresses cached data_version) (\<lambda>(existing, start, rewritten).
       res_bind (store_checkpoint existing c transcript_delta execution) (\<lambda>row.
       res_bind (append_context row c start) (\<lambda>row.
       res_bind (store_events (Some (sr_db row)) events (Some (ck_sequence c, transcript_delta))) (\<lambda>(database, records).
         case database of
           None \<Rightarrow> Inl (CheckpointErr ''event journal session does not exist'')
         | Some db \<Rightarrow> Inr (row\<lparr>sr_db := db\<rparr>, records)))))))"

definition save_with_events ::
    "(string \<Rightarrow> bool) \<Rightarrow> store \<Rightarrow> checkpoint \<Rightarrow> nat list \<Rightarrow> context_cache option \<Rightarrow> int
      \<Rightarrow> json list \<Rightarrow> execution_record option \<Rightarrow> timestamped_event list
      \<Rightarrow> store \<times> journal_event list res" where
  "save_with_events uuid_ok store c addresses cached data_version transcript_delta execution events =
     (case save_transaction uuid_ok (store (ck_session_id c)) c addresses cached data_version
             transcript_delta execution events of
        Inl e \<Rightarrow> (store, Inl e)
      | Inr (row, records) \<Rightarrow> (store(ck_session_id c \<mapsto> row), Inr records))"

definition message_accepted :: "store \<Rightarrow> string \<Rightarrow> string \<Rightarrow> bool" where
  "message_accepted store session_id submission_id = (case store session_id of
      None \<Rightarrow> False | Some row \<Rightarrow> submission_id \<in> set (sr_receipts row))"

subsection \<open>Loading\<close>

definition decode_checkpoint :: "string \<Rightarrow> nat \<Rightarrow> checkpoint \<Rightarrow> checkpoint res" where
  "decode_checkpoint session_id sequence header =
     res_bind (validate_checkpoint header) (\<lambda>_.
       if ck_session_id header \<noteq> session_id \<or> ck_sequence header \<noteq> sequence
       then Inl (CheckpointErr ''checkpoint row does not match its index'') else Inr header)"

fun load_rows :: "nat \<Rightarrow> nat \<Rightarrow> json list \<Rightarrow> (nat \<times> nat \<times> json) list \<Rightarrow> json list res" where
  "load_rows epoch count items [] =
     (if length items \<noteq> count then Inl (CheckpointErr ''stored context length does not match its header'')
      else Inr items)"
| "load_rows epoch count items ((row_epoch, index, item) # rows) =
     (if row_epoch \<noteq> epoch \<or> index \<noteq> length items \<or> count \<le> length items
      then Inl (CheckpointErr ''stored context rows do not match their header'')
      else load_rows epoch count (items @ [item]) rows)"

definition load :: "store \<Rightarrow> string \<Rightarrow> checkpoint option res" where
  "load store session_id = (case store session_id of
      None \<Rightarrow> Inr None
    | Some row \<Rightarrow>
        res_bind (decode_checkpoint session_id (sr_latest_sequence row) (sr_header row)) (\<lambda>c.
        res_bind (sqlite_integer (ck_context_epoch c) ''context epoch'') (\<lambda>epoch.
        if epoch \<noteq> sr_context_epoch row
        then Inl (CheckpointErr ''checkpoint context epoch does not match its index'')
        else res_bind (load_rows (sr_context_epoch row) (sr_context_count row) [] (sr_context_items row))
               (\<lambda>items. Inr (Some (c\<lparr>ck_context := items\<rparr>))))))"

subsection \<open>The stored form of a context\<close>

definition context_rows :: "nat \<Rightarrow> nat \<Rightarrow> json list \<Rightarrow> (nat \<times> nat \<times> json) list" where
  "context_rows epoch start xs = map (\<lambda>(i, x). (epoch, i, x)) (enumerate start xs)"

definition row_inv :: "journal_codec \<Rightarrow> string \<Rightarrow> session_row \<Rightarrow> bool" where
  "row_inv jc sid row \<longleftrightarrow> validate_checkpoint (sr_header row) = Inr ()
     \<and> ck_session_id (sr_header row) = sid \<and> ck_sequence (sr_header row) = sr_latest_sequence row
     \<and> ck_context (sr_header row) = [] \<and> ck_context_epoch (sr_header row) = sr_context_epoch row
     \<and> int (sr_context_epoch row) \<le> i64_max
     \<and> length (sr_context_items row) = sr_context_count row
     \<and> sr_context_items row = context_rows (sr_context_epoch row) 0 (map (snd \<circ> snd) (sr_context_items row))
     \<and> journal_inv (sr_db row) \<and> readable jc (sr_db row)
     \<and> (\<forall>(n, items) \<in> set (db_transcript (sr_db row)). n \<le> sr_latest_sequence row)"

definition stored_context :: "session_row \<Rightarrow> json list" where
  "stored_context row = map (snd \<circ> snd) (sr_context_items row)"

lemma context_rows_simps [simp]:
  "context_rows epoch k [] = []"
  "context_rows epoch k (x # xs) = (epoch, k, x) # context_rows epoch (Suc k) xs"
  by (simp_all add: context_rows_def)

lemma length_context_rows [simp]: "length (context_rows epoch k xs) = length xs"
  by (simp add: context_rows_def)

lemma context_rows_append: "context_rows epoch k (xs @ ys) = context_rows epoch k xs @ context_rows epoch (k + length xs) ys"
  by (induction xs arbitrary: k) simp_all

lemma items_context_rows [simp]: "map (snd \<circ> snd) (context_rows epoch k xs) = xs"
  by (induction xs arbitrary: k) simp_all

lemma load_rows_context:
  "load_rows epoch (length acc + length xs) acc (context_rows epoch (length acc) xs) = Inr (acc @ xs)"
proof (induction xs arbitrary: acc)
  case (Cons x xs)
  from Cons.IH [of "acc @ [x]"] show ?case by simp
qed simp

lemma insert_context_items_Inr:
  "insert_context_items epoch its rows = Inr rows' \<Longrightarrow> rows' = rows @ map (\<lambda>(i, x). (epoch, i, x)) its"
proof (induction its arbitrary: rows)
  case (Cons it its)
  obtain i x where it: "it = (i, x)" by (cases it)
  with Cons.prems have "insert_context_items epoch its (rows @ [(epoch, i, x)]) = Inr rows'"
    by (auto split: if_splits)
  from Cons.IH [OF this] show ?case by (simp add: it)
qed simp

lemma drop_enumerate: "drop n (enumerate k xs) = enumerate (k + n) (drop n xs)"
  by (induction xs arbitrary: n k) (auto split: nat.splits simp: drop_Cons)

lemma context_rows_mem: "(e, i, x) \<in> set (context_rows epoch k xs) \<Longrightarrow> e = epoch \<and> k \<le> i \<and> i < k + length xs"
  by (induction xs arbitrary: k) fastforce+

lemma snd_context_rows: "map snd (context_rows epoch k xs) = enumerate k xs"
  by (induction xs arbitrary: k) simp_all

lemma prefix_rows_inv:
  assumes "row_inv jc sid row"
  shows "prefix_rows row = enumerate 0 (stored_context row)"
proof -
  have rows: "sr_context_items row = context_rows (sr_context_epoch row) 0 (stored_context row)"
    "length (stored_context row) = sr_context_count row"
    using assms by (simp_all add: row_inv_def stored_context_def)
  have "filter (\<lambda>(epoch, index, item). epoch = sr_context_epoch row \<and> index < sr_context_count row)
      (sr_context_items row) = sr_context_items row"
    unfolding filter_id_conv by (subst rows(1)) (auto dest!: context_rows_mem simp: rows(2))
  then show ?thesis using snd_context_rows rows(1) by (metis prefix_rows_def)
qed

lemma check_prefix_iff:
  "length items = length ys \<Longrightarrow> check_prefix same k items (enumerate k ys) = Inr u \<longleftrightarrow>
     (\<forall>i < length ys. same (k + i) \<or> items ! i = ys ! i)"
proof (induction items ys arbitrary: k rule: list_induct2)
  case (Cons x xs y ys)
  have "(\<forall>i < length (y # ys). same (k + i) \<or> (x # xs) ! i = (y # ys) ! i) \<longleftrightarrow>
      (same k \<or> x = y) \<and> (\<forall>i < length ys. same (Suc k + i) \<or> xs ! i = ys ! i)"
    by (auto simp: nth_Cons split: nat.splits)
  with Cons.IH [of "Suc k"] show ?case by auto
qed simp

lemma check_prefix_errors:
  "length items = length ys \<Longrightarrow> check_prefix same k items (enumerate k ys) = Inl e \<Longrightarrow>
     e = CheckpointErr ''context prefix changed without advancing its epoch''"
  by (induction items ys arbitrary: k rule: list_induct2) (auto split: if_splits)

text \<open>
  A hint is sound when its addresses hold what the stored rows hold: shared items are immutable and a
  weak handle keeps its address from being reused.
\<close>

definition cache_sound ::
    "(nat \<Rightarrow> json) \<Rightarrow> context_cache option \<Rightarrow> int \<Rightarrow> session_row option \<Rightarrow> checkpoint \<Rightarrow> bool" where
  "cache_sound heap cached data_version existing c \<longleftrightarrow>
     (\<forall>row cache. existing = Some row \<longrightarrow> usable_cache cached data_version row c = Some cache \<longrightarrow>
        map heap (cc_items cache) = stored_context row)"

lemma same_item_value:
  assumes "cache_sound heap cached dv (Some row) c" and "map heap addresses = ck_context c"
    and "same_item (usable_cache cached dv row c) addresses i"
  shows "i < length (stored_context row) \<and> ck_context c ! i = stored_context row ! i"
proof -
  from assms(3) obtain cache where cache: "usable_cache cached dv row c = Some cache"
    "i < length (cc_items cache)" "i < length addresses" "cc_items cache ! i = addresses ! i"
    by (auto simp: same_item_def split: option.splits)
  with assms(1) have st: "map heap (cc_items cache) = stored_context row" by (simp add: cache_sound_def)
  then have "length (stored_context row) = length (cc_items cache)" by (metis length_map)
  moreover have "stored_context row ! i = heap (cc_items cache ! i)" using cache(2) by (simp flip: st)
  moreover have "ck_context c ! i = heap (addresses ! i)" using cache(3) by (simp flip: assms(2))
  ultimately show ?thesis using cache(2,4) by simp
qed

text \<open>A same-epoch append is accepted exactly when the stored context is a prefix of the new one.\<close>

lemma take_eq_iff: "length xs \<le> length ys \<Longrightarrow> take (length xs) ys = xs \<longleftrightarrow> (\<forall>i < length xs. ys ! i = xs ! i)"
  by (auto simp: list_eq_iff_nth_eq)

lemma same_epoch_check:
  assumes inv: "row_inv jc sid row" and sound: "cache_sound heap cached dv (Some row) c"
    and addr: "map heap addresses = ck_context c" and len: "sr_context_count row \<le> length (ck_context c)"
  shows "(if sr_context_count row = 0 \<or> (usable_cache cached dv row c \<noteq> None
             \<and> list_all (same_item (usable_cache cached dv row c) addresses) [0..<sr_context_count row])
          then Inr ()
          else check_prefix (same_item (usable_cache cached dv row c) addresses) 0
            (take (sr_context_count row) (ck_context c)) (prefix_rows row))
    = (if take (sr_context_count row) (ck_context c) = stored_context row then Inr ()
       else Inl (CheckpointErr ''context prefix changed without advancing its epoch''))"
proof -
  let ?n = "sr_context_count row" and ?same = "same_item (usable_cache cached dv row c) addresses"
  have n: "length (stored_context row) = ?n" using inv by (simp add: row_inv_def stored_context_def)
  note same = same_item_value [OF sound addr]
  have take: "take ?n (ck_context c) = stored_context row \<longleftrightarrow> (\<forall>i < ?n. ck_context c ! i = stored_context row ! i)"
    using take_eq_iff [of "stored_context row" "ck_context c"] len n by simp
  have len': "length (take ?n (ck_context c)) = length (stored_context row)" using len n by simp
  have chk: "check_prefix ?same 0 (take ?n (ck_context c)) (prefix_rows row) = Inr () \<longleftrightarrow>
      take ?n (ck_context c) = stored_context row"
    unfolding prefix_rows_inv [OF inv] check_prefix_iff [OF len'] take using same n by auto
  have fast: "take ?n (ck_context c) = stored_context row" if "list_all ?same [0..<?n]"
    using that same take by (auto simp: list_all_iff)
  have zero: "take ?n (ck_context c) = stored_context row" if "?n = 0" using that n by auto
  show ?thesis
  proof (cases "take ?n (ck_context c) = stored_context row")
    case True
    with chk show ?thesis by simp
  next
    case False
    with chk obtain e where e: "check_prefix ?same 0 (take ?n (ck_context c)) (prefix_rows row) = Inl e"
      by (cases "check_prefix ?same 0 (take ?n (ck_context c)) (prefix_rows row)") auto
    have "?n \<noteq> 0" "\<not> list_all ?same [0..<?n]" using False fast zero by blast+
    with e check_prefix_errors [OF len', of ?same 0, folded prefix_rows_inv [OF inv], OF e] False
    show ?thesis by simp
  qed
qed

lemma prepare_append_None: "prepare_append None c addresses cached dv = Inr (None, 0, False)"
  by (simp add: prepare_append_def)

lemma prepare_append_Some:
  assumes "row_inv jc sid row" and "cache_sound heap cached dv (Some row) c" and "map heap addresses = ck_context c"
  shows "prepare_append (Some row) c addresses cached dv =
    res_bind (sqlite_integer (ck_sequence c) ''checkpoint sequence'') (\<lambda>_.
    res_bind (sqlite_integer (ck_context_epoch c) ''context epoch'') (\<lambda>_.
      if ck_sequence c \<le> sr_latest_sequence row
      then Inl (CheckpointErr ''checkpoint sequence did not advance'')
      else if ck_context_epoch c < sr_context_epoch row
      then Inl (CheckpointErr ''context epoch cannot move backwards'')
      else if ck_context_epoch c \<noteq> sr_context_epoch row
      then Inr (Some (row\<lparr>sr_context_items := []\<rparr>), 0, True)
      else if length (ck_context c) < sr_context_count row
      then Inl (CheckpointErr ''context prefix was truncated without advancing its epoch'')
      else if take (sr_context_count row) (ck_context c) \<noteq> stored_context row
      then Inl (CheckpointErr ''context prefix changed without advancing its epoch'')
      else Inr (Some row, sr_context_count row, False)))"
proof -
  let ?fast = "sr_context_count row = 0 \<or> (usable_cache cached dv row c \<noteq> None
             \<and> list_all (same_item (usable_cache cached dv row c) addresses) [0..<sr_context_count row])"
  let ?chk = "check_prefix (same_item (usable_cache cached dv row c) addresses) 0
            (take (sr_context_count row) (ck_context c)) (prefix_rows row)"
  have "(if ?fast then Inr (Some row, sr_context_count row, False)
         else res_bind ?chk (\<lambda>_. Inr (Some row, sr_context_count row, False)))
      = (if take (sr_context_count row) (ck_context c) \<noteq> stored_context row
         then Inl (CheckpointErr ''context prefix changed without advancing its epoch'')
         else Inr (Some row, sr_context_count row, False))"
    if "sr_context_count row \<le> length (ck_context c)"
    using same_epoch_check [OF assms that] by (cases ?fast; cases ?chk) (auto split: if_splits)
  then show ?thesis
    by (simp add: prepare_append_def Let_def sqlite_integer_def)
qed

lemma store_checkpoint_Inr:
  assumes "store_checkpoint existing c transcript execution = Inr row"
  shows "sr_latest_sequence row = ck_sequence c \<and> sr_header row = c\<lparr>ck_context := []\<rparr>
    \<and> sr_context_epoch row = ck_context_epoch c \<and> sr_context_count row = length (ck_context c)
    \<and> int (ck_context_epoch c) \<le> i64_max
    \<and> sr_context_items row = (case existing of None \<Rightarrow> [] | Some old \<Rightarrow> sr_context_items old)
    \<and> sr_receipts row = insert_receipts (case existing of None \<Rightarrow> [] | Some old \<Rightarrow> sr_receipts old) (ck_pending_messages c)
    \<and> (let old = (case existing of None \<Rightarrow> empty_session_db | Some old \<Rightarrow> sr_db old)
       in sr_db row = (if transcript = [] then old
            else old\<lparr>db_transcript := db_transcript old @ [(ck_sequence c, transcript)]\<rparr>)
         \<and> (transcript \<noteq> [] \<longrightarrow> map_of (db_transcript old) (ck_sequence c) = None))"
  using assms
  by (cases existing; cases execution)
     (auto simp: store_checkpoint_def sqlite_integer_def context_count_def upsert_session_def store_transcript_def
       store_execution_def res_bind_Inr_iff Let_def split: if_splits)

lemma validate_checkpoint_context [simp]: "validate_checkpoint (c\<lparr>ck_context := xs\<rparr>) = validate_checkpoint c"
proof -
  have "pending_work (c\<lparr>ck_context := xs\<rparr>) = pending_work c" by (simp add: pending_work_def)
  then have "validate_active_execution (c\<lparr>ck_context := xs\<rparr>) = validate_active_execution c"
    unfolding validate_active_execution_def by (simp split: option.split execution_phase.split)
  moreover have "validate_active_model_step (c\<lparr>ck_context := xs\<rparr>) = validate_active_model_step c"
    unfolding validate_active_model_step_def by (simp split: option.split)
  ultimately show ?thesis unfolding validate_checkpoint_def by simp
qed

lemma append_context_Inr:
  "append_context row c start = Inr row' \<Longrightarrow>
     row' = row\<lparr>sr_context_items := sr_context_items row @ context_rows (ck_context_epoch c) start (drop start (ck_context c))\<rparr>"
  by (auto simp: append_context_def sqlite_integer_def res_bind_Inr_iff context_rows_def drop_enumerate
      dest!: insert_context_items_Inr split: if_splits)

lemma decode_event_extended:
  "\<not> isl (decode_event jc db stored) \<Longrightarrow>
     decode_event jc (db\<lparr>db_transcript := db_transcript db @ extra\<rparr>) stored = decode_event jc db stored"
  by (cases stored) (auto simp: decode_event_def map_add_def split: option.splits)

lemma journal_extended:
  assumes "journal_inv db" and "readable jc db"
  shows "journal_inv (db\<lparr>db_transcript := db_transcript db @ extra\<rparr>)"
    and "readable jc (db\<lparr>db_transcript := db_transcript db @ extra\<rparr>)"
proof -
  show "journal_inv (db\<lparr>db_transcript := db_transcript db @ extra\<rparr>)" using assms(1) by (simp add: journal_inv_def)
  show "readable jc (db\<lparr>db_transcript := db_transcript db @ extra\<rparr>)"
    unfolding readable_def using assms(2) by (auto simp: readable_def decode_event_extended)
qed

lemma journal_empty: "journal_inv empty_session_db" "readable jc empty_session_db"
  by (simp_all add: journal_inv_def readable_def empty_session_db_def i64_max_def)

definition sound_save ::
    "journal_codec \<Rightarrow> (nat \<Rightarrow> json) \<Rightarrow> session_row option \<Rightarrow> checkpoint \<Rightarrow> nat list \<Rightarrow> context_cache option \<Rightarrow> int \<Rightarrow> bool" where
  "sound_save jc heap existing c addresses cached dv \<longleftrightarrow>
     (\<forall>row. existing = Some row \<longrightarrow> row_inv jc (ck_session_id c) row)
   \<and> cache_sound heap cached dv existing c \<and> map heap addresses = ck_context c"

text \<open>After \<open>prepare_append\<close> the rows kept and the items still to insert make up the new context.\<close>

lemma prepare_append_context:
  assumes ok: "sound_save jc heap existing c addresses cached dv"
    and prep: "prepare_append existing c addresses cached dv = Inr (existing', start, rewritten)"
  shows "((case existing' of None \<Rightarrow> [] | Some old \<Rightarrow> sr_context_items old)
      @ context_rows (ck_context_epoch c) start (drop start (ck_context c)) = context_rows (ck_context_epoch c) 0 (ck_context c))
    \<and> ((case existing' of None \<Rightarrow> empty_session_db | Some old \<Rightarrow> sr_db old)
      = (case existing of None \<Rightarrow> empty_session_db | Some old \<Rightarrow> sr_db old))
    \<and> ((case existing' of None \<Rightarrow> [] | Some old \<Rightarrow> sr_receipts old)
      = (case existing of None \<Rightarrow> [] | Some old \<Rightarrow> sr_receipts old))
    \<and> (\<forall>row. existing = Some row \<longrightarrow> sr_latest_sequence row < ck_sequence c
      \<and> (ck_context_epoch c = sr_context_epoch row \<longrightarrow> take (sr_context_count row) (ck_context c) = stored_context row))"
proof (cases existing)
  case None
  with prep show ?thesis by (simp add: prepare_append_None)
next
  case (Some row)
  with ok have inv: "row_inv jc (ck_session_id c) row" by (simp add: sound_save_def)
  have rows: "sr_context_items row = context_rows (sr_context_epoch row) 0 (stored_context row)"
    "length (stored_context row) = sr_context_count row"
    using inv by (simp_all add: row_inv_def stored_context_def)
  have split: "context_rows e 0 (stored_context row) @ context_rows e (sr_context_count row) (drop (sr_context_count row) xs)
      = context_rows e 0 xs" if "take (sr_context_count row) xs = stored_context row" for e and xs :: "json list"
    using context_rows_append [of e 0 "stored_context row" "drop (sr_context_count row) xs"] that rows(2)
    by (metis add_0 append_take_drop_id)
  have "cache_sound heap cached dv (Some row) c" "map heap addresses = ck_context c"
    using ok Some by (simp_all add: sound_save_def)
  note prep' = prep [unfolded Some prepare_append_Some [OF inv this]]
  show ?thesis
    using prep' rows split [of "ck_context c" "ck_context_epoch c"]
    by (auto simp: Some res_bind_Inr_iff sqlite_integer_def split: if_splits)
qed

definition old_db :: "session_row option \<Rightarrow> session_db" where
  "old_db existing = (case existing of None \<Rightarrow> empty_session_db | Some old \<Rightarrow> sr_db old)"

definition old_receipts :: "session_row option \<Rightarrow> string list" where
  "old_receipts existing = (case existing of None \<Rightarrow> [] | Some old \<Rightarrow> sr_receipts old)"

lemma save_transaction_Inr:
  assumes ok: "sound_save jc heap existing c addresses cached dv" and rt: "content_roundtrip jc"
    and save: "save_transaction uuid_ok existing c addresses cached dv delta execution events = Inr (row, records)"
  shows "row_inv jc (ck_session_id c) row \<and> stored_context row = ck_context c \<and> sr_header row = c\<lparr>ck_context := []\<rparr>
    \<and> sr_receipts row = insert_receipts (old_receipts existing) (ck_pending_messages c)
    \<and> map je_event records = map tm_event events"
proof -
  from save obtain existing' start rewritten row1 row2 db where
    valid: "validate_checkpoint c = Inr ()"
    and prep: "prepare_append existing c addresses cached dv = Inr (existing', start, rewritten)"
    and st: "store_checkpoint existing' c delta execution = Inr row1"
    and ap: "append_context row1 c start = Inr row2"
    and ev: "store_events (Some (sr_db row2)) events (Some (ck_sequence c, delta)) = Inr (Some db, records)"
    and row: "row = row2\<lparr>sr_db := db\<rparr>"
    by (auto simp: save_transaction_def res_bind_Inr_iff split: if_splits prod.splits option.splits)
  note st' = store_checkpoint_Inr [OF st]
  note ap' = append_context_Inr [OF ap]
  note prep' = prepare_append_context [OF ok prep]
  have items: "sr_context_items row2 = context_rows (ck_context_epoch c) 0 (ck_context c)"
    using ap' st' prep' by simp
  have db2: "sr_db row2 = (if delta = [] then old_db existing
      else (old_db existing)\<lparr>db_transcript := db_transcript (old_db existing) @ [(ck_sequence c, delta)]\<rparr>)"
    "delta \<noteq> [] \<Longrightarrow> map_of (db_transcript (old_db existing)) (ck_sequence c) = None"
    using ap' st' prep' by (simp_all add: old_db_def Let_def)
  have "journal_inv (old_db existing) \<and> readable jc (old_db existing)
    \<and> (\<forall>(n, items) \<in> set (db_transcript (old_db existing)). n < ck_sequence c)"
  proof (cases existing)
    case None
    then show ?thesis by (simp add: old_db_def journal_empty) (simp add: empty_session_db_def)
  next
    case (Some old)
    with ok prep' have "row_inv jc (ck_session_id c) old" "sr_latest_sequence old < ck_sequence c"
      by (simp_all add: sound_save_def)
    with Some show ?thesis by (fastforce simp: row_inv_def old_db_def)
  qed
  then have old: "journal_inv (old_db existing)" "readable jc (old_db existing)"
    "\<forall>(n, items) \<in> set (db_transcript (old_db existing)). n < ck_sequence c" by blast+
  have inv2: "journal_inv (sr_db row2)" "readable jc (sr_db row2)"
    unfolding db2(1) using old journal_extended [OF old(1,2)] by simp_all
  have tr: "map_of (db_transcript (sr_db row2)) (ck_sequence c) = Some delta" if "delta \<noteq> []"
    using that db2 by (simp add: map_add_Some_iff)
  from store_events_keep [OF rt _ inv2 ev] tr
  have db: "journal_inv db" "readable jc db" "db_transcript db = db_transcript (sr_db row2)"
    "map je_event records = map tm_event events" by auto
  have bound: "\<forall>(n, items) \<in> set (db_transcript db). n \<le> ck_sequence c"
    using old(3) unfolding db(3) db2(1) by (auto dest: less_imp_le)
  show ?thesis
    using valid st' ap' items db bound prep'
    by (auto simp: row row_inv_def stored_context_def old_receipts_def)
qed

lemma load_row:
  assumes "row_inv jc sid row" and "store sid = Some row"
  shows "load store sid = Inr (Some ((sr_header row)\<lparr>ck_context := stored_context row\<rparr>))"
proof -
  have rows: "sr_context_items row = context_rows (sr_context_epoch row) 0 (stored_context row)"
    "length (stored_context row) = sr_context_count row"
    using assms(1) by (simp_all add: row_inv_def stored_context_def)
  have "load_rows (sr_context_epoch row) (sr_context_count row) [] (sr_context_items row) = Inr (stored_context row)"
    using load_rows_context [of "sr_context_epoch row" "[]" "stored_context row"] by (simp add: rows(2) flip: rows(1))
  with assms show ?thesis
    by (simp add: load_def decode_checkpoint_def row_inv_def sqlite_integer_def)
qed

lemma set_insert_receipts: "set (insert_receipts rs qs) = set rs \<union> qm_id ` set qs"
  by (induction qs arbitrary: rs) (auto simp: insert_receipts_def)

subsection \<open>Receipts as an interface\<close>

text \<open>
  What admission relies on: a failed commit changes nothing, and a successful one adds receipts for
  exactly the messages it made durable and drops none.
\<close>

locale durable_receipts =
  fixes commit :: "'w \<Rightarrow> 's \<Rightarrow> 's \<times> ('x + 'r)"
    and ids :: "'w \<Rightarrow> 'k set"
    and accepted :: "'s \<Rightarrow> 'k \<Rightarrow> bool"
  assumes commit_fail: "commit w s = (s', Inl x) \<Longrightarrow> s' = s"
    and commit_ok: "commit w s = (s', Inr r) \<Longrightarrow> accepted s' k \<longleftrightarrow> accepted s k \<or> k \<in> ids w"
begin

lemma accepted_mono: "accepted s k \<Longrightarrow> accepted (fst (commit w s)) k"
  by (cases "commit w s"; cases "snd (commit w s)") (auto simp: commit_ok dest: commit_fail)

lemma accepted_run: "accepted s k \<Longrightarrow> accepted (foldl (\<lambda>s w. fst (commit w s)) s ws) k"
  by (induction ws arbitrary: s) (simp_all add: accepted_mono)

lemma accepted_run_origin:
  "accepted (foldl (\<lambda>s w. fst (commit w s)) s ws) k \<Longrightarrow> accepted s k \<or> (\<exists>w \<in> set ws. k \<in> ids w)"
proof (induction ws arbitrary: s)
  case (Cons w ws)
  from Cons.IH [of "fst (commit w s)"] Cons.prems have
    "accepted (fst (commit w s)) k \<or> (\<exists>w \<in> set ws. k \<in> ids w)" by simp
  then show ?case
    by (cases "commit w s"; cases "snd (commit w s)") (auto simp: commit_ok dest: commit_fail)
qed simp

end

record save_request =
  rq_uuid_ok :: "string \<Rightarrow> bool"
  rq_checkpoint :: checkpoint
  rq_addresses :: "nat list"
  rq_cached :: "context_cache option"
  rq_data_version :: int
  rq_delta :: "json list"
  rq_execution :: "execution_record option"
  rq_events :: "timestamped_event list"

definition run_save :: "save_request \<Rightarrow> store \<Rightarrow> store \<times> journal_event list res" where
  "run_save rq store = save_with_events (rq_uuid_ok rq) store (rq_checkpoint rq) (rq_addresses rq) (rq_cached rq)
     (rq_data_version rq) (rq_delta rq) (rq_execution rq) (rq_events rq)"

definition request_receipts :: "save_request \<Rightarrow> (string \<times> string) set" where
  "request_receipts rq = Pair (ck_session_id (rq_checkpoint rq)) ` qm_id ` set (ck_pending_messages (rq_checkpoint rq))"

definition receipt_of :: "store \<Rightarrow> string \<times> string \<Rightarrow> bool" where
  "receipt_of store k = message_accepted store (fst k) (snd k)"

lemma prepare_append_receipts:
  "prepare_append existing c addresses cached dv = Inr (existing', start, rewritten) \<Longrightarrow>
     old_receipts existing' = old_receipts existing"
  by (cases existing) (auto simp: prepare_append_def old_receipts_def res_bind_Inr_iff Let_def split: if_splits)

lemma save_transaction_receipts:
  assumes "save_transaction uuid_ok existing c addresses cached dv delta execution events = Inr (row, records)"
  shows "set (sr_receipts row) = set (old_receipts existing) \<union> qm_id ` set (ck_pending_messages c)"
proof -
  from assms obtain existing' start rewritten row1 row2 db where
    prep: "prepare_append existing c addresses cached dv = Inr (existing', start, rewritten)"
    and st: "store_checkpoint existing' c delta execution = Inr row1"
    and ap: "append_context row1 c start = Inr row2" and row: "row = row2\<lparr>sr_db := db\<rparr>"
    by (auto simp: save_transaction_def res_bind_Inr_iff split: if_splits prod.splits option.splits)
  show ?thesis
    using store_checkpoint_Inr [OF st] append_context_Inr [OF ap] prepare_append_receipts [OF prep]
    by (simp add: row set_insert_receipts old_receipts_def)
qed

interpretation dr: durable_receipts run_save request_receipts receipt_of
proof unfold_locales
  fix w s s' x
  show "run_save w s = (s', Inl x) \<Longrightarrow> s' = s"
    by (auto simp: run_save_def save_with_events_def split: sum.splits prod.splits)
next
  fix w s s' r and k :: "string \<times> string"
  assume "run_save w s = (s', Inr r)"
  then obtain row where row: "s' = s(ck_session_id (rq_checkpoint w) \<mapsto> row)"
    and tx: "save_transaction (rq_uuid_ok w) (s (ck_session_id (rq_checkpoint w))) (rq_checkpoint w) (rq_addresses w)
      (rq_cached w) (rq_data_version w) (rq_delta w) (rq_execution w) (rq_events w) = Inr (row, r)"
    by (auto simp: run_save_def save_with_events_def split: sum.splits prod.splits)
  show "receipt_of s' k = (receipt_of s k \<or> k \<in> request_receipts w)"
    using save_transaction_receipts [OF tx]
    by (cases k) (auto simp: receipt_of_def message_accepted_def row request_receipts_def old_receipts_def
        split: option.splits if_splits)
qed

subsection \<open>A concrete session\<close>

text \<open>A session saved with one context item, and its next checkpoint with two.\<close>

definition sample_row :: session_row where
  "sample_row = \<lparr>sr_latest_sequence = 1, sr_header = sample_checkpoint, sr_context_epoch = 0,
     sr_context_count = 1, sr_context_items = [(0, 0, JString ''a'')], sr_receipts = [], sr_executions = [],
     sr_db = empty_session_db\<rparr>"

definition sample_queued :: queued_message where
  "sample_queued = \<lparr>qm_owner = ''messages'', qm_id = ''s2'', qm_boundary = BQueue, qm_author = User,
     qm_message = ''hi'', qm_attachments = [], qm_reply = None\<rparr>"

definition sample_next :: checkpoint where
  "sample_next = sample_checkpoint\<lparr>ck_sequence := 2, ck_context := [JString ''a'', JString ''b''],
     ck_pending_messages := [sample_queued]\<rparr>"

definition sample_heap :: "nat \<Rightarrow> json" where
  "sample_heap i = (if i = 7 then JString ''a'' else JString ''b'')"

definition sample_cache :: context_cache where
  "sample_cache = \<lparr>cc_sequence = 1, cc_epoch = 0, cc_data_version = 3, cc_items = [7]\<rparr>"

lemma sample_checkpoint_fields [simp]:
  "ck_session_id sample_checkpoint = ''session''" "ck_sequence sample_checkpoint = 1"
  "ck_context sample_checkpoint = []" "ck_context_epoch sample_checkpoint = 0"
  by (simp_all add: sample_checkpoint_def checkpoint_empty_def)

lemma sample_row_inv: "row_inv jc ''session'' sample_row"
  by (simp add: row_inv_def sample_row_def i64_max_def sample_checkpoint_valid journal_empty)
     (simp add: empty_session_db_def)

lemma sample_sound:
  "sound_save jc sample_heap (Some sample_row) sample_next [7, 8] (Some sample_cache) 3"
  using sample_row_inv [of jc]
  by (simp add: sound_save_def cache_sound_def sample_next_def sample_heap_def usable_cache_def sample_cache_def
      sample_row_def stored_context_def)

lemma sample_next_valid: "validate_checkpoint sample_next = Inr ()"
  by (simp add: sample_next_def validate_checkpoint_def sample_checkpoint_def checkpoint_empty_def validate_active_execution_def
      sample_execution_def pending_work_def validate_pending_approval_def validate_session_context_def
      session_context_validate_def session_context_default_def validate_active_model_step_def
      validate_pending_messages_def MAX_IDENTIFIER_BYTES_def validate_identifier_def MAX_QUEUED_MESSAGES_def
      sample_not_blank)

lemma sample_save:
  obtains store' where "save_with_events (\<lambda>_. True) [''session'' \<mapsto> sample_row] sample_next [7, 8] (Some sample_cache) 3 [] None []
    = (store', Inr [])"
proof -
  have "prepare_append (Some sample_row) sample_next [7, 8] (Some sample_cache) 3 = Inr (Some sample_row, 1, False)"
    by (simp add: prepare_append_def sqlite_integer_def sample_next_def sample_row_def sample_cache_def
        usable_cache_def same_item_def i64_max_def Let_def)
  then show thesis
    using sample_next_valid that
    by (simp add: save_with_events_def save_transaction_def store_checkpoint_def sqlite_integer_def context_count_def
        upsert_session_def store_transcript_def store_execution_def append_context_def sample_next_def
        sample_row_def i64_max_def Let_def)
qed

lemma sample_load:
  "load [''session'' \<mapsto> sample_row] ''session'' = Inr (Some (sample_checkpoint\<lparr>ck_context := [JString ''a'']\<rparr>))"
  by (subst load_row [OF sample_row_inv]) (simp_all add: sample_row_def stored_context_def)

subsection \<open>Properties\<close>



text \<open>
  C7. Within one context epoch the stored context only grows: a save that succeeds extends the context
  that a load returned before it.
\<close>

theorem save_append_only:
  assumes "sound_save jc heap (store (ck_session_id c)) c addresses cached dv"
    and save: "save_with_events uuid_ok store c addresses cached dv delta execution events = (store', Inr records)"
    and old: "load store (ck_session_id c) = Inr (Some previous)"
    and epoch: "ck_context_epoch previous = ck_context_epoch c"
  shows "(\<exists>suffix. ck_context c = ck_context previous @ suffix) \<and> ck_sequence previous < ck_sequence c"
proof -
  obtain row where row: "store (ck_session_id c) = Some row"
    using old by (auto simp: load_def split: option.splits)
  with assms(1) have inv: "row_inv jc (ck_session_id c) row" by (simp add: sound_save_def)
  from load_row [OF inv, of store] row old
  have prev: "previous = (sr_header row)\<lparr>ck_context := stored_context row\<rparr>" by simp
  from save obtain existing' start rewritten where
    "prepare_append (store (ck_session_id c)) c addresses cached dv = Inr (existing', start, rewritten)"
    by (auto simp: save_with_events_def save_transaction_def res_bind_Inr_iff res_bind_Inl_iff
        split: sum.splits prod.splits if_splits)
  note prep = prepare_append_context [OF assms(1) this]
  have "ck_context_epoch c = sr_context_epoch row" using epoch prev inv by (simp add: row_inv_def)
  with prep row have "take (sr_context_count row) (ck_context c) = stored_context row"
    "sr_latest_sequence row < ck_sequence c" by auto
  then show ?thesis using prev inv
    by (metis append_take_drop_id checkpoint.simps(10,9) checkpoint.surjective checkpoint.update_convs(10) row_inv_def)
qed

theorem save_append_only_witness:
  "\<exists>suffix. ck_context sample_next = [JString ''a''] @ suffix"
proof -
  obtain store' where save: "save_with_events (\<lambda>_. True) [''session'' \<mapsto> sample_row] sample_next [7, 8]
      (Some sample_cache) 3 [] None [] = (store', Inr [])" by (rule sample_save)
  have sid: "ck_session_id sample_next = ''session''" "ck_context_epoch sample_next = 0" by (simp_all add: sample_next_def)
  show ?thesis
    using save_append_only [OF _ save, of text_codec sample_heap] sample_sound sample_load by (auto simp: sid)
qed



text \<open>
  C6. A message receipt survives: once a save has made a queued message durable, its submission id is
  accepted in every later state, whatever saves follow, fail or drop the message from the queue.
\<close>

theorem receipts_survive:
  assumes "run_save rq store = (store', Inr records)" and "q \<in> set (ck_pending_messages (rq_checkpoint rq))"
  shows "message_accepted (foldl (\<lambda>s w. fst (run_save w s)) store' later) (ck_session_id (rq_checkpoint rq)) (qm_id q)"
proof -
  have "receipt_of store' (ck_session_id (rq_checkpoint rq), qm_id q)"
    using assms by (simp add: dr.commit_ok request_receipts_def)
  from dr.accepted_run [OF this] show ?thesis by (simp add: receipt_of_def)
qed

theorem receipts_survive_witness:
  "\<exists>store'. message_accepted store' ''session'' ''s2''"
proof -
  let ?rq = "\<lparr>rq_uuid_ok = \<lambda>_. True, rq_checkpoint = sample_next, rq_addresses = [7, 8],
    rq_cached = Some sample_cache, rq_data_version = 3, rq_delta = [], rq_execution = None, rq_events = []\<rparr>"
  obtain store' where "run_save ?rq [''session'' \<mapsto> sample_row] = (store', Inr [])"
    using sample_save by (auto simp: run_save_def)
  from receipts_survive [OF this, of sample_queued "[?rq]"] show ?thesis
    by (auto simp: sample_next_def sample_queued_def)
qed

end
