(* ===== verification/Recorder.thy ===== *)
theory Recorder
  imports Store
begin

text \<open>
  The event recorder of \<open>src/agent/recorder.rs\<close>: callers reserve bytes of a shared budget and send
  commands over a bounded channel; one task owns the store, coalesces streamed assistant text into
  batches, makes every event durable before it publishes it, and answers each command.
  The state joins the ingress (budget and channel) with the local variables of the task.
\<close>

subsection \<open>The store behind the recorder\<close>

record 's checkpoint_store =
  cs_append_event :: "'s \<Rightarrow> string \<Rightarrow> int \<Rightarrow> event \<Rightarrow> 's \<times> journal_event res"
  cs_save_with_events :: "'s \<Rightarrow> checkpoint \<Rightarrow> json list \<Rightarrow> execution_record option \<Rightarrow> timestamped_event list
      \<Rightarrow> 's \<times> journal_event list res"
  cs_message_accepted :: "'s \<Rightarrow> string \<Rightarrow> string \<Rightarrow> bool"

text \<open>
  The SQLite store as a checkpoint store.  The identity hint is left out: a warm save gives what a cold
  save gives.
\<close>

definition sqlite_append_event :: "store \<Rightarrow> string \<Rightarrow> int \<Rightarrow> event \<Rightarrow> store \<times> journal_event res" where
  "sqlite_append_event s sid at e = (case append_event (map_option sr_db (s sid)) at e of
      (_, Inl err) \<Rightarrow> (s, Inl err)
    | (database, Inr r) \<Rightarrow> (case (s sid, database) of
          (Some row, Some db) \<Rightarrow> (s(sid \<mapsto> row\<lparr>sr_db := db\<rparr>), Inr r)
        | _ \<Rightarrow> (s, Inr r)))"

definition sqlite_store :: "(string \<Rightarrow> bool) \<Rightarrow> store checkpoint_store" where
  "sqlite_store uuid_ok = \<lparr>cs_append_event = sqlite_append_event,
     cs_save_with_events = (\<lambda>s c transcript execution events.
        save_with_events uuid_ok s c [] None 0 transcript execution events),
     cs_message_accepted = message_accepted\<rparr>"

subsection \<open>Commands and streams\<close>

record append_command =
  ap_event :: timestamped_event
  ap_permits :: nat
  ap_result :: "nat option"

record save_command =
  sv_checkpoint :: checkpoint
  sv_transcript_delta :: "json list"
  sv_execution :: "execution_record option"
  sv_events :: "timestamped_event list"
  sv_permits :: nat
  sv_result :: nat

datatype recorder_command = Append append_command | Save save_command | Flush nat

definition RECORDER_COMMAND_CAPACITY :: nat where "RECORDER_COMMAND_CAPACITY = 512"
definition RECORDER_EVENT_BYTE_BUDGET :: nat where "RECORDER_EVENT_BYTE_BUDGET = 8 * 1024 * 1024"
definition RECORDER_QUEUE_FULL :: string where "RECORDER_QUEUE_FULL = ''event recorder queue is full''"
definition STREAM_BATCH_INTERVAL :: nat where "STREAM_BATCH_INTERVAL = 40"
definition STREAM_BATCH_BYTES :: nat where "STREAM_BATCH_BYTES = 16 * 1024"

record stream_key =
  sk_submission_id :: "string option"
  sk_session_id :: string
  sk_turn_id :: string
  sk_model_step_id :: string
  sk_phase :: model_step_content_phase

definition stream_key_of :: "event \<Rightarrow> stream_key option" where
  "stream_key_of e = (case ev_msg e of
      AssistantContentDelta d \<Rightarrow> Some \<lparr>sk_submission_id = ev_submission_id e, sk_session_id = ad_session_id d,
        sk_turn_id = ad_turn_id d, sk_model_step_id = ad_model_step_id d, sk_phase = ad_phase d\<rparr>
    | _ \<Rightarrow> None)"

record stream_batch =
  sb_append :: append_command
  sb_deadline :: nat

text \<open>\<open>StreamBatch::merge\<close>: the longer batch, or nothing when the command does not extend it.\<close>

definition merge :: "stream_batch \<Rightarrow> append_command \<Rightarrow> stream_batch option" where
  "merge batch command =
     (let held = ap_event (sb_append batch); e = tm_event held; f = tm_event (ap_event command)
      in case ev_msg e of
           AssistantContentDelta pending \<Rightarrow> (case ev_msg f of
               AssistantContentDelta nxt \<Rightarrow>
                 (if ev_submission_id e \<noteq> ev_submission_id f \<or> ad_session_id pending \<noteq> ad_session_id nxt
                    \<or> ad_turn_id pending \<noteq> ad_turn_id nxt \<or> ad_model_step_id pending \<noteq> ad_model_step_id nxt
                    \<or> ad_phase pending \<noteq> ad_phase nxt
                    \<or> STREAM_BATCH_BYTES < sat_add (length (ad_delta pending)) (length (ad_delta nxt))
                  then None
                  else Some (batch\<lparr>sb_append := (sb_append batch)\<lparr>ap_event := held\<lparr>tm_event :=
                    e\<lparr>ev_msg := AssistantContentDelta (pending\<lparr>ad_delta := ad_delta pending @ ad_delta nxt\<rparr>)\<rparr>\<rparr>\<rparr>\<rparr>))
             | _ \<Rightarrow> None)
         | _ \<Rightarrow> None)"

record 's recorder =
  rd_store :: 's
  rd_session_id :: string
  rd_commands :: "recorder_command list"
  rd_available :: nat
  rd_pending :: "stream_batch option"
  rd_last_stream :: "stream_key option"
  rd_terminal_error :: "string option"
  rd_running :: bool
  rd_published :: "journal_event list"
  rd_accepts :: "nat option"
  rd_replies :: "(nat \<times> unit res) list"
  rd_next_reply :: nat

text \<open>
  \<open>rd_accepts\<close> is the frontend's side of the event channel: the number of events it still takes before
  it closes, or none when it stays open.  \<open>rd_replies\<close> are the answers sent to the callers.
\<close>

definition spawn :: "'s \<Rightarrow> string \<Rightarrow> nat option \<Rightarrow> 's recorder" where
  "spawn s sid accepts = \<lparr>rd_store = s, rd_session_id = sid, rd_commands = [],
     rd_available = RECORDER_EVENT_BYTE_BUDGET, rd_pending = None, rd_last_stream = None,
     rd_terminal_error = None, rd_running = True, rd_published = [], rd_accepts = accepts, rd_replies = [],
     rd_next_reply = 0\<rparr>"

subsection \<open>The ingress\<close>

definition recorder_queue_full :: error where
  "recorder_queue_full = Stopped RECORDER_QUEUE_FULL"

definition stopped :: "string \<Rightarrow> error" where
  "stopped e = Stopped (''event recorder stopped: '' @ e)"

definition channel_closed :: string where "channel_closed = ''channel closed''"

text \<open>\<open>len\<close> is the serialized length of an event and \<open>now\<close> the reading of the system clock.\<close>

definition timestamp :: "(event \<Rightarrow> nat res) \<Rightarrow> int res \<Rightarrow> event \<Rightarrow> (timestamped_event \<times> nat) res" where
  "timestamp len now e = res_bind (len e) (\<lambda>bytes. res_bind now (\<lambda>at.
     Inr (\<lparr>tm_recorded_at_ms = at, tm_event = e\<rparr>, bytes)))"

definition byte_permits :: "nat \<Rightarrow> nat res" where
  "byte_permits bytes = (if RECORDER_EVENT_BYTE_BUDGET < bytes then Inl recorder_queue_full
     else if 2 ^ 32 \<le> bytes then Inl (Stopped (RECORDER_QUEUE_FULL @ '': '' @ out_of_range))
     else Inr bytes)"

definition send_command :: "'s recorder \<Rightarrow> nat \<Rightarrow> recorder_command \<Rightarrow> 's recorder" where
  "send_command rd permits c = rd\<lparr>rd_available := rd_available rd - permits, rd_commands := rd_commands rd @ [c]\<rparr>"

definition try_record :: "(event \<Rightarrow> nat res) \<Rightarrow> int res \<Rightarrow> 's recorder \<Rightarrow> event \<Rightarrow> 's recorder \<times> unit res" where
  "try_record len now rd e = (case res_bind (timestamp len now e) (\<lambda>(te, bytes).
         res_bind (byte_permits bytes) (\<lambda>permits. Inr (te, permits))) of
      Inl err \<Rightarrow> (rd, Inl err)
    | Inr (te, permits) \<Rightarrow>
        (if rd_available rd < permits then (rd, Inl recorder_queue_full)
         else if \<not> rd_running rd then (rd, Inl (Stopped ''event recorder stopped''))
         else if RECORDER_COMMAND_CAPACITY \<le> length (rd_commands rd) then (rd, Inl recorder_queue_full)
         else (send_command rd permits (Append \<lparr>ap_event = te, ap_permits = permits, ap_result = None\<rparr>), Inr ())))"

text \<open>
  An awaited command: \<open>None\<close> while the caller has to wait for bytes of the budget or for a slot of the
  channel, otherwise the reply it then waits for.
\<close>

definition send_awaited ::
    "'s recorder \<Rightarrow> nat res \<Rightarrow> (nat \<Rightarrow> nat \<Rightarrow> recorder_command) \<Rightarrow> ('s recorder \<times> nat res) option" where
  "send_awaited rd permits command = (case permits of
      Inl e \<Rightarrow> Some (rd, Inl e)
    | Inr p \<Rightarrow>
        (if rd_available rd < p then None
         else if \<not> rd_running rd then Some (rd, Inl (stopped channel_closed))
         else if RECORDER_COMMAND_CAPACITY \<le> length (rd_commands rd) then None
         else Some ((send_command rd p (command p (rd_next_reply rd)))\<lparr>rd_next_reply := Suc (rd_next_reply rd)\<rparr>,
                    Inr (rd_next_reply rd))))"

definition record_begin ::
    "(event \<Rightarrow> nat res) \<Rightarrow> int res \<Rightarrow> 's recorder \<Rightarrow> event \<Rightarrow> ('s recorder \<times> nat res) option" where
  "record_begin len now rd e = (case timestamp len now e of
      Inl err \<Rightarrow> Some (rd, Inl err)
    | Inr (te, bytes) \<Rightarrow> send_awaited rd (byte_permits bytes)
        (\<lambda>p i. Append \<lparr>ap_event = te, ap_permits = p, ap_result = Some i\<rparr>))"

fun stamp_all ::
    "(event \<Rightarrow> nat res) \<Rightarrow> int res \<Rightarrow> nat \<Rightarrow> event list \<Rightarrow> (timestamped_event list \<times> nat) res" where
  "stamp_all len now bytes [] = Inr ([], bytes)"
| "stamp_all len now bytes (e # es) = res_bind (timestamp len now e) (\<lambda>(te, n).
     case u64_checked_add bytes n of
       None \<Rightarrow> Inl recorder_queue_full
     | Some bytes' \<Rightarrow> res_bind (stamp_all len now bytes' es) (\<lambda>(tes, k). Inr (te # tes, k)))"

definition save_begin ::
    "(event \<Rightarrow> nat res) \<Rightarrow> int res \<Rightarrow> 's recorder \<Rightarrow> checkpoint \<Rightarrow> json list \<Rightarrow> execution_record option
      \<Rightarrow> event list \<Rightarrow> ('s recorder \<times> nat res) option" where
  "save_begin len now rd c transcript_delta execution events = (case stamp_all len now 0 events of
      Inl err \<Rightarrow> Some (rd, Inl err)
    | Inr (tes, bytes) \<Rightarrow> send_awaited rd (byte_permits bytes)
        (\<lambda>p i. Save \<lparr>sv_checkpoint = c, sv_transcript_delta = transcript_delta, sv_execution = execution,
            sv_events = tes, sv_permits = p, sv_result = i\<rparr>))"

definition flush_begin :: "'s recorder \<Rightarrow> ('s recorder \<times> nat res) option" where
  "flush_begin rd = send_awaited rd (Inr 0) (\<lambda>p i. Flush i)"

text \<open>What an awaiting caller reads: its reply, or the closed channel of a recorder that stopped.\<close>

definition await_reply :: "'s recorder \<Rightarrow> nat \<Rightarrow> unit res" where
  "await_reply rd i = (case map_of (rd_replies rd) i of Some r \<Rightarrow> r | None \<Rightarrow> Inl (stopped channel_closed))"

subsection \<open>The recorder task\<close>

definition reply :: "'s recorder \<Rightarrow> nat option \<Rightarrow> unit res \<Rightarrow> 's recorder" where
  "reply rd result outcome = (case result of
      None \<Rightarrow> rd | Some i \<Rightarrow> rd\<lparr>rd_replies := rd_replies rd @ [(i, outcome)]\<rparr>)"

definition release :: "'s recorder \<Rightarrow> nat \<Rightarrow> 's recorder" where
  "release rd permits = rd\<lparr>rd_available := rd_available rd + permits\<rparr>"

definition recorder_failure :: "error \<Rightarrow> string" where
  "recorder_failure e = (case e of Stopped message \<Rightarrow> message | _ \<Rightarrow> error_display e)"

definition failure_error :: "string \<Rightarrow> error" where
  "failure_error message = Stopped message"

definition publish :: "'s recorder \<Rightarrow> journal_event \<Rightarrow> 's recorder \<times> unit res" where
  "publish rd r = (if rd_accepts rd = Some 0
     then (rd, Inl (Stopped (''frontend event channel closed: '' @ channel_closed)))
     else (rd\<lparr>rd_published := rd_published rd @ [r], rd_accepts := map_option (\<lambda>n. n - 1) (rd_accepts rd)\<rparr>, Inr ()))"

fun publish_all :: "'s recorder \<Rightarrow> journal_event list \<Rightarrow> 's recorder \<times> unit res" where
  "publish_all rd [] = (rd, Inr ())"
| "publish_all rd (r # rs) = (case publish rd r of
      (rd', Inl e) \<Rightarrow> (rd', Inl e)
    | (rd', Inr _) \<Rightarrow> publish_all rd' rs)"

definition err_of :: "'e + unit \<Rightarrow> 'e option" where
  "err_of r = (case r of Inl e \<Rightarrow> Some e | Inr _ \<Rightarrow> None)"

definition record_append :: "'s checkpoint_store \<Rightarrow> 's recorder \<Rightarrow> append_command \<Rightarrow> 's recorder \<times> (string + unit)" where
  "record_append cs rd a =
     (case cs_append_event cs (rd_store rd) (rd_session_id rd) (tm_recorded_at_ms (ap_event a)) (tm_event (ap_event a)) of
        (s, Inl e) \<Rightarrow> (release (reply (rd\<lparr>rd_store := s\<rparr>) (ap_result a) (Inl e)) (ap_permits a), Inl (recorder_failure e))
      | (s, Inr r) \<Rightarrow> (case publish (rd\<lparr>rd_store := s\<rparr>) r of
            (rd', published) \<Rightarrow> (release (reply rd' (ap_result a) (Inr ())) (ap_permits a),
               case published of Inl e \<Rightarrow> Inl (recorder_failure e) | Inr _ \<Rightarrow> Inr ())))"

definition flush_stream :: "'s checkpoint_store \<Rightarrow> 's recorder \<Rightarrow> 's recorder \<times> (string + unit)" where
  "flush_stream cs rd = (case rd_pending rd of
      None \<Rightarrow> (rd, Inr ())
    | Some batch \<Rightarrow> record_append cs (rd\<lparr>rd_pending := None\<rparr>) (sb_append batch))"

definition record_save :: "'s checkpoint_store \<Rightarrow> 's recorder \<Rightarrow> save_command \<Rightarrow> 's recorder \<times> bool" where
  "record_save cs rd c =
     (case cs_save_with_events cs (rd_store rd) (sv_checkpoint c) (sv_transcript_delta c) (sv_execution c) (sv_events c) of
        (s, Inl e) \<Rightarrow> (release (reply (rd\<lparr>rd_store := s\<rparr>) (Some (sv_result c)) (Inl e)) (sv_permits c), False)
      | (s, Inr rs) \<Rightarrow> (case publish_all (rd\<lparr>rd_store := s\<rparr>) rs of
            (rd', published) \<Rightarrow> (release (reply rd' (Some (sv_result c)) (Inr ())) (sv_permits c), published = Inr ())))"

definition reject :: "'s recorder \<Rightarrow> recorder_command \<Rightarrow> string \<Rightarrow> 's recorder \<times> bool" where
  "reject rd command failure = (case command of
      Append a \<Rightarrow> (release (reply rd (ap_result a) (Inl (failure_error failure))) (ap_permits a), False)
    | Save c \<Rightarrow> (release (reply rd (Some (sv_result c)) (Inl (failure_error failure))) (sv_permits c), False)
    | Flush i \<Rightarrow> (reply rd (Some i) (Inl (failure_error failure)), True))"

fun command_permits :: "recorder_command \<Rightarrow> nat" where
  "command_permits (Append a) = ap_permits a"
| "command_permits (Save c) = sv_permits c"
| "command_permits (Flush i) = 0"

definition pending_permits :: "stream_batch option \<Rightarrow> nat" where
  "pending_permits p = (case p of None \<Rightarrow> 0 | Some b \<Rightarrow> ap_permits (sb_append b))"

text \<open>Returning from the task drops its batch and the queued commands, which frees their bytes.\<close>

definition recorder_stop :: "'s recorder \<Rightarrow> 's recorder" where
  "recorder_stop rd = rd\<lparr>rd_available := rd_available rd + pending_permits (rd_pending rd)
       + sum_list (map command_permits (rd_commands rd)),
     rd_pending := None, rd_commands := [], rd_running := False\<rparr>"

definition short_delta :: "event \<Rightarrow> bool" where
  "short_delta e = (case ev_msg e of AssistantContentDelta d \<Rightarrow> length (ad_delta d) \<le> STREAM_BATCH_BYTES | _ \<Rightarrow> False)"

definition handle_append :: "'s checkpoint_store \<Rightarrow> nat \<Rightarrow> 's recorder \<Rightarrow> append_command \<Rightarrow> 's recorder" where
  "handle_append cs now rd a =
     (case Option.bind (rd_pending rd) (\<lambda>batch. merge batch a) of
        Some batch \<Rightarrow> reply (rd\<lparr>rd_pending := Some (batch\<lparr>sb_append := (sb_append batch)\<lparr>ap_permits :=
             ap_permits (sb_append batch) + ap_permits a\<rparr>\<rparr>)\<rparr>) (ap_result a) (Inr ())
      | None \<Rightarrow> (case flush_stream cs rd of
            (rd', Inl failure) \<Rightarrow> (fst (reject rd' (Append a) failure))\<lparr>rd_terminal_error := Some failure\<rparr>
          | (rd', Inr _) \<Rightarrow>
              (let e = tm_event (ap_event a); key = stream_key_of e
               in if key \<noteq> None \<and> key = rd_last_stream rd' \<and> short_delta e
                  then reply (rd'\<lparr>rd_pending := Some \<lparr>sb_append = a\<lparr>ap_result := None\<rparr>,
                         sb_deadline = now + STREAM_BATCH_INTERVAL\<rparr>\<rparr>) (ap_result a) (Inr ())
                  else (case record_append cs (rd'\<lparr>rd_last_stream := key\<rparr>) a of
                      (rd'', r) \<Rightarrow>
                        (if ap_result a \<noteq> None \<and> err_of r \<noteq> None
                         then recorder_stop (rd''\<lparr>rd_terminal_error := err_of r\<rparr>)
                         else rd''\<lparr>rd_terminal_error := err_of r\<rparr>)))))"

definition handle_command :: "'s checkpoint_store \<Rightarrow> nat \<Rightarrow> 's recorder \<Rightarrow> recorder_command \<Rightarrow> 's recorder" where
  "handle_command cs now rd command = (case rd_terminal_error rd of
      Some failure \<Rightarrow> (case reject rd command failure of (rd', stop) \<Rightarrow> if stop then recorder_stop rd' else rd')
    | None \<Rightarrow> (case command of
          Append a \<Rightarrow> handle_append cs now rd a
        | _ \<Rightarrow> (case flush_stream cs rd of
              (rd', Inl failure) \<Rightarrow> (case reject rd' command failure of
                  (rd'', stop) \<Rightarrow> if stop then recorder_stop rd'' else rd''\<lparr>rd_terminal_error := Some failure\<rparr>)
            | (rd', Inr _) \<Rightarrow> (case command of
                  Save c \<Rightarrow> (case record_save cs (rd'\<lparr>rd_last_stream := None\<rparr>) c of
                      (rd'', continue) \<Rightarrow> if continue then rd''\<lparr>rd_terminal_error := None\<rparr> else recorder_stop rd'')
                | Flush i \<Rightarrow> (reply (rd'\<lparr>rd_last_stream := None\<rparr>) (Some i) (Inr ()))\<lparr>rd_terminal_error := None\<rparr>
                | Append _ \<Rightarrow> rd'))))"

text \<open>
  One turn of the loop: the batch timer fires, a command is received, or every sender is gone.  The
  timer is only polled while a batch is pending.
\<close>

datatype wake = Timer | Receive nat | Closed

definition recorder_wake :: "'s checkpoint_store \<Rightarrow> 's recorder \<Rightarrow> wake \<Rightarrow> 's recorder" where
  "recorder_wake cs rd w =
     (if \<not> rd_running rd then rd
      else (case w of
          Timer \<Rightarrow> (if rd_pending rd = None then rd
             else (case flush_stream cs rd of (rd', r) \<Rightarrow> rd'\<lparr>rd_terminal_error := err_of r\<rparr>))
        | Receive now \<Rightarrow> (case rd_commands rd of
              [] \<Rightarrow> rd | c # commands \<Rightarrow> handle_command cs now (rd\<lparr>rd_commands := commands\<rparr>) c)
        | Closed \<Rightarrow> (if rd_commands rd = [] then recorder_stop (fst (flush_stream cs rd)) else rd)))"

definition recorder_drain :: "'s checkpoint_store \<Rightarrow> nat \<Rightarrow> 's recorder \<Rightarrow> 's recorder" where
  "recorder_drain cs now rd = foldl (recorder_wake cs) rd (replicate (length (rd_commands rd)) (Receive now))"

subsection \<open>Bytes of the budget\<close>

definition permits_held :: "'s recorder \<Rightarrow> nat" where
  "permits_held rd = pending_permits (rd_pending rd) + sum_list (map command_permits (rd_commands rd))"

lemmas recorder_simps = reply_def release_def publish_def err_of_def

definition permits_total :: "'s recorder \<Rightarrow> nat" where
  "permits_total rd = rd_available rd + permits_held rd"

named_theorems permits

lemma permits_total_simps [permits]:
  "permits_total (rd\<lparr>rd_store := s\<rparr>) = permits_total rd"
  "permits_total (rd\<lparr>rd_terminal_error := t\<rparr>) = permits_total rd"
  "permits_total (rd\<lparr>rd_last_stream := l\<rparr>) = permits_total rd"
  "permits_total (rd\<lparr>rd_next_reply := n\<rparr>) = permits_total rd"
  "permits_total (rd\<lparr>rd_published := ps\<rparr>) = permits_total rd"
  "permits_total (rd\<lparr>rd_published := ps, rd_accepts := a\<rparr>) = permits_total rd"
  "permits_total (reply rd i r) = permits_total rd"
  "permits_total (release rd n) = permits_total rd + n"
  "permits_total (recorder_stop rd) = permits_total rd"
  by (simp_all add: permits_total_def permits_held_def reply_def release_def recorder_stop_def pending_permits_def
      split: option.split)

lemma publish_permits [permits]: "permits_total (fst (publish rd r)) = permits_total rd"
  by (simp add: publish_def permits)

lemma publish_all_permits [permits]: "permits_total (fst (publish_all rd rs)) = permits_total rd"
proof (induction rs arbitrary: rd)
  case (Cons r rs)
  show ?case using Cons.IH publish_permits [of rd r] by (auto split: prod.split sum.split)
qed simp

lemma publish_permitsD: "publish rd r = (rd', p) \<Longrightarrow> permits_total rd' = permits_total rd"
  using publish_permits [of rd r] by simp

lemma publish_all_permitsD: "publish_all rd rs = (rd', p) \<Longrightarrow> permits_total rd' = permits_total rd"
  using publish_all_permits [of rd rs] by simp

lemma record_append_permits [permits]:
  "permits_total (fst (record_append cs rd a)) = permits_total rd + ap_permits a"
  by (auto simp: record_append_def permits dest!: publish_permitsD split: prod.split sum.split)

lemma flush_stream_permits [permits]: "permits_total (fst (flush_stream cs rd)) = permits_total rd"
  by (auto simp: flush_stream_def record_append_permits permits_total_def [of "rd\<lparr>rd_pending := None\<rparr>"]
      permits_total_def [of rd] permits_held_def pending_permits_def split: option.split)

lemma record_save_permits [permits]:
  "permits_total (fst (record_save cs rd c)) = permits_total rd + sv_permits c"
  by (auto simp: record_save_def permits dest!: publish_all_permitsD split: prod.split sum.split)

lemma reject_permits [permits]:
  "permits_total (fst (reject rd c failure)) = permits_total rd + command_permits c"
  by (auto simp: reject_def permits split: recorder_command.split)

lemma permitsD:
  "record_append cs rd a = (rd', r) \<Longrightarrow> permits_total rd' = permits_total rd + ap_permits a"
  "flush_stream cs rd = (rd', r) \<Longrightarrow> permits_total rd' = permits_total rd"
  "record_save cs rd c = (rd', b) \<Longrightarrow> permits_total rd' = permits_total rd + sv_permits c"
  "reject rd cmd failure = (rd', b) \<Longrightarrow> permits_total rd' = permits_total rd + command_permits cmd"
  using record_append_permits [of cs rd a] flush_stream_permits [of cs rd] record_save_permits [of cs rd c]
    reject_permits [of rd cmd failure] by simp_all

lemma merge_SomeE:
  assumes "merge b a = Some b'"
  obtains p n where "ev_msg (tm_event (ap_event (sb_append b))) = AssistantContentDelta p"
    "ev_msg (tm_event (ap_event a)) = AssistantContentDelta n"
    "stream_key_of (tm_event (ap_event a)) = stream_key_of (tm_event (ap_event (sb_append b)))"
    "sat_add (length (ad_delta p)) (length (ad_delta n)) \<le> STREAM_BATCH_BYTES"
    "b' = b\<lparr>sb_append := (sb_append b)\<lparr>ap_event := (ap_event (sb_append b))\<lparr>tm_event :=
       (tm_event (ap_event (sb_append b)))\<lparr>ev_msg := AssistantContentDelta (p\<lparr>ad_delta := ad_delta p @ ad_delta n\<rparr>)\<rparr>\<rparr>\<rparr>\<rparr>"
proof -
  obtain p where p: "ev_msg (tm_event (ap_event (sb_append b))) = AssistantContentDelta p"
    using assms by (cases "ev_msg (tm_event (ap_event (sb_append b)))") (simp_all add: merge_def Let_def)
  obtain n where n: "ev_msg (tm_event (ap_event a)) = AssistantContentDelta n"
    using assms p by (cases "ev_msg (tm_event (ap_event a))") (simp_all add: merge_def Let_def)
  show thesis using assms p n by (intro that) (auto simp: merge_def Let_def stream_key_of_def split: if_splits)
qed

lemma merge_permits:
  assumes "merge b a = Some b'"
  shows "ap_permits (sb_append b') = ap_permits (sb_append b)"
  by (rule merge_SomeE [OF assms]) simp

lemma flush_stream_pending: "rd_pending (fst (flush_stream cs rd)) = None"
  by (auto simp: flush_stream_def record_append_def recorder_simps split: option.split prod.split sum.split)

lemma pending_permits_total:
  "rd_pending rd = None \<Longrightarrow> permits_total (rd\<lparr>rd_pending := Some b\<rparr>) = permits_total rd + ap_permits (sb_append b)"
  by (simp add: permits_total_def permits_held_def pending_permits_def)

lemma handle_append_permits: "permits_total (handle_append cs now rd a) = permits_total rd + ap_permits a"
proof (cases "Option.bind (rd_pending rd) (\<lambda>b. merge b a)")
  case (Some b)
  then obtain b0 where "rd_pending rd = Some b0" "merge b0 a = Some b" by (auto simp: bind_eq_Some_conv)
  then show ?thesis using Some
    by (auto simp: handle_append_def permits permits_total_def permits_held_def pending_permits_def reply_def
        dest: merge_permits split: option.split)
next
  case None
  obtain rd1 r1 where fl: "flush_stream cs rd = (rd1, r1)" by fastforce
  have rd1: "permits_total rd1 = permits_total rd" "rd_pending rd1 = None"
    using permitsD(2) [OF fl] flush_stream_pending [of cs rd] fl by simp_all
  show ?thesis
    using None fl rd1
    by (auto simp: handle_append_def Let_def permits reject_permits pending_permits_total
        split: sum.split prod.split dest!: permitsD(1))
qed

lemma handle_command_permits: "permits_total (handle_command cs now rd c) = permits_total rd + command_permits c"
  by (auto simp: handle_command_def handle_append_permits permits
      split: option.split prod.split sum.split recorder_command.split dest!: permitsD)

lemma receive_permits:
  "rd_commands rd = c # commands \<Longrightarrow> permits_total (rd\<lparr>rd_commands := commands\<rparr>) + command_permits c = permits_total rd"
  by (simp add: permits_total_def permits_held_def)

lemma recorder_wake_permits: "permits_total (recorder_wake cs rd w) = permits_total rd"
proof (cases w)
  case (Receive now)
  then show ?thesis
    by (cases "rd_commands rd") (auto simp: recorder_wake_def handle_command_permits receive_permits)
qed (auto simp: recorder_wake_def permits split: prod.split dest!: permitsD(2))

lemma send_command_permits:
  "command_permits c = p \<Longrightarrow> p \<le> rd_available rd \<Longrightarrow> permits_total (send_command rd p c) = permits_total rd"
  by (simp add: send_command_def permits_total_def permits_held_def)

lemma try_record_permits: "permits_total (fst (try_record len now rd e)) = permits_total rd"
  by (auto simp: try_record_def send_command_permits split: sum.split)

lemma send_awaited_permits:
  assumes "send_awaited rd ps f = Some (rd', r)" and "\<And>p i. ps = Inr p \<Longrightarrow> command_permits (f p i) = p"
  shows "permits_total rd' = permits_total rd"
  using assms by (auto simp: send_awaited_def send_command_permits permits split: sum.splits if_splits)

subsection \<open>No event is lost or reordered\<close>

text \<open>
  The content of an event: a streamed delta is its characters under its stream's key, any other event
  is itself.  Splitting a stream into batches does not change the content.
\<close>

datatype atom = Streamed stream_key char | Whole event

definition atoms_of :: "event \<Rightarrow> atom list" where
  "atoms_of e = (case stream_key_of e of
      None \<Rightarrow> [Whole e]
    | Some key \<Rightarrow> (case ev_msg e of AssistantContentDelta d \<Rightarrow> map (Streamed key) (ad_delta d) | _ \<Rightarrow> []))"

definition content :: "event list \<Rightarrow> atom list" where
  "content es = concat (map atoms_of es)"

fun command_events :: "recorder_command \<Rightarrow> event list" where
  "command_events (Append a) = [tm_event (ap_event a)]"
| "command_events (Save c) = map tm_event (sv_events c)"
| "command_events (Flush i) = []"

definition pending_events :: "'s recorder \<Rightarrow> event list" where
  "pending_events rd = (case rd_pending rd of None \<Rightarrow> [] | Some b \<Rightarrow> [tm_event (ap_event (sb_append b))])"

definition written :: "'s recorder \<Rightarrow> atom list" where
  "written rd = content (map je_event (rd_published rd) @ pending_events rd)"

definition healthy :: "'s recorder \<Rightarrow> bool" where
  "healthy rd \<longleftrightarrow> rd_running rd \<and> rd_terminal_error rd = None"

definition recorder_inv :: "'s recorder \<Rightarrow> bool" where
  "recorder_inv rd \<longleftrightarrow> (rd_terminal_error rd \<noteq> None \<longrightarrow> rd_pending rd = None)
     \<and> (\<not> rd_running rd \<longrightarrow> rd_pending rd = None \<and> rd_commands rd = [])
     \<and> (\<forall>b. rd_pending rd = Some b \<longrightarrow> ap_result (sb_append b) = None \<and> short_delta (tm_event (ap_event (sb_append b))))"

lemma content_append [simp]: "content (xs @ ys) = content xs @ content ys"
  by (simp add: content_def)

lemma content_Cons [simp]: "content (x # xs) = atoms_of x @ content xs" and content_Nil [simp]: "content [] = []"
  by (simp_all add: content_def)

lemma merge_atoms:
  assumes "merge b a = Some b'"
  shows "atoms_of (tm_event (ap_event (sb_append b'))) =
    atoms_of (tm_event (ap_event (sb_append b))) @ atoms_of (tm_event (ap_event a))"
  by (rule merge_SomeE [OF assms]) (simp add: atoms_of_def stream_key_of_def)

lemma merge_keeps:
  assumes "merge b a = Some b'"
  shows "ap_result (sb_append b') = ap_result (sb_append b) \<and> short_delta (tm_event (ap_event (sb_append b')))"
  by (rule merge_SomeE [OF assms]) (simp add: short_delta_def sat_add_def STREAM_BATCH_BYTES_def u64_max_def)

lemma recorder_stop_simps [simp]:
  "rd_running (recorder_stop rd) = False" "rd_pending (recorder_stop rd) = None" "rd_commands (recorder_stop rd) = []"
  "rd_published (recorder_stop rd) = rd_published rd" "rd_session_id (recorder_stop rd) = rd_session_id rd"
  "rd_store (recorder_stop rd) = rd_store rd" "rd_replies (recorder_stop rd) = rd_replies rd"
  by (simp_all add: recorder_stop_def)

lemma healthy_simps [simp]:
  "\<not> healthy (recorder_stop rd)" "healthy (rd\<lparr>rd_pending := p\<rparr>) = healthy rd"
  "\<not> healthy (rd\<lparr>rd_terminal_error := Some f\<rparr>)"
  by (simp_all add: healthy_def)

lemma reply_simps [simp]:
  "rd_running (reply rd i r) = rd_running rd" "rd_terminal_error (reply rd i r) = rd_terminal_error rd"
  "rd_pending (reply rd i r) = rd_pending rd" "rd_commands (reply rd i r) = rd_commands rd"
  "rd_published (reply rd i r) = rd_published rd" "rd_last_stream (reply rd i r) = rd_last_stream rd"
  "rd_store (reply rd i r) = rd_store rd" "rd_session_id (reply rd i r) = rd_session_id rd"
  by (simp_all add: reply_def split: option.split)

lemma release_simps [simp]:
  "rd_running (release rd n) = rd_running rd" "rd_terminal_error (release rd n) = rd_terminal_error rd"
  "rd_pending (release rd n) = rd_pending rd" "rd_commands (release rd n) = rd_commands rd"
  "rd_published (release rd n) = rd_published rd" "rd_last_stream (release rd n) = rd_last_stream rd"
  "rd_store (release rd n) = rd_store rd" "rd_session_id (release rd n) = rd_session_id rd"
  by (simp_all add: release_def)

text \<open>What a call into the store leaves alone in the recorder.\<close>

definition same_frame :: "'s recorder \<Rightarrow> 's recorder \<Rightarrow> bool" where
  "same_frame rd rd' \<longleftrightarrow> rd_running rd' = rd_running rd \<and> rd_terminal_error rd' = rd_terminal_error rd
     \<and> rd_pending rd' = rd_pending rd \<and> rd_commands rd' = rd_commands rd
     \<and> rd_last_stream rd' = rd_last_stream rd \<and> rd_session_id rd' = rd_session_id rd"

lemma publish_frame: "publish rd r = (rd', p) \<Longrightarrow> same_frame rd rd' \<and> rd_store rd' = rd_store rd
    \<and> (p = Inr () \<longrightarrow> rd_published rd' = rd_published rd @ [r])"
  by (auto simp: publish_def same_frame_def split: if_splits)

lemma publish_all_frame: "publish_all rd rs = (rd', p) \<Longrightarrow> same_frame rd rd' \<and> rd_store rd' = rd_store rd
    \<and> (p = Inr () \<longrightarrow> rd_published rd' = rd_published rd @ rs)"
proof (induction rs arbitrary: rd)
  case (Cons r rs)
  obtain rd1 p1 where p1: "publish rd r = (rd1, p1)" by fastforce
  then show ?case
    using Cons.prems publish_frame [OF p1] Cons.IH [of rd1] by (cases p1) (auto simp: same_frame_def)
qed (auto simp: same_frame_def)

lemma publish_all_prefix: "publish_all rd rs = (rd', p) \<Longrightarrow> \<exists>k. rd_published rd' = rd_published rd @ take k rs"
proof (induction rs arbitrary: rd)
  case (Cons r rs)
  obtain rd1 p1 where p1: "publish rd r = (rd1, p1)" by fastforce
  show ?case
  proof (cases p1)
    case (Inl e)
    with p1 Cons.prems have "rd_published rd' = rd_published rd @ take 0 (r # rs)"
      by (auto simp: publish_def split: if_splits)
    then show ?thesis by blast
  next
    case (Inr u)
    with p1 Cons.prems have "publish_all rd1 rs = (rd', p)" "rd_published rd1 = rd_published rd @ [r]"
      using publish_frame [OF p1] by auto
    with Cons.IH obtain k where "rd_published rd' = rd_published rd @ take (Suc k) (r # rs)" by fastforce
    then show ?thesis by blast
  qed
qed simp

definition queued_events :: "'s recorder \<Rightarrow> event list" where
  "queued_events rd = concat (map command_events (rd_commands rd))"

definition own_save :: "string \<Rightarrow> recorder_command \<Rightarrow> bool" where
  "own_save sid c = (case c of Save s \<Rightarrow> ck_session_id (sv_checkpoint s) = sid | _ \<Rightarrow> True)"

definition consecutive :: "nat \<Rightarrow> journal_event list \<Rightarrow> bool" where
  "consecutive first rs \<longleftrightarrow> map je_sequence rs = [Suc first ..< Suc (first + length rs)]"

lemma consecutive_append:
  "consecutive first (xs @ ys) \<longleftrightarrow> consecutive first xs \<and> consecutive (first + length xs) ys"
proof -
  have split: "[Suc first ..< Suc (first + length (xs @ ys))]
      = [Suc first ..< Suc (first + length xs)] @ [Suc (first + length xs) ..< Suc (first + length xs + length ys)]"
    using upt_add_eq_append [of "Suc first" "Suc (first + length xs)" "length ys"] by (simp add: add.assoc del: upt_Suc)
  show ?thesis unfolding consecutive_def split by (simp add: append_eq_append_conv del: upt_Suc)
qed

lemma consecutive_take: "consecutive first rs \<Longrightarrow> consecutive first (take k rs)"
  using consecutive_append [of first "take k rs" "drop k rs"] by simp

text \<open>
  What the recorder relies on in its store: a failed call changes nothing, and a successful one returns
  the events it was given under the next consecutive sequences of the session.
\<close>

locale event_store =
  fixes cs :: "'s checkpoint_store"
    and latest :: "'s \<Rightarrow> string \<Rightarrow> nat"
  assumes append_fails: "cs_append_event cs s sid at e = (s', Inl err) \<Longrightarrow> s' = s"
    and append_records: "cs_append_event cs s sid at e = (s', Inr r) \<Longrightarrow>
      je_event r = e \<and> consecutive (latest s sid) [r] \<and> latest s' sid = Suc (latest s sid)"
    and save_fails: "cs_save_with_events cs s c transcript execution es = (s', Inl err) \<Longrightarrow> s' = s"
    and save_records: "cs_save_with_events cs s c transcript execution es = (s', Inr rs) \<Longrightarrow>
      map je_event rs = map tm_event es \<and> consecutive (latest s (ck_session_id c)) rs
      \<and> latest s' (ck_session_id c) = latest s (ck_session_id c) + length rs"
begin

definition numbered :: "nat \<Rightarrow> 's recorder \<Rightarrow> bool" where
  "numbered first rd \<longleftrightarrow> consecutive first (rd_published rd)
     \<and> (healthy rd \<longrightarrow> latest (rd_store rd) (rd_session_id rd) = first + length (rd_published rd))"

definition step :: "'s recorder \<Rightarrow> 's recorder \<Rightarrow> event list \<Rightarrow> bool \<Rightarrow> bool" where
  "step rd rd' es ok \<longleftrightarrow> same_frame (rd\<lparr>rd_pending := rd_pending rd'\<rparr>) rd' \<and>
     (\<exists>rs. rd_published rd' = rd_published rd @ rs \<and> consecutive (latest (rd_store rd) (rd_session_id rd)) rs
        \<and> (ok \<longrightarrow> map je_event rs = es
           \<and> latest (rd_store rd') (rd_session_id rd') = latest (rd_store rd) (rd_session_id rd) + length rs))"

lemma record_append_step:
  assumes "record_append cs rd a = (rd', r)"
  shows "step rd rd' [tm_event (ap_event a)] (r = Inr ()) \<and> rd_pending rd' = rd_pending rd"
proof -
  obtain s q where app: "cs_append_event cs (rd_store rd) (rd_session_id rd) (tm_recorded_at_ms (ap_event a))
      (tm_event (ap_event a)) = (s, q)" by fastforce
  show ?thesis
  proof (cases q)
    case (Inl e)
    with app assms have "rd' = release (reply (rd\<lparr>rd_store := s\<rparr>) (ap_result a) (Inl e)) (ap_permits a)" "r \<noteq> Inr ()"
      by (auto simp: record_append_def)
    then show ?thesis by (auto simp: step_def same_frame_def consecutive_def)
  next
    case (Inr j)
    obtain rd1 p where pub: "publish (rd\<lparr>rd_store := s\<rparr>) j = (rd1, p)" by fastforce
    with app Inr assms have r: "rd' = release (reply rd1 (ap_result a) (Inr ())) (ap_permits a)" "r = Inr () \<longleftrightarrow> p = Inr ()"
      by (auto simp: record_append_def split: sum.splits)
    note rec = append_records [OF app [unfolded Inr]]
    have none: "p \<noteq> Inr () \<Longrightarrow> rd_published rd1 = rd_published rd"
      using pub by (auto simp: publish_def split: if_splits)
    show ?thesis
      using publish_frame [OF pub] rec r none
      by (cases "p = Inr ()") (auto simp: step_def same_frame_def consecutive_def)
  qed
qed

lemma flush_stream_step:
  assumes "flush_stream cs rd = (rd', r)"
  shows "step rd rd' (pending_events rd) (r = Inr ()) \<and> rd_pending rd' = None"
proof (cases "rd_pending rd")
  case None
  with assms show ?thesis by (auto simp: flush_stream_def step_def same_frame_def pending_events_def consecutive_def)
next
  case (Some b)
  with assms have "record_append cs (rd\<lparr>rd_pending := None\<rparr>) (sb_append b) = (rd', r)" by (simp add: flush_stream_def)
  from record_append_step [OF this] Some show ?thesis
    by (auto simp: step_def same_frame_def pending_events_def)
qed

lemma record_save_step:
  assumes "record_save cs rd c = (rd', ok)" and "ck_session_id (sv_checkpoint c) = rd_session_id rd"
  shows "step rd rd' (map tm_event (sv_events c)) ok \<and> rd_pending rd' = rd_pending rd"
proof -
  obtain s q where sv: "cs_save_with_events cs (rd_store rd) (sv_checkpoint c) (sv_transcript_delta c) (sv_execution c)
      (sv_events c) = (s, q)" by fastforce
  show ?thesis
  proof (cases q)
    case (Inl e)
    with sv assms(1) have "rd' = release (reply (rd\<lparr>rd_store := s\<rparr>) (Some (sv_result c)) (Inl e)) (sv_permits c)" "\<not> ok"
      by (auto simp: record_save_def)
    then show ?thesis by (auto simp: step_def same_frame_def consecutive_def)
  next
    case (Inr rs)
    obtain rd1 p where pub: "publish_all (rd\<lparr>rd_store := s\<rparr>) rs = (rd1, p)" by fastforce
    with sv Inr assms(1) have r: "rd' = release (reply rd1 (Some (sv_result c)) (Inr ())) (sv_permits c)" "ok \<longleftrightarrow> p = Inr ()"
      by (auto simp: record_save_def)
    note rec = save_records [OF sv [unfolded Inr]]
    obtain k where k: "rd_published rd1 = rd_published rd @ take k rs" using publish_all_prefix [OF pub] by auto
    show ?thesis
      using publish_all_frame [OF pub] rec r k assms(2) consecutive_take [of _ rs k]
      by (cases "p = Inr ()") (auto simp: step_def same_frame_def)
  qed
qed

definition outcome :: "nat \<Rightarrow> 's recorder \<Rightarrow> 's recorder \<Rightarrow> event list \<Rightarrow> bool" where
  "outcome first rd rd' es \<longleftrightarrow> recorder_inv rd' \<and> numbered first rd' \<and> rd_session_id rd' = rd_session_id rd
     \<and> set (rd_commands rd') \<subseteq> set (rd_commands rd)
     \<and> (healthy rd' \<longrightarrow> rd_commands rd' = rd_commands rd \<and> written rd' = written rd @ content es)"

lemma step_numbered:
  assumes "step rd rd' es ok" "numbered first rd" "healthy rd"
  shows "consecutive first (rd_published rd')"
    and "ok \<Longrightarrow> latest (rd_store rd') (rd_session_id rd') = first + length (rd_published rd')"
    and "ok \<Longrightarrow> content (map je_event (rd_published rd')) = content (map je_event (rd_published rd)) @ content es"
    and "rd_running rd'" and "rd_terminal_error rd' = None" and "rd_commands rd' = rd_commands rd"
    and "rd_session_id rd' = rd_session_id rd" and "rd_last_stream rd' = rd_last_stream rd"
  using assms by (auto simp: step_def numbered_def consecutive_append same_frame_def healthy_def)

lemma reject_frame:
  "reject rd c failure = (rd', stop) \<Longrightarrow> same_frame rd rd' \<and> rd_published rd' = rd_published rd \<and> rd_store rd' = rd_store rd"
  by (auto simp: reject_def same_frame_def split: recorder_command.splits)

lemma failed_outcome:
  assumes "consecutive first (rd_published rd')" "rd_session_id rd' = rd_session_id rd" "rd_pending rd' = None"
    "rd_commands rd' = rd_commands rd \<or> rd_commands rd' = []" "\<not> rd_running rd' \<longrightarrow> rd_commands rd' = []" "\<not> healthy rd'"
  shows "outcome first rd rd' es"
  using assms by (auto simp: outcome_def recorder_inv_def numbered_def)

lemma flushed:
  assumes "flush_stream cs rd = (rd1, r)" "recorder_inv rd" "numbered first rd" "healthy rd"
  shows "consecutive first (rd_published rd1)" "rd_pending rd1 = None" "rd_running rd1" "rd_terminal_error rd1 = None"
    "rd_commands rd1 = rd_commands rd" "rd_session_id rd1 = rd_session_id rd" "rd_last_stream rd1 = rd_last_stream rd"
    "r = Inr () \<Longrightarrow> recorder_inv rd1 \<and> numbered first rd1 \<and> healthy rd1 \<and> written rd1 = written rd"
proof -
  have st: "step rd rd1 (pending_events rd) (r = Inr ())" and p: "rd_pending rd1 = None"
    using flush_stream_step [OF assms(1)] by blast+
  note num = step_numbered [OF st assms(3,4)]
  show "consecutive first (rd_published rd1)" "rd_pending rd1 = None" "rd_running rd1" "rd_terminal_error rd1 = None"
    "rd_commands rd1 = rd_commands rd" "rd_session_id rd1 = rd_session_id rd" "rd_last_stream rd1 = rd_last_stream rd"
    using num p by blast+
  assume "r = Inr ()"
  with num p show "recorder_inv rd1 \<and> numbered first rd1 \<and> healthy rd1 \<and> written rd1 = written rd"
    by (auto simp: recorder_inv_def numbered_def healthy_def written_def pending_events_def)
qed

lemma stored_outcome:
  assumes "step rd1 rd2 es ok" "numbered first rd1" "healthy rd1" "rd_pending rd1 = None" "rd_pending rd2 = None"
    "ok" "rd_commands rd1 = rd_commands rd" "rd_session_id rd1 = rd_session_id rd" "written rd1 = written rd"
  shows "outcome first rd rd2 es"
  using step_numbered [OF assms(1-3)] assms(4-)
  by (auto simp: outcome_def recorder_inv_def numbered_def healthy_def written_def pending_events_def)

lemma handle_append_outcome:
  assumes inv: "recorder_inv rd" "numbered first rd" "healthy rd"
  shows "outcome first rd (handle_append cs now rd a) [tm_event (ap_event a)]"
proof (cases "Option.bind (rd_pending rd) (\<lambda>b. merge b a)")
  case (Some b)
  then obtain b0 where b0: "rd_pending rd = Some b0" "merge b0 a = Some b" by (auto simp: bind_eq_Some_conv)
  show ?thesis
    using Some b0 inv merge_atoms [OF b0(2)] merge_keeps [OF b0(2)]
    by (simp add: handle_append_def outcome_def recorder_inv_def numbered_def healthy_def written_def pending_events_def)
next
  case None
  obtain rd1 r1 where fl: "flush_stream cs rd = (rd1, r1)" by fastforce
  note f = flushed [OF fl inv]
  show ?thesis
  proof (cases r1)
    case (Inl failure)
    then show ?thesis
      using None fl f by (simp add: handle_append_def reject_def failed_outcome healthy_def)
  next
    case (Inr u)
    with f(8) have ok: "recorder_inv rd1" "numbered first rd1" "healthy rd1" "written rd1 = written rd" by simp_all
    let ?e = "tm_event (ap_event a)"
    obtain rd2 r2 where app: "record_append cs (rd1\<lparr>rd_last_stream := stream_key_of ?e\<rparr>) a = (rd2, r2)" by fastforce
    have num: "numbered first (rd1\<lparr>rd_last_stream := l\<rparr>)" "healthy (rd1\<lparr>rd_last_stream := l\<rparr>)"
      "written (rd1\<lparr>rd_last_stream := l\<rparr>) = written rd" for l
      using ok by (simp_all add: numbered_def healthy_def written_def pending_events_def)
    have st: "step (rd1\<lparr>rd_last_stream := stream_key_of ?e\<rparr>) rd2 [?e] (r2 = Inr ())" "rd_pending rd2 = None"
      using record_append_step [OF app] f(2) by simp_all
    note sn = step_numbered [OF st(1) num(1,2)]
    show ?thesis
    proof (cases "stream_key_of ?e \<noteq> None \<and> stream_key_of ?e = rd_last_stream rd1 \<and> short_delta ?e")
      case True
      then have "handle_append cs now rd a = reply (rd1\<lparr>rd_pending := Some \<lparr>sb_append = a\<lparr>ap_result := None\<rparr>,
          sb_deadline = now + STREAM_BATCH_INTERVAL\<rparr>\<rparr>) (ap_result a) (Inr ())"
        using None fl Inr by (auto simp: handle_append_def Let_def)
      then show ?thesis using True ok f
        by (simp add: outcome_def recorder_inv_def numbered_def healthy_def written_def pending_events_def)
    next
      case batch: False
      show ?thesis
      proof (cases r2)
        case (Inl failure)
        then have "handle_append cs now rd a = rd2\<lparr>rd_terminal_error := Some failure\<rparr>
            \<or> handle_append cs now rd a = recorder_stop (rd2\<lparr>rd_terminal_error := Some failure\<rparr>)"
          using None fl Inr batch app by (auto simp: handle_append_def Let_def err_of_def)
        then show ?thesis
          using sn st(2) f by (elim disjE) (auto intro!: failed_outcome simp: healthy_def)
      next
        case (Inr u2)
        then have "handle_append cs now rd a = rd2\<lparr>rd_terminal_error := None\<rparr>"
          using None fl \<open>r1 = Inr u\<close> batch app by (auto simp: handle_append_def Let_def err_of_def)
        then have "handle_append cs now rd a = rd2" using sn(5) by simp
        moreover have "outcome first rd rd2 [?e]"
          using stored_outcome [OF st(1) num(1,2)] st(2) f num(3) Inr by simp
        ultimately show ?thesis by simp
      qed
    qed
  qed
qed

lemma handle_command_outcome:
  assumes inv: "recorder_inv rd" "numbered first rd" "rd_running rd" and own: "own_save (rd_session_id rd) c"
  shows "outcome first rd (handle_command cs now rd c) (command_events c)"
proof (cases "rd_terminal_error rd")
  case (Some failure)
  obtain rd1 stop where rej: "reject rd c failure = (rd1, stop)" by fastforce
  have "handle_command cs now rd c = (if stop then recorder_stop rd1 else rd1)" using Some rej by (simp add: handle_command_def)
  then show ?thesis
    using reject_frame [OF rej] inv Some
    by (auto intro!: failed_outcome simp: same_frame_def healthy_def numbered_def recorder_inv_def)
next
  case None
  with inv have h: "healthy rd" by (simp add: healthy_def)
  obtain rd1 r1 where fl: "flush_stream cs rd = (rd1, r1)" by fastforce
  note f = flushed [OF fl inv(1,2) h]
  show ?thesis
  proof (cases "\<exists>a. c = Append a")
    case True
    then show ?thesis using None handle_append_outcome [OF inv(1,2) h] by (auto simp: handle_command_def)
  next
    case barrier: False
    show ?thesis
    proof (cases r1)
      case (Inl failure)
      obtain rd2 stop where rej: "reject rd1 c failure = (rd2, stop)" by fastforce
      have "handle_command cs now rd c = (if stop then recorder_stop rd2 else rd2\<lparr>rd_terminal_error := Some failure\<rparr>)"
        using None fl Inl rej barrier by (cases c) (simp_all add: handle_command_def)
      then show ?thesis
        using reject_frame [OF rej] f by (auto intro!: failed_outcome simp: same_frame_def)
    next
      case (Inr u)
      let ?rd1 = "rd1\<lparr>rd_last_stream := None\<rparr>"
      have ok: "recorder_inv ?rd1" "numbered first ?rd1" "healthy ?rd1" "written ?rd1 = written rd"
        using f(8) Inr by (simp_all add: recorder_inv_def numbered_def healthy_def written_def pending_events_def)
      show ?thesis
      proof (cases c)
        case (Save sv)
        obtain rd2 continue where sv: "record_save cs ?rd1 sv = (rd2, continue)" by fastforce
        have st: "step ?rd1 rd2 (map tm_event (sv_events sv)) continue" "rd_pending rd2 = None"
          using record_save_step [OF sv] own Save f by (simp_all add: own_save_def)
        note sn = step_numbered [OF st(1) ok(2,3)]
        have "handle_command cs now rd c = (if continue then rd2 else recorder_stop rd2)"
          using None fl Inr Save sv sn(5) by (simp add: handle_command_def)
        moreover have "outcome first rd rd2 (command_events c)" if continue
          using stored_outcome [OF st(1) ok(2,3)] that st(2) f ok(4) Save by simp
        moreover have "outcome first rd (recorder_stop rd2) es" for es
          using sn f by (auto intro!: failed_outcome)
        ultimately show ?thesis by simp
      next
        case (Flush i)
        have "handle_command cs now rd c = reply ?rd1 (Some i) (Inr ())"
          using None fl Inr Flush f(4) by (simp add: handle_command_def reply_def)
        then show ?thesis using ok f Flush
          by (simp add: outcome_def recorder_inv_def numbered_def healthy_def written_def pending_events_def)
      qed (use barrier in blast)
    qed
  qed
qed

definition good :: "nat \<Rightarrow> 's recorder \<Rightarrow> bool" where
  "good first rd \<longleftrightarrow> recorder_inv rd \<and> numbered first rd \<and> list_all (own_save (rd_session_id rd)) (rd_commands rd)"

lemma good_spawn: "good (latest s sid) (spawn s sid accepts)"
  by (simp add: good_def spawn_def recorder_inv_def numbered_def consecutive_def)

lemma wake_good:
  assumes "good first rd"
  shows "good first (recorder_wake cs rd w) \<and> rd_session_id (recorder_wake cs rd w) = rd_session_id rd
    \<and> (healthy (recorder_wake cs rd w) \<longrightarrow> healthy rd \<and>
     written (recorder_wake cs rd w) @ content (queued_events (recorder_wake cs rd w)) = written rd @ content (queued_events rd))"
proof (cases "rd_running rd")
  case run: True
  have inv: "recorder_inv rd" "numbered first rd" using assms by (simp_all add: good_def)
  obtain rd1 r1 where fl: "flush_stream cs rd = (rd1, r1)" by fastforce
  show ?thesis
  proof (cases w)
    case Timer
    show ?thesis
    proof (cases "rd_pending rd")
      case None
      then show ?thesis using assms Timer run by (simp add: recorder_wake_def)
    next
      case (Some b)
      with inv run have h: "healthy rd" by (auto simp: recorder_inv_def healthy_def)
      note f = flushed [OF fl inv h]
      show ?thesis using Timer run Some fl f assms h
        by (cases r1) (simp_all add: recorder_wake_def err_of_def good_def recorder_inv_def numbered_def healthy_def
            written_def queued_events_def pending_events_def)
    qed
  next
    case (Receive now)
    show ?thesis
    proof (cases "rd_commands rd")
      case Nil
      then show ?thesis using assms Receive run by (simp add: recorder_wake_def)
    next
      case (Cons c commands)
      let ?rd = "rd\<lparr>rd_commands := commands\<rparr>"
      have "recorder_inv ?rd" "numbered first ?rd" "rd_running ?rd" "own_save (rd_session_id ?rd) c"
        using assms Cons run by (simp_all add: good_def recorder_inv_def numbered_def healthy_def)
      from handle_command_outcome [OF this, of now] have o:
        "outcome first ?rd (recorder_wake cs rd w) (command_events c)"
        using Receive Cons run by (simp add: recorder_wake_def)
      moreover have "healthy (recorder_wake cs rd w) \<Longrightarrow> healthy rd"
        using Receive Cons run
        by (auto simp: recorder_wake_def healthy_def handle_command_def reject_def split: option.splits prod.splits
            if_splits recorder_command.splits)
      ultimately show ?thesis using assms Cons
        by (auto simp: outcome_def good_def list_all_iff queued_events_def written_def pending_events_def)
    qed
  next
    case Closed
    have "consecutive first (rd_published (fst (flush_stream cs rd))) \<and> rd_session_id (fst (flush_stream cs rd)) = rd_session_id rd"
    proof (cases "healthy rd")
      case True
      from flushed [OF fl inv this] fl show ?thesis by simp
    next
      case False
      then have "rd_pending rd = None" using inv run by (auto simp: recorder_inv_def healthy_def)
      then show ?thesis using inv by (simp add: flush_stream_def numbered_def)
    qed
    then show ?thesis using Closed run assms
      by (auto simp: recorder_wake_def good_def recorder_inv_def numbered_def healthy_def)
  qed
qed (use assms in \<open>simp add: recorder_wake_def healthy_def\<close>)

end

subsection \<open>The recorder on the SQLite store\<close>

definition sqlite_latest :: "store \<Rightarrow> string \<Rightarrow> nat" where
  "sqlite_latest s sid = (case s sid of None \<Rightarrow> 0 | Some row \<Rightarrow> db_latest_event_sequence (sr_db row))"

lemma store_events_numbered:
  "store_events (Some db) es transcript = Inr (database', rs) \<Longrightarrow> \<exists>db'. database' = Some db'
     \<and> map je_event rs = map tm_event es \<and> consecutive (db_latest_event_sequence db) rs
     \<and> db_latest_event_sequence db' = db_latest_event_sequence db + length rs"
proof (induction es arbitrary: db database' rs)
  case (Cons e es)
  from Cons.prems obtain db1 r rs1 where st: "store_event (Some db) e transcript = Inr (db1, r)"
    and es: "store_events (Some db1) es transcript = Inr (database', rs1)" and rs: "rs = [r] @ rs1"
    by (auto simp: res_bind_Inr_iff)
  have "je_event r = tm_event e" "consecutive (db_latest_event_sequence db) [r]"
    "db_latest_event_sequence db1 = Suc (db_latest_event_sequence db)"
    using st by (auto simp: store_event_Inr_iff consecutive_def)
  with Cons.IH [OF es] show ?case unfolding rs consecutive_append by auto
qed (simp add: consecutive_def)

lemma prepare_append_db:
  "prepare_append existing c addresses cached dv = Inr (existing', start, rewritten) \<Longrightarrow> old_db existing' = old_db existing"
  by (cases existing) (auto simp: prepare_append_def old_db_def res_bind_Inr_iff Let_def split: if_splits)

lemma save_numbered:
  assumes "save_with_events uuid_ok s c addresses cached dv transcript execution es = (s', Inr rs)"
  shows "map je_event rs = map tm_event es \<and> consecutive (sqlite_latest s (ck_session_id c)) rs
    \<and> sqlite_latest s' (ck_session_id c) = sqlite_latest s (ck_session_id c) + length rs"
proof -
  let ?existing = "s (ck_session_id c)"
  from assms obtain existing' start rewritten row1 row2 db where
    prep: "prepare_append ?existing c addresses cached dv = Inr (existing', start, rewritten)"
    and st: "store_checkpoint existing' c transcript execution = Inr row1"
    and ap: "append_context row1 c start = Inr row2"
    and ev: "store_events (Some (sr_db row2)) es (Some (ck_sequence c, transcript)) = Inr (Some db, rs)"
    and s': "s' = s(ck_session_id c \<mapsto> row2\<lparr>sr_db := db\<rparr>)"
    by (auto simp: save_with_events_def save_transaction_def res_bind_Inr_iff
        split: if_splits prod.splits option.splits sum.splits)
  have "db_latest_event_sequence (sr_db row2) = sqlite_latest s (ck_session_id c)"
    using store_checkpoint_Inr [OF st] append_context_Inr [OF ap] prepare_append_db [OF prep]
    by (auto simp: Let_def old_db_def sqlite_latest_def empty_session_db_def split: option.splits if_splits)
  with store_events_numbered [OF ev] s' show ?thesis by (auto simp: sqlite_latest_def)
qed

lemma sqlite_append_Inr:
  assumes "sqlite_append_event s sid at e = (s', Inr r)"
  shows "je_event r = e \<and> consecutive (sqlite_latest s sid) [r] \<and> sqlite_latest s' sid = Suc (sqlite_latest s sid)"
  using assms
  by (auto simp: sqlite_append_event_def append_event_def store_event_Inr_iff sqlite_latest_def consecutive_def
      split: sum.splits prod.splits option.splits)

interpretation sq: event_store "sqlite_store uuid_ok" sqlite_latest for uuid_ok
proof unfold_locales
  fix s sid at e s' err assume "cs_append_event (sqlite_store uuid_ok) s sid at e = (s', Inl err)"
  then show "s' = s"
    by (auto simp: sqlite_store_def sqlite_append_event_def split: prod.splits sum.splits option.splits)
next
  fix s sid at e s' r assume "cs_append_event (sqlite_store uuid_ok) s sid at e = (s', Inr r)"
  then show "je_event r = e \<and> consecutive (sqlite_latest s sid) [r] \<and> sqlite_latest s' sid = Suc (sqlite_latest s sid)"
    by (intro sqlite_append_Inr) (simp add: sqlite_store_def)
next
  fix s c transcript execution es s' err
  assume "cs_save_with_events (sqlite_store uuid_ok) s c transcript execution es = (s', Inl err)"
  then show "s' = s" by (auto simp: sqlite_store_def save_with_events_def split: sum.splits prod.splits)
next
  fix s c transcript execution es s' rs
  assume "cs_save_with_events (sqlite_store uuid_ok) s c transcript execution es = (s', Inr rs)"
  then show "map je_event rs = map tm_event es \<and> consecutive (sqlite_latest s (ck_session_id c)) rs
    \<and> sqlite_latest s' (ck_session_id c) = sqlite_latest s (ck_session_id c) + length rs"
    by (intro save_numbered) (simp add: sqlite_store_def)
qed

subsection \<open>Runs of callers and recorder\<close>

datatype recorder_op =
    OpTryRecord event
  | OpRecord event
  | OpSave checkpoint "json list" "execution_record option" "event list"
  | OpFlush
  | OpWake wake

definition sent :: "'s recorder \<Rightarrow> ('s recorder \<times> nat res) option \<Rightarrow> 's recorder" where
  "sent rd r = (case r of None \<Rightarrow> rd | Some (rd', _) \<Rightarrow> rd')"

definition recorder_do ::
    "'s checkpoint_store \<Rightarrow> (event \<Rightarrow> nat res) \<Rightarrow> int res \<Rightarrow> 's recorder \<Rightarrow> recorder_op \<Rightarrow> 's recorder" where
  "recorder_do cs len now rd operation = (case operation of
      OpTryRecord e \<Rightarrow> fst (try_record len now rd e)
    | OpRecord e \<Rightarrow> sent rd (record_begin len now rd e)
    | OpSave c transcript execution es \<Rightarrow> sent rd (save_begin len now rd c transcript execution es)
    | OpFlush \<Rightarrow> sent rd (flush_begin rd)
    | OpWake w \<Rightarrow> recorder_wake cs rd w)"

text \<open>The events that enter the channel in a step.\<close>

definition admitted :: "(event \<Rightarrow> nat res) \<Rightarrow> int res \<Rightarrow> 's recorder \<Rightarrow> recorder_op \<Rightarrow> event list" where
  "admitted len now rd operation = (case operation of
      OpTryRecord e \<Rightarrow> (if snd (try_record len now rd e) = Inr () then [e] else [])
    | OpRecord e \<Rightarrow> (case record_begin len now rd e of Some (_, Inr _) \<Rightarrow> [e] | _ \<Rightarrow> [])
    | OpSave c transcript execution es \<Rightarrow>
        (case save_begin len now rd c transcript execution es of Some (_, Inr _) \<Rightarrow> es | _ \<Rightarrow> [])
    | OpFlush \<Rightarrow> []
    | OpWake w \<Rightarrow> [])"

definition own_op :: "string \<Rightarrow> recorder_op \<Rightarrow> bool" where
  "own_op sid operation = (case operation of OpSave c _ _ _ \<Rightarrow> ck_session_id c = sid | _ \<Rightarrow> True)"

definition recorder_run ::
    "'s checkpoint_store \<Rightarrow> (event \<Rightarrow> nat res) \<Rightarrow> int res \<Rightarrow> 's recorder \<Rightarrow> recorder_op list \<Rightarrow> 's recorder" where
  "recorder_run cs len now rd ops = foldl (recorder_do cs len now) rd ops"

fun run_admitted ::
    "'s checkpoint_store \<Rightarrow> (event \<Rightarrow> nat res) \<Rightarrow> int res \<Rightarrow> 's recorder \<Rightarrow> recorder_op list \<Rightarrow> event list" where
  "run_admitted cs len now rd [] = []"
| "run_admitted cs len now rd (p # ps) = admitted len now rd p @ run_admitted cs len now (recorder_do cs len now rd p) ps"

lemma stamp_all_events: "stamp_all len now bytes es = Inr (tes, k) \<Longrightarrow> map tm_event tes = es"
  by (induction es arbitrary: bytes tes k)
     (auto simp: res_bind_Inr_iff timestamp_def split: option.splits)

text \<open>An operation of a caller either leaves the recorder as it is or adds one command to the channel.\<close>

definition adds :: "(recorder_command \<Rightarrow> bool) \<Rightarrow> 's recorder \<Rightarrow> 's recorder \<Rightarrow> event list \<Rightarrow> bool" where
  "adds Q rd rd' es \<longleftrightarrow> (rd' = rd \<and> es = []) \<or> (\<exists>c n. rd_running rd \<and> length (rd_commands rd) < RECORDER_COMMAND_CAPACITY
     \<and> command_permits c \<le> rd_available rd \<and> Q c \<and> command_events c = es
     \<and> rd' = (send_command rd (command_permits c) c)\<lparr>rd_next_reply := n\<rparr>)"

lemma send_awaited_adds:
  assumes "\<And>p i. ps = Inr p \<Longrightarrow> command_permits (f p i) = p \<and> Q (f p i) \<and> command_events (f p i) = es"
  shows "adds Q rd (sent rd (send_awaited rd ps f)) (case send_awaited rd ps f of Some (_, Inr _) \<Rightarrow> es | _ \<Rightarrow> [])"
proof (cases ps)
  case (Inr p)
  show ?thesis
  proof (cases "rd_available rd < p \<or> \<not> rd_running rd \<or> RECORDER_COMMAND_CAPACITY \<le> length (rd_commands rd)")
    case False
    then show ?thesis
      using Inr assms [OF Inr, of "rd_next_reply rd"]
      by (auto simp: adds_def send_awaited_def sent_def intro!: exI [of _ "f p (rd_next_reply rd)"])
  qed (use Inr in \<open>auto simp: adds_def send_awaited_def sent_def\<close>)
qed (simp add: adds_def send_awaited_def sent_def)

lemma try_record_adds:
  "adds (own_save sid) rd (fst (try_record len now rd e)) (if snd (try_record len now rd e) = Inr () then [e] else [])"
proof (cases "snd (try_record len now rd e) = Inr ()")
  case True
  then obtain at bytes where at: "now = Inr at" "len e = Inr bytes" by (auto simp: try_record_def timestamp_def res_bind_def split: sum.splits)
  define te where "te = \<lparr>tm_recorded_at_ms = at, tm_event = e\<rparr>"
  from True at obtain p where te: "tm_event te = e" "p \<le> rd_available rd" "rd_running rd"
    "length (rd_commands rd) < RECORDER_COMMAND_CAPACITY"
    "fst (try_record len now rd e) = send_command rd p (Append \<lparr>ap_event = te, ap_permits = p, ap_result = None\<rparr>)"
    by (cases "byte_permits bytes")
       (auto simp: try_record_def timestamp_def te_def not_less not_le split: if_splits)
  let ?c = "Append \<lparr>ap_event = te, ap_permits = p, ap_result = None\<rparr>"
  have "send_command rd p ?c = (send_command rd p ?c)\<lparr>rd_next_reply := rd_next_reply rd\<rparr>"
    by (cases rd) (simp add: send_command_def)
  with te True show ?thesis by (auto simp: adds_def own_save_def intro!: exI [of _ ?c])
qed (auto simp: try_record_def adds_def split: sum.splits if_splits)

lemma record_begin_adds:
  "adds (own_save sid) rd (sent rd (record_begin len now rd e)) (case record_begin len now rd e of Some (_, Inr _) \<Rightarrow> [e] | _ \<Rightarrow> [])"
proof (cases "timestamp len now e")
  case (Inr x)
  obtain te bytes where x: "x = (te, bytes)" by (cases x)
  with Inr have "tm_event te = e" by (auto simp: timestamp_def res_bind_Inr_iff)
  then show ?thesis using Inr x by (simp add: record_begin_def send_awaited_adds own_save_def)
qed (simp add: record_begin_def adds_def sent_def)

lemma save_begin_adds:
  assumes "ck_session_id c = sid"
  shows "adds (own_save sid) rd (sent rd (save_begin len now rd c transcript execution es))
    (case save_begin len now rd c transcript execution es of Some (_, Inr _) \<Rightarrow> es | _ \<Rightarrow> [])"
proof (cases "stamp_all len now 0 es")
  case (Inr x)
  obtain tes bytes where x: "x = (tes, bytes)" by (cases x)
  with Inr stamp_all_events have "map tm_event tes = es" by blast
  then show ?thesis using Inr x assms by (simp add: save_begin_def send_awaited_adds own_save_def)
qed (simp add: save_begin_def adds_def sent_def)

lemma flush_begin_adds: "adds (own_save sid) rd (sent rd (flush_begin rd)) []"
proof -
  have "adds (own_save sid) rd (sent rd (flush_begin rd)) (case flush_begin rd of Some (_, Inr _) \<Rightarrow> [] | _ \<Rightarrow> [])"
    unfolding flush_begin_def by (rule send_awaited_adds) (simp add: own_save_def)
  then show ?thesis by (simp split: option.splits sum.splits prod.splits)
qed

lemma caller_adds:
  assumes "own_op sid p" and "\<forall>w. p \<noteq> OpWake w"
  shows "adds (own_save sid) rd (recorder_do cs len now rd p) (admitted len now rd p)"
proof (cases p)
  case (OpTryRecord e)
  then show ?thesis using try_record_adds [of sid rd len now e] by (simp add: recorder_do_def admitted_def)
qed (use assms in \<open>simp_all add: recorder_do_def admitted_def own_op_def record_begin_adds save_begin_adds flush_begin_adds\<close>)

lemma adds_permits: "adds Q rd rd' es \<Longrightarrow> permits_total rd' = permits_total rd"
  by (auto simp: adds_def permits send_command_permits)

lemma adds_bounded:
  "adds Q rd rd' es \<Longrightarrow> length (rd_commands rd) \<le> RECORDER_COMMAND_CAPACITY \<Longrightarrow> length (rd_commands rd') \<le> RECORDER_COMMAND_CAPACITY"
  by (auto simp: adds_def send_command_def)

text \<open>What a caller's step keeps: everything but the end of the channel.\<close>

lemma adds_frame:
  assumes "adds Q rd rd' es"
  shows "rd_pending rd' = rd_pending rd" "rd_published rd' = rd_published rd" "rd_store rd' = rd_store rd"
    "rd_session_id rd' = rd_session_id rd" "rd_replies rd' = rd_replies rd" "rd_running rd' = rd_running rd"
    "rd_terminal_error rd' = rd_terminal_error rd" "queued_events rd' = queued_events rd @ es"
    "list_all Q (rd_commands rd) \<Longrightarrow> list_all Q (rd_commands rd')" "\<not> rd_running rd \<Longrightarrow> rd' = rd"
  using assms by (auto simp: adds_def send_command_def queued_events_def)

lemma adds_good:
  assumes "sq.good first rd" "adds (own_save (rd_session_id rd)) rd rd' es"
  shows "sq.good first rd' \<and> (healthy rd' \<longleftrightarrow> healthy rd) \<and> written rd' = written rd"
  using assms(1) adds_frame [OF assms(2)]
  by (cases "rd_running rd")
     (auto simp: sq.good_def recorder_inv_def sq.numbered_def healthy_def written_def pending_events_def)

lemma keeps_commands:
  "rd_commands (fst (publish rd r)) = rd_commands rd" "rd_commands (fst (publish_all rd rs)) = rd_commands rd"
  "rd_commands (fst (record_append cs rd a)) = rd_commands rd" "rd_commands (fst (flush_stream cs rd)) = rd_commands rd"
  "rd_commands (fst (record_save cs rd c)) = rd_commands rd" "rd_commands (fst (reject rd cmd failure)) = rd_commands rd"
proof -
  show p: "rd_commands (fst (publish rd r)) = rd_commands rd" for r and rd :: "'a recorder"
    using publish_frame [of rd r] by (cases "publish rd r") (simp add: same_frame_def)
  show q: "rd_commands (fst (publish_all rd rs)) = rd_commands rd" for rs and rd :: "'a recorder"
    using publish_all_frame [of rd rs] by (cases "publish_all rd rs") (simp add: same_frame_def)
  show a: "rd_commands (fst (record_append cs rd a)) = rd_commands rd" for a and rd :: "'a recorder"
    using p [of "rd\<lparr>rd_store := s\<rparr>" r for s r]
    by (auto simp: record_append_def split: prod.split sum.split) (metis fst_conv)
  show "rd_commands (fst (flush_stream cs rd)) = rd_commands rd"
    by (simp add: flush_stream_def a split: option.split)
  show "rd_commands (fst (record_save cs rd c)) = rd_commands rd"
    using q [of "rd\<lparr>rd_store := s\<rparr>" rs for s rs]
    by (auto simp: record_save_def split: prod.split sum.split) (metis fst_conv)
  show "rd_commands (fst (reject rd cmd failure)) = rd_commands rd"
    by (simp add: reject_def split: recorder_command.split)
qed

lemma keeps_commandsD:
  "record_append cs rd a = (rd', r) \<Longrightarrow> rd_commands rd' = rd_commands rd"
  "flush_stream cs rd = (rd', r) \<Longrightarrow> rd_commands rd' = rd_commands rd"
  "record_save cs rd c = (rd', b) \<Longrightarrow> rd_commands rd' = rd_commands rd"
  "reject rd cmd failure = (rd', b) \<Longrightarrow> rd_commands rd' = rd_commands rd"
  using keeps_commands(3) [of cs rd a] keeps_commands(4) [of cs rd] keeps_commands(5) [of cs rd c]
    keeps_commands(6) [of rd cmd failure] by simp_all

lemma handle_append_commands: "length (rd_commands (handle_append cs now rd a)) \<le> length (rd_commands rd)"
  by (auto simp: handle_append_def Let_def keeps_commands(6) split: option.split prod.split sum.split
      dest!: keeps_commandsD(1,2))

lemma handle_command_commands: "length (rd_commands (handle_command cs now rd c)) \<le> length (rd_commands rd)"
  by (auto simp: handle_command_def handle_append_commands split: option.split prod.split sum.split recorder_command.split
      dest!: keeps_commandsD(2-4))

lemma wake_commands: "length (rd_commands (recorder_wake cs rd w)) \<le> length (rd_commands rd)"
proof -
  have "length (rd_commands (handle_command cs now (rd\<lparr>rd_commands := commands\<rparr>) c)) \<le> length commands" for now commands c
    using handle_command_commands [of cs now "rd\<lparr>rd_commands := commands\<rparr>" c] by simp
  then show ?thesis
    by (auto simp: recorder_wake_def split: wake.split list.split prod.split dest!: keeps_commandsD(2) intro: le_SucI)
qed

lemma do_keeps:
  assumes "own_op (rd_session_id rd) p" and "sq.good first rd"
  shows "sq.good first (recorder_do (sqlite_store uuid_ok) len now rd p)
    \<and> rd_session_id (recorder_do (sqlite_store uuid_ok) len now rd p) = rd_session_id rd
    \<and> (healthy (recorder_do (sqlite_store uuid_ok) len now rd p) \<longrightarrow> healthy rd \<and>
        written (recorder_do (sqlite_store uuid_ok) len now rd p) @ content (queued_events (recorder_do (sqlite_store uuid_ok) len now rd p))
          = written rd @ content (queued_events rd) @ content (admitted len now rd p))"
proof (cases "\<exists>w. p = OpWake w")
  case True
  then obtain w where w: "p = OpWake w" by blast
  then show ?thesis using sq.wake_good [OF assms(2), of uuid_ok w] w by (auto simp: recorder_do_def admitted_def)
next
  case False
  then have ad: "adds (own_save (rd_session_id rd)) rd (recorder_do (sqlite_store uuid_ok) len now rd p) (admitted len now rd p)"
    using caller_adds [OF assms(1)] by blast
  from adds_good [OF assms(2) ad] adds_frame [OF ad] show ?thesis by simp
qed

lemma run_keeps:
  assumes "list_all (own_op (rd_session_id rd)) ops" and "sq.good first rd"
  shows "sq.good first (recorder_run (sqlite_store uuid_ok) len now rd ops)
    \<and> (healthy (recorder_run (sqlite_store uuid_ok) len now rd ops) \<longrightarrow> healthy rd \<and>
        written (recorder_run (sqlite_store uuid_ok) len now rd ops)
          @ content (queued_events (recorder_run (sqlite_store uuid_ok) len now rd ops))
        = written rd @ content (queued_events rd) @ content (run_admitted (sqlite_store uuid_ok) len now rd ops))"
  using assms
proof (induction ops arbitrary: rd)
  case (Cons p ps)
  let ?rd = "recorder_do (sqlite_store uuid_ok) len now rd p"
  have d: "sq.good first ?rd" "rd_session_id ?rd = rd_session_id rd"
    "healthy ?rd \<longrightarrow> healthy rd \<and> written ?rd @ content (queued_events ?rd)
       = written rd @ content (queued_events rd) @ content (admitted len now rd p)"
    using do_keeps [of rd p first uuid_ok len now] Cons.prems by simp_all
  have "list_all (own_op (rd_session_id ?rd)) ps" using Cons.prems d(2) by simp
  from Cons.IH [OF this d(1)] d(3) show ?case by (auto simp: recorder_run_def)
qed (simp add: recorder_run_def)

lemma spawn_frame [simp]:
  "rd_session_id (spawn s sid accepts) = sid" "written (spawn s sid accepts) = []"
  "rd_published (spawn s sid accepts) = []" "pending_events (spawn s sid accepts) = []" "queued_events (spawn s sid accepts) = []"
  by (simp_all add: spawn_def written_def pending_events_def queued_events_def)

lemma do_permits:
  "permits_total (recorder_do cs len now rd p) = permits_total rd
     \<and> (length (rd_commands rd) \<le> RECORDER_COMMAND_CAPACITY \<longrightarrow>
        length (rd_commands (recorder_do cs len now rd p)) \<le> RECORDER_COMMAND_CAPACITY)"
proof (cases "\<exists>w. p = OpWake w")
  case True
  then show ?thesis using recorder_wake_permits wake_commands by (fastforce simp: recorder_do_def intro: order_trans)
next
  case False
  have "adds (own_save (case p of OpSave c _ _ _ \<Rightarrow> ck_session_id c | _ \<Rightarrow> [])) rd (recorder_do cs len now rd p) (admitted len now rd p)"
    by (rule caller_adds) (use False in \<open>auto simp: own_op_def split: recorder_op.splits\<close>)
  then show ?thesis using adds_permits adds_bounded by blast
qed

lemma reject_replies:
  "\<exists>rs. rd_replies (fst (reject rd c failure)) = rd_replies rd @ rs \<and> (\<forall>x \<in> set rs. isl (snd x))"
  by (auto simp: reject_def reply_def release_def split: recorder_command.split option.split)

lemma wake_failed:
  assumes inv: "recorder_inv rd" and bad: "\<not> healthy rd"
  shows "\<not> healthy (recorder_wake cs rd w) \<and> rd_store (recorder_wake cs rd w) = rd_store rd
    \<and> rd_published (recorder_wake cs rd w) = rd_published rd
    \<and> (\<exists>rs. rd_replies (recorder_wake cs rd w) = rd_replies rd @ rs \<and> (\<forall>x \<in> set rs. isl (snd x)))"
proof (cases "rd_running rd")
  case True
  with bad obtain f where f: "rd_terminal_error rd = Some f" by (auto simp: healthy_def)
  with inv have none: "rd_pending rd = None" by (simp add: recorder_inv_def)
  show ?thesis
  proof (cases "\<exists>now c commands. w = Receive now \<and> rd_commands rd = c # commands")
    case True
    then obtain now c commands where c: "w = Receive now" "rd_commands rd = c # commands" by blast
    obtain rd1 stop where rej: "reject (rd\<lparr>rd_commands := commands\<rparr>) c f = (rd1, stop)" by fastforce
    have "recorder_wake cs rd w = (if stop then recorder_stop rd1 else rd1)"
      using c f rej \<open>rd_running rd\<close> by (simp add: recorder_wake_def handle_command_def)
    moreover have "\<exists>rs. rd_replies rd1 = rd_replies rd @ rs \<and> (\<forall>x \<in> set rs. isl (snd x))"
      using reject_replies [of "rd\<lparr>rd_commands := commands\<rparr>" c f] rej by simp
    ultimately show ?thesis
      using sq.reject_frame [OF rej] f by (auto simp: same_frame_def healthy_def)
  next
    case False
    then show ?thesis using True none f
      by (cases w) (auto simp: recorder_wake_def flush_stream_def healthy_def split: list.split)
  qed
qed (use bad in \<open>simp add: recorder_wake_def\<close>)

lemma flush_replies:
  assumes "recorder_inv rd" and "flush_stream cs rd = (rd1, r)"
  shows "rd_replies rd1 = rd_replies rd"
  using assms
  by (cases "rd_pending rd")
     (auto simp: flush_stream_def record_append_def recorder_inv_def recorder_simps split: prod.splits sum.splits if_splits)

definition sample_delta :: "string \<Rightarrow> event" where
  "sample_delta t = \<lparr>ev_submission_id = Some ''s1'', ev_msg = AssistantContentDelta \<lparr>ad_session_id = ''s'', ad_turn_id = ''t1'',
     ad_model_step_id = ''m1'', ad_delta = t, ad_phase = FinalAnswer\<rparr>\<rparr>"

definition sample_store :: store where
  "sample_store = [''s'' \<mapsto> sample_row]"

definition sample_ops :: "recorder_op list" where
  "sample_ops = [OpRecord (sample_delta ''a''), OpWake (Receive 0), OpTryRecord (sample_delta ''b''), OpWake (Receive 1),
     OpTryRecord (sample_delta ''c''), OpWake (Receive 2)]"

lemmas recorder_eval =
  recorder_run_def recorder_do_def record_begin_def try_record_def flush_begin_def send_awaited_def send_command_def sent_def
  timestamp_def byte_permits_def spawn_def recorder_wake_def handle_command_def handle_append_def flush_stream_def
  record_append_def publish_def reply_def release_def err_of_def merge_def Let_def stream_key_of_def short_delta_def
  sqlite_store_def sqlite_append_event_def append_event_def store_event_def event_index_def event_metrics_def
  sample_delta_def sample_store_def sample_ops_def sample_row_def empty_session_db_def
  RECORDER_EVENT_BYTE_BUDGET_def RECORDER_COMMAND_CAPACITY_def STREAM_BATCH_BYTES_def STREAM_BATCH_INTERVAL_def
  sat_add_def u64_max_def i64_checked_add_def i64_max_def is_i64_def i64_min_def

lemma sample_run:
  "healthy (recorder_run (sqlite_store (\<lambda>_. True)) (\<lambda>_. Inr 1) (Inr 0) (spawn sample_store ''s'' None) sample_ops)"
  "map je_event (rd_published (recorder_run (sqlite_store (\<lambda>_. True)) (\<lambda>_. Inr 1) (Inr 0) (spawn sample_store ''s'' None) sample_ops))
     = [sample_delta ''a'']"
  "pending_events (recorder_run (sqlite_store (\<lambda>_. True)) (\<lambda>_. Inr 1) (Inr 0) (spawn sample_store ''s'' None) sample_ops)
     = [sample_delta ''bc'']"
  "queued_events (recorder_run (sqlite_store (\<lambda>_. True)) (\<lambda>_. Inr 1) (Inr 0) (spawn sample_store ''s'' None) sample_ops) = []"
  by (simp_all add: recorder_eval healthy_def pending_events_def queued_events_def)

subsection \<open>Properties\<close>

text \<open>
  C3. Whatever the interleaving of callers, batch timer and received commands, the events the recorder
  publishes carry consecutive journal sequences, and while it has not failed nothing admitted is lost,
  duplicated or reordered: the published events, the pending batch and the queued commands together
  hold exactly the admitted content, with streamed text compared character by character under its stream.
\<close>

theorem recorder_lossless:
  assumes "list_all (own_op sid) ops"
  shows "consecutive (sqlite_latest s sid) (rd_published (recorder_run (sqlite_store uuid_ok) len now (spawn s sid accepts) ops))
    \<and> (healthy (recorder_run (sqlite_store uuid_ok) len now (spawn s sid accepts) ops) \<longrightarrow>
        content (map je_event (rd_published (recorder_run (sqlite_store uuid_ok) len now (spawn s sid accepts) ops))
          @ pending_events (recorder_run (sqlite_store uuid_ok) len now (spawn s sid accepts) ops)
          @ queued_events (recorder_run (sqlite_store uuid_ok) len now (spawn s sid accepts) ops))
        = content (run_admitted (sqlite_store uuid_ok) len now (spawn s sid accepts) ops))"
proof -
  have "list_all (own_op (rd_session_id (spawn s sid accepts))) ops" using assms by simp
  from run_keeps [OF this sq.good_spawn] show ?thesis
    by (auto simp: sq.good_def sq.numbered_def written_def)
qed

theorem recorder_lossless_witness:
  "content (run_admitted (sqlite_store (\<lambda>_. True)) (\<lambda>_. Inr 1) (Inr 0) (spawn sample_store ''s'' None) sample_ops)
     = content [sample_delta ''a'', sample_delta ''bc'']"
proof -
  have "list_all (own_op ''s'') sample_ops" by (simp add: sample_ops_def own_op_def)
  from recorder_lossless [OF this, of sample_store "\<lambda>_. True" "\<lambda>_. Inr 1" "Inr 0" None] sample_run
  show ?thesis by simp
qed

text \<open>
  C22. The byte budget is never exceeded and never leaks: after any run, free bytes, the bytes of the
  pending batch and those of the queued commands sum to the budget, and the channel holds at most its
  capacity.
\<close>

theorem recorder_budget:
  "rd_available (recorder_run cs len now (spawn s sid accepts) ops)
     + permits_held (recorder_run cs len now (spawn s sid accepts) ops) = RECORDER_EVENT_BYTE_BUDGET
   \<and> length (rd_commands (recorder_run cs len now (spawn s sid accepts) ops)) \<le> RECORDER_COMMAND_CAPACITY"
proof -
  have "permits_total (recorder_run cs len now rd ops) = permits_total rd
     \<and> (length (rd_commands rd) \<le> RECORDER_COMMAND_CAPACITY \<longrightarrow>
        length (rd_commands (recorder_run cs len now rd ops)) \<le> RECORDER_COMMAND_CAPACITY)" for rd
  proof (induction ops arbitrary: rd)
    case (Cons p ps)
    show ?case using Cons.IH [of "recorder_do cs len now rd p"] do_permits [of cs len now rd p]
      by (auto simp: recorder_run_def)
  qed (simp add: recorder_run_def)
  from this [of "spawn s sid accepts"] show ?thesis
    by (simp add: permits_total_def spawn_def permits_held_def pending_permits_def)
qed

text \<open>
  C23. The recorder fails closed: once it has failed or stopped, no step of a caller or of the task
  changes the durable store or publishes an event, it never becomes healthy again, and every later
  answer is an error.
\<close>

theorem recorder_fails_closed:
  assumes inv: "recorder_inv rd" and bad: "\<not> healthy rd"
  shows "\<not> healthy (recorder_do cs len now rd p) \<and> rd_store (recorder_do cs len now rd p) = rd_store rd
    \<and> rd_published (recorder_do cs len now rd p) = rd_published rd
    \<and> (\<exists>rs. rd_replies (recorder_do cs len now rd p) = rd_replies rd @ rs \<and> (\<forall>x \<in> set rs. isl (snd x)))"
proof (cases "\<exists>w. p = OpWake w")
  case True
  then show ?thesis using wake_failed [OF inv bad] by (auto simp: recorder_do_def)
next
  case False
  have "adds (own_save (case p of OpSave c _ _ _ \<Rightarrow> ck_session_id c | _ \<Rightarrow> [])) rd (recorder_do cs len now rd p) (admitted len now rd p)"
    by (rule caller_adds) (use False in \<open>auto simp: own_op_def split: recorder_op.splits\<close>)
  from adds_frame [OF this] bad show ?thesis by (auto simp: healthy_def)
qed

theorem recorder_fails_closed_witness:
  "rd_store (recorder_do (sqlite_store (\<lambda>_. True)) (\<lambda>_. Inr 1) (Inr 0)
     ((spawn sample_store ''s'' None)\<lparr>rd_terminal_error := Some ''disk''\<rparr>) (OpRecord (sample_delta ''a''))) ''s'' = Some sample_row"
proof -
  let ?rd = "(spawn sample_store ''s'' None)\<lparr>rd_terminal_error := Some ''disk''\<rparr>"
  have "recorder_inv ?rd" "\<not> healthy ?rd" by (simp_all add: spawn_def recorder_inv_def healthy_def)
  from recorder_fails_closed [OF this, of "sqlite_store (\<lambda>_. True)" "\<lambda>_. Inr 1" "Inr 0" "OpRecord (sample_delta ''a'')"]
  show ?thesis by (simp add: spawn_def sample_store_def)
qed

text \<open>A flush is a durability barrier: when the recorder answers a flush with success it is still healthy,
  no batch is pending, and everything received before it is published; any other answer stops the task.\<close>

lemma flush_barrier:
  assumes inv: "recorder_inv rd" and run: "rd_running rd" and flush: "rd_commands rd = Flush i # commands"
  shows "\<exists>r. rd_replies (recorder_wake (sqlite_store uuid_ok) rd (Receive now)) = rd_replies rd @ [(i, r)]
    \<and> (r = Inr () \<longrightarrow> healthy (recorder_wake (sqlite_store uuid_ok) rd (Receive now))
         \<and> content (map je_event (rd_published (recorder_wake (sqlite_store uuid_ok) rd (Receive now)))) = written rd)
    \<and> (r \<noteq> Inr () \<longrightarrow> \<not> rd_running (recorder_wake (sqlite_store uuid_ok) rd (Receive now)))"
proof -
  let ?rd = "rd\<lparr>rd_commands := commands\<rparr>"
  obtain rd1 r1 where fl: "flush_stream (sqlite_store uuid_ok) ?rd = (rd1, r1)" by fastforce
  have inv': "recorder_inv ?rd" using inv run by (simp add: recorder_inv_def)
  have st: "sq.step ?rd rd1 (pending_events rd) (r1 = Inr ())"
    using sq.flush_stream_step [OF fl] by (simp add: pending_events_def)
  have wake: "recorder_wake (sqlite_store uuid_ok) rd (Receive now) = handle_command (sqlite_store uuid_ok) now ?rd (Flush i)"
    using run flush by (simp add: recorder_wake_def)
  have "r1 = Inr () \<Longrightarrow> content (map je_event (rd_published rd1)) = written rd"
    using st by (auto simp: sq.step_def written_def)
  then show ?thesis
    unfolding wake using fl flush_replies [OF inv' fl] st run
    by (cases "rd_terminal_error rd"; cases r1)
       (auto simp: handle_command_def reject_def reply_def failure_error_def healthy_def sq.step_def same_frame_def)
qed

end
