(* ===== verification/Routing.thy ===== *)
theory Routing
  imports Recorder Messages
begin

text \<open>
  The session actor's durable steps and message admission: \<open>persist_with_events\<close> and the execution
  accounting of \<open>src/agent/mod.rs\<close>, the submission inbox, and the routing of submissions in
  \<open>src/agent/input.rs\<close>.  The actor holds the live checkpoint, the transcript items not yet saved and a
  handle to the recorder; every call into the recorder is awaited, so it is one step of the actor.
\<close>

subsection \<open>The session actor\<close>

record runner_config =
  cf_middleware :: "middleware list"
  cf_uuid_ok :: "string \<Rightarrow> bool"
  cf_event_len :: "event \<Rightarrow> nat res"
  cf_clock :: "int res"
  cf_instant :: nat

record runner =
  ru_state :: checkpoint
  ru_transcript_delta :: "json list"
  ru_recorder :: "store recorder"

abbreviation cf_store :: "runner_config \<Rightarrow> store checkpoint_store" where
  "cf_store cf \<equiv> sqlite_store (cf_uuid_ok cf)"

text \<open>
  An awaited call: a caller that must wait is served after the task has worked off its channel and the
  batch timer has fired; then the task runs until it has answered.
\<close>

definition recorder_settle :: "'s checkpoint_store \<Rightarrow> nat \<Rightarrow> 's recorder \<Rightarrow> 's recorder" where
  "recorder_settle cs now rd = recorder_wake cs (recorder_drain cs now rd) Timer"

definition awaited :: "'s checkpoint_store \<Rightarrow> nat \<Rightarrow> 's recorder \<times> nat res \<Rightarrow> 's recorder \<times> unit res" where
  "awaited cs now x = (case x of
      (rd, Inl e) \<Rightarrow> (rd, Inl e)
    | (rd, Inr i) \<Rightarrow> (recorder_drain cs now rd, await_reply (recorder_drain cs now rd) i))"

definition recorder_call ::
    "'s checkpoint_store \<Rightarrow> nat \<Rightarrow> 's recorder \<Rightarrow> ('s recorder \<Rightarrow> ('s recorder \<times> nat res) option) \<Rightarrow> 's recorder \<times> unit res" where
  "recorder_call cs now rd enter = (case enter rd of
      Some x \<Rightarrow> awaited cs now x
    | None \<Rightarrow> (case enter (recorder_settle cs now rd) of
          Some x \<Rightarrow> awaited cs now x
        | None \<Rightarrow> (recorder_settle cs now rd, Inl (stopped channel_closed))))"

definition send_event :: "runner_config \<Rightarrow> runner \<Rightarrow> event \<Rightarrow> runner \<times> unit res" where
  "send_event cf self e =
     (case recorder_call (cf_store cf) (cf_instant cf) (ru_recorder self)
             (\<lambda>rd. record_begin (cf_event_len cf) (cf_clock cf) rd e) of
        (rd, r) \<Rightarrow> (self\<lparr>ru_recorder := rd\<rparr>, r))"

definition turn_event :: "string \<Rightarrow> event_msg \<Rightarrow> event" where
  "turn_event submission_id msg = \<lparr>ev_submission_id = Some submission_id, ev_msg = msg\<rparr>"

definition emit :: "runner_config \<Rightarrow> runner \<Rightarrow> string \<Rightarrow> event_msg \<Rightarrow> runner \<times> unit res" where
  "emit cf self submission_id msg = send_event cf self \<lparr>ev_submission_id = Some submission_id, ev_msg = msg\<rparr>"

definition persist_with_events ::
    "runner_config \<Rightarrow> runner \<Rightarrow> event list \<Rightarrow> execution_record option \<Rightarrow> runner \<times> nat res" where
  "persist_with_events cf self events execution = (case u64_checked_add (ck_sequence (ru_state self)) 1 of
      None \<Rightarrow> (self, Inl (CheckpointErr ''checkpoint sequence overflow''))
    | Some sequence \<Rightarrow>
        (let state = (ru_state self)\<lparr>ck_sequence := sequence\<rparr>
         in case recorder_call (cf_store cf) (cf_instant cf) (ru_recorder self)
                   (\<lambda>rd. save_begin (cf_event_len cf) (cf_clock cf) rd state (ru_transcript_delta self) execution events) of
              (rd, Inl e) \<Rightarrow> (self\<lparr>ru_recorder := rd\<rparr>, Inl e)
            | (rd, Inr _) \<Rightarrow>
                (self\<lparr>ru_recorder := rd, ru_state := state, ru_transcript_delta := []\<rparr>, Inr sequence)))"

definition persist :: "runner_config \<Rightarrow> runner \<Rightarrow> execution_record option \<Rightarrow> runner \<times> nat res" where
  "persist cf self execution = persist_with_events cf self [] execution"

subsection \<open>Execution accounting\<close>

abbreviation set_state :: "runner \<Rightarrow> (checkpoint \<Rightarrow> checkpoint) \<Rightarrow> runner" where
  "set_state self f \<equiv> self\<lparr>ru_state := f (ru_state self)\<rparr>"

definition set_active :: "checkpoint \<Rightarrow> active_execution \<Rightarrow> checkpoint" where
  "set_active c a = c\<lparr>ck_active_execution := Some a\<rparr>"

definition record_model_call :: "runner \<Rightarrow> runner \<times> unit res" where
  "record_model_call self = (case ck_active_execution (ru_state self) of
      None \<Rightarrow> (self, Inl (CheckpointErr ''model called without an active execution''))
    | Some active \<Rightarrow> (case u64_checked_add (ax_model_calls active) 1 of
          None \<Rightarrow> (self, Inl (CheckpointErr ''execution model-call count overflow''))
        | Some calls \<Rightarrow> (set_state self (\<lambda>c. set_active c (active\<lparr>ax_model_calls := calls\<rparr>)), Inr ())))"

definition usage_overflow :: error where
  "usage_overflow = Provider (provider_error_new ''provider token usage exceeds the supported range'')"

text \<open>\<open>observer\<close> is the host's usage callback, when one is installed.\<close>

definition record_usage ::
    "(string \<Rightarrow> token_usage \<Rightarrow> unit res) option \<Rightarrow> runner \<Rightarrow> string \<Rightarrow> token_usage \<Rightarrow> runner \<times> unit res" where
  "record_usage observer self route usage =
     (case usage_checked_add (ck_total_usage (ru_state self)) usage of
        (_, None) \<Rightarrow> (self, Inl usage_overflow)
      | (total_usage, Some _) \<Rightarrow> (case ck_active_execution (ru_state self) of
            None \<Rightarrow> (self, Inl (CheckpointErr ''usage recorded without an active execution''))
          | Some active \<Rightarrow> (case usage_checked_add (ax_usage active) usage of
                (_, None) \<Rightarrow> (self, Inl usage_overflow)
              | (execution_usage, Some _) \<Rightarrow>
                  (case (case observer of None \<Rightarrow> Inr () | Some f \<Rightarrow> f route usage) of
                     Inl e \<Rightarrow> (self, Inl e)
                   | Inr _ \<Rightarrow> (set_state self (\<lambda>c. set_active (c\<lparr>ck_total_usage := total_usage\<rparr>)
                          (active\<lparr>ax_usage := execution_usage\<rparr>)), Inr ())))))"

definition record_tools :: "runner \<Rightarrow> nat \<Rightarrow> nat \<Rightarrow> runner \<times> unit res" where
  "record_tools self tool_calls failed_tool_calls = (case ck_active_execution (ru_state self) of
      None \<Rightarrow> (self, Inl (CheckpointErr ''tools recorded without an active execution''))
    | Some active \<Rightarrow> (case u64_checked_add (ax_tool_calls active) tool_calls of
          None \<Rightarrow> (self, Inl (CheckpointErr ''execution tool-call count overflow''))
        | Some calls \<Rightarrow> (case u64_checked_add (ax_failed_tool_calls active) failed_tool_calls of
              None \<Rightarrow> (self, Inl (CheckpointErr ''execution failed-tool count overflow''))
            | Some failed \<Rightarrow> (set_state self (\<lambda>c. set_active c
                  (active\<lparr>ax_tool_calls := calls, ax_failed_tool_calls := failed\<rparr>)), Inr ()))))"

text \<open>\<open>finish_and_persist_execution\<close> puts the active execution back when its record cannot be saved.\<close>

definition runner_finish_execution :: "runner_config \<Rightarrow> runner \<Rightarrow> execution_outcome \<Rightarrow> runner \<times> execution_record res" where
  "runner_finish_execution cf self outcome = (case cf_clock cf of
      Inl e \<Rightarrow> (self, Inl e)
    | Inr now \<Rightarrow> (case finish_execution (ru_state self) outcome now of
          (state, r) \<Rightarrow> (self\<lparr>ru_state := state\<rparr>, r)))"

definition finish_and_persist_execution ::
    "runner_config \<Rightarrow> runner \<Rightarrow> execution_outcome \<Rightarrow> event list \<Rightarrow> runner \<times> nat res" where
  "finish_and_persist_execution cf self outcome events =
     (let active_execution = ck_active_execution (ru_state self);
          execution_stats = ck_execution_stats (ru_state self)
      in case runner_finish_execution cf self outcome of
           (self', Inl e) \<Rightarrow> (self', Inl e)
         | (self', Inr execution) \<Rightarrow> (case persist_with_events cf self' events (Some execution) of
               (self'', Inr sequence) \<Rightarrow> (self'', Inr sequence)
             | (self'', Inl e) \<Rightarrow> (set_state self'' (\<lambda>c. c\<lparr>ck_active_execution := active_execution,
                    ck_execution_stats := execution_stats\<rparr>), Inl e)))"

definition push_context :: "runner \<Rightarrow> json \<Rightarrow> runner" where
  "push_context self item = (set_state self (\<lambda>c. c\<lparr>ck_context := ck_context c @ [item]\<rparr>))
     \<lparr>ru_transcript_delta := ru_transcript_delta self @ [item]\<rparr>"

definition extend_context :: "runner \<Rightarrow> json list \<Rightarrow> runner" where
  "extend_context self items = foldl (\<lambda>self item. case accept (ck_delivered_once (ru_state self)) item of
     (receipts, accepted) \<Rightarrow>
       (let self' = set_state self (\<lambda>c. c\<lparr>ck_delivered_once := receipts\<rparr>)
        in if accepted then push_context self' item else self')) self items"

subsection \<open>The submission inbox\<close>

record sequenced_submission =
  sq_sequence :: nat
  sq_submission :: submission
  sq_admission :: bool

record submission_inbox =
  ib_queue :: "sequenced_submission list"
  ib_last_sent :: nat
  ib_last :: nat
  ib_capacity :: nat
  ib_closed :: bool

definition enqueue_submission ::
    "submission_inbox \<Rightarrow> submission \<Rightarrow> bool \<Rightarrow> submission_inbox \<times> unit res" where
  "enqueue_submission ib submission admission = (case u64_checked_add (ib_last_sent ib) 1 of
      None \<Rightarrow> (ib, Inl (Busy ''agent submission sequence exhausted''))
    | Some sequence \<Rightarrow>
        (if ib_closed ib then (ib, Inl (Stopped ''agent submission channel closed''))
         else if ib_capacity ib \<le> length (ib_queue ib) then (ib, Inl (Busy ''agent submission queue is full''))
         else (ib\<lparr>ib_queue := ib_queue ib @ [\<lparr>sq_sequence = sequence, sq_submission = submission, sq_admission = admission\<rparr>],
                 ib_last_sent := sequence\<rparr>, Inr ())))"

definition send_with_admission ::
    "(submission \<Rightarrow> unit res) \<Rightarrow> submission_inbox \<Rightarrow> submission \<Rightarrow> submission_inbox \<times> unit res" where
  "send_with_admission validate ib submission = (case validate submission of
      Inl e \<Rightarrow> (ib, Inl e)
    | Inr _ \<Rightarrow> (case sub_op submission of
          Message _ \<Rightarrow> enqueue_submission ib submission True
        | _ \<Rightarrow> (ib, Inl (Config ''admission acknowledgments require a message''))))"

definition inbox_recv :: "submission_inbox \<Rightarrow> (submission_inbox \<times> submission \<times> bool) option" where
  "inbox_recv ib = (case ib_queue ib of
      [] \<Rightarrow> None
    | q # qs \<Rightarrow> Some (ib\<lparr>ib_queue := qs, ib_last := sq_sequence q\<rparr>, sq_submission q, sq_admission q))"

subsection \<open>Routing submissions\<close>

datatype message_acceptance = AcAccepted | AcAlreadyAccepted

datatype active_route =
    RtContinue bool
  | RtInterrupted string
  | RtApproval string review_decision

record active_change =
  ch_submission_id :: string
  ch_pending_messages :: "queued_message list"
  ch_events :: "event_msg list"
  ch_input_changed :: bool

datatype uncommitted_route =
    UrContinue
  | UrRejected string
  | UrChanged active_change
  | UrInterrupted string
  | UrApproval string review_decision

datatype admission_outcome = AoAccepted | AoRejected string

fun send_messages :: "runner_config \<Rightarrow> runner \<Rightarrow> string \<Rightarrow> event_msg list \<Rightarrow> runner \<times> unit res" where
  "send_messages cf self submission_id [] = (self, Inr ())"
| "send_messages cf self submission_id (msg # msgs) = (case send_event cf self (turn_event submission_id msg) of
      (self', Inl e) \<Rightarrow> (self', Inl e)
    | (self', Inr _) \<Rightarrow> send_messages cf self' submission_id msgs)"

definition warn :: "runner_config \<Rightarrow> runner \<Rightarrow> string \<Rightarrow> string \<Rightarrow> runner \<times> uncommitted_route res" where
  "warn cf self i message = (case send_event cf self \<lparr>ev_submission_id = Some i, ev_msg = Warning message\<rparr> of
      (self', r) \<Rightarrow> (self', res_bind r (\<lambda>_. Inr UrContinue)))"

definition route_submission_result ::
    "runner_config \<Rightarrow> runner \<Rightarrow> string \<Rightarrow> submission_result \<Rightarrow> queued_message list \<Rightarrow> event_msg list
      \<Rightarrow> runner \<times> uncommitted_route res" where
  "route_submission_result cf self submission_id result pending_messages messages = (case result of
      Accepted input_changed \<Rightarrow> (self, Inr (UrChanged \<lparr>ch_submission_id = submission_id,
         ch_pending_messages = pending_messages, ch_events = messages, ch_input_changed = input_changed\<rparr>))
    | Handled \<Rightarrow> (case send_messages cf self submission_id messages of
          (self', r) \<Rightarrow> (self', res_bind r (\<lambda>_. Inr UrContinue)))
    | Rejected message \<Rightarrow> (case send_messages cf self submission_id messages of
          (self', Inl e) \<Rightarrow> (self', Inl e)
        | (self', Inr _) \<Rightarrow> (case send_event cf self' (turn_event submission_id (SubmissionRejected message)) of
              (self'', r) \<Rightarrow> (self'', res_bind r (\<lambda>_. Inr (UrRejected message))))))"

definition session_database :: "runner \<Rightarrow> session_db option" where
  "session_database self = map_option sr_db (rd_store (ru_recorder self) (ck_session_id (ru_state self)))"

definition route_message ::
    "runner_config \<Rightarrow> runner \<Rightarrow> string \<Rightarrow> message_submission \<Rightarrow> string option \<Rightarrow> runner \<times> uncommitted_route res" where
  "route_message cf self submission_id message active_turn_id =
     (case stack_route_message (cf_middleware cf) \<lparr>rc_database = session_database self, rc_submission_id = submission_id,
             rc_message = message, rc_active_turn_id = active_turn_id, rc_scope = None,
             rc_items = ck_pending_messages (ru_state self), rc_events = []\<rparr> of
        (_, Inl e) \<Rightarrow> (self, Inl e)
      | (ctx, Inr result) \<Rightarrow> route_submission_result cf self submission_id result (rc_items ctx) (rc_events ctx))"

definition persist_submission_change :: "runner_config \<Rightarrow> runner \<Rightarrow> active_change \<Rightarrow> runner \<times> unit res" where
  "persist_submission_change cf self change =
     (let previous = ck_pending_messages (ru_state self)
      in case persist_with_events cf (set_state self (\<lambda>c. c\<lparr>ck_pending_messages := ch_pending_messages change\<rparr>))
                (map (turn_event (ch_submission_id change)) (ch_events change)) None of
           (self', Inr _) \<Rightarrow> (self', Inr ())
         | (self', Inl e) \<Rightarrow> (set_state self' (\<lambda>c. c\<lparr>ck_pending_messages := previous\<rparr>), Inl e))"

definition without_admission :: string where
  "without_admission = ''message was handled without durable admission''"

definition route_idle_message ::
    "runner_config \<Rightarrow> runner \<Rightarrow> string \<Rightarrow> message_submission \<Rightarrow> runner \<times> admission_outcome res" where
  "route_idle_message cf self submission_id message = (case route_message cf self submission_id message None of
      (self', Inl e) \<Rightarrow> (self', Inl e)
    | (self', Inr (UrChanged change)) \<Rightarrow> (case persist_submission_change cf self' change of
          (self'', r) \<Rightarrow> (self'', res_bind r (\<lambda>_. Inr AoAccepted)))
    | (self', Inr (UrRejected m)) \<Rightarrow> (self', Inr (AoRejected m))
    | (self', Inr _) \<Rightarrow> (self', Inr (AoRejected without_admission)))"

text \<open>\<open>finish_admission\<close>: the routed value and the answer on the admission handle, if there is one.\<close>

definition finish_admission ::
    "bool \<Rightarrow> ('a \<times> admission_outcome) res \<Rightarrow> 'a res \<times> message_acceptance res option" where
  "finish_admission admission result =
     (if \<not> admission then (res_bind result (\<lambda>(value, _). Inr value), None)
      else (case result of
          Inr (value, AoAccepted) \<Rightarrow> (Inr value, Some (Inr AcAccepted))
        | Inr (value, AoRejected message) \<Rightarrow> (Inr value, Some (Inl (Config message)))
        | Inl e \<Rightarrow> (Inl e, Some (Inl (CheckpointErr (error_display e))))))"

definition runner_message_accepted :: "runner_config \<Rightarrow> runner \<Rightarrow> string \<Rightarrow> bool" where
  "runner_message_accepted cf self submission_id =
     cs_message_accepted (cf_store cf) (rd_store (ru_recorder self)) (ck_session_id (ru_state self)) submission_id"

definition admit_idle_message ::
    "runner_config \<Rightarrow> runner \<Rightarrow> string \<Rightarrow> message_submission \<Rightarrow> bool
      \<Rightarrow> runner \<times> unit res \<times> message_acceptance res option" where
  "admit_idle_message cf self submission_id message admission =
     (if runner_message_accepted cf self submission_id
      then (self, Inr (), if admission then Some (Inr AcAlreadyAccepted) else None)
      else (case route_idle_message cf self submission_id message of
          (self', result) \<Rightarrow> (self', finish_admission admission (res_bind result (\<lambda>outcome. Inr ((), outcome))))))"

definition route_active ::
    "runner_config \<Rightarrow> runner \<Rightarrow> submission \<Rightarrow> string \<Rightarrow> string option \<Rightarrow> runner \<times> uncommitted_route res" where
  "route_active cf self submission turn_id expected_approval =
     (let i = sub_id submission in case sub_op submission of
        Message message \<Rightarrow> route_message cf self i message (Some turn_id)
      | Interrupt target \<Rightarrow> (if target = turn_id then (self, Inr (UrInterrupted i))
          else warn cf self i ''interrupt targeted a stale turn'')
      | ExecApproval approval_id decision \<Rightarrow>
          (if expected_approval = Some approval_id then (self, Inr (UrApproval i decision))
           else warn cf self i ''approval response targeted a stale request'')
      | CapabilityCommand capability command arguments input target \<Rightarrow>
          (case stack_active_command (cf_middleware cf) capability \<lparr>cm_submission_id = i, cm_active_turn_id = turn_id,
                  cm_command = command, cm_arguments = arguments, cm_input = input, cm_target = target, cm_scope = None,
                  cm_items = ck_pending_messages (ru_state self), cm_events = []\<rparr> of
             (_, Inl e) \<Rightarrow> (self, Inl e)
           | (_, Inr None) \<Rightarrow> warn cf self i ''command is unavailable during an active turn''
           | (ctx, Inr (Some result)) \<Rightarrow> route_submission_result cf self i result (cm_items ctx) (cm_events ctx))
      | SetModel _ \<Rightarrow> warn cf self i ''operation is unavailable during an active turn''
      | ResumeSession _ \<Rightarrow> warn cf self i ''operation is unavailable during an active turn'')"

definition route_active_submission_inner ::
    "runner_config \<Rightarrow> runner \<Rightarrow> submission \<Rightarrow> string \<Rightarrow> string option
      \<Rightarrow> runner \<times> (active_route \<times> admission_outcome) res" where
  "route_active_submission_inner cf self submission turn_id expected_approval =
     (case route_active cf self submission turn_id expected_approval of
        (self', Inl e) \<Rightarrow> (self', Inl e)
      | (self', Inr route) \<Rightarrow> (case route of
            UrChanged change \<Rightarrow> (case persist_submission_change cf self' change of
                (self'', r) \<Rightarrow> (self'', res_bind r (\<lambda>_. Inr (RtContinue (ch_input_changed change), AoAccepted))))
          | UrContinue \<Rightarrow> (self', Inr (RtContinue False, AoRejected without_admission))
          | UrRejected message \<Rightarrow> (self', Inr (RtContinue False, AoRejected message))
          | UrInterrupted i \<Rightarrow> (self', Inr (RtInterrupted i, AoRejected ''operation is not a message''))
          | UrApproval i decision \<Rightarrow> (self', Inr (RtApproval i decision, AoRejected ''operation is not a message''))))"

definition is_message :: "op \<Rightarrow> bool" where
  "is_message p = (case p of Message _ \<Rightarrow> True | _ \<Rightarrow> False)"

definition route_active_submission ::
    "runner_config \<Rightarrow> runner \<Rightarrow> submission \<times> bool \<Rightarrow> string \<Rightarrow> string option
      \<Rightarrow> runner \<times> active_route res \<times> message_acceptance res option" where
  "route_active_submission cf self received turn_id expected_approval =
     (case received of (submission, admission) \<Rightarrow>
        (if is_message (sub_op submission) \<and> runner_message_accepted cf self (sub_id submission)
         then (self, Inr (RtContinue False), if admission then Some (Inr AcAlreadyAccepted) else None)
         else (case route_active_submission_inner cf self submission turn_id expected_approval of
             (self', result) \<Rightarrow> (self', finish_admission admission result))))"

text \<open>
  \<open>drain_submissions\<close> routes what was sent before the cutoff.  Sequence numbers are given out under the
  lock that sends, so whatever the cutoff counts is already in the channel; an empty channel before the
  cutoff is a closed one.
\<close>

record submission_drain =
  dr_input_changed :: bool
  dr_interrupted :: "string option"

fun drain_loop ::
    "runner_config \<Rightarrow> string \<Rightarrow> nat \<Rightarrow> runner \<Rightarrow> bool \<Rightarrow> nat \<Rightarrow> sequenced_submission list
      \<Rightarrow> runner \<times> nat \<times> sequenced_submission list \<times> submission_drain res" where
  "drain_loop cf turn_id cutoff self input_changed seen [] =
     (self, seen, [], if seen < cutoff
        then Inl (Stopped ''agent submission channel closed before terminal cutoff'')
        else Inr \<lparr>dr_input_changed = input_changed, dr_interrupted = None\<rparr>)"
| "drain_loop cf turn_id cutoff self input_changed seen (q # qs) =
     (if cutoff \<le> seen then (self, seen, q # qs, Inr \<lparr>dr_input_changed = input_changed, dr_interrupted = None\<rparr>)
      else (case route_active_submission cf self (sq_submission q, sq_admission q) turn_id None of
          (self', Inl e, _) \<Rightarrow> (self', sq_sequence q, qs, Inl e)
        | (self', Inr (RtInterrupted i), _) \<Rightarrow>
            (self', sq_sequence q, qs, Inr \<lparr>dr_input_changed = input_changed, dr_interrupted = Some i\<rparr>)
        | (self', Inr (RtContinue changed), _) \<Rightarrow>
            drain_loop cf turn_id cutoff self' (input_changed \<or> changed) (sq_sequence q) qs
        | (self', Inr (RtApproval _ _), _) \<Rightarrow>
            drain_loop cf turn_id cutoff self' input_changed (sq_sequence q) qs))"

definition drain_submissions ::
    "runner_config \<Rightarrow> runner \<Rightarrow> submission_inbox \<Rightarrow> string \<Rightarrow> runner \<times> submission_inbox \<times> submission_drain res" where
  "drain_submissions cf self ib turn_id =
     (case drain_loop cf turn_id (ib_last_sent ib) self False (ib_last ib) (ib_queue ib) of
        (self', seen, queue, r) \<Rightarrow> (self', ib\<lparr>ib_last := seen, ib_queue := queue\<rparr>, r))"

subsection \<open>Awaited calls are served\<close>

text \<open>
  Reply identifiers are given out in order; nothing answered or queued has one still to be given.  The
  pending batch has already been answered.
\<close>

definition command_reply :: "recorder_command \<Rightarrow> nat option" where
  "command_reply c = (case c of Append a \<Rightarrow> ap_result a | Save sv \<Rightarrow> Some (sv_result sv) | Flush i \<Rightarrow> Some i)"

definition reply_ids :: "'s recorder \<Rightarrow> nat set" where
  "reply_ids rd = fst ` set (rd_replies rd)"

definition queued_ids :: "'s recorder \<Rightarrow> nat set" where
  "queued_ids rd = {i. \<exists>c \<in> set (rd_commands rd). command_reply c = Some i}"

definition quiet :: "stream_batch option \<Rightarrow> bool" where
  "quiet p = (case p of None \<Rightarrow> True | Some b \<Rightarrow> ap_result (sb_append b) = None)"

definition ids_inv :: "'s recorder \<Rightarrow> bool" where
  "ids_inv rd \<longleftrightarrow> (\<forall>i \<in> reply_ids rd \<union> queued_ids rd. i < rd_next_reply rd) \<and> quiet (rd_pending rd)"

lemma quiet_simps [simp]: "quiet None" "quiet (Some b) \<longleftrightarrow> ap_result (sb_append b) = None"
  by (simp_all add: quiet_def)

lemma reply_ids_simps [simp]:
  "reply_ids (reply rd i r) = reply_ids rd \<union> set_option i" "reply_ids (release rd n) = reply_ids rd"
  "reply_ids (recorder_stop rd) = reply_ids rd" "reply_ids (rd\<lparr>rd_store := s\<rparr>) = reply_ids rd"
  "reply_ids (rd\<lparr>rd_pending := p\<rparr>) = reply_ids rd" "reply_ids (rd\<lparr>rd_terminal_error := t\<rparr>) = reply_ids rd"
  "reply_ids (rd\<lparr>rd_last_stream := l\<rparr>) = reply_ids rd" "reply_ids (rd\<lparr>rd_commands := cs\<rparr>) = reply_ids rd"
  "rd_next_reply (reply rd i r) = rd_next_reply rd"
  "rd_next_reply (release rd n) = rd_next_reply rd" "rd_next_reply (recorder_stop rd) = rd_next_reply rd"
  by (simp_all add: reply_ids_def reply_def release_def recorder_stop_def split: option.split)

text \<open>How far a step of the task may answer: only the identifiers in \<open>ids\<close>.\<close>

definition answers :: "nat set \<Rightarrow> 's recorder \<Rightarrow> 's recorder \<Rightarrow> bool" where
  "answers ids rd rd' \<longleftrightarrow> reply_ids rd' \<subseteq> reply_ids rd \<union> ids \<and> rd_next_reply rd' = rd_next_reply rd
     \<and> (quiet (rd_pending rd) \<longrightarrow> quiet (rd_pending rd'))"

lemma answers_refl: "answers {} rd rd"
  by (simp add: answers_def)

lemma answers_trans: "answers A rd rd1 \<Longrightarrow> answers B rd1 rd2 \<Longrightarrow> A \<union> B \<subseteq> C \<Longrightarrow> answers C rd rd2"
  by (fastforce simp: answers_def)

lemma answers_update [simp]:
  "answers A rd (rd'\<lparr>rd_terminal_error := t\<rparr>) = answers A rd rd'"
  "answers A rd (rd'\<lparr>rd_last_stream := l\<rparr>) = answers A rd rd'"
  "answers A (rd\<lparr>rd_last_stream := l\<rparr>) rd' = answers A rd rd'"
  "answers A (rd\<lparr>rd_commands := cs\<rparr>) rd' = answers A rd rd'"
  by (simp_all add: answers_def)

lemma answers_stop: "answers A rd rd' \<Longrightarrow> answers A rd (recorder_stop rd')"
  by (simp add: answers_def)

lemma answers_reply: "answers A rd rd' \<Longrightarrow> A \<union> set_option i \<subseteq> B \<Longrightarrow> answers B rd (reply rd' i r)"
  by (fastforce simp: answers_def)

lemma publish_answers: "publish rd r = (rd', p) \<Longrightarrow> reply_ids rd' = reply_ids rd \<and> rd_next_reply rd' = rd_next_reply rd
    \<and> rd_pending rd' = rd_pending rd"
  by (auto simp: publish_def reply_ids_def split: if_splits)

lemma publish_all_answers: "publish_all rd rs = (rd', p) \<Longrightarrow> reply_ids rd' = reply_ids rd \<and> rd_next_reply rd' = rd_next_reply rd
    \<and> rd_pending rd' = rd_pending rd"
proof (induction rs arbitrary: rd)
  case (Cons r rs)
  obtain rd1 p1 where p1: "publish rd r = (rd1, p1)" by fastforce
  with Cons.prems Cons.IH [of rd1] publish_answers [OF p1] show ?case by (cases p1) auto
qed simp

lemma record_append_answers: "record_append cs rd a = (rd', r) \<Longrightarrow> answers (set_option (ap_result a)) rd rd'"
  by (auto simp: record_append_def answers_def dest!: publish_answers split: prod.splits sum.splits)

lemma record_save_answers: "record_save cs rd c = (rd', b) \<Longrightarrow> answers {sv_result c} rd rd'"
  by (auto simp: record_save_def answers_def dest!: publish_all_answers split: prod.splits sum.splits)

lemma reject_answers: "reject rd c failure = (rd', b) \<Longrightarrow> answers (set_option (command_reply c)) rd rd'"
  by (auto simp: reject_def answers_def command_reply_def split: recorder_command.splits)

lemma flush_answers:
  assumes "flush_stream cs rd = (rd', r)" and "quiet (rd_pending rd)"
  shows "answers {} rd rd'"
proof (cases "rd_pending rd")
  case (Some b)
  then have "record_append cs (rd\<lparr>rd_pending := None\<rparr>) (sb_append b) = (rd', r)" "ap_result (sb_append b) = None"
    using assms by (simp_all add: flush_stream_def)
  from record_append_answers [OF this(1)] this(2) show ?thesis by (simp add: answers_def)
qed (use assms in \<open>auto simp: flush_stream_def answers_def\<close>)

lemma handle_append_answers:
  assumes q: "quiet (rd_pending rd)"
  shows "answers (set_option (ap_result a)) rd (handle_append cs now rd a)"
proof (cases "Option.bind (rd_pending rd) (\<lambda>b. merge b a)")
  case (Some b)
  then obtain b0 where b0: "rd_pending rd = Some b0" "merge b0 a = Some b" by (auto simp: bind_eq_Some_conv)
  with q merge_keeps [OF b0(2)] Some show ?thesis by (simp add: handle_append_def answers_def)
next
  case None
  obtain rd1 r1 where fl: "flush_stream cs rd = (rd1, r1)" by fastforce
  note f = flush_answers [OF fl q]
  show ?thesis
  proof (cases r1)
    case (Inl failure)
    obtain rd2 b where rej: "reject rd1 (Append a) failure = (rd2, b)" by fastforce
    from answers_trans [OF f reject_answers [OF rej]] show ?thesis
      using None fl Inl rej by (simp add: handle_append_def command_reply_def)
  next
    case (Inr u)
    let ?k = "stream_key_of (tm_event (ap_event a))"
    obtain rd2 r2 where app: "record_append cs (rd1\<lparr>rd_last_stream := ?k\<rparr>) a = (rd2, r2)" by fastforce
    have "answers (set_option (ap_result a)) rd rd2"
      using answers_trans [OF f, of "set_option (ap_result a)" rd2] record_append_answers [OF app] by simp
    moreover have "answers (set_option (ap_result a)) rd (reply (rd1\<lparr>rd_pending := Some \<lparr>sb_append = a\<lparr>ap_result := None\<rparr>,
       sb_deadline = d\<rparr>\<rparr>) (ap_result a) x)" for d x
      using f by (auto simp: answers_def)
    ultimately show ?thesis
      using None fl Inr app by (simp add: handle_append_def Let_def answers_stop)
  qed
qed

lemma handle_command_answers:
  assumes q: "quiet (rd_pending rd)"
  shows "answers (set_option (command_reply c)) rd (handle_command cs now rd c)"
proof (cases "rd_terminal_error rd")
  case (Some failure)
  obtain rd1 b where rej: "reject rd c failure = (rd1, b)" by fastforce
  with reject_answers [OF rej] Some show ?thesis by (simp add: handle_command_def answers_stop)
next
  case None
  obtain rd1 r1 where fl: "flush_stream cs rd = (rd1, r1)" by fastforce
  note f = flush_answers [OF fl q]
  show ?thesis
  proof (cases c)
    case (Append a)
    then show ?thesis using None handle_append_answers [OF q] by (simp add: handle_command_def command_reply_def)
  next
    case (Save sv)
    obtain rd3 ok where sv: "record_save cs (rd1\<lparr>rd_last_stream := None\<rparr>) sv = (rd3, ok)" by fastforce
    have "answers {sv_result sv} rd rd3"
      using answers_trans [OF f, of "{sv_result sv}" rd3] record_save_answers [OF sv] by simp
    then show ?thesis
      using None fl sv Save answers_trans [OF f reject_answers [of rd1 c]]
      by (auto simp: handle_command_def command_reply_def answers_stop reject_def split: sum.split)
  next
    case (Flush i)
    have "answers {i} rd (reply (rd1\<lparr>rd_last_stream := None\<rparr>) (Some i) x)" for x
      using f by (auto simp: answers_def)
    moreover have "answers {i} rd (reply rd1 (Some i) x)" for x
      using f by (auto simp: answers_def)
    ultimately show ?thesis
      using None fl Flush by (auto simp: handle_command_def command_reply_def answers_stop reject_def split: sum.split)
  qed
qed

lemma wake_answers:
  assumes q: "quiet (rd_pending rd)"
  shows "answers (case (w, rd_commands rd) of (Receive _, c # _) \<Rightarrow> set_option (command_reply c) | _ \<Rightarrow> {}) rd (recorder_wake cs rd w)"
proof (cases "\<exists>now c commands. w = Receive now \<and> rd_commands rd = c # commands \<and> rd_running rd")
  case True
  then obtain now c commands where c: "w = Receive now" "rd_commands rd = c # commands" "rd_running rd" by blast
  with handle_command_answers [of "rd\<lparr>rd_commands := commands\<rparr>" c cs now] q show ?thesis by (simp add: recorder_wake_def)
next
  case False
  obtain rd1 r1 where fl: "flush_stream cs rd = (rd1, r1)" by fastforce
  note f = flush_answers [OF fl q]
  have refl: "answers A rd rd" for A by (simp add: answers_def)
  show ?thesis
    using False fl f refl by (cases w) (auto simp: recorder_wake_def answers_stop split: list.split)
qed

text \<open>The task stops, or leaves the rest of the channel to the next turn of its loop.\<close>

definition channel :: "'s recorder \<Rightarrow> 's recorder \<Rightarrow> bool" where
  "channel rd rd' \<longleftrightarrow> rd_commands rd' = rd_commands rd \<and> rd_running rd' = rd_running rd"

definition channel_or_stop :: "'s recorder \<Rightarrow> 's recorder \<Rightarrow> bool" where
  "channel_or_stop rd rd' \<longleftrightarrow> channel rd rd' \<or> (rd_commands rd' = [] \<and> \<not> rd_running rd')"

lemma channel_simps [simp]:
  "channel rd rd" "channel rd (rd'\<lparr>rd_terminal_error := t\<rparr>) = channel rd rd'"
  "channel rd (rd'\<lparr>rd_last_stream := l\<rparr>) = channel rd rd'" "channel (rd\<lparr>rd_last_stream := l\<rparr>) rd' = channel rd rd'"
  "channel (rd\<lparr>rd_pending := p\<rparr>) rd' = channel rd rd'" "channel rd (rd'\<lparr>rd_pending := p\<rparr>) = channel rd rd'"
  "channel (rd\<lparr>rd_store := s\<rparr>) rd' = channel rd rd'" "channel rd (rd'\<lparr>rd_store := s\<rparr>) = channel rd rd'"
  "channel rd (reply rd' i r) = channel rd rd'" "channel rd (release rd' n) = channel rd rd'"
  "channel_or_stop rd (recorder_stop rd')"
  by (simp_all add: channel_def channel_or_stop_def)

lemma channel_trans: "channel rd rd1 \<Longrightarrow> channel rd1 rd2 \<Longrightarrow> channel rd rd2"
  by (simp add: channel_def)

lemma channel_or_stopI: "channel rd rd' \<Longrightarrow> channel_or_stop rd rd'"
  by (simp add: channel_or_stop_def)

lemma publish_channel: "publish rd r = (rd', p) \<Longrightarrow> channel rd rd'" "publish_all rd rs = (rd', p) \<Longrightarrow> channel rd rd'"
  using publish_frame [of rd r rd' p] publish_all_frame [of rd rs rd' p] by (simp_all add: channel_def same_frame_def)

lemma record_append_channel: "record_append cs rd a = (rd', r) \<Longrightarrow> channel rd rd'"
  by (auto simp: record_append_def dest!: publish_channel(1) split: prod.splits sum.splits)

lemma record_save_channel: "record_save cs rd c = (rd', b) \<Longrightarrow> channel rd rd'"
  by (auto simp: record_save_def dest!: publish_channel(2) split: prod.splits sum.splits)

lemma flush_channel: "flush_stream cs rd = (rd', r) \<Longrightarrow> channel rd rd'"
  by (auto simp: flush_stream_def dest!: record_append_channel split: option.splits)

lemma reject_channel: "reject rd c failure = (rd', b) \<Longrightarrow> channel rd rd'"
  by (auto simp: reject_def split: recorder_command.splits)

lemma handle_append_channel: "channel_or_stop rd (handle_append cs now rd a)"
proof (cases "Option.bind (rd_pending rd) (\<lambda>b. merge b a)")
  case None
  obtain rd1 r1 where fl: "flush_stream cs rd = (rd1, r1)" by fastforce
  obtain rd2 r2 where app: "record_append cs (rd1\<lparr>rd_last_stream := stream_key_of (tm_event (ap_event a))\<rparr>) a = (rd2, r2)" by fastforce
  have "channel rd rd2" using flush_channel [OF fl] record_append_channel [OF app] channel_trans by simp
  then show ?thesis
    using None fl app flush_channel [OF fl]
    by (auto simp: handle_append_def Let_def reject_def intro!: channel_or_stopI split: sum.split)
qed (simp add: handle_append_def channel_or_stopI)

lemma handle_command_channel: "channel_or_stop rd (handle_command cs now rd c)"
proof (cases "rd_terminal_error rd")
  case (Some failure)
  obtain rd1 b where rej: "reject rd c failure = (rd1, b)" by fastforce
  with reject_channel [OF rej] Some show ?thesis by (simp add: handle_command_def channel_or_stopI)
next
  case None
  obtain rd1 r1 where fl: "flush_stream cs rd = (rd1, r1)" by fastforce
  have sv: "channel rd rd2" if "record_save cs (rd1\<lparr>rd_last_stream := None\<rparr>) d = (rd2, b)" for d rd2 b
    using flush_channel [OF fl] record_save_channel [OF that] channel_trans by simp
  show ?thesis
  proof (cases "\<exists>a. c = Append a")
    case True
    then show ?thesis using None handle_append_channel [of rd cs now] by (auto simp: handle_command_def)
  next
    case False
    then show ?thesis using None fl flush_channel [OF fl] sv
      by (cases c) (auto simp: handle_command_def reject_def intro!: channel_or_stopI split: sum.split prod.split)
  qed
qed

lemma receive_channel:
  "rd_running rd \<Longrightarrow> rd_commands rd = c # commands \<Longrightarrow>
     (let rd' = recorder_wake cs rd (Receive now) in (rd_running rd' \<and> rd_commands rd' = commands)
        \<or> (\<not> rd_running rd' \<and> rd_commands rd' = []))"
  using handle_command_channel [of "rd\<lparr>rd_commands := commands\<rparr>" cs now c]
  by (auto simp: recorder_wake_def channel_or_stop_def channel_def Let_def)

lemma wake_stopped: "\<not> rd_running rd \<Longrightarrow> recorder_wake cs rd w = rd"
  by (simp add: recorder_wake_def)

lemma receive_many:
  assumes "rd_running rd" "rd_commands rd = cs1 @ cs2"
  shows "let rd' = foldl (recorder_wake cs) rd (replicate (length cs1) (Receive now)) in
     (rd_running rd' \<and> rd_commands rd' = cs2) \<or> (\<not> rd_running rd' \<and> rd_commands rd' = [])"
  using assms
proof (induction cs1 arbitrary: rd)
  case (Cons c cs1)
  let ?rd = "recorder_wake cs rd (Receive now)"
  have "(rd_running ?rd \<and> rd_commands ?rd = cs1 @ cs2) \<or> (\<not> rd_running ?rd \<and> rd_commands ?rd = [])"
    using receive_channel [of rd c "cs1 @ cs2" cs now] Cons.prems by (simp add: Let_def)
  moreover have "foldl (recorder_wake cs) r ws = r" if "\<not> rd_running r" for r ws
    using that by (induction ws) (simp_all add: wake_stopped)
  ultimately show ?case using Cons.IH [of ?rd] by (auto simp: Let_def)
qed simp

definition first_ids :: "nat \<Rightarrow> 's recorder \<Rightarrow> nat set" where
  "first_ids n rd = {i. \<exists>c \<in> set (take n (rd_commands rd)). command_reply c = Some i}"

lemma receive_first_ids: "first_ids n (recorder_wake cs rd (Receive now)) \<subseteq> first_ids (Suc n) rd"
proof (cases "rd_running rd \<and> rd_commands rd \<noteq> []")
  case True
  then obtain c commands where "rd_running rd" "rd_commands rd = c # commands" by (cases "rd_commands rd") auto
  with receive_channel [OF this, of cs now] show ?thesis by (auto simp: Let_def first_ids_def)
next
  case False
  then show ?thesis using set_take_subset_set_take [of n "Suc n" "rd_commands rd"]
    by (auto simp: recorder_wake_def first_ids_def split: list.split)
qed

lemma receive_many_answers:
  "quiet (rd_pending rd) \<Longrightarrow> answers (first_ids n rd) rd (foldl (recorder_wake cs) rd (replicate n (Receive now)))"
proof (induction n arbitrary: rd)
  case (Suc n)
  let ?rd = "recorder_wake cs rd (Receive now)"
  have one: "answers (first_ids (Suc n) rd) rd ?rd"
    using wake_answers [OF Suc.prems, of "Receive now" cs]
    by (rule answers_trans [OF answers_refl]) (auto simp: first_ids_def split: list.split)
  then have "quiet (rd_pending ?rd)" using Suc.prems by (simp add: answers_def)
  from answers_trans [OF one Suc.IH [OF this], of "first_ids (Suc n) rd"] receive_first_ids [of n cs rd now]
  show ?case by simp
qed (simp add: answers_def)

text \<open>Working off a channel whose last command is \<open>c\<close>.\<close>

lemma drain_snoc:
  assumes "rd_commands rd = commands @ [c]"
  shows "recorder_drain cs now rd
     = recorder_wake cs (foldl (recorder_wake cs) rd (replicate (length commands) (Receive now))) (Receive now)"
  using assms by (simp add: recorder_drain_def replicate_append_same [symmetric])

lemma await_replyD: "await_reply rd i = Inr () \<Longrightarrow> (i, Inr ()) \<in> set (rd_replies rd)"
  by (auto simp: await_reply_def split: option.splits dest: map_of_SomeD)

lemma reply_idsI: "(i, r) \<in> set (rd_replies rd) \<Longrightarrow> i \<in> reply_ids rd"
  by (force simp: reply_ids_def)

lemma record_save_reply:
  assumes "record_save cs rd c = (rd', ok)" and "sv_result c \<notin> reply_ids rd" and "(sv_result c, Inr ()) \<in> set (rd_replies rd')"
  shows "\<exists>s rs. cs_save_with_events cs s (sv_checkpoint c) (sv_transcript_delta c) (sv_execution c) (sv_events c)
    = (rd_store rd', Inr rs)"
proof -
  obtain s q where sv: "cs_save_with_events cs (rd_store rd) (sv_checkpoint c) (sv_transcript_delta c) (sv_execution c)
      (sv_events c) = (s, q)" by fastforce
  show ?thesis
  proof (cases q)
    case (Inl e)
    with sv assms(1) have "rd' = release (reply (rd\<lparr>rd_store := s\<rparr>) (Some (sv_result c)) (Inl e)) (sv_permits c)"
      by (simp add: record_save_def)
    with assms(2,3) show ?thesis by (auto simp: reply_def release_def dest: reply_idsI)
  next
    case (Inr rs)
    obtain rd1 p where pub: "publish_all (rd\<lparr>rd_store := s\<rparr>) rs = (rd1, p)" by fastforce
    with sv Inr assms(1) have "rd_store rd' = s" using publish_all_frame [OF pub] by (auto simp: record_save_def)
    with sv Inr show ?thesis by auto
  qed
qed

lemma save_command_reply:
  assumes run: "rd_running rd" and save: "rd_commands rd = [Save c]" and new: "sv_result c \<notin> reply_ids rd"
    and q: "quiet (rd_pending rd)"
    and ok: "(sv_result c, Inr ()) \<in> set (rd_replies (recorder_wake cs rd (Receive now)))"
  shows "\<exists>s rs. cs_save_with_events cs s (sv_checkpoint c) (sv_transcript_delta c) (sv_execution c) (sv_events c)
    = (rd_store (recorder_wake cs rd (Receive now)), Inr rs)"
proof -
  let ?rd = "rd\<lparr>rd_commands := []\<rparr>"
  obtain rd1 r1 where fl: "flush_stream cs ?rd = (rd1, r1)" by fastforce
  have new1: "sv_result c \<notin> reply_ids rd1" using flush_answers [OF fl] q new by (auto simp: answers_def)
  have wake: "recorder_wake cs rd (Receive now) = handle_command cs now ?rd (Save c)"
    using run save by (simp add: recorder_wake_def)
  have failed: "(sv_result c, Inr ()) \<notin> set (rd_replies (reply r (Some (sv_result c)) (Inl e)))" if "sv_result c \<notin> reply_ids r" for r :: "'a recorder" and e
    using that by (auto simp: reply_def dest: reply_idsI)
  show ?thesis
  proof (cases "rd_terminal_error rd = None \<and> r1 = Inr ()")
    case True
    obtain rd2 b where sv: "record_save cs (rd1\<lparr>rd_last_stream := None\<rparr>) c = (rd2, b)" by fastforce
    have "recorder_wake cs rd (Receive now) = (if b then rd2\<lparr>rd_terminal_error := None\<rparr> else recorder_stop rd2)"
      unfolding wake using True fl sv by (simp add: handle_command_def)
    with record_save_reply [OF sv] new1 ok show ?thesis by (auto split: if_splits)
  next
    case False
    have "(sv_result c, Inr ()) \<notin> set (rd_replies (recorder_wake cs rd (Receive now)))"
      unfolding wake using False fl failed [OF new1] failed [of ?rd] new
      by (cases "rd_terminal_error rd"; cases r1) (simp_all add: handle_command_def reject_def release_def)
    with ok show ?thesis by simp
  qed
qed

lemma save_awaited:
  assumes inv: "ids_inv rd" and enter: "save_begin len clock rd c tr ex es = Some (rd1, Inr i)"
    and ok: "await_reply (recorder_drain cs now rd1) i = Inr ()"
  shows "\<exists>s tes rs. map tm_event tes = es \<and> cs_save_with_events cs s c tr ex tes = (rd_store (recorder_drain cs now rd1), Inr rs)"
proof -
  from enter obtain tes bytes p where st: "stamp_all len clock 0 es = Inr (tes, bytes)"
    and i: "i = rd_next_reply rd" and run: "rd_running rd"
    and rd1: "rd1 = (send_command rd p (Save \<lparr>sv_checkpoint = c, sv_transcript_delta = tr, sv_execution = ex,
       sv_events = tes, sv_permits = p, sv_result = i\<rparr>))\<lparr>rd_next_reply := Suc (rd_next_reply rd)\<rparr>"
    by (auto simp: save_begin_def send_awaited_def split: sum.splits if_splits)
  let ?sv = "\<lparr>sv_checkpoint = c, sv_transcript_delta = tr, sv_execution = ex, sv_events = tes, sv_permits = p, sv_result = i\<rparr>"
  have cmds: "rd_commands rd1 = rd_commands rd @ [Save ?sv]" "rd_running rd1" "quiet (rd_pending rd1)"
    using rd1 run inv by (simp_all add: send_command_def ids_inv_def)
  let ?rd2 = "foldl (recorder_wake cs) rd1 (replicate (length (rd_commands rd)) (Receive now))"
  have drain: "recorder_drain cs now rd1 = recorder_wake cs ?rd2 (Receive now)" by (rule drain_snoc) (rule cmds(1))
  have ans: "answers (first_ids (length (rd_commands rd)) rd1) rd1 ?rd2" by (rule receive_many_answers) (rule cmds(3))
  have "i \<notin> first_ids (length (rd_commands rd)) rd1 \<union> reply_ids rd1"
    using inv rd1 i by (auto simp: first_ids_def ids_inv_def queued_ids_def reply_ids_def send_command_def)
  with ans have new: "i \<notin> reply_ids ?rd2" by (auto simp: answers_def)
  have q2: "quiet (rd_pending ?rd2)" using ans cmds(3) by (simp add: answers_def)
  have in_replies: "(i, Inr ()) \<in> set (rd_replies (recorder_wake cs ?rd2 (Receive now)))"
    using await_replyD [OF ok] drain by simp
  show ?thesis
  proof (cases "rd_running ?rd2")
    case True
    then have "rd_commands ?rd2 = [Save ?sv]" using receive_many [OF cmds(2,1), of cs now] by (simp add: Let_def)
    from save_command_reply [OF True this _ q2, of cs now] new in_replies
    show ?thesis using drain stamp_all_events [OF st] by auto
  next
    case False
    then show ?thesis using in_replies new by (auto simp: wake_stopped dest: reply_idsI)
  qed
qed

lemma answers_mono: "answers A rd rd' \<Longrightarrow> A \<subseteq> B \<Longrightarrow> answers B rd rd'"
  by (auto simp: answers_def)

lemma wake_subset: "set (rd_commands (recorder_wake cs rd w)) \<subseteq> set (rd_commands rd)"
proof (cases "\<exists>now c commands. w = Receive now \<and> rd_commands rd = c # commands \<and> rd_running rd")
  case True
  then obtain now c commands where c: "w = Receive now" "rd_commands rd = c # commands" "rd_running rd" by blast
  with receive_channel [OF c(3,2), of cs now] show ?thesis by (auto simp: Let_def)
next
  case False
  obtain rd1 r1 where fl: "flush_stream cs rd = (rd1, r1)" by fastforce
  with False flush_channel [OF fl] show ?thesis
    by (cases w) (auto simp: recorder_wake_def channel_def split: list.split)
qed

lemma ids_inv_wake:
  assumes inv: "ids_inv rd"
  shows "ids_inv (recorder_wake cs rd w)"
proof -
  have "(case (w, rd_commands rd) of (Receive _, c # _) \<Rightarrow> set_option (command_reply c) | _ \<Rightarrow> {}) \<subseteq> queued_ids rd"
    by (cases w; cases "rd_commands rd") (auto simp: queued_ids_def)
  with wake_answers [of rd w cs] inv have a: "answers (queued_ids rd) rd (recorder_wake cs rd w)"
    by (auto simp: ids_inv_def intro: answers_mono)
  have "queued_ids (recorder_wake cs rd w) \<subseteq> queued_ids rd" using wake_subset by (fastforce simp: queued_ids_def)
  with a inv show ?thesis by (auto simp: ids_inv_def answers_def)
qed

lemma ids_inv_run: "ids_inv rd \<Longrightarrow> ids_inv (foldl (recorder_wake cs) rd ws)"
  by (induction ws arbitrary: rd) (simp_all add: ids_inv_wake)

lemma ids_inv_settle: "ids_inv rd \<Longrightarrow> ids_inv (recorder_settle cs now rd)"
  by (simp add: recorder_settle_def recorder_drain_def ids_inv_wake ids_inv_run)

lemma save_call_durable:
  assumes inv: "ids_inv rd" and call: "recorder_call cs now rd (\<lambda>rd. save_begin len clock rd c tr ex es) = (rd', Inr ())"
  shows "\<exists>s tes rs. map tm_event tes = es \<and> cs_save_with_events cs s c tr ex tes = (rd_store rd', Inr rs)"
proof -
  have aw: "\<exists>s tes rs. map tm_event tes = es \<and> cs_save_with_events cs s c tr ex tes = (rd_store rd', Inr rs)"
    if "ids_inv r" "save_begin len clock r c tr ex es = Some x" "awaited cs now x = (rd', Inr ())" for r x
    using save_awaited [OF that(1), of len clock c tr ex es "fst x" _ cs now] that(2,3)
    by (auto simp: awaited_def split: prod.splits sum.splits)
  show ?thesis
    using call aw [OF inv] aw [OF ids_inv_settle [OF inv, of cs now]] by (auto simp: recorder_call_def split: option.splits)
qed

lemma ids_inv_send:
  assumes "ids_inv rd" and "command_reply c = Some (rd_next_reply rd)"
  shows "ids_inv ((send_command rd p c)\<lparr>rd_next_reply := Suc (rd_next_reply rd)\<rparr>)"
proof -
  let ?rd = "(send_command rd p c)\<lparr>rd_next_reply := Suc (rd_next_reply rd)\<rparr>"
  have "queued_ids ?rd = insert (rd_next_reply rd) (queued_ids rd)" "reply_ids ?rd = reply_ids rd"
    using assms(2) by (auto simp: queued_ids_def reply_ids_def send_command_def)
  then show ?thesis using assms(1) by (auto simp: ids_inv_def send_command_def less_Suc_eq)
qed

lemma ids_inv_awaited:
  assumes "ids_inv rd" and "send_awaited rd ps f = Some x" and "\<And>p i. ps = Inr p \<Longrightarrow> command_reply (f p i) = Some i"
  shows "ids_inv (fst (awaited cs now x))"
proof -
  have "ids_inv (fst x)"
    using assms(2,3) ids_inv_send [OF assms(1)] assms(1) by (auto simp: send_awaited_def split: sum.splits if_splits)
  then show ?thesis by (auto simp: awaited_def recorder_drain_def ids_inv_run split: prod.split sum.split)
qed

text \<open>A way into the channel that keeps the identifiers apart.\<close>

definition proper_entry :: "('s recorder \<Rightarrow> ('s recorder \<times> nat res) option) \<Rightarrow> bool" where
  "proper_entry enter \<longleftrightarrow> (\<forall>rd x cs now. ids_inv rd \<longrightarrow> enter rd = Some x \<longrightarrow> ids_inv (fst (awaited cs now x)))"

lemma ids_inv_call:
  assumes "proper_entry enter" and "ids_inv rd"
  shows "ids_inv (fst (recorder_call cs now rd enter))"
  using assms(1) assms(2) ids_inv_settle [OF assms(2), of cs now]
  by (auto simp: recorder_call_def proper_entry_def split: option.split)

lemma proper_error: "ids_inv rd \<Longrightarrow> ids_inv (fst (awaited cs now (rd, Inl e)))"
  by (simp add: awaited_def)

lemma proper_save: "proper_entry (\<lambda>rd. save_begin len clock rd c tr ex es)"
  unfolding proper_entry_def save_begin_def
  by (auto simp: proper_error command_reply_def split: sum.splits prod.splits intro: ids_inv_awaited)

lemma proper_record: "proper_entry (\<lambda>rd. record_begin len clock rd e)"
  unfolding proper_entry_def record_begin_def
  by (auto simp: proper_error command_reply_def split: sum.splits prod.splits intro: ids_inv_awaited)

subsection \<open>The live state and the durable state\<close>

definition same_live :: "runner \<Rightarrow> runner \<Rightarrow> bool" where
  "same_live self self' \<longleftrightarrow> ru_state self' = ru_state self \<and> ru_transcript_delta self' = ru_transcript_delta self
     \<and> (ids_inv (ru_recorder self) \<longrightarrow> ids_inv (ru_recorder self'))"

text \<open>The store holds the live checkpoint of the actor, and a receipt for every message queued in it.\<close>

definition durable :: "runner \<Rightarrow> bool" where
  "durable self \<longleftrightarrow> (\<exists>row. rd_store (ru_recorder self) (ck_session_id (ru_state self)) = Some row
     \<and> sr_header row = (ru_state self)\<lparr>ck_context := []\<rparr> \<and> sr_latest_sequence row = ck_sequence (ru_state self)
     \<and> qm_id ` set (ck_pending_messages (ru_state self)) \<subseteq> set (sr_receipts row))"

lemma same_live_refl: "same_live self self"
  by (simp add: same_live_def)

lemma same_live_trans: "same_live a b \<Longrightarrow> same_live b c \<Longrightarrow> same_live a c"
  by (simp add: same_live_def)

lemma send_event_live: "send_event cf self e = (self', r) \<Longrightarrow> same_live self self'"
  using ids_inv_call [OF proper_record, of "ru_recorder self" "cf_store cf" "cf_instant cf" "cf_event_len cf" "cf_clock cf" e]
  by (auto simp: send_event_def same_live_def split: prod.splits)

lemma send_messages_live: "send_messages cf self i msgs = (self', r) \<Longrightarrow> same_live self self'"
proof (induction msgs arbitrary: self)
  case (Cons msg msgs)
  obtain self1 r1 where s1: "send_event cf self (turn_event i msg) = (self1, r1)" by fastforce
  then show ?case
    using Cons.prems Cons.IH [of self1] send_event_live [OF s1] by (cases r1) (auto intro: same_live_trans)
qed (auto simp: same_live_def)

lemma save_stored:
  assumes "save_with_events uuid_ok s c addresses cached dv delta execution es = (s', Inr rs)"
  shows "\<exists>row. s' (ck_session_id c) = Some row \<and> sr_header row = c\<lparr>ck_context := []\<rparr>
    \<and> sr_latest_sequence row = ck_sequence c \<and> qm_id ` set (ck_pending_messages c) \<subseteq> set (sr_receipts row)"
proof -
  from assms obtain row where row: "save_transaction uuid_ok (s (ck_session_id c)) c addresses cached dv delta execution es = Inr (row, rs)"
    and s': "s' = s(ck_session_id c \<mapsto> row)"
    by (auto simp: save_with_events_def split: sum.splits prod.splits)
  from row obtain existing start rewritten row1 row2 db where
    st: "store_checkpoint existing c delta execution = Inr row1"
    and ap: "append_context row1 c start = Inr row2" and r: "row = row2\<lparr>sr_db := db\<rparr>"
    by (auto simp: save_transaction_def res_bind_Inr_iff split: if_splits prod.splits option.splits)
  show ?thesis
    using s' save_transaction_receipts [OF row] store_checkpoint_Inr [OF st] append_context_Inr [OF ap] r by auto
qed

lemma persist_fails:
  assumes "persist_with_events cf self events execution = (self', Inl e)"
  shows "same_live self self'"
  using assms ids_inv_call [OF proper_save, of "ru_recorder self"]
  by (auto simp: persist_with_events_def same_live_def Let_def split: option.splits prod.splits sum.splits) (metis fst_conv)

lemma persist_succeeds:
  assumes "persist_with_events cf self events execution = (self', Inr n)"
  shows "ru_state self' = (ru_state self)\<lparr>ck_sequence := n\<rparr> \<and> n = Suc (ck_sequence (ru_state self))
    \<and> ru_transcript_delta self' = []"
    and "ids_inv (ru_recorder self) \<Longrightarrow> ids_inv (ru_recorder self') \<and> durable self'"
proof -
  from assms obtain rd where n: "n = Suc (ck_sequence (ru_state self))"
    and call: "recorder_call (cf_store cf) (cf_instant cf) (ru_recorder self) (\<lambda>rd. save_begin (cf_event_len cf) (cf_clock cf) rd
       ((ru_state self)\<lparr>ck_sequence := n\<rparr>) (ru_transcript_delta self) execution events) = (rd, Inr ())"
    and self': "self' = self\<lparr>ru_recorder := rd, ru_state := (ru_state self)\<lparr>ck_sequence := n\<rparr>, ru_transcript_delta := []\<rparr>"
    by (auto simp: persist_with_events_def Let_def u64_checked_add_def split: option.splits prod.splits sum.splits if_splits)
  show "ru_state self' = (ru_state self)\<lparr>ck_sequence := n\<rparr> \<and> n = Suc (ck_sequence (ru_state self))
    \<and> ru_transcript_delta self' = []" using n self' by simp
  assume inv: "ids_inv (ru_recorder self)"
  have "ids_inv rd" using ids_inv_call [OF proper_save inv] call by (metis fst_conv)
  moreover have "durable self'"
    using save_call_durable [OF inv call] save_stored self' by (fastforce simp: sqlite_store_def durable_def)
  ultimately show "ids_inv (ru_recorder self') \<and> durable self'" using self' by simp
qed

lemma route_submission_result_live:
  assumes "route_submission_result cf self i result pending msgs = (self', r)"
  shows "same_live self self'"
    and "r = Inr (UrChanged change) \<Longrightarrow> self' = self \<and> (\<exists>b. result = Accepted b \<and> change =
       \<lparr>ch_submission_id = i, ch_pending_messages = pending, ch_events = msgs, ch_input_changed = b\<rparr>)"
  using assms
  by (auto simp: route_submission_result_def same_live_refl split: submission_result.splits prod.splits sum.splits
      dest!: send_messages_live send_event_live intro: same_live_trans)
     (auto simp: res_bind_def split: sum.splits)

lemma warn_live: "warn cf self i m = (self', r) \<Longrightarrow> same_live self self' \<and> (\<forall>change. r \<noteq> Inr (UrChanged change))"
  by (auto simp: warn_def res_bind_def dest!: send_event_live split: prod.splits sum.splits)

lemma route_message_live:
  assumes "route_message cf self i m turn = (self', r)"
  shows "same_live self self' \<and> (\<forall>change. r = Inr (UrChanged change) \<longrightarrow> self' = self)"
  using assms route_submission_result_live [of cf self i]
  by (auto simp: route_message_def same_live_refl split: prod.splits sum.splits) (blast+)?

lemma route_active_live:
  assumes "route_active cf self sub turn expected = (self', r)"
  shows "same_live self self' \<and> (\<forall>change. r = Inr (UrChanged change) \<longrightarrow> self' = self)"
proof (cases "sub_op sub")
  case (CapabilityCommand capability command arguments input target)
  then show ?thesis
    using assms route_submission_result_live [of cf self "sub_id sub"] warn_live [of cf self "sub_id sub"]
    by (auto simp: route_active_def Let_def same_live_refl split: prod.splits sum.splits option.splits) (blast+)?
qed (use assms route_message_live [of cf self "sub_id sub"] warn_live [of cf self "sub_id sub"]
    in \<open>auto simp: route_active_def Let_def same_live_refl split: if_splits\<close>)

lemma persist_change_live:
  assumes "persist_submission_change cf self change = (self', r)"
  shows "case r of Inl e \<Rightarrow> same_live self self'
    | Inr _ \<Rightarrow> ru_state self' = (ru_state self)\<lparr>ck_pending_messages := ch_pending_messages change,
          ck_sequence := Suc (ck_sequence (ru_state self))\<rparr> \<and> ru_transcript_delta self' = []
        \<and> (ids_inv (ru_recorder self) \<longrightarrow> ids_inv (ru_recorder self') \<and> durable self')"
proof -
  let ?self = "set_state self (\<lambda>c. c\<lparr>ck_pending_messages := ch_pending_messages change\<rparr>)"
  obtain self1 q where p: "persist_with_events cf ?self (map (turn_event (ch_submission_id change)) (ch_events change)) None
      = (self1, q)" by fastforce
  show ?thesis
  proof (cases q)
    case (Inl e)
    with assms p have r: "r = Inl e" "self' = set_state self1 (\<lambda>c. c\<lparr>ck_pending_messages := ck_pending_messages (ru_state self)\<rparr>)"
      by (auto simp: persist_submission_change_def Let_def)
    have "same_live ?self self1" using persist_fails p Inl by blast
    then show ?thesis using r by (simp add: same_live_def)
  next
    case (Inr n)
    with assms p have "r = Inr ()" "self' = self1" by (auto simp: persist_submission_change_def Let_def)
    with persist_succeeds [OF p [unfolded Inr]] show ?thesis by simp
  qed
qed

text \<open>What routing a submission may do to the live state: nothing, or a durable change of the queue.\<close>

definition routed :: "runner \<Rightarrow> runner \<Rightarrow> bool \<Rightarrow> bool" where
  "routed self self' changed \<longleftrightarrow> (if changed
     then (\<exists>pending. ru_state self' = (ru_state self)\<lparr>ck_pending_messages := pending,
              ck_sequence := Suc (ck_sequence (ru_state self))\<rparr>) \<and> ru_transcript_delta self' = []
        \<and> (ids_inv (ru_recorder self) \<longrightarrow> ids_inv (ru_recorder self') \<and> durable self')
     else same_live self self')"

lemma route_active_inner_routed:
  assumes "route_active_submission_inner cf self sub turn expected = (self', r)"
  shows "routed self self' (\<exists>route. r = Inr (route, AoAccepted))"
proof -
  obtain self1 q where ra: "route_active cf self sub turn expected = (self1, q)" by fastforce
  note live = route_active_live [OF ra]
  show ?thesis
  proof (cases "\<exists>change. q = Inr (UrChanged change)")
    case True
    then obtain change where q: "q = Inr (UrChanged change)" by blast
    obtain self2 r2 where pc: "persist_submission_change cf self change = (self2, r2)" by fastforce
    with assms ra q live have "self' = self2" "r = res_bind r2 (\<lambda>_. Inr (RtContinue (ch_input_changed change), AoAccepted))"
      by (auto simp: route_active_submission_inner_def)
    with persist_change_live [OF pc] show ?thesis by (cases r2) (auto simp: routed_def)
  next
    case False
    with assms ra live show ?thesis
      by (auto simp: route_active_submission_inner_def routed_def split: sum.splits uncommitted_route.splits)
  qed
qed

lemma route_idle_routed:
  assumes "route_idle_message cf self i m = (self', r)"
  shows "routed self self' (r = Inr AoAccepted)"
proof -
  obtain self1 q where rm: "route_message cf self i m None = (self1, q)" by fastforce
  note live = route_message_live [OF rm]
  show ?thesis
  proof (cases "\<exists>change. q = Inr (UrChanged change)")
    case True
    then obtain change where q: "q = Inr (UrChanged change)" by blast
    obtain self2 r2 where pc: "persist_submission_change cf self change = (self2, r2)" by fastforce
    with assms rm q live have "self' = self2" "r = res_bind r2 (\<lambda>_. Inr AoAccepted)"
      by (auto simp: route_idle_message_def)
    with persist_change_live [OF pc] show ?thesis by (cases r2) (auto simp: routed_def)
  next
    case False
    with assms rm live show ?thesis
      by (auto simp: route_idle_message_def routed_def split: sum.splits uncommitted_route.splits)
  qed
qed

lemma finish_admission_accepted:
  "snd (finish_admission True r) = Some (Inr AcAccepted) \<longleftrightarrow> (\<exists>x. r = Inr (x, AoAccepted))"
  "snd (finish_admission True r) \<noteq> Some (Inr AcAlreadyAccepted)" "snd (finish_admission False r) = None"
  by (auto simp: finish_admission_def split: sum.splits prod.splits admission_outcome.splits)

lemma routed_message:
  assumes handler: "message_handler (cf_middleware cf) = Some (messages_middleware jc cd mg)"
    and route: "route_message cf self i m turn = (self', Inr (UrChanged change))"
  shows "\<exists>q. ch_pending_messages change = ck_pending_messages (ru_state self) @ [q] \<and> qm_id q = i
    \<and> (\<exists>boundary. queued_event q = submission_event m boundary \<and> qm_boundary q = boundary \<and> (turn = None \<longrightarrow> boundary = BTurn))"
proof -
  let ?ctx = "\<lparr>rc_database = session_database self, rc_submission_id = i, rc_message = m, rc_active_turn_id = turn,
     rc_scope = Some MESSAGES, rc_items = ck_pending_messages (ru_state self), rc_events = []\<rparr>"
  obtain ctx x where m: "messages_route jc mg ?ctx = (ctx, x)" by fastforce
  have stack: "stack_route_message (cf_middleware cf) (?ctx\<lparr>rc_scope := None\<rparr>) = (ctx, x)"
    using handler m by (simp add: stack_route_message_def message_handler_required_def messages_middleware_def)
  obtain result where x: "x = Inr result" using route stack by (cases x) (simp_all add: route_message_def)
  with route stack have "route_submission_result cf self i result (rc_items ctx) (rc_events ctx) = (self', Inr (UrChanged change))"
    by (simp add: route_message_def)
  from route_submission_result_live(2) [OF this refl] obtain b where
    b: "result = Accepted b" and ch: "ch_pending_messages change = rc_items ctx"
    by (elim conjE exE) simp
  have r: "messages_route jc mg ?ctx = (ctx, Inr (Accepted b))" by (simp only: m x b)
  have "enqueue mg ?ctx = (ctx, Inr (Accepted b))" using messages_route_cases [of jc mg ?ctx] r by (elim disjE exE conjE) simp_all
  then obtain q boundary where "prepare mg ?ctx = Inr boundary" "rc_items ctx = ck_pending_messages (ru_state self) @ [q]"
    "qm_id q = i" "qm_boundary q = boundary" "queued_event q = submission_event m boundary"
    by (rule enqueue_accepted) (rule that, simp_all)
  with ch prepare_boundary [of mg ?ctx boundary] show ?thesis by auto
qed

lemma durable_accepted:
  "durable self \<Longrightarrow> q \<in> set (ck_pending_messages (ru_state self)) \<Longrightarrow> runner_message_accepted cf self (qm_id q)"
  by (auto simp: durable_def runner_message_accepted_def message_accepted_def sqlite_store_def)

definition sample_config :: runner_config where
  "sample_config = \<lparr>cf_middleware = [sample_middleware], cf_uuid_ok = \<lambda>_. True, cf_event_len = \<lambda>_. Inr 1,
     cf_clock = Inr 0, cf_instant = 0\<rparr>"

definition sample_runner :: runner where
  "sample_runner = \<lparr>ru_state = sample_checkpoint\<lparr>ck_sequence := 0, ck_active_execution := None\<rparr>, ru_transcript_delta = [],
     ru_recorder = spawn (\<lambda>_. None) ''session'' None\<rparr>"

lemma ids_inv_spawn: "ids_inv (spawn s sid accepts)"
  by (simp add: ids_inv_def spawn_def reply_ids_def queued_ids_def)

lemma sample_runner_valid:
  "validate_checkpoint (sample_checkpoint\<lparr>ck_active_execution := None, ck_pending_messages := [q], ck_sequence := Suc 0\<rparr>) = Inr ()"
  by (simp add: validate_checkpoint_def sample_checkpoint_def checkpoint_empty_def validate_active_execution_def
      pending_work_def validate_pending_approval_def validate_session_context_def
      session_context_validate_def session_context_default_def validate_active_model_step_def
      validate_pending_messages_def MAX_IDENTIFIER_BYTES_def validate_identifier_def MAX_QUEUED_MESSAGES_def
      sample_not_blank)

lemmas save_eval =
  recorder_call_def save_begin_def send_awaited_def send_command_def byte_permits_def spawn_def awaited_def
  recorder_drain_def recorder_wake_def handle_command_def flush_stream_def record_save_def reply_def release_def
  await_reply_def sqlite_store_def save_with_events_def save_transaction_def prepare_append_None store_checkpoint_def
  sqlite_integer_def context_count_def upsert_session_def store_transcript_def store_execution_def append_context_def
  RECORDER_EVENT_BYTE_BUDGET_def RECORDER_COMMAND_CAPACITY_def i64_max_def u64_checked_add_def u64_max_def empty_session_db_def

lemma sample_admission:
  "\<exists>self'. admit_idle_message sample_config sample_runner ''s1'' sample_submission True = (self', Inr (), Some (Inr AcAccepted))"
proof -
  let ?q = "\<lparr>qm_owner = ''messages'', qm_id = ''s1'', qm_boundary = BTurn, qm_author = User, qm_message = ''hi'',
     qm_attachments = [], qm_reply = None\<rparr>"
  let ?change = "\<lparr>ch_submission_id = ''s1'', ch_pending_messages = [?q], ch_events = [], ch_input_changed = False\<rparr>"
  have pend: "ck_pending_messages sample_checkpoint = []" by (simp add: sample_checkpoint_def checkpoint_empty_def)
  have rt: "route_message sample_config sample_runner ''s1'' sample_submission None = (sample_runner, Inr (UrChanged ?change))"
    using pend
    by (simp add: route_message_def stack_route_message_def message_handler_required_def message_handler_def sample_config_def
        sample_middleware_def messages_middleware_def messages_route_def enqueue_def prepare_def sample_submission_def
        messages_default_def queue_count_def queue_enqueue_validated_def scope_owner_def from_validated_def drop_boundary_def
        assemble_def submission_event_def queue_push_def MAX_QUEUED_MESSAGES_def MESSAGES_def Let_def
        route_submission_result_def sample_runner_def)
  have "\<exists>self'. persist_submission_change sample_config sample_runner ?change = (self', Inr ())"
    using sample_runner_valid [of ?q]
    by (simp add: persist_submission_change_def persist_with_events_def sample_config_def sample_runner_def save_eval Let_def)
  then show ?thesis
    using rt
    by (auto simp: admit_idle_message_def runner_message_accepted_def sample_config_def sample_runner_def sqlite_store_def
        message_accepted_def spawn_def route_idle_message_def finish_admission_def)
qed

subsection \<open>Properties\<close>

text \<open>
  C1. Admission is at most once.  A message that an idle session answers with Accepted is appended to the
  queue under its submission id with its author, text, attachments and reply, the store holds the new
  checkpoint together with a receipt for it, and sending the submission again, with any content, changes
  nothing and is answered with AlreadyAccepted.
\<close>

theorem admission_at_most_once:
  assumes handler: "message_handler (cf_middleware cf) = Some (messages_middleware jc cd mg)"
    and inv: "ids_inv (ru_recorder self)"
    and admit: "admit_idle_message cf self i m True = (self', r, Some (Inr AcAccepted))"
  shows "durable self' \<and> (\<exists>q. ck_pending_messages (ru_state self') = ck_pending_messages (ru_state self) @ [q]
      \<and> qm_id q = i \<and> queued_event q = submission_event m BTurn)
    \<and> (\<forall>m' admission. admit_idle_message cf self' i m' admission
         = (self', Inr (), if admission then Some (Inr AcAlreadyAccepted) else None))"
proof -
  from admit obtain x where route: "route_idle_message cf self i m = (self', x)"
    and "snd (finish_admission True (res_bind x (\<lambda>outcome. Inr ((), outcome)))) = Some (Inr AcAccepted)"
    by (auto simp: admit_idle_message_def split: if_splits prod.splits)
  then have x: "x = Inr AoAccepted" unfolding finish_admission_accepted(1) by (auto simp: res_bind_Inr_iff)
  from route x obtain change where rm: "route_message cf self i m None = (self, Inr (UrChanged change))"
    and pc: "persist_submission_change cf self change = (self', Inr ())"
    using route_message_live [of cf self i m None]
    by (auto simp: route_idle_message_def res_bind_def split: prod.splits sum.splits uncommitted_route.splits)
  obtain q where q: "ch_pending_messages change = ck_pending_messages (ru_state self) @ [q]" "qm_id q = i"
    "queued_event q = submission_event m BTurn"
    using routed_message [OF handler rm] by auto
  from persist_change_live [OF pc] inv q(1) have state: "ck_pending_messages (ru_state self') = ck_pending_messages (ru_state self) @ [q]"
    and "durable self'" by simp_all
  with durable_accepted [of self' q cf] q show ?thesis by (auto simp: admit_idle_message_def)
qed

theorem admission_at_most_once_witness:
  "\<exists>self'. admit_idle_message sample_config sample_runner ''s1'' sample_submission True = (self', Inr (), Some (Inr AcAccepted))
     \<and> admit_idle_message sample_config self' ''s1'' sample_submission True = (self', Inr (), Some (Inr AcAlreadyAccepted))"
proof -
  obtain self' where a: "admit_idle_message sample_config sample_runner ''s1'' sample_submission True
      = (self', Inr (), Some (Inr AcAccepted))" using sample_admission by blast
  have "message_handler (cf_middleware sample_config) = Some (messages_middleware text_codec unit_codec messages_default)"
    by (simp add: message_handler_def sample_config_def sample_middleware_def messages_middleware_def)
  moreover have "ids_inv (ru_recorder sample_runner)" by (simp add: sample_runner_def ids_inv_spawn)
  ultimately show ?thesis using admission_at_most_once [OF _ _ a] a by auto
qed

text \<open>
  C4. The live state never runs ahead of the store.  Whatever submission the active turn receives, either
  the live checkpoint and the unsaved transcript stay exactly as they were, or only the queue changed, the
  sequence advanced by one and the store holds that very checkpoint; a sender that asked for admission is
  told Accepted in the second case only.
\<close>

theorem active_submission_durable:
  assumes inv: "ids_inv (ru_recorder self)"
    and route: "route_active_submission cf self (sub, admission) turn expected = (self', r, answer)"
  shows "(same_live self self' \<and> answer \<noteq> Some (Inr AcAccepted))
    \<or> ((\<exists>pending. ru_state self' = (ru_state self)\<lparr>ck_pending_messages := pending,
            ck_sequence := Suc (ck_sequence (ru_state self))\<rparr>)
        \<and> durable self' \<and> (admission \<longrightarrow> answer = Some (Inr AcAccepted)))"
proof (cases "is_message (sub_op sub) \<and> runner_message_accepted cf self (sub_id sub)")
  case True
  with route show ?thesis by (auto simp: route_active_submission_def same_live_refl split: if_splits)
next
  case False
  obtain x where inner: "route_active_submission_inner cf self sub turn expected = (self', x)"
    and "(r, answer) = finish_admission admission x"
    using False route by (auto simp: route_active_submission_def split: prod.splits)
  then have ans: "answer = snd (finish_admission admission x)" by (metis snd_conv)
  note rt = route_active_inner_routed [OF inner]
  show ?thesis
    using rt inv ans finish_admission_accepted [of x]
    by (cases admission; cases "\<exists>route. x = Inr (route, AoAccepted)") (auto simp: routed_def)
qed

theorem active_submission_durable_witness:
  "\<exists>self' answer. route_active_submission sample_config sample_runner (\<lparr>sub_id = ''s1'', sub_op = Interrupt ''t1''\<rparr>, False) ''t1'' None
       = (self', Inr (RtInterrupted ''s1''), answer) \<and> same_live sample_runner self'"
proof -
  have r: "route_active_submission sample_config sample_runner (\<lparr>sub_id = ''s1'', sub_op = Interrupt ''t1''\<rparr>, False) ''t1'' None
      = (sample_runner, Inr (RtInterrupted ''s1''), None)"
    by (simp add: route_active_submission_def is_message_def route_active_submission_inner_def route_active_def finish_admission_def)
  have "ids_inv (ru_recorder sample_runner)" by (simp add: sample_runner_def ids_inv_spawn)
  from active_submission_durable [OF this r] have "same_live sample_runner sample_runner"
    by (simp add: durable_def sample_runner_def spawn_def)
  with r show ?thesis by auto
qed

lemma usage_checked_add_iff:
  "usage_checked_add a b = (s, Some u) \<longleftrightarrow> s = usage_plus a b \<and> usage_ok (usage_plus a b)"
  "usage_checked_add a b = (s, None) \<longleftrightarrow> s = a \<and> \<not> usage_ok (usage_plus a b)"
proof -
  show "usage_checked_add a b = (s, Some u) \<longleftrightarrow> s = usage_plus a b \<and> usage_ok (usage_plus a b)"
    using usage_checked_sum_Some [of a b s] by (auto simp: usage_checked_add_def split: option.splits)
  have "usage_checked_sum a b = None \<longleftrightarrow> \<not> usage_ok (usage_plus a b)"
    using usage_checked_sum_Some [of a b] by (metis option.exhaust option.simps(3))
  then show "usage_checked_add a b = (s, None) \<longleftrightarrow> s = a \<and> \<not> usage_ok (usage_plus a b)"
    by (auto simp: usage_checked_add_def split: option.splits)
qed

text \<open>Token accounting is all or nothing: recorded usage is added to the session total and to the active
  execution together, without overflow, and only after the usage observer has taken it; any failure leaves
  the actor as it was.\<close>

lemma record_usage_atomic:
  assumes "record_usage observer self route usage = (self', r)"
  shows "case r of Inl e \<Rightarrow> self' = self
    | Inr _ \<Rightarrow> \<exists>active. ck_active_execution (ru_state self) = Some active
        \<and> (\<forall>f. observer = Some f \<longrightarrow> f route usage = Inr ())
        \<and> usage_ok (usage_plus (ck_total_usage (ru_state self)) usage) \<and> usage_ok (usage_plus (ax_usage active) usage)
        \<and> self' = self\<lparr>ru_state := (ru_state self)\<lparr>ck_total_usage := usage_plus (ck_total_usage (ru_state self)) usage,
            ck_active_execution := Some (active\<lparr>ax_usage := usage_plus (ax_usage active) usage\<rparr>)\<rparr>\<rparr>"
  using assms
  by (auto simp: record_usage_def usage_checked_add_iff set_active_def split: prod.splits option.splits sum.splits)

text \<open>
  A turn that cannot be finished durably stays active: when its record cannot be built or saved, the live
  checkpoint, with the active execution and the statistics, and the unsaved transcript are as before; when it
  can, the store holds the checkpoint without the execution.
\<close>

lemma finish_and_persist_atomic:
  assumes inv: "ids_inv (ru_recorder self)" and finish: "finish_and_persist_execution cf self outcome events = (self', r)"
  shows "case r of Inl e \<Rightarrow> same_live self self'
    | Inr n \<Rightarrow> durable self' \<and> ids_inv (ru_recorder self') \<and> ru_transcript_delta self' = []
        \<and> n = Suc (ck_sequence (ru_state self))
        \<and> (\<exists>stats. ru_state self' = (ru_state self)\<lparr>ck_active_execution := None, ck_execution_stats := stats, ck_sequence := n\<rparr>)"
proof (cases "runner_finish_execution cf self outcome")
  case (Pair self1 q)
  show ?thesis
  proof (cases q)
    case (Inl e)
    with Pair have "self1 = self"
      by (cases "cf_clock cf")
         (auto simp: runner_finish_execution_def split: prod.splits dest!: finish_execution_Inl)
    with Pair Inl finish show ?thesis by (auto simp: finish_and_persist_execution_def same_live_refl)
  next
    case (Inr execution)
    with Pair obtain now where now: "cf_clock cf = Inr now" "self1 = self\<lparr>ru_state := ru_state self1\<rparr>"
      and fe: "finish_execution (ru_state self) outcome now = (ru_state self1, Inr execution)"
      by (auto simp: runner_finish_execution_def split: sum.splits prod.splits)
    obtain stats where c1: "ru_state self1 = (ru_state self)\<lparr>ck_active_execution := None, ck_execution_stats := stats\<rparr>"
      by (rule finish_execution_Inr [OF fe])
    have inv1: "ids_inv (ru_recorder self1)" using now(2) inv by (metis runner.select_convs(3) runner.surjective runner.update_convs(1))
    obtain self2 p where ps: "persist_with_events cf self1 events (Some execution) = (self2, p)" by fastforce
    show ?thesis
    proof (cases p)
      case (Inl e)
      with finish Pair Inr ps have "r = Inl e" "self' = set_state self2 (\<lambda>c. c\<lparr>ck_active_execution := ck_active_execution (ru_state self),
          ck_execution_stats := ck_execution_stats (ru_state self)\<rparr>)"
        by (auto simp: finish_and_persist_execution_def Let_def)
      with persist_fails [OF ps [unfolded Inl]] c1 now(2) show ?thesis
        by (cases self; cases self1) (simp add: same_live_def)
    next
      case (Inr n)
      with finish Pair \<open>q = Inr execution\<close> ps have "r = Inr n" "self' = self2"
        by (auto simp: finish_and_persist_execution_def Let_def)
      with persist_succeeds [OF ps [unfolded Inr]] inv1 c1 show ?thesis by auto
    qed
  qed
qed

subsection \<open>Draining the inbox\<close>

definition inbox_inv :: "submission_inbox \<Rightarrow> bool" where
  "inbox_inv ib \<longleftrightarrow> map sq_sequence (ib_queue ib) = [Suc (ib_last ib) ..< Suc (ib_last_sent ib)] \<and> ib_last ib \<le> ib_last_sent ib"

lemma enqueue_submission_inv: "inbox_inv ib \<Longrightarrow> inbox_inv (fst (enqueue_submission ib sub admission))"
  by (auto simp: enqueue_submission_def inbox_inv_def u64_checked_add_def split: option.splits if_splits)

lemma upt_tail: "x # xs = [Suc m ..< Suc n] \<Longrightarrow> x = Suc m \<and> xs = [Suc x ..< Suc n] \<and> x \<le> n"
  using upt_conv_Cons [of "Suc m" "Suc n"] by (cases "m < n") (auto simp del: upt_Suc)

lemma inbox_recv_inv: "inbox_inv ib \<Longrightarrow> inbox_recv ib = Some (ib', x) \<Longrightarrow> inbox_inv ib'"
  by (cases "ib_queue ib") (auto simp: inbox_recv_def inbox_inv_def simp del: upt_Suc dest: upt_tail)

lemma interrupt_routes:
  assumes "sub_op sub = Interrupt turn"
  shows "route_active_submission cf self (sub, admission) turn None = (self', r, answer) \<Longrightarrow> r = Inr (RtInterrupted (sub_id sub))"
  using assms
  by (auto simp: route_active_submission_def is_message_def route_active_submission_inner_def route_active_def
      finish_admission_def Let_def split: if_splits)

lemma route_active_ids:
  assumes "route_active_submission cf self (sub, admission) turn expected = (self', r, answer)" and "ids_inv (ru_recorder self)"
  shows "ids_inv (ru_recorder self')"
proof (cases "is_message (sub_op sub) \<and> runner_message_accepted cf self (sub_id sub)")
  case True
  with assms show ?thesis by (auto simp: route_active_submission_def)
next
  case False
  then obtain x where "route_active_submission_inner cf self sub turn expected = (self', x)"
    using assms(1) by (auto simp: route_active_submission_def split: prod.splits)
  from route_active_inner_routed [OF this] assms(2) show ?thesis by (auto simp: routed_def same_live_def split: if_splits)
qed

lemma drain_loop_result:
  assumes "map sq_sequence queue = [Suc seen ..< Suc cutoff]" "seen \<le> cutoff"
    and "drain_loop cf turn cutoff self changed seen queue = (self', seen', queue', r)"
  shows "map sq_sequence queue' = [Suc seen' ..< Suc cutoff] \<and> seen' \<le> cutoff
    \<and> (\<forall>d. r = Inr d \<longrightarrow> (dr_interrupted d = None \<longrightarrow> queue' = [] \<and> (\<forall>q \<in> set queue. sub_op (sq_submission q) \<noteq> Interrupt turn))
        \<and> (dr_interrupted d \<noteq> None \<longrightarrow> queue \<noteq> []))
    \<and> (ids_inv (ru_recorder self) \<longrightarrow> ids_inv (ru_recorder self'))"
  using assms
proof (induction queue arbitrary: self changed seen)
  case (Cons q qs)
  have seq: "sq_sequence q = Suc seen" "map sq_sequence qs = [Suc (Suc seen) ..< Suc cutoff]" "Suc seen \<le> cutoff"
    using Cons.prems(1) upt_tail [of "sq_sequence q" "map sq_sequence qs" seen cutoff] by (simp_all del: upt_Suc)
  obtain self1 r1 answer where rt: "route_active_submission cf self (sq_submission q, sq_admission q) turn None
      = (self1, r1, answer)" by (metis prod_cases3)
  have ids: "ids_inv (ru_recorder self) \<longrightarrow> ids_inv (ru_recorder self1)" using route_active_ids [OF rt] by blast
  have int: "sub_op (sq_submission q) \<noteq> Interrupt turn" if "\<forall>i. r1 \<noteq> Inr (RtInterrupted i)"
    using that interrupt_routes rt by metis
  note loop = Cons.prems(3) [unfolded drain_loop.simps rt]
  show ?case
  proof (cases r1)
    case (Inl e)
    with loop seq ids show ?thesis by (auto simp del: upt_Suc)
  next
    case (Inr route)
    show ?thesis
    proof (cases route)
      case (RtInterrupted i)
      with loop seq ids Inr show ?thesis by (auto simp del: upt_Suc)
    next
      case (RtContinue b)
      with loop seq Inr have "drain_loop cf turn cutoff self1 (changed \<or> b) (Suc seen) qs = (self', seen', queue', r)" by simp
      from Cons.IH [OF seq(2,3) this] ids int Inr RtContinue show ?thesis by (auto simp del: upt_Suc)
    next
      case (RtApproval i d)
      with loop seq Inr have "drain_loop cf turn cutoff self1 changed (Suc seen) qs = (self', seen', queue', r)" by simp
      from Cons.IH [OF seq(2,3) this] ids int Inr RtApproval show ?thesis by (auto simp del: upt_Suc)
    qed
  qed
qed (auto split: if_splits)

text \<open>
  C27. Draining handles exactly what was sent before it: unless routing fails or the turn is interrupted,
  every submission sent so far is routed and the inbox is empty, the channel never looks closed before its
  cutoff, and an interrupt of the active turn among them is always reported.
\<close>

theorem drain_complete:
  assumes inv: "inbox_inv ib" and drain: "drain_submissions cf self ib turn = (self', ib', r)"
  shows "inbox_inv ib' \<and> ib_last_sent ib' = ib_last_sent ib
    \<and> (case r of Inr d \<Rightarrow> dr_interrupted d = None \<longrightarrow>
          ib_queue ib' = [] \<and> ib_last ib' = ib_last_sent ib \<and> (\<forall>q \<in> set (ib_queue ib). sub_op (sq_submission q) \<noteq> Interrupt turn)
        | Inl e \<Rightarrow> ib_queue ib \<noteq> [])"
proof -
  obtain seen queue where d: "drain_loop cf turn (ib_last_sent ib) self False (ib_last ib) (ib_queue ib) = (self', seen, queue, r)"
    and ib': "ib' = ib\<lparr>ib_last := seen, ib_queue := queue\<rparr>"
    using drain by (auto simp: drain_submissions_def split: prod.splits)
  have "ib_queue ib \<noteq> []" if "r = Inl e" for e
    using d that inv by (auto simp: inbox_inv_def split: if_splits)
  moreover note res = drain_loop_result [OF _ _ d]
  moreover have "queue = [] \<Longrightarrow> seen = ib_last_sent ib"
    using res inv upt_eq_Nil_conv [of "Suc seen" "Suc (ib_last_sent ib)"] by (auto simp: inbox_inv_def simp del: upt_Suc)
  ultimately show ?thesis using inv ib'
    by (auto simp: inbox_inv_def simp del: upt_Suc split: sum.split)
qed

definition sample_inbox :: submission_inbox where
  "sample_inbox = \<lparr>ib_queue = [\<lparr>sq_sequence = 1, sq_submission = \<lparr>sub_id = ''i1'', sub_op = Interrupt ''t1''\<rparr>, sq_admission = False\<rparr>],
     ib_last_sent = 1, ib_last = 0, ib_capacity = 4, ib_closed = False\<rparr>"

theorem drain_complete_witness:
  "\<exists>self' ib' d. drain_submissions sample_config sample_runner sample_inbox ''t1'' = (self', ib', Inr d)
     \<and> dr_interrupted d = Some ''i1'' \<and> inbox_inv ib'"
proof -
  have inv: "inbox_inv sample_inbox" by (simp add: inbox_inv_def sample_inbox_def)
  obtain self' ib' d where d: "drain_submissions sample_config sample_runner sample_inbox ''t1'' = (self', ib', Inr d)"
    "dr_interrupted d = Some ''i1''"
    by (simp add: drain_submissions_def sample_inbox_def route_active_submission_def is_message_def
        route_active_submission_inner_def route_active_def finish_admission_def)
  from drain_complete [OF inv d(1)] d show ?thesis by auto
qed

end
