(* ===== verification/Approval.thy ===== *)
theory Approval
  imports Checkpoint
begin

text \<open>
  The authority of tool calls (\<open>src/backend/sandbox/approval.rs\<close> and the permission types of
  \<open>src/backend/sandbox/mod.rs\<close>): what the sandbox policy grants at once, what it asks a reviewer,
  what a decision adds, and the approvals a session remembers.  The digest that identifies a call
  (\<open>call_key\<close>: SHA-256 over the JSON encoding of session, name and arguments) is the parameter
  \<open>key\<close>, and fresh request ids are the parameter \<open>uuid\<close>; a poisoned lock has no counterpart in this
  sequential model.  The set of remembered digests is an ordered list without repetition.
\<close>

datatype approval_policy = PolicyAsk | PolicyAllow | PolicyAllowNetwork | PolicyFullAccess

fun policy_network_access :: "approval_policy \<Rightarrow> network_access" where
  "policy_network_access PolicyAllow = NetDenied"
| "policy_network_access PolicyAsk = NetAllowed"
| "policy_network_access PolicyAllowNetwork = NetAllowed"
| "policy_network_access PolicyFullAccess = NetAllowed"

definition policy_sandbox_mode :: "approval_policy \<Rightarrow> sandbox_mode" where
  "policy_sandbox_mode p = (if p = PolicyFullAccess then DangerFullAccess else WorkspaceWrite)"

definition policy_from_str :: "string \<Rightarrow> approval_policy res" where
  "policy_from_str v =
     (if v = ''ask'' then Inr PolicyAsk else if v = ''allow'' then Inr PolicyAllow
      else if v = ''allow_network'' then Inr PolicyAllowNetwork else if v = ''full_access'' then Inr PolicyFullAccess
      else Inl (Config (''unknown sandbox approval policy `'' @ v @ ''`'')))"

subsection \<open>Permissions\<close>

record sandbox_permissions =
  sp_session_id :: string
  sp_sandbox_mode :: sandbox_mode
  sp_network_access :: network_access
  sp_mutation_call_ids :: "string list"

record tool_permissions =
  tp_session_id :: string
  tp_sandbox_mode :: sandbox_mode
  tp_network_access :: network_access
  tp_mutation :: bool

definition permissions_new :: "string \<Rightarrow> sandbox_mode \<Rightarrow> network_access \<Rightarrow> string list \<Rightarrow> sandbox_permissions" where
  "permissions_new session mode access ids = \<lparr>sp_session_id = session, sp_sandbox_mode = mode,
     sp_network_access = access, sp_mutation_call_ids = sort (remdups ids)\<rparr>"

definition for_call :: "sandbox_permissions \<Rightarrow> string \<Rightarrow> tool_permissions" where
  "for_call p call_id = \<lparr>tp_session_id = sp_session_id p, tp_sandbox_mode = sp_sandbox_mode p,
     tp_network_access = sp_network_access p, tp_mutation = (call_id \<in> set (sp_mutation_call_ids p))\<rparr>"

definition allow_mutations :: "sandbox_permissions \<Rightarrow> string list \<Rightarrow> sandbox_permissions" where
  "allow_mutations p ids = p\<lparr>sp_mutation_call_ids := foldl (\<lambda>s i. insort_insert i s) (sp_mutation_call_ids p) ids\<rparr>"

definition mutation_permit :: "tool_permissions \<Rightarrow> unit res" where
  "mutation_permit p = (if tp_mutation p then Inr ()
     else Inl (Sandbox ''tool call is not authorized to mutate the workspace''))"

record sandbox_approval_request =
  sar_id :: string
  sar_reason :: string
  sar_call_ids :: "string list"

datatype sandbox_authorization =
    Execute sandbox_permissions
  | NeedsApproval sandbox_approval_request sandbox_permissions

subsection \<open>The approval state\<close>

definition MAX_SESSION_APPROVALS :: nat where "MAX_SESSION_APPROVALS = 64"

record approval =
  av_default_policy :: approval_policy
  av_states :: "string \<Rightarrow> string list option"

type_synonym key_fn = "string \<Rightarrow> tool_call \<Rightarrow> string res"

definition approval_new :: "approval_policy \<Rightarrow> approval" where
  "approval_new p = \<lparr>av_default_policy = p, av_states = Map.empty\<rparr>"

definition state_not_initialized :: error where
  "state_not_initialized = Stopped ''approval state is not initialized''"

definition approval_widget :: "approval_policy \<Rightarrow> string \<times> frontend_tone" where
  "approval_widget p = ((case p of
      PolicyAsk \<Rightarrow> ''approval ASK'' | PolicyAllow \<Rightarrow> ''approval ALLOW''
    | PolicyAllowNetwork \<Rightarrow> ''approval NETWORK'' | PolicyFullAccess \<Rightarrow> ''approval FULL''),
    if p = PolicyAsk then Neutral else WarningTone)"

definition session_start :: "approval \<Rightarrow> string \<Rightarrow> approval" where
  "session_start self session = self\<lparr>av_states := (av_states self)(session \<mapsto> [])\<rparr>"

definition session_end :: "approval \<Rightarrow> string \<Rightarrow> approval" where
  "session_end self session = self\<lparr>av_states := (av_states self)(session := None)\<rparr>"

text \<open>\<open>calls_by_id\<close>: of calls with one id the map keeps the last.\<close>

definition calls_by_id :: "tool_call list \<Rightarrow> string \<Rightarrow> tool_call option" where
  "calls_by_id calls i = map_of (rev (map (\<lambda>c. (tc_call_id c, c)) calls)) i"

definition authorize_call ::
    "key_fn \<Rightarrow> approval_policy \<Rightarrow> string list \<Rightarrow> string \<Rightarrow> tool_call list
      \<Rightarrow> string list \<times> string list \<Rightarrow> string \<Rightarrow> (string list \<times> string list) res" where
  "authorize_call key policy approved_for_session session calls acc call_id =
     (case acc of (approved, requested) \<Rightarrow> (case calls_by_id calls call_id of
        None \<Rightarrow> Inl (Tool (''unknown mutation call `'' @ call_id @ ''`''))
      | Some call \<Rightarrow>
          (if policy \<noteq> PolicyAsk then Inr (approved @ [tc_call_id call], requested)
           else res_bind (key session call) (\<lambda>k.
             if k \<in> set approved_for_session then Inr (approved @ [tc_call_id call], requested)
             else Inr (approved, requested @ [tc_call_id call])))))"

definition authorize ::
    "key_fn \<Rightarrow> string \<Rightarrow> approval \<Rightarrow> string \<Rightarrow> tool_call list \<Rightarrow> string list \<Rightarrow> sandbox_authorization res" where
  "authorize key uuid self session calls mutation_call_ids = (case av_states self session of
      None \<Rightarrow> Inl state_not_initialized
    | Some approved_for_session \<Rightarrow>
        (let policy = av_default_policy self in
         res_bind (fold_res (authorize_call key policy approved_for_session session calls) ([], []) mutation_call_ids)
           (\<lambda>(approved, requested).
             let permissions = permissions_new session (policy_sandbox_mode policy) (policy_network_access policy) approved
             in if requested = [] then Inr (Execute permissions)
                else Inr (NeedsApproval \<lparr>sar_id = uuid, sar_reason = ''one or more tools require approval'',
                  sar_call_ids = requested\<rparr> permissions))))"

definition remember :: "string list \<Rightarrow> string \<Rightarrow> string list" where
  "remember approved k = insort_insert k (if MAX_SESSION_APPROVALS \<le> length approved then [] else approved)"

definition is_approval :: "review_decision \<Rightarrow> bool" where
  "is_approval d = (case d of Approved \<Rightarrow> True | ApprovedForSession \<Rightarrow> True | _ \<Rightarrow> False)"

definition resolve ::
    "key_fn \<Rightarrow> approval \<Rightarrow> string \<Rightarrow> tool_call list \<Rightarrow> string list \<Rightarrow> review_decision \<Rightarrow> sandbox_permissions
      \<Rightarrow> approval \<times> sandbox_permissions res" where
  "resolve key self session calls approval_call_ids decision permissions =
     (if \<not> is_approval decision then (self, Inr permissions)
      else let permissions = allow_mutations permissions approval_call_ids in
        if decision \<noteq> ApprovedForSession then (self, Inr permissions)
        else (case map_res (key session) (List.map_filter (calls_by_id calls) approval_call_ids) of
            Inl e \<Rightarrow> (self, Inl e)
          | Inr keys \<Rightarrow> (case av_states self session of
                None \<Rightarrow> (self, Inl state_not_initialized)
              | Some approved \<Rightarrow>
                  (self\<lparr>av_states := (av_states self)(session \<mapsto> foldl remember approved keys)\<rparr>, Inr permissions))))"

subsection \<open>Histories\<close>

text \<open>
  The operations that change the state, in the order they happen, and the specification of what a
  session has approved: the tool names and arguments of the calls a reviewer approved for the session
  since it started.
\<close>

datatype approval_op =
    StartSession string
  | EndSession string
  | Review string "tool_call list" "string list" review_decision sandbox_permissions

fun approval_step :: "key_fn \<Rightarrow> approval \<Rightarrow> approval_op \<Rightarrow> approval" where
  "approval_step key self (StartSession session) = session_start self session"
| "approval_step key self (EndSession session) = session_end self session"
| "approval_step key self (Review session calls ids decision permissions) =
     fst (resolve key self session calls ids decision permissions)"

definition approval_run :: "key_fn \<Rightarrow> approval_policy \<Rightarrow> approval_op list \<Rightarrow> approval" where
  "approval_run key policy ops = foldl (approval_step key) (approval_new policy) ops"

fun grant_step :: "string \<Rightarrow> (string \<times> json) set \<Rightarrow> approval_op \<Rightarrow> (string \<times> json) set" where
  "grant_step session granted (StartSession s) = (if s = session then {} else granted)"
| "grant_step session granted (EndSession s) = (if s = session then {} else granted)"
| "grant_step session granted (Review s calls ids decision permissions) =
     (if s = session \<and> decision = ApprovedForSession
      then granted \<union> {(tc_name c, tc_arguments c) | i c. i \<in> set ids \<and> calls_by_id calls i = Some c}
      else granted)"

definition session_grants :: "string \<Rightarrow> approval_op list \<Rightarrow> (string \<times> json) set" where
  "session_grants session ops = foldl (grant_step session) {} ops"

text \<open>What the digest is trusted for: it identifies the session, the tool and the arguments.\<close>

definition digest_law :: "key_fn \<Rightarrow> bool" where
  "digest_law key \<longleftrightarrow> (\<forall>s c s' c' k. key s c = Inr k \<longrightarrow> key s' c' = Inr k \<longrightarrow>
     s = s' \<and> tc_name c = tc_name c' \<and> tc_arguments c = tc_arguments c')"

definition remembered_ok :: "key_fn \<Rightarrow> string \<Rightarrow> (string \<times> json) set \<Rightarrow> string list \<Rightarrow> bool" where
  "remembered_ok key session granted ks \<longleftrightarrow> length ks \<le> MAX_SESSION_APPROVALS \<and> sorted ks \<and> distinct ks
     \<and> (\<forall>k \<in> set ks. \<exists>c. key session c = Inr k \<and> (tc_name c, tc_arguments c) \<in> granted)"

lemma remembered_ok_mono: "remembered_ok key s G ks \<Longrightarrow> G \<subseteq> H \<Longrightarrow> remembered_ok key s H ks"
  unfolding remembered_ok_def by blast

lemma length_insort_insert: "length (insort_insert k ks) \<le> Suc (length ks)"
  by (simp add: insort_insert_key_def)

lemma remember_ok:
  assumes "remembered_ok key s G ks" "key s c = Inr k" "(tc_name c, tc_arguments c) \<in> G"
  shows "remembered_ok key s G (remember ks k)"
  using assms length_insort_insert [of k ks]
  by (auto simp: remembered_ok_def remember_def MAX_SESSION_APPROVALS_def set_insort_insert sorted_insort_insert
      distinct_insort_insert insort_insert_key_def sorted_insort distinct_insort set_insort_key split: if_splits)

lemma foldl_remember_ok:
  "remembered_ok key s G ks \<Longrightarrow> \<forall>c \<in> set cs. (tc_name c, tc_arguments c) \<in> G \<Longrightarrow> map_res (key s) cs = Inr new \<Longrightarrow>
    remembered_ok key s G (foldl remember ks new)"
proof (induction cs arbitrary: ks new)
  case (Cons c cs)
  then obtain k new' where "key s c = Inr k" "map_res (key s) cs = Inr new'" "new = k # new'"
    by (auto simp: res_bind_Inr_iff)
  with Cons remember_ok [of key s G ks c k] show ?case by simp
qed simp

lemma set_map_filter: "set (List.map_filter f xs) = {y. \<exists>x \<in> set xs. f x = Some y}"
  by (force simp: List.map_filter_def)

lemma resolve_states:
  "fst (resolve key self s calls ids d p) = self \<or>
   (\<exists>ks new. d = ApprovedForSession \<and> av_states self s = Some ks
     \<and> map_res (key s) (List.map_filter (calls_by_id calls) ids) = Inr new
     \<and> fst (resolve key self s calls ids d p) = self\<lparr>av_states := (av_states self)(s \<mapsto> foldl remember ks new)\<rparr>)"
  by (auto simp: resolve_def Let_def split: sum.splits option.splits)

definition approval_inv :: "key_fn \<Rightarrow> approval_policy \<Rightarrow> (string \<Rightarrow> (string \<times> json) set) \<Rightarrow> approval \<Rightarrow> bool" where
  "approval_inv key policy G self \<longleftrightarrow> av_default_policy self = policy
     \<and> (\<forall>s ks. av_states self s = Some ks \<longrightarrow> remembered_ok key s (G s) ks)"

lemma approval_step_inv [mobius_inv]:
  assumes "approval_inv key policy G self"
  shows "approval_inv key policy (\<lambda>s. grant_step s (G s) a) (approval_step key self a)"
proof (cases a)
  case (StartSession t)
  with assms show ?thesis
    by (auto simp: approval_inv_def session_start_def remembered_ok_def)
next
  case (EndSession t)
  with assms show ?thesis by (auto simp: approval_inv_def session_end_def)
next
  case (Review t calls ids d p)
  let ?G = "\<lambda>s. grant_step s (G s) a"
  have mono: "G s \<subseteq> ?G s" for s using Review by auto
  have kept: "remembered_ok key s (?G s) ks'" if "av_states self s = Some ks'" for s ks'
    using assms that mono [of s] remembered_ok_mono unfolding approval_inv_def by blast
  have policy: "av_default_policy self = policy" using assms by (simp add: approval_inv_def)
  from resolve_states [of key self t calls ids d p] show ?thesis
  proof (elim disjE exE conjE)
    assume "fst (resolve key self t calls ids d p) = self"
    then have "approval_step key self a = self" using Review by simp
    then show ?thesis unfolding approval_inv_def using kept policy by simp
  next
    fix ks new
    assume d: "d = ApprovedForSession" and ks: "av_states self t = Some ks"
      and new: "map_res (key t) (List.map_filter (calls_by_id calls) ids) = Inr new"
      and st: "fst (resolve key self t calls ids d p) = self\<lparr>av_states := (av_states self)(t \<mapsto> foldl remember ks new)\<rparr>"
    have "\<forall>c \<in> set (List.map_filter (calls_by_id calls) ids). (tc_name c, tc_arguments c) \<in> ?G t"
      using Review d by (auto simp: set_map_filter)
    then have "remembered_ok key t (?G t) (foldl remember ks new)" using foldl_remember_ok kept [OF ks] new by blast
    moreover have "approval_step key self a = self\<lparr>av_states := (av_states self)(t \<mapsto> foldl remember ks new)\<rparr>"
      using st Review by simp
    ultimately show ?thesis unfolding approval_inv_def using kept policy by simp
  qed
qed

lemma approval_run_inv: "approval_inv key policy (\<lambda>s. session_grants s ops) (approval_run key policy ops)"
proof (induction ops rule: rev_induct)
  case Nil
  then show ?case by (simp add: approval_inv_def approval_run_def approval_new_def)
next
  case (snoc a ops)
  from approval_step_inv [OF snoc, of a] show ?case by (simp add: approval_run_def session_grants_def)
qed

subsection \<open>What authorization grants\<close>

lemma calls_by_id_id: "calls_by_id calls i = Some c \<Longrightarrow> tc_call_id c = i \<and> c \<in> set calls"
  by (auto simp: calls_by_id_def dest!: map_of_SomeD)

definition may_run :: "key_fn \<Rightarrow> approval_policy \<Rightarrow> string list \<Rightarrow> string \<Rightarrow> tool_call list \<Rightarrow> string \<Rightarrow> bool" where
  "may_run key policy ks session calls i \<longleftrightarrow> (\<exists>c. calls_by_id calls i = Some c
     \<and> (policy \<noteq> PolicyAsk \<or> (\<exists>k. key session c = Inr k \<and> k \<in> set ks)))"

lemma fold_authorize:
  "fold_res (authorize_call key policy ks session calls) (a, r) ids = Inr (a', r') \<Longrightarrow>
    set a' = set a \<union> {i \<in> set ids. may_run key policy ks session calls i}
    \<and> set r' = set r \<union> {i \<in> set ids. \<not> may_run key policy ks session calls i}"
proof (induction ids arbitrary: a r)
  case (Cons i ids)
  then obtain c where c: "calls_by_id calls i = Some c"
    by (auto simp: authorize_call_def split: option.splits)
  note id = calls_by_id_id [OF c, THEN conjunct1]
  show ?case
  proof (cases "may_run key policy ks session calls i")
    case True
    with c id have "authorize_call key policy ks session calls (a, r) i = Inr (a @ [i], r)"
      by (auto simp: authorize_call_def may_run_def)
    with Cons.prems Cons.IH [of "a @ [i]" r] True show ?thesis by auto
  next
    case False
    with c id Cons.prems obtain k where "authorize_call key policy ks session calls (a, r) i = Inr (a, r @ [i])"
      by (auto simp: authorize_call_def may_run_def res_bind_Inr_iff split: if_splits)
    with Cons.prems Cons.IH [of a "r @ [i]"] False show ?thesis by auto
  qed
qed simp

lemma set_allow_mutations: "set (sp_mutation_call_ids (allow_mutations p ids)) = set (sp_mutation_call_ids p) \<union> set ids"
proof -
  have "set (foldl (\<lambda>s i. insort_insert i s) xs ids) = set xs \<union> set ids" for xs :: "string list"
    by (induction ids arbitrary: xs) (auto simp: set_insort_insert)
  then show ?thesis by (simp add: allow_mutations_def)
qed

fun authorized :: "sandbox_authorization \<Rightarrow> sandbox_permissions" where
  "authorized (Execute p) = p"
| "authorized (NeedsApproval r p) = p"

fun asked :: "sandbox_authorization \<Rightarrow> string list" where
  "asked (Execute p) = []"
| "asked (NeedsApproval r p) = sar_call_ids r"

lemma authorize_grants:
  assumes "authorize key uuid self session calls ids = Inr auth"
  shows "\<exists>ks. av_states self session = Some ks
    \<and> set (sp_mutation_call_ids (authorized auth)) = {i \<in> set ids. may_run key (av_default_policy self) ks session calls i}
    \<and> set (asked auth) = {i \<in> set ids. \<not> may_run key (av_default_policy self) ks session calls i}"
proof -
  from assms obtain ks a r where ks: "av_states self session = Some ks"
    and f: "fold_res (authorize_call key (av_default_policy self) ks session calls) ([], []) ids = Inr (a, r)"
    by (auto simp: authorize_def Let_def res_bind_Inr_iff split: option.splits)
  with assms have "set (sp_mutation_call_ids (authorized auth)) = set a \<and> set (asked auth) = set r"
    by (auto simp: authorize_def permissions_new_def Let_def split: if_splits)
  with fold_authorize [OF f] ks show ?thesis by auto
qed

lemma resolve_grants:
  assumes "resolve key self session calls ids d p = (self', Inr p')"
  shows "set (sp_mutation_call_ids p') = set (sp_mutation_call_ids p) \<union> (if is_approval d then set ids else {})"
  using assms
  by (auto simp: resolve_def Let_def set_allow_mutations split: if_splits sum.splits option.splits)

subsection \<open>Properties\<close>

definition sample_call :: tool_call where
  "sample_call = \<lparr>tc_call_id = ''c1'', tc_name = ''write_file'', tc_arguments = JObject []\<rparr>"

definition sample_key :: key_fn where
  "sample_key session c = (if session = ''s'' \<and> tc_name c = ''write_file'' \<and> tc_arguments c = JObject [] then Inr ''k''
     else Inl (JsonErr ''digest''))"

definition sample_history :: "approval_op list" where
  "sample_history = [StartSession ''s'', Review ''s'' [sample_call] [''c1''] ApprovedForSession
     (permissions_new ''s'' WorkspaceWrite NetAllowed [])]"



text \<open>The approvals remembered for a session are bounded and orderly in every history: at most 64
  digests, without repetition, and the policy is the one the sandbox was created with.\<close>

lemma remembered_approvals_bounded:
  "av_default_policy (approval_run key policy ops) = policy
    \<and> (case av_states (approval_run key policy ops) session of
         None \<Rightarrow> True
       | Some ks \<Rightarrow> length ks \<le> MAX_SESSION_APPROVALS \<and> sorted ks \<and> distinct ks)"
  using approval_run_inv [of key policy ops]
  by (auto simp: approval_inv_def remembered_ok_def split: option.splits)

end
