(* ===== verification/Catalog.thy ===== *)
theory Catalog
  imports Approval Arguments Tool_Output
begin

text \<open>
  The tool registry and dispatch of \<open>src/middleware/tools.rs\<close>: registration and finalization of the
  catalog, its revision, the tool set prepared for one model step, binding of model-produced calls,
  discovery of deferred tools and the execution of a batch.  A \<open>BTreeSet\<close> of names is its ascending
  list; the registry is the list of its entries in ascending order of their names.  Third-party code
  enters through the record \<open>tool_env\<close>: the JSON reader and printer, the text of a decoding error,
  SHA-256 and the BM25 ranking.  A tool handler is a function of its context and arguments; besides its
  outcome (\<open>None\<close> when it panics) it leaves model input and the usage it reported.
\<close>

record tool_env =
  tn_reader :: json_reader
  tn_print :: "json \<Rightarrow> string"
  tn_decode_error :: "json \<Rightarrow> string"
  tn_sha256 :: "string \<Rightarrow> string"
  tn_rank :: "string list \<Rightarrow> string \<Rightarrow> nat \<Rightarrow> nat list"

subsection \<open>Definitions and registered tools\<close>

definition TOOLS_SEARCH_NAME :: string where "TOOLS_SEARCH_NAME = ''tools_search''"
definition INVALID_TOOL_ARGUMENTS :: string where "INVALID_TOOL_ARGUMENTS = ''mobius_invalid_arguments''"
definition MAX_TOOL_SEARCH_QUERY_BYTES :: nat where "MAX_TOOL_SEARCH_QUERY_BYTES = 512"
definition MAX_TOOL_SEARCH_RESULTS :: nat where "MAX_TOOL_SEARCH_RESULTS = 8"

record tool_definition =
  td_name :: string
  td_description :: string
  td_parameters :: json

definition definition_validate :: "tool_definition \<Rightarrow> unit res" where
  "definition_validate d = res_bind (validate_identifier ''tool name'' (td_name d) MAX_TOOL_NAME_BYTES) (\<lambda>_.
     if is_object (td_parameters d) then Inr ()
     else Inl (Config (''tool `'' @ td_name d @ ''` parameters must be a JSON object'')))"

datatype tool_exposure = Direct | Deferred | Hidden
datatype execution_mode = Parallel | Exclusive
datatype approval_requirement = Never | Always

record tool_context =
  xc_call_id :: string
  xc_author :: message_author
  xc_permissions :: tool_permissions
  xc_turn_id :: string
  xc_model_route :: string

record tool_response =
  tr_content :: tool_content
  tr_is_error :: bool

record handler_outcome =
  ho_result :: "tool_response res option"
  ho_input :: "json list"
  ho_usage :: "token_usage option"

record tool =
  tl_definition :: tool_definition
  tl_exposure :: tool_exposure
  tl_execution_mode :: execution_mode
  tl_approval :: approval_requirement
  tl_cancel_on_input :: bool
  tl_read_only :: bool
  tl_call :: "tool_context \<Rightarrow> json \<Rightarrow> handler_outcome"

datatype registered_handler = ToolHandler tool | SearchHandler

record registered_tool =
  rt_definition :: tool_definition
  rt_exposure :: tool_exposure
  rt_execution_mode :: execution_mode
  rt_approval :: approval_requirement
  rt_cancel_on_input :: bool
  rt_read_only :: bool
  rt_handler :: registered_handler

abbreviation rt_name :: "registered_tool \<Rightarrow> string" where
  "rt_name t \<equiv> td_name (rt_definition t)"

record catalog =
  ct_tools :: "registered_tool list"
  ct_registered_definitions :: "tool_definition list"
  ct_direct_definitions :: "tool_definition list"
  ct_deferred_definitions :: "tool_definition list"
  ct_revision :: string
  ct_finalized :: bool

definition catalog_default :: catalog where
  "catalog_default = \<lparr>ct_tools = [], ct_registered_definitions = [], ct_direct_definitions = [],
     ct_deferred_definitions = [], ct_revision = [], ct_finalized = False\<rparr>"

subsection \<open>Registration\<close>

definition catalog_get :: "catalog \<Rightarrow> string \<Rightarrow> registered_tool option" where
  "catalog_get self name = find (\<lambda>t. rt_name t = name) (ct_tools self)"

definition refresh_definitions :: "catalog \<Rightarrow> catalog" where
  "refresh_definitions self = self\<lparr>
     ct_registered_definitions := map rt_definition (ct_tools self),
     ct_direct_definitions := map rt_definition (filter (\<lambda>t. rt_exposure t = Direct) (ct_tools self)),
     ct_deferred_definitions := map rt_definition (filter (\<lambda>t. rt_exposure t = Deferred) (ct_tools self))\<rparr>"

definition catalog_insert :: "catalog \<Rightarrow> registered_tool \<Rightarrow> catalog \<times> unit res" where
  "catalog_insert self entry = (case catalog_get self (rt_name entry) of
      Some existing \<Rightarrow> (self, Inl (Duplicate (''tool `'' @ rt_name existing @ ''`'')))
    | None \<Rightarrow> (refresh_definitions (self\<lparr>ct_tools := insort_key rt_name entry (ct_tools self)\<rparr>), Inr ()))"

definition already_finalized :: error where
  "already_finalized = Config ''tool catalog is already finalized''"

definition register :: "catalog \<Rightarrow> tool \<Rightarrow> catalog \<times> unit res" where
  "register self tool =
     (if ct_finalized self then (self, Inl already_finalized)
      else (case definition_validate (tl_definition tool) of
          Inl e \<Rightarrow> (self, Inl e)
        | Inr _ \<Rightarrow>
            (if td_name (tl_definition tool) = TOOLS_SEARCH_NAME
             then (self, Inl (Config (''tool name `'' @ TOOLS_SEARCH_NAME @ ''` is reserved'')))
             else catalog_insert self \<lparr>rt_definition = tl_definition tool, rt_exposure = tl_exposure tool,
               rt_execution_mode = tl_execution_mode tool, rt_approval = tl_approval tool,
               rt_cancel_on_input = tl_cancel_on_input tool, rt_read_only = tl_read_only tool,
               rt_handler = ToolHandler tool\<rparr>)))"

text \<open>The embedded definition of \<open>tools.toml\<close>, with the length limit that \<open>limit_search\<close> inserts.\<close>

definition tools_search_definition :: tool_definition where
  "tools_search_definition = \<lparr>td_name = TOOLS_SEARCH_NAME,
     td_description = ''Find currently available tools by name or description and load matching tools for this session. Optional capability tools are deferred; a discovered tool becomes callable on the following model step. Tool availability can change; an unavailable result is authoritative, so search again when needed.'',
     td_parameters = JObject [(''type'', JString ''object''), (''required'', JArray [JString ''query'']),
       (''additionalProperties'', JBool False), (''properties'', JObject [(''query'', JObject
         [(''type'', JString ''string''), (''minLength'', JNumber (PosInt 1)),
          (''maxLength'', JNumber (PosInt MAX_TOOL_SEARCH_QUERY_BYTES))])])]\<rparr>"

definition register_search :: "catalog \<Rightarrow> catalog \<times> unit res" where
  "register_search self =
     (if ct_finalized self then (self, Inl already_finalized)
      else (case definition_validate tools_search_definition of
          Inl e \<Rightarrow> (self, Inl e)
        | Inr _ \<Rightarrow> catalog_insert self \<lparr>rt_definition = tools_search_definition, rt_exposure = Direct,
            rt_execution_mode = Exclusive, rt_approval = Never, rt_cancel_on_input = False, rt_read_only = True,
            rt_handler = SearchHandler\<rparr>))"

text \<open>\<open>Tools::register\<close>: every tool of the list, then the discovery tool.\<close>

fun register_all :: "catalog \<Rightarrow> tool list \<Rightarrow> catalog \<times> unit res" where
  "register_all self [] = register_search self"
| "register_all self (t # ts) = (case register self t of
      (self', Inl e) \<Rightarrow> (self', Inl e)
    | (self', Inr _) \<Rightarrow> register_all self' ts)"

subsection \<open>Revision\<close>

text \<open>\<open>u64::to_le_bytes\<close>\<close>

definition le_bytes :: "nat \<Rightarrow> string" where
  "le_bytes n = map (\<lambda>i. char_of (n div 256 ^ i mod 256)) [0..<8]"

definition hash_field :: "string \<Rightarrow> string" where
  "hash_field v = le_bytes (length v) @ v"

definition exposure_byte :: "tool_exposure \<Rightarrow> char" where
  "exposure_byte x = (case x of Direct \<Rightarrow> CHR 0x00 | Deferred \<Rightarrow> CHR 0x01 | Hidden \<Rightarrow> CHR 0x02)"

definition tool_fingerprint :: "tool_env \<Rightarrow> registered_tool \<Rightarrow> string" where
  "tool_fingerprint env t = [exposure_byte (rt_exposure t)] @ hash_field (rt_name t)
     @ hash_field (td_description (rt_definition t)) @ hash_field (tn_print env (td_parameters (rt_definition t)))"

definition catalog_revision :: "tool_env \<Rightarrow> registered_tool list \<Rightarrow> string" where
  "catalog_revision env tools = tn_sha256 env (concat (map (tool_fingerprint env) tools))"

definition finalize :: "tool_env \<Rightarrow> catalog \<Rightarrow> catalog \<times> unit res" where
  "finalize env self =
     (if ct_finalized self then (self, Inl already_finalized)
      else (let has_deferred = ct_deferred_definitions self \<noteq> [];
                has_search = catalog_get self TOOLS_SEARCH_NAME \<noteq> None in
        if has_deferred \<and> \<not> has_search
        then (self, Inl (Config ''deferred tools require an owning tools_search middleware''))
        else (let self = (if \<not> has_deferred \<and> has_search
                    then refresh_definitions (self\<lparr>ct_tools :=
                      filter (\<lambda>t. rt_name t \<noteq> TOOLS_SEARCH_NAME) (ct_tools self)\<rparr>)
                    else self)
              in (self\<lparr>ct_revision := catalog_revision env (ct_tools self), ct_finalized := True\<rparr>, Inr ()))))"

definition revision :: "catalog \<Rightarrow> string res" where
  "revision self = (if ct_finalized self then Inr (ct_revision self)
     else Inl (Config ''tool catalog must be finalized before reading its revision''))"

definition exposed_names :: "catalog \<Rightarrow> string list" where
  "exposed_names self = sort (remdups (map td_name (ct_direct_definitions self @ ct_deferred_definitions self)))"

subsection \<open>Loaded tools\<close>

record tool_load =
  ld_catalog_revision :: string
  ld_tools :: "string list"

definition load_to_input :: "tool_load \<Rightarrow> json" where
  "load_to_input l = JObject [(''type'', JString TOOL_LOAD_MARKER), (''catalog_revision'', JString (ld_catalog_revision l)),
     (''tools'', JArray (map JString (ld_tools l))), (INTERNAL_MESSAGE_FIELD, JString TOOL_LOAD_MARKER)]"

text \<open>The derived decoder of the two fields.\<close>

definition decode_load :: "tool_env \<Rightarrow> json \<Rightarrow> tool_load res" where
  "decode_load env input = (case (get_str ''catalog_revision'' input, get_array ''tools'' input) of
      (Some rv, Some items) \<Rightarrow>
        (if list_all (\<lambda>v. as_str v \<noteq> None) items
         then Inr \<lparr>ld_catalog_revision = rv, ld_tools = List.map_filter as_str items\<rparr>
         else Inl (JsonErr (tn_decode_error env input)))
    | _ \<Rightarrow> Inl (JsonErr (tn_decode_error env input)))"

fun loaded_names_ok :: "string list \<Rightarrow> string list \<Rightarrow> bool" where
  "loaded_names_ok seen [] = True"
| "loaded_names_ok seen (n # ns) =
     (\<not> (blank n \<or> MAX_TOOL_NAME_BYTES < length n \<or> n \<in> set seen) \<and> loaded_names_ok (n # seen) ns)"

definition load_from_input :: "tool_env \<Rightarrow> json \<Rightarrow> tool_load option res" where
  "load_from_input env input =
     (if get_str ''type'' input \<noteq> Some TOOL_LOAD_MARKER then Inr None
      else res_bind (decode_load env input) (\<lambda>l.
        if blank (ld_catalog_revision l) \<or> ld_tools l = []
        then Inl (CheckpointErr ''invalid tool-load control item'')
        else if \<not> loaded_names_ok [] (ld_tools l) then Inl (CheckpointErr ''invalid loaded tool name'')
        else Inr (Some l)))"

definition extend_names :: "string list \<Rightarrow> string list \<Rightarrow> string list" where
  "extend_names names new = foldl (\<lambda>s n. insort_insert n s) names new"

definition load_item :: "tool_env \<Rightarrow> string \<Rightarrow> string list \<Rightarrow> string list \<Rightarrow> json \<Rightarrow> string list res" where
  "load_item env rv searchable loaded item = res_bind (load_from_input env item) (\<lambda>selection.
     case selection of
       None \<Rightarrow> Inr loaded
     | Some l \<Rightarrow> (if ld_catalog_revision l = rv
         then Inr (extend_names loaded (filter (\<lambda>n. n \<in> set searchable) (ld_tools l))) else Inr loaded))"

definition loaded_tools :: "tool_env \<Rightarrow> json list \<Rightarrow> string \<Rightarrow> string list \<Rightarrow> string list res" where
  "loaded_tools env input rv searchable = fold_res (load_item env rv searchable) [] input"

record tool_effects =
  fx_input :: "json list"
  fx_events :: "event_msg list"

definition materialization_effects :: "string \<Rightarrow> string list \<Rightarrow> string \<Rightarrow> string \<Rightarrow> tool_effects" where
  "materialization_effects rv tools turn_id load_id =
     (if tools = [] then \<lparr>fx_input = [], fx_events = []\<rparr>
      else \<lparr>fx_input = [load_to_input \<lparr>ld_catalog_revision = rv, ld_tools = tools\<rparr>],
            fx_events = [ToolLoadMsg \<lparr>tl_turn_id = turn_id, tl_load_id = load_id, tl_catalog_revision = rv,
              tl_tools = tools\<rparr>]\<rparr>)"

subsection \<open>The tool set of one model step\<close>

record prepared_tool_set =
  ps_direct :: "tool_definition list"
  ps_deferred :: "tool_definition list"
  ps_available :: "string list"
  ps_searchable :: "string list"
  ps_materialized :: "string list"
  ps_catalog_revision :: string

definition available_definitions :: "tool_definition list \<Rightarrow> string list \<Rightarrow> tool_definition list" where
  "available_definitions definitions available =
     (if list_all (\<lambda>t. td_name t \<in> set available) definitions then definitions
      else filter (\<lambda>t. td_name t \<in> set available) definitions)"

definition prepare_tools :: "tool_env \<Rightarrow> catalog \<Rightarrow> json list \<Rightarrow> string list \<Rightarrow> prepared_tool_set res" where
  "prepare_tools env self input available =
     (let deferred = available_definitions (ct_deferred_definitions self) available;
          searchable = sort (remdups (map td_name deferred));
          available = (if searchable = [] then removeAll TOOLS_SEARCH_NAME available else available)
      in res_bind (revision self) (\<lambda>rv.
         res_bind (loaded_tools env input rv searchable) (\<lambda>materialized.
           Inr \<lparr>ps_direct = available_definitions (ct_direct_definitions self) available, ps_deferred = deferred,
             ps_available = available, ps_searchable = searchable, ps_materialized = materialized,
             ps_catalog_revision = rv\<rparr>)))"

definition require_available :: "prepared_tool_set \<Rightarrow> string \<Rightarrow> unit res" where
  "require_available self name = (if name \<in> set (ps_available self) then Inr ()
     else Inl (Tool (''tool `'' @ name @ ''` is unavailable for this model step'')))"

definition accept_materialized ::
    "prepared_tool_set \<Rightarrow> string list \<Rightarrow> string \<Rightarrow> string \<Rightarrow> prepared_tool_set \<times> tool_effects res" where
  "accept_materialized self tools turn_id load_id =
     (if \<not> set tools \<subseteq> set (ps_searchable self)
      then (self, Inl (Provider (provider_error_new ''provider materialized a tool outside the searchable catalog'')))
      else (self\<lparr>ps_materialized := extend_names (ps_materialized self) tools\<rparr>,
            Inr (materialization_effects (ps_catalog_revision self) tools turn_id load_id)))"

subsection \<open>Binding calls\<close>

record tool_binding =
  tb_repaired :: bool
  tb_search_scope :: "string list option"

record bound_tool_call =
  bt_call :: tool_call
  bt_search_scope :: "string list option"

definition bind_to :: "tool_binding \<Rightarrow> tool_call \<Rightarrow> bound_tool_call" where
  "bind_to b call = \<lparr>bt_call = call, bt_search_scope = tb_search_scope b\<rparr>"

definition validate_call :: "tool_env \<Rightarrow> catalog \<Rightarrow> tool_call \<Rightarrow> string list \<Rightarrow> string list \<Rightarrow> registered_tool res" where
  "validate_call env self call materialized searchable =
     (if \<not> ct_finalized self then Inl (Config ''tool catalog must be finalized before binding calls'')
      else (case json_get INVALID_TOOL_ARGUMENTS (tc_arguments call) of
          Some e \<Rightarrow> Inl (Tool (''tool `'' @ tc_name call @ ''` arguments were not a valid JSON object ('' @ tn_print env e
            @ ''); resend the call with a JSON object''))
        | None \<Rightarrow> (case catalog_get self (tc_name call) of
              None \<Rightarrow> Inl (Tool (''unknown tool `'' @ tc_name call @ ''`''))
            | Some tool \<Rightarrow> (case rt_exposure tool of
                  Direct \<Rightarrow> Inr tool
                | Deferred \<Rightarrow>
                    (if tc_name call \<notin> set searchable
                     then Inl (Tool (''tool `'' @ tc_name call @ ''` is not available for this model step''))
                     else if tc_name call \<in> set materialized then Inr tool
                     else Inl (Tool (''tool `'' @ tc_name call @ ''` was not materialized for this model step'')))
                | Hidden \<Rightarrow> Inl (Tool (''tool `'' @ tc_name call @ ''` is hidden from the model''))))))"

text \<open>\<open>binding\<close> normalizes the call in place; the call is returned with the binding or the error.\<close>

definition binding ::
    "tool_env \<Rightarrow> catalog \<Rightarrow> tool_call \<Rightarrow> string list \<Rightarrow> string list \<Rightarrow> tool_call \<times> tool_binding res" where
  "binding env self call materialized searchable = (case validate_call env self call materialized searchable of
      Inl e \<Rightarrow> (call, Inl e)
    | Inr tool \<Rightarrow> (case normalize (tn_reader env) (tc_arguments call) (td_parameters (rt_definition tool)) of
          (arguments, Inl e) \<Rightarrow> (call\<lparr>tc_arguments := arguments\<rparr>,
            Inl (Tool (''tool `'' @ tc_name call @ ''` arguments: '' @ e)))
        | (arguments, Inr repaired) \<Rightarrow> (call\<lparr>tc_arguments := arguments\<rparr>, Inr \<lparr>tb_repaired = repaired,
            tb_search_scope = (case rt_handler tool of SearchHandler \<Rightarrow> Some searchable | _ \<Rightarrow> None)\<rparr>)))"

definition bind_in_place :: "tool_env \<Rightarrow> catalog \<Rightarrow> tool_call \<Rightarrow> prepared_tool_set \<Rightarrow> tool_call \<times> tool_binding res" where
  "bind_in_place env self call tools = (case require_available tools (tc_name call) of
      Inl e \<Rightarrow> (call, Inl e)
    | Inr _ \<Rightarrow> binding env self call (ps_materialized tools) (ps_searchable tools))"

definition bind_call :: "tool_env \<Rightarrow> catalog \<Rightarrow> tool_call \<Rightarrow> string list \<Rightarrow> string list \<Rightarrow> bound_tool_call res" where
  "bind_call env self call materialized searchable = (case binding env self call materialized searchable of
      (call', r) \<Rightarrow> res_bind r (\<lambda>b. Inr (bind_to b call')))"

record tool_result =
  rs_call_id :: string
  rs_name :: string
  rs_output :: tool_content
  rs_is_error :: bool
  rs_usage :: "(string \<times> token_usage) option"
  rs_handler_executed :: bool
  rs_additional_input :: "json list"
  rs_events :: "event_msg list"
  rs_output_limit :: nat

definition result_failure :: "string \<Rightarrow> string \<Rightarrow> string \<Rightarrow> bool \<Rightarrow> nat \<Rightarrow> tool_result" where
  "result_failure call_id name output handler_executed limit = \<lparr>rs_call_id = call_id, rs_name = name,
     rs_output = content_of_text (capped output limit), rs_is_error = True, rs_usage = None,
     rs_handler_executed = handler_executed, rs_additional_input = [], rs_events = [], rs_output_limit = limit\<rparr>"

definition result_error :: "tool_call \<Rightarrow> string \<Rightarrow> nat \<Rightarrow> tool_result" where
  "result_error call output limit = result_failure (tc_call_id call) (tc_name call) output False limit"

definition result_replace :: "tool_result \<Rightarrow> string \<Rightarrow> tool_result" where
  "result_replace r output = r\<lparr>rs_output := content_of_text (capped output (rs_output_limit r))\<rparr>"

definition with_usage :: "tool_result \<Rightarrow> token_usage option \<Rightarrow> string \<Rightarrow> tool_result" where
  "with_usage r usage route = r\<lparr>rs_usage := map_option (\<lambda>u. (route, u)) usage\<rparr>"

text \<open>
  \<open>bind_batch\<close> with a stateful \<open>bind\<close>: the bound calls, the calls they came from, and an error result
  for every call that was rejected.
\<close>

fun bind_batch ::
    "('s \<Rightarrow> tool_call \<Rightarrow> 's \<times> tool_call \<times> tool_binding res) \<Rightarrow> 's \<Rightarrow> nat \<Rightarrow> tool_call list
      \<Rightarrow> bound_tool_call list \<times> tool_call list \<times> tool_result list" where
  "bind_batch bind s limit [] = ([], [], [])"
| "bind_batch bind s limit (call # calls) = (case bind s call of
      (s', owned, r) \<Rightarrow> (case bind_batch bind s' limit calls of
          (bound, callable, rejected) \<Rightarrow> (case r of
              Inr b \<Rightarrow> (bind_to b owned # bound, call # callable, rejected)
            | Inl e \<Rightarrow> (bound, callable, result_error call (error_display e) limit # rejected))))"

subsection \<open>Attributes of a call\<close>

definition requires_approval :: "catalog \<Rightarrow> string \<Rightarrow> bool" where
  "requires_approval self name = (case catalog_get self name of Some t \<Rightarrow> rt_approval t = Always | None \<Rightarrow> False)"

definition is_read_only :: "catalog \<Rightarrow> string \<Rightarrow> bool" where
  "is_read_only self name = (case catalog_get self name of Some t \<Rightarrow> rt_read_only t | None \<Rightarrow> False)"

definition cancels_on_input :: "catalog \<Rightarrow> tool_call list \<Rightarrow> bool" where
  "cancels_on_input self calls \<longleftrightarrow> calls \<noteq> []
     \<and> list_all (\<lambda>c. case catalog_get self (tc_name c) of Some t \<Rightarrow> rt_cancel_on_input t | None \<Rightarrow> False) calls"

definition execution_mode_of :: "catalog \<Rightarrow> string \<Rightarrow> execution_mode" where
  "execution_mode_of self name = (case catalog_get self name of Some t \<Rightarrow> rt_execution_mode t | None \<Rightarrow> Exclusive)"

definition is_parallel :: "catalog \<Rightarrow> bound_tool_call \<Rightarrow> bool" where
  "is_parallel self call \<longleftrightarrow> execution_mode_of self (tc_name (bt_call call)) = Parallel"

subsection \<open>Discovery\<close>

text \<open>The parts a text, or a schema with everything below it, appends to the document.\<close>

definition push_search_part :: "string \<Rightarrow> string list" where
  "push_search_part part = (let p = trim part in if p = [] then [] else [p])"

function append_schema_search_text :: "json \<Rightarrow> string list" where
  "append_schema_search_text schema =
     (case get_str ''description'' schema of Some d \<Rightarrow> push_search_part d | None \<Rightarrow> [])
     @ (case json_get ''properties'' schema of
          Some (JObject ps) \<Rightarrow> concat (map (\<lambda>(name, s). push_search_part name @ append_schema_search_text s) ps)
        | _ \<Rightarrow> [])
     @ (case json_get ''items'' schema of Some s \<Rightarrow> append_schema_search_text s | None \<Rightarrow> [])
     @ (case json_get ''anyOf'' schema of
          Some (JArray vs) \<Rightarrow> concat (map append_schema_search_text vs)
        | _ \<Rightarrow> [])"
  by pat_completeness auto
termination
proof (relation "measure size", goal_cases)
  case (2 schema a ps z name s)
  then have "size s \<le> size_list (size_prod (\<lambda>_. 0) size) ps"
    by (intro size_list_estimation' [of "(name, s)"]) auto
  with 2 show ?case using json_get_size [of "''properties''" schema a] by simp
next
  case (4 schema a vs v)
  then show ?case using json_get_size [of "''anyOf''" schema a] array_element_size [of v vs] by simp
qed (auto dest: json_get_size)

declare append_schema_search_text.simps [simp del]

definition tool_search_text :: "tool_definition \<Rightarrow> string" where
  "tool_search_text d = join '' '' (push_search_part (td_name d)
     @ push_search_part (replace_char CHR ''_'' '' '' (td_name d)) @ push_search_part (td_description d)
     @ append_schema_search_text (td_parameters d))"

definition rank_bm25 :: "tool_env \<Rightarrow> string list \<Rightarrow> string \<Rightarrow> nat \<Rightarrow> nat list" where
  "rank_bm25 env documents query limit = (if limit = 0 \<or> documents = [] then [] else tn_rank env documents query limit)"

definition search_deferred :: "tool_env \<Rightarrow> catalog \<Rightarrow> string \<Rightarrow> string list \<Rightarrow> tool_definition list res" where
  "search_deferred env self query searchable =
     (let q = trim query in
      if q = [] then Inl (Tool ''tools_search query cannot be empty'')
      else if MAX_TOOL_SEARCH_QUERY_BYTES < length q
      then Inl (Tool (''tools_search query exceeds '' @ show_nat MAX_TOOL_SEARCH_QUERY_BYTES @ '' bytes''))
      else (let definitions = map rt_definition (filter (\<lambda>t. rt_exposure t = Deferred \<and> rt_name t \<in> set searchable)
                  (ct_tools self)) in
        if definitions = [] then Inr []
        else Inr (List.map_filter (\<lambda>i. if i < length definitions then Some (definitions ! i) else None)
          (rank_bm25 env (map tool_search_text definitions) q MAX_TOOL_SEARCH_RESULTS))))"

record dispatch_output =
  do_content :: tool_response
  do_loaded_tools :: "string list"

definition tools_search :: "tool_env \<Rightarrow> catalog \<Rightarrow> json \<Rightarrow> string list \<Rightarrow> dispatch_output res" where
  "tools_search env self arguments searchable = (case arguments of
      JObject fs \<Rightarrow>
        (if length fs \<noteq> 1 then Inl (Tool ''tools_search accepts only the `query` argument'')
         else (case get_str ''query'' arguments of
             None \<Rightarrow> Inl (Tool ''tools_search requires a string `query`'')
           | Some query \<Rightarrow> res_bind (search_deferred env self query searchable) (\<lambda>definitions.
               let names = map td_name definitions in
               Inr \<lparr>do_content = \<lparr>tr_content = content_of_text (tn_print env
                   (JObject [(''loaded_tools'', JArray (map JString names))])), tr_is_error = False\<rparr>,
                 do_loaded_tools = names\<rparr>)))
    | _ \<Rightarrow> Inl (Tool ''tools_search arguments must be an object''))"

subsection \<open>Execution\<close>

text \<open>
  One dispatch: the handler's or the discovery's result, the input it pushed and the usage it reported.
\<close>

definition dispatch ::
    "tool_env \<Rightarrow> catalog \<Rightarrow> registered_tool \<Rightarrow> tool_context \<Rightarrow> json \<Rightarrow> string list option
      \<Rightarrow> dispatch_output res option \<times> json list \<times> token_usage option" where
  "dispatch env self tool context arguments scope = (case rt_handler tool of
      ToolHandler handler \<Rightarrow> (let ho = tl_call handler context arguments in
        (map_option (\<lambda>r. res_bind r (\<lambda>response. Inr \<lparr>do_content = response, do_loaded_tools = []\<rparr>)) (ho_result ho),
         ho_input ho, ho_usage ho))
    | SearchHandler \<Rightarrow> (case scope of
          None \<Rightarrow> (Some (Inl (Tool ''tools_search scope is unavailable'')), [], None)
        | Some searchable \<Rightarrow> (Some (tools_search env self arguments searchable), [], None)))"

definition execute_call ::
    "tool_env \<Rightarrow> catalog \<Rightarrow> nat \<Rightarrow> bound_tool_call \<Rightarrow> sandbox_permissions \<Rightarrow> string \<Rightarrow> string \<Rightarrow> message_author
      \<Rightarrow> tool_result" where
  "execute_call env self limit bound permissions turn_id route author =
     (let call = bt_call bound;
          context = \<lparr>xc_call_id = tc_call_id call, xc_author = author,
            xc_permissions = for_call permissions (tc_call_id call), xc_turn_id = turn_id, xc_model_route = route\<rparr>
      in case catalog_get self (tc_name call) of
           None \<Rightarrow> result_error call (''unknown tool `'' @ tc_name call @ ''`'') limit
         | Some tool \<Rightarrow> (case revision self of
               Inl e \<Rightarrow> result_error call (error_display e) limit
             | Inr rv \<Rightarrow>
                 (if rt_approval tool = Always \<and> \<not> tp_mutation (xc_permissions context)
                  then result_error call ''tool call is not authorized to mutate state'' limit
                  else (case dispatch env self tool context (tc_arguments call) (bt_search_scope bound) of
                      (result, input, usage) \<Rightarrow> with_usage (case result of
                          Some (Inr output) \<Rightarrow>
                            (let effects = materialization_effects rv (do_loaded_tools output) turn_id (tc_call_id call) in
                             \<lparr>rs_call_id = tc_call_id call, rs_name = tc_name call,
                              rs_output = cap_content (tr_content (do_content output)) limit,
                              rs_is_error = tr_is_error (do_content output), rs_usage = None,
                              rs_handler_executed = True, rs_additional_input = input @ fx_input effects,
                              rs_events = fx_events effects, rs_output_limit = limit\<rparr>)
                        | Some (Inl e) \<Rightarrow> result_failure (tc_call_id call) (tc_name call) (error_display e) True limit
                        | None \<Rightarrow> result_failure (tc_call_id call) (tc_name call) ''tool panicked'' True limit)
                        usage route))))"

text \<open>
  \<open>execute_batch\<close>: \<open>schedule\<close> cuts the batch into the groups that run at the same time, a maximal run of
  parallel calls or one exclusive call; the results of a group are collected in its order.
\<close>

function schedule :: "catalog \<Rightarrow> bound_tool_call list \<Rightarrow> bound_tool_call list list" where
  "schedule self [] = []"
| "schedule self (call # calls) =
     (if is_parallel self call
      then (call # takeWhile (is_parallel self) calls) # schedule self (dropWhile (is_parallel self) calls)
      else [call] # schedule self calls)"
  by pat_completeness auto
termination
  by (relation "measure (\<lambda>(_, calls). length calls)") (auto simp: le_imp_less_Suc length_dropWhile_le)

definition execute_batch ::
    "tool_env \<Rightarrow> catalog \<Rightarrow> nat \<Rightarrow> bound_tool_call list \<Rightarrow> sandbox_permissions \<Rightarrow> string \<Rightarrow> string \<Rightarrow> message_author
      \<Rightarrow> tool_result list" where
  "execute_batch env self limit calls permissions turn_id route author =
     concat (map (map (\<lambda>c. execute_call env self limit c permissions turn_id route author)) (schedule self calls))"

subsection \<open>The catalog invariant\<close>

definition tool_ok :: "registered_tool \<Rightarrow> bool" where
  "tool_ok t \<longleftrightarrow> definition_validate (rt_definition t) = Inr ()
     \<and> (rt_name t = TOOLS_SEARCH_NAME \<longleftrightarrow> rt_handler t = SearchHandler)
     \<and> (rt_handler t = SearchHandler \<longrightarrow> rt_exposure t = Direct \<and> rt_approval t = Never)"

definition definitions_fresh :: "catalog \<Rightarrow> bool" where
  "definitions_fresh c \<longleftrightarrow> refresh_definitions c = c"

definition catalog_inv :: "catalog \<Rightarrow> bool" where
  "catalog_inv c \<longleftrightarrow> sorted (map rt_name (ct_tools c)) \<and> distinct (map rt_name (ct_tools c))
     \<and> (\<forall>t \<in> set (ct_tools c). tool_ok t) \<and> definitions_fresh c
     \<and> (ct_finalized c \<longrightarrow> (ct_deferred_definitions c \<noteq> [] \<longleftrightarrow> TOOLS_SEARCH_NAME \<in> rt_name ` set (ct_tools c)))"

datatype catalog_op = Register tool | RegisterSearch | Finalize

fun catalog_step :: "tool_env \<Rightarrow> catalog \<Rightarrow> catalog_op \<Rightarrow> catalog" where
  "catalog_step env c (Register t) = fst (register c t)"
| "catalog_step env c RegisterSearch = fst (register_search c)"
| "catalog_step env c Finalize = fst (finalize env c)"

definition catalog_run :: "tool_env \<Rightarrow> catalog_op list \<Rightarrow> catalog" where
  "catalog_run env ops = foldl (catalog_step env) catalog_default ops"

lemma definitions_fresh_iff:
  "definitions_fresh c \<longleftrightarrow> ct_registered_definitions c = map rt_definition (ct_tools c)
     \<and> ct_direct_definitions c = map rt_definition (filter (\<lambda>t. rt_exposure t = Direct) (ct_tools c))
     \<and> ct_deferred_definitions c = map rt_definition (filter (\<lambda>t. rt_exposure t = Deferred) (ct_tools c))"
  unfolding definitions_fresh_def by (cases c) (auto simp: refresh_definitions_def)

lemma catalog_get_SomeD: "catalog_get c n = Some t \<Longrightarrow> t \<in> set (ct_tools c) \<and> rt_name t = n"
  by (auto simp: catalog_get_def find_Some_iff)

lemma catalog_get_None: "catalog_get c n = None \<longleftrightarrow> n \<notin> rt_name ` set (ct_tools c)"
  by (auto simp: catalog_get_def find_None_iff)

lemma catalog_get_mem: "distinct (map rt_name (ct_tools c)) \<Longrightarrow> t \<in> set (ct_tools c) \<Longrightarrow> catalog_get c (rt_name t) = Some t"
  by (cases "catalog_get c (rt_name t)") (auto dest!: catalog_get_SomeD simp: distinct_map inj_on_def catalog_get_None)

lemma distinct_map_insort: "distinct (map f (insort_key f x xs)) \<longleftrightarrow> f x \<notin> f ` set xs \<and> distinct (map f xs)"
  by (induction xs) (auto simp: set_insort_key)

lemma catalog_insert_inv:
  assumes inv: "catalog_inv c" and open_c: "\<not> ct_finalized c" and ok: "tool_ok t"
  shows "catalog_inv (fst (catalog_insert c t))"
proof (cases "catalog_get c (rt_name t)")
  case None
  have "set (insort_key rt_name t (ct_tools c)) = insert t (set (ct_tools c))" by (rule set_insort_key)
  moreover have "distinct (map rt_name (insort_key rt_name t (ct_tools c)))"
    using inv None by (simp add: catalog_inv_def distinct_map_insort catalog_get_None)
  ultimately show ?thesis
    using inv None open_c ok
    by (simp add: catalog_insert_def catalog_inv_def sorted_insort_key definitions_fresh_iff refresh_definitions_def)
qed (simp add: catalog_insert_def inv)

lemma search_definition_ok: "definition_validate tools_search_definition = Inr ()"
proof -
  have "\<not> blank TOOLS_SEARCH_NAME" unfolding TOOLS_SEARCH_NAME_def by code_simp
  then show ?thesis
    by (simp add: definition_validate_def tools_search_definition_def res_bind_Inr_iff MAX_TOOL_NAME_BYTES_def)
      (simp add: TOOLS_SEARCH_NAME_def)
qed

lemma register_inv [mobius_inv]: "catalog_inv c \<Longrightarrow> catalog_inv (fst (register c t))"
  by (auto simp: register_def tool_ok_def split: sum.splits intro!: catalog_insert_inv)

lemma register_search_inv [mobius_inv]: "catalog_inv c \<Longrightarrow> catalog_inv (fst (register_search c))"
  by (auto simp: register_search_def tool_ok_def search_definition_ok intro!: catalog_insert_inv)
    (simp add: tools_search_definition_def)

lemma finalize_inv [mobius_inv]:
  assumes inv: "catalog_inv c"
  shows "catalog_inv (fst (finalize env c))"
proof (cases "ct_finalized c \<or> (ct_deferred_definitions c \<noteq> [] \<and> catalog_get c TOOLS_SEARCH_NAME = None)")
  case True
  then show ?thesis using inv by (auto simp: finalize_def Let_def)
next
  case open_c: False
  show ?thesis
  proof (cases "ct_deferred_definitions c = [] \<and> catalog_get c TOOLS_SEARCH_NAME \<noteq> None")
    case True
    let ?ts = "filter (\<lambda>t. rt_name t \<noteq> TOOLS_SEARCH_NAME) (ct_tools c)"
    have "map rt_name ?ts = filter (\<lambda>n. n \<noteq> TOOLS_SEARCH_NAME) (map rt_name (ct_tools c))"
      by (simp add: filter_map o_def)
    then have "sorted (map rt_name ?ts)" "distinct (map rt_name ?ts)"
      using inv by (simp_all add: catalog_inv_def sorted_wrt_filter)
    moreover have "filter (\<lambda>t. rt_exposure t = Deferred) ?ts = []"
      using inv True by (auto simp: catalog_inv_def definitions_fresh_iff filter_empty_conv)
    ultimately show ?thesis
      using open_c True inv
      by (auto simp: finalize_def Let_def catalog_inv_def definitions_fresh_iff refresh_definitions_def)
  next
    case False
    with open_c inv show ?thesis
      by (auto simp: finalize_def Let_def catalog_inv_def definitions_fresh_iff catalog_get_None)
  qed
qed

lemma catalog_run_inv: "catalog_inv (catalog_run env ops)"
proof (induction ops rule: rev_induct)
  case Nil
  then show ?case by (simp add: catalog_run_def catalog_inv_def catalog_default_def definitions_fresh_iff)
next
  case (snoc a ops)
  then show ?case by (cases a) (simp_all add: catalog_run_def mobius_inv)
qed

lemma catalog_insert_fields [simp]:
  "ct_finalized (fst (catalog_insert c t)) = ct_finalized c" "ct_revision (fst (catalog_insert c t)) = ct_revision c"
  by (simp_all add: catalog_insert_def refresh_definitions_def split: option.split)

lemma catalog_run_revision:
  "ct_finalized (catalog_run env ops) \<Longrightarrow> ct_revision (catalog_run env ops) = catalog_revision env (ct_tools (catalog_run env ops))"
proof (induction ops rule: rev_induct)
  case Nil
  then show ?case by (simp add: catalog_run_def catalog_default_def)
next
  case (snoc a ops)
  let ?c = "catalog_run env ops"
  have step: "catalog_run env (ops @ [a]) = catalog_step env ?c a" by (simp add: catalog_run_def)
  show ?case
  proof (cases "ct_finalized ?c")
    case True
    then have "catalog_step env ?c a = ?c"
      by (cases a) (simp_all add: register_def register_search_def finalize_def)
    with step snoc.IH True show ?thesis by simp
  next
    case False
    with snoc.prems step show ?thesis
      by (cases a) (auto simp: register_def register_search_def finalize_def Let_def split: sum.splits if_splits)
  qed
qed

subsection \<open>Loads\<close>

lemma loaded_names_ok_iff:
  "loaded_names_ok seen ns \<longleftrightarrow> (\<forall>n \<in> set ns. \<not> blank n \<and> length n \<le> MAX_TOOL_NAME_BYTES) \<and> distinct ns
     \<and> set ns \<inter> set seen = {}"
  by (induction ns arbitrary: seen) auto

lemma load_roundtrip:
  assumes "\<not> blank (ld_catalog_revision l)" "ld_tools l \<noteq> []" "loaded_names_ok [] (ld_tools l)"
  shows "load_from_input env (load_to_input l) = Inr (Some l)"
  using assms
  by (simp add: load_from_input_def load_to_input_def decode_load_def get_str_def get_array_def field_names
      list_all_iff List.map_filter_def o_def)

lemma set_extend_names: "set (extend_names ns new) = set ns \<union> set new"
  unfolding extend_names_def by (induction new arbitrary: ns) (auto simp: set_insort_insert)

lemma load_item_InrD:
  assumes "load_item env rv searchable acc item = Inr acc'"
  shows "set acc' = set acc \<union> {n \<in> set searchable. \<exists>l. load_from_input env item = Inr (Some l)
      \<and> ld_catalog_revision l = rv \<and> n \<in> set (ld_tools l)}"
proof -
  from assms obtain sel where "load_from_input env item = Inr sel" by (auto simp: load_item_def res_bind_Inr_iff)
  with assms show ?thesis by (auto simp: load_item_def set_extend_names split: option.splits if_splits)
qed

lemma fold_load_item:
  "fold_res (load_item env rv searchable) acc input = Inr loaded \<Longrightarrow>
    set loaded = set acc \<union> {n \<in> set searchable. \<exists>item \<in> set input. \<exists>l.
      load_from_input env item = Inr (Some l) \<and> ld_catalog_revision l = rv \<and> n \<in> set (ld_tools l)}"
proof (induction input arbitrary: acc)
  case (Cons item input)
  then obtain acc' where first: "load_item env rv searchable acc item = Inr acc'"
    and more: "fold_res (load_item env rv searchable) acc' input = Inr loaded"
    by (auto simp: res_bind_Inr_iff)
  from Cons.IH [OF more] load_item_InrD [OF first] show ?case by auto
qed simp

text \<open>What a step is prepared with: only available deferred tools are searchable, and only those loaded under the current revision are materialized.\<close>

lemma available_definitions_filter: "available_definitions ds av = filter (\<lambda>d. td_name d \<in> set av) ds"
  by (auto simp: available_definitions_def list_all_iff)

lemma prepare_tools_InrD:
  assumes "prepare_tools env c input available = Inr ps"
  shows "ct_finalized c" "ps_catalog_revision ps = ct_revision c" "set (ps_available ps) \<subseteq> set available"
    and "set (ps_searchable ps) = {n \<in> set available. n \<in> td_name ` set (ct_deferred_definitions c)}"
    and "set (ps_materialized ps) = {n \<in> set (ps_searchable ps). \<exists>item \<in> set input. \<exists>l.
      load_from_input env item = Inr (Some l) \<and> ld_catalog_revision l = ct_revision c \<and> n \<in> set (ld_tools l)}"
proof -
  from assms show fin: "ct_finalized c" "ps_catalog_revision ps = ct_revision c" "set (ps_available ps) \<subseteq> set available"
    by (auto simp: prepare_tools_def Let_def res_bind_Inr_iff revision_def split: if_splits)
  from assms show "set (ps_searchable ps) = {n \<in> set available. n \<in> td_name ` set (ct_deferred_definitions c)}"
    by (auto simp: prepare_tools_def Let_def res_bind_Inr_iff available_definitions_filter)
  from assms fin(1) have "loaded_tools env input (ct_revision c) (ps_searchable ps) = Inr (ps_materialized ps)"
    by (auto simp: prepare_tools_def Let_def res_bind_Inr_iff revision_def)
  from fold_load_item [OF this [unfolded loaded_tools_def]]
  show "set (ps_materialized ps) = {n \<in> set (ps_searchable ps). \<exists>item \<in> set input. \<exists>l.
      load_from_input env item = Inr (Some l) \<and> ld_catalog_revision l = ct_revision c \<and> n \<in> set (ld_tools l)}"
    by simp
qed

subsection \<open>The revision identifies the catalog\<close>

lemma base_digits_eq:
  "(\<And>i. i < k \<Longrightarrow> m div 256 ^ i mod 256 = n div 256 ^ i mod 256) \<Longrightarrow> m mod 256 ^ k = (n :: nat) mod 256 ^ k"
proof (induction k)
  case (Suc k)
  have "x mod 256 ^ Suc k = 256 ^ k * (x div 256 ^ k mod 256) + x mod 256 ^ k" for x :: nat
    using mod_mult2_eq [of x "256 ^ k" 256] by (simp add: mult.commute)
  with Suc show ?case by simp
qed simp

lemma length_le_bytes [simp]: "length (le_bytes n) = 8"
  by (simp add: le_bytes_def)

lemma le_bytes_inj:
  assumes "le_bytes m = le_bytes n" "m \<le> u64_max" "n \<le> u64_max"
  shows "m = n"
proof -
  have "m div 256 ^ i mod 256 = n div 256 ^ i mod 256" if "i < 8" for i
  proof -
    have "le_bytes m ! i = le_bytes n ! i" using assms(1) by simp
    with that have "(char_of (m div 256 ^ i mod 256) :: char) = char_of (n div 256 ^ i mod 256)"
      by (simp add: le_bytes_def del: upt_Suc)
    then have "(of_char (char_of (m div 256 ^ i mod 256) :: char) :: nat) = of_char (char_of (n div 256 ^ i mod 256) :: char)"
      by (rule arg_cong)
    then show ?thesis by simp
  qed
  then have "m mod 256 ^ 8 = n mod 256 ^ 8" by (rule base_digits_eq)
  moreover have "m < 256 ^ 8" "n < 256 ^ 8" using assms(2,3) by (simp_all add: u64_max_def)
  ultimately show ?thesis by simp
qed

lemma hash_field_cancel:
  assumes "hash_field v @ r = hash_field w @ q" "length v \<le> u64_max" "length w \<le> u64_max"
  shows "v = w \<and> r = q"
proof -
  from assms(1) have "le_bytes (length v) = le_bytes (length w) \<and> v @ r = w @ q" by (simp add: hash_field_def)
  with le_bytes_inj assms(2,3) have "length v = length w" "v @ r = w @ q" by blast+
  then show ?thesis by simp
qed

text \<open>What the revision covers of a tool, and that its parts fit the length fields.\<close>

definition tool_signature :: "tool_env \<Rightarrow> registered_tool \<Rightarrow> tool_exposure \<times> string \<times> string \<times> string" where
  "tool_signature env t = (rt_exposure t, rt_name t, td_description (rt_definition t), tn_print env (td_parameters (rt_definition t)))"

definition tool_fits :: "tool_env \<Rightarrow> registered_tool \<Rightarrow> bool" where
  "tool_fits env t \<longleftrightarrow> length (rt_name t) \<le> u64_max \<and> length (td_description (rt_definition t)) \<le> u64_max
     \<and> length (tn_print env (td_parameters (rt_definition t))) \<le> u64_max"

lemma fingerprint_cancel:
  assumes "tool_fingerprint env t @ r = tool_fingerprint env u @ q" "tool_fits env t" "tool_fits env u"
  shows "tool_signature env t = tool_signature env u \<and> r = q"
proof -
  have x: "exposure_byte (rt_exposure t) = exposure_byte (rt_exposure u) \<longleftrightarrow> rt_exposure t = rt_exposure u"
    by (cases "rt_exposure t"; cases "rt_exposure u") (simp_all add: exposure_byte_def)
  from assms(1) x have e: "rt_exposure t = rt_exposure u"
    and f: "hash_field (rt_name t) @ (hash_field (td_description (rt_definition t))
        @ hash_field (tn_print env (td_parameters (rt_definition t))) @ r)
      = hash_field (rt_name u) @ (hash_field (td_description (rt_definition u))
        @ hash_field (tn_print env (td_parameters (rt_definition u))) @ q)"
    by (simp_all add: tool_fingerprint_def)
  note fits = assms(2,3) [unfolded tool_fits_def]
  from hash_field_cancel [OF f] fits have n: "rt_name t = rt_name u"
    and g: "hash_field (td_description (rt_definition t)) @ (hash_field (tn_print env (td_parameters (rt_definition t))) @ r)
      = hash_field (td_description (rt_definition u)) @ (hash_field (tn_print env (td_parameters (rt_definition u))) @ q)"
    by simp_all
  from hash_field_cancel [OF g] fits have d: "td_description (rt_definition t) = td_description (rt_definition u)"
    and h: "hash_field (tn_print env (td_parameters (rt_definition t))) @ r
      = hash_field (tn_print env (td_parameters (rt_definition u))) @ q"
    by simp_all
  from hash_field_cancel [OF h] fits e n d show ?thesis by (simp add: tool_signature_def)
qed

lemma fingerprints_cancel:
  "concat (map (tool_fingerprint env) ts) = concat (map (tool_fingerprint env) us) \<Longrightarrow>
    \<forall>t \<in> set ts \<union> set us. tool_fits env t \<Longrightarrow> map (tool_signature env) ts = map (tool_signature env) us"
proof (induction ts arbitrary: us)
  case Nil
  have ne: "tool_fingerprint env t \<noteq> []" for t by (simp add: tool_fingerprint_def)
  from Nil(1) show ?case by (cases us) (auto simp: ne)
next
  case (Cons t ts)
  show ?case
  proof (cases us)
    case Nil
    with Cons.prems(1) show ?thesis by (simp add: tool_fingerprint_def)
  next
    case (Cons u vs)
    with Cons.prems Cons.IH [of vs] fingerprint_cancel [of env t _ u] show ?thesis by simp
  qed
qed

subsection \<open>Execution\<close>

lemma concat_schedule: "concat (schedule c calls) = calls"
  by (induction c calls rule: schedule.induct) simp_all

lemma execute_batch_map:
  "execute_batch env c limit calls p turn route author = map (\<lambda>b. execute_call env c limit b p turn route author) calls"
  unfolding execute_batch_def by (simp add: map_concat [symmetric] concat_schedule)

lemma schedule_group:
  "g \<in> set (schedule c calls) \<Longrightarrow> g \<noteq> [] \<and> (list_all (is_parallel c) g \<or> (\<exists>b. g = [b] \<and> \<not> is_parallel c b))"
  by (induction c calls rule: schedule.induct) (auto simp: list_all_iff dest: set_takeWhileD split: if_splits)

lemma schedule_maximal:
  "schedule c calls = gs @ g # h # hs \<Longrightarrow> \<not> (is_parallel c (last g) \<and> is_parallel c (hd h))"
proof (induction c calls arbitrary: gs rule: schedule.induct)
  case (2 c call calls)
  show ?case
  proof (cases "is_parallel c call")
    case True
    let ?rest = "dropWhile (is_parallel c) calls"
    have s: "(call # takeWhile (is_parallel c) calls) # schedule c ?rest = gs @ g # h # hs" using "2.prems" True by simp
    show ?thesis
    proof (cases gs)
      case Nil
      with s have "schedule c ?rest = h # hs" by simp
      then obtain b bs where b: "?rest = b # bs" by (cases ?rest) auto
      then have "\<not> is_parallel c b" by (metis hd_dropWhile list.distinct(1) list.sel(1))
      with \<open>schedule c ?rest = h # hs\<close> b have "hd h = b" by auto
      with \<open>\<not> is_parallel c b\<close> show ?thesis by simp
    next
      case (Cons k ks)
      with s "2.IH"(1) [OF True] show ?thesis by simp
    qed
  next
    case False
    with "2.prems" have s: "[call] # schedule c calls = gs @ g # h # hs" by simp
    show ?thesis
    proof (cases gs)
      case Nil
      with s False show ?thesis by auto
    next
      case (Cons k ks)
      with s "2.IH"(2) [OF False] show ?thesis by simp
    qed
  qed
qed simp

lemma execute_call_identity:
  "rs_call_id (execute_call env c limit b p turn route author) = tc_call_id (bt_call b)"
  "rs_name (execute_call env c limit b p turn route author) = tc_name (bt_call b)"
  by (simp_all add: execute_call_def Let_def result_error_def result_failure_def with_usage_def
      split: option.split sum.split prod.split)

lemma text_total_capped: "text_total (content_of_text (capped s n)) \<le> n"
  by (simp add: text_total_def content_of_text_def capped_length)

lemma execute_call_bounded: "text_total (rs_output (execute_call env c limit b p turn route author)) \<le> limit"
  by (simp add: execute_call_def Let_def result_error_def result_failure_def with_usage_def text_total_capped
      cap_content_def cap_parts_total split: option.split sum.split prod.split)

lemma execute_call_gate:
  assumes "catalog_get c (tc_name (bt_call b)) = Some t" "ct_finalized c" "rt_approval t = Always"
    "\<not> tp_mutation (for_call p (tc_call_id (bt_call b)))"
  shows "execute_call env c limit b p turn route author
    = result_error (bt_call b) ''tool call is not authorized to mutate state'' limit"
  using assms by (simp add: execute_call_def Let_def revision_def)

subsection \<open>A sample catalog\<close>

definition sample_env :: tool_env where
  "sample_env = \<lparr>tn_reader = sample_reader, tn_print = (\<lambda>_. ''{}''), tn_decode_error = (\<lambda>_. ''invalid''),
     tn_sha256 = (\<lambda>_. ''a1''), tn_rank = (\<lambda>ds _ _. [0..<length ds])\<rparr>"

definition sample_tool :: "string \<Rightarrow> tool_exposure \<Rightarrow> execution_mode \<Rightarrow> approval_requirement \<Rightarrow> tool" where
  "sample_tool name exposure mode appr = \<lparr>tl_definition = \<lparr>td_name = name, td_description = ''d'', td_parameters = JObject []\<rparr>,
     tl_exposure = exposure, tl_execution_mode = mode, tl_approval = appr, tl_cancel_on_input = False, tl_read_only = False,
     tl_call = (\<lambda>_ _. \<lparr>ho_result = Some (Inr \<lparr>tr_content = content_of_text ''ok'', tr_is_error = False\<rparr>),
       ho_input = [], ho_usage = None\<rparr>)\<rparr>"

definition sample_catalog_ops :: "catalog_op list" where
  "sample_catalog_ops = [Register (sample_tool ''look'' Deferred Parallel Never),
     Register (sample_tool ''write'' Direct Exclusive Always), RegisterSearch, Finalize]"

abbreviation sample_catalog :: catalog where
  "sample_catalog \<equiv> catalog_run sample_env sample_catalog_ops"

definition sample_entry :: "string \<Rightarrow> tool_exposure \<Rightarrow> execution_mode \<Rightarrow> approval_requirement \<Rightarrow> registered_tool" where
  "sample_entry name exposure mode appr = \<lparr>rt_definition = \<lparr>td_name = name, td_description = ''d'', td_parameters = JObject []\<rparr>,
     rt_exposure = exposure, rt_execution_mode = mode, rt_approval = appr, rt_cancel_on_input = False, rt_read_only = False,
     rt_handler = ToolHandler (sample_tool name exposure mode appr)\<rparr>"

definition search_entry :: registered_tool where
  "search_entry = \<lparr>rt_definition = tools_search_definition, rt_exposure = Direct, rt_execution_mode = Exclusive,
     rt_approval = Never, rt_cancel_on_input = False, rt_read_only = True, rt_handler = SearchHandler\<rparr>"

lemma sample_names: "\<not> blank ''look''" "\<not> blank ''write''"
  by code_simp+

lemma search_name [simp]: "td_name tools_search_definition = TOOLS_SEARCH_NAME"
  by (simp add: tools_search_definition_def)

lemma register_fresh:
  assumes "\<not> ct_finalized c" "definition_validate (tl_definition t) = Inr ()"
    "td_name (tl_definition t) \<notin> insert TOOLS_SEARCH_NAME (rt_name ` set (ct_tools c))"
  shows "fst (register c t) = refresh_definitions (c\<lparr>ct_tools := insort_key rt_name \<lparr>rt_definition = tl_definition t,
    rt_exposure = tl_exposure t, rt_execution_mode = tl_execution_mode t, rt_approval = tl_approval t,
    rt_cancel_on_input = tl_cancel_on_input t, rt_read_only = tl_read_only t, rt_handler = ToolHandler t\<rparr> (ct_tools c)\<rparr>)"
proof -
  have "catalog_get c (td_name (tl_definition t)) = None" using assms(3) by (simp add: catalog_get_None)
  with assms show ?thesis by (simp add: register_def catalog_insert_def)
qed

lemma register_search_fresh:
  assumes "\<not> ct_finalized c" "TOOLS_SEARCH_NAME \<notin> rt_name ` set (ct_tools c)"
  shows "fst (register_search c) = refresh_definitions (c\<lparr>ct_tools := insort_key rt_name search_entry (ct_tools c)\<rparr>)"
proof -
  have "catalog_get c TOOLS_SEARCH_NAME = None" using assms(2) by (simp add: catalog_get_None)
  with assms(1) show ?thesis by (simp add: register_search_def catalog_insert_def search_definition_ok search_entry_def)
qed

lemma refresh_fields [simp]:
  "ct_tools (refresh_definitions c) = ct_tools c" "ct_finalized (refresh_definitions c) = ct_finalized c"
  "ct_deferred_definitions (refresh_definitions c) = map rt_definition (filter (\<lambda>t. rt_exposure t = Deferred) (ct_tools c))"
  by (simp_all add: refresh_definitions_def)

lemma sample_tools:
  "ct_tools sample_catalog = [sample_entry ''look'' Deferred Parallel Never, search_entry, sample_entry ''write'' Direct Exclusive Always]"
  "ct_finalized sample_catalog"
proof -
  define c1 where "c1 = fst (register catalog_default (sample_tool ''look'' Deferred Parallel Never))"
  define c2 where "c2 = fst (register c1 (sample_tool ''write'' Direct Exclusive Always))"
  define c3 where "c3 = fst (register_search c2)"
  have run: "sample_catalog = fst (finalize sample_env c3)"
    by (simp add: catalog_run_def sample_catalog_ops_def c1_def c2_def c3_def)
  have v: "definition_validate \<lparr>td_name = ''look'', td_description = ''d'', td_parameters = JObject []\<rparr> = Inr ()"
    "definition_validate \<lparr>td_name = ''write'', td_description = ''d'', td_parameters = JObject []\<rparr> = Inr ()"
    using sample_names by (simp_all add: definition_validate_def res_bind_Inr_iff MAX_TOOL_NAME_BYTES_def)
  have o: "\<not> (''write'' :: string) \<le> ''look''" "TOOLS_SEARCH_NAME \<le> ''write''" "\<not> TOOLS_SEARCH_NAME \<le> ''look''"
    "''look'' \<le> ''write''" "''look'' \<noteq> TOOLS_SEARCH_NAME" "''write'' \<noteq> TOOLS_SEARCH_NAME"
    unfolding TOOLS_SEARCH_NAME_def by code_simp+
  have 1: "ct_tools c1 = [sample_entry ''look'' Deferred Parallel Never]" "\<not> ct_finalized c1"
    unfolding c1_def by (subst register_fresh; simp add: catalog_default_def sample_tool_def v o sample_entry_def)+
  have 2: "ct_tools c2 = [sample_entry ''look'' Deferred Parallel Never, sample_entry ''write'' Direct Exclusive Always]"
    "\<not> ct_finalized c2"
    unfolding c2_def using 1 by (subst register_fresh; simp add: sample_tool_def v o sample_entry_def)+
  have 3: "c3 = refresh_definitions (c2\<lparr>ct_tools := insort_key rt_name search_entry (ct_tools c2)\<rparr>)"
    unfolding c3_def by (rule register_search_fresh) (use 2 o in \<open>auto simp: sample_entry_def\<close>)
  have tools: "ct_tools c3 = [sample_entry ''look'' Deferred Parallel Never, search_entry, sample_entry ''write'' Direct Exclusive Always]"
    using 2 o by (simp add: 3 sample_entry_def search_entry_def)
  have "ct_deferred_definitions c3 \<noteq> []" "\<not> ct_finalized c3" using 2 tools by (simp_all add: 3 sample_entry_def)
  moreover have "catalog_get c3 TOOLS_SEARCH_NAME \<noteq> None" by (simp add: catalog_get_None tools search_entry_def)
  ultimately show "ct_tools sample_catalog = [sample_entry ''look'' Deferred Parallel Never, search_entry, sample_entry ''write'' Direct Exclusive Always]"
    "ct_finalized sample_catalog"
    unfolding run finalize_def Let_def using tools by simp_all
qed

lemma sample_get:
  "catalog_get sample_catalog ''look'' = Some (sample_entry ''look'' Deferred Parallel Never)"
  "catalog_get sample_catalog ''write'' = Some (sample_entry ''write'' Direct Exclusive Always)"
  by (simp_all add: catalog_get_def sample_tools sample_entry_def search_entry_def TOOLS_SEARCH_NAME_def)

lemma sample_deferred: "map td_name (ct_deferred_definitions sample_catalog) = [''look'']"
  using catalog_run_inv [of sample_env sample_catalog_ops]
  by (simp add: catalog_inv_def definitions_fresh_iff sample_tools sample_entry_def search_entry_def)

definition sample_load :: json where
  "sample_load = load_to_input \<lparr>ld_catalog_revision = ct_revision sample_catalog, ld_tools = [''look'']\<rparr>"

definition look_call :: tool_call where
  "look_call = \<lparr>tc_call_id = ''c1'', tc_name = ''look'', tc_arguments = JObject []\<rparr>"

definition sample_prepared :: prepared_tool_set where
  "sample_prepared = \<lparr>ps_direct = available_definitions (ct_direct_definitions sample_catalog) [''look''],
     ps_deferred = available_definitions (ct_deferred_definitions sample_catalog) [''look''],
     ps_available = [''look''], ps_searchable = [''look''], ps_materialized = [],
     ps_catalog_revision = ct_revision sample_catalog\<rparr>"

lemma sample_revision: "ct_revision sample_catalog = ''a1''"
  using catalog_run_revision [of sample_env sample_catalog_ops]
  by (simp add: sample_tools(2) catalog_revision_def) (simp add: sample_env_def)

lemma sample_load_decodes:
  "load_from_input sample_env sample_load = Inr (Some \<lparr>ld_catalog_revision = ''a1'', ld_tools = [''look'']\<rparr>)"
proof -
  have "\<not> blank ''a1''" by code_simp
  then show ?thesis
    unfolding sample_load_def sample_revision
    by (intro load_roundtrip) (simp_all add: sample_names MAX_TOOL_NAME_BYTES_def)
qed

lemma sample_prepare_empty: "prepare_tools sample_env sample_catalog [] [''look''] = Inr sample_prepared"
proof -
  have d: "map td_name (available_definitions (ct_deferred_definitions sample_catalog) [''look'']) = [''look'']"
    using sample_deferred by (auto simp: available_definitions_def list_all_iff)
  show ?thesis
    by (simp add: prepare_tools_def Let_def d revision_def sample_tools(2) loaded_tools_def sample_prepared_def)
qed

subsection \<open>Properties\<close>




text \<open>
  C37. No tool runs without the authority it needs, and every result is bounded and belongs to its call.
  In a finalized catalog a call of a tool that needs approval, without authority for that very call,
  gets the refusal itself whatever its handler would do; every result carries the identity and the name
  of its call, its text stays within the output limit, and a handler is reported as executed only for a
  registered tool that needed no approval or whose call was authorized.
\<close>

theorem execute_call_guarded:
  assumes r_def: "r = execute_call env c limit b permissions turn route author"
  shows "rs_call_id r = tc_call_id (bt_call b) \<and> rs_name r = tc_name (bt_call b) \<and> text_total (rs_output r) \<le> limit
    \<and> (ct_finalized c \<and> requires_approval c (tc_name (bt_call b)) \<and> \<not> tp_mutation (for_call permissions (tc_call_id (bt_call b)))
        \<longrightarrow> r = result_error (bt_call b) ''tool call is not authorized to mutate state'' limit)
    \<and> (rs_handler_executed r \<longrightarrow> (\<exists>t. catalog_get c (tc_name (bt_call b)) = Some t)
        \<and> (requires_approval c (tc_name (bt_call b)) \<longrightarrow> tp_mutation (for_call permissions (tc_call_id (bt_call b)))))"
proof (intro conjI impI)
  assume "ct_finalized c \<and> requires_approval c (tc_name (bt_call b)) \<and> \<not> tp_mutation (for_call permissions (tc_call_id (bt_call b)))"
  then show "r = result_error (bt_call b) ''tool call is not authorized to mutate state'' limit"
    unfolding r_def by (auto simp: requires_approval_def intro!: execute_call_gate split: option.splits)
next
  assume h: "rs_handler_executed r"
  then show "\<exists>t. catalog_get c (tc_name (bt_call b)) = Some t"
    by (cases "catalog_get c (tc_name (bt_call b))")
      (auto simp: r_def execute_call_def result_error_def result_failure_def Let_def)
  assume "requires_approval c (tc_name (bt_call b))"
  then show "tp_mutation (for_call permissions (tc_call_id (bt_call b)))"
    using h unfolding r_def
    by (auto simp: requires_approval_def execute_call_def Let_def result_error_def result_failure_def
        split: option.splits sum.splits if_splits)
qed (simp_all add: r_def execute_call_identity execute_call_bounded)

definition write_call :: bound_tool_call where
  "write_call = \<lparr>bt_call = \<lparr>tc_call_id = ''c2'', tc_name = ''write'', tc_arguments = JObject []\<rparr>, bt_search_scope = None\<rparr>"

theorem execute_call_guarded_witness:
  "execute_call sample_env sample_catalog 100 write_call (permissions_new ''s'' WorkspaceWrite NetAllowed [''c1'']) ''t'' ''r'' User
    = result_error (bt_call write_call) ''tool call is not authorized to mutate state'' 100"
  using execute_call_guarded [OF refl, of sample_env sample_catalog 100 write_call
      "permissions_new ''s'' WorkspaceWrite NetAllowed [''c1'']" "''t''" "''r''" User]
  by (auto simp: sample_tools(2) requires_approval_def write_call_def sample_get sample_entry_def for_call_def permissions_new_def)

text \<open>
  C38. A batch keeps the order of its calls and the barriers between them: it yields one result per call,
  in the order of the calls; it is run as consecutive groups that together are the batch, each a run of
  parallel calls or a single exclusive call, and no two neighbouring groups could have been one run.
\<close>

theorem execute_batch_ordered:
  "execute_batch env c limit calls permissions turn route author
      = map (\<lambda>b. execute_call env c limit b permissions turn route author) calls
    \<and> map rs_call_id (execute_batch env c limit calls permissions turn route author) = map (\<lambda>b. tc_call_id (bt_call b)) calls
    \<and> concat (schedule c calls) = calls
    \<and> list_all (\<lambda>g. g \<noteq> [] \<and> (list_all (is_parallel c) g \<or> (\<exists>b. g = [b] \<and> \<not> is_parallel c b))) (schedule c calls)
    \<and> (\<forall>gs g h hs. schedule c calls = gs @ g # h # hs \<longrightarrow> \<not> (is_parallel c (last g) \<and> is_parallel c (hd h)))"
  using schedule_group [of _ c calls] schedule_maximal [of c calls]
  by (auto simp: execute_batch_map execute_call_identity concat_schedule list_all_iff o_def)

theorem execute_batch_ordered_witness:
  "map rs_call_id (execute_batch sample_env sample_catalog 100 [write_call, write_call]
      (permissions_new ''s'' WorkspaceWrite NetAllowed []) ''t'' ''r'' User) = [''c2'', ''c2'']
    \<and> \<not> (is_parallel sample_catalog (last [write_call]) \<and> is_parallel sample_catalog (hd [write_call]))"
proof -
  have "\<not> is_parallel sample_catalog write_call"
    by (simp add: is_parallel_def execution_mode_of_def write_call_def sample_get sample_entry_def)
  then have "schedule sample_catalog [write_call, write_call] = [] @ [write_call] # [write_call] # []" by simp
  moreover have "map (\<lambda>b. tc_call_id (bt_call b)) [write_call, write_call] = [''c2'', ''c2'']"
    by (simp add: write_call_def)
  ultimately show ?thesis
    using execute_batch_ordered [of sample_env sample_catalog 100 "[write_call, write_call]"
      "permissions_new ''s'' WorkspaceWrite NetAllowed []" "''t''" "''r''" User] by (elim conjE) metis
qed

text \<open>
  C40. The revision identifies what the model is told of the catalog: where the hash has no collision on
  the two catalogs, equal revisions mean the same tools in the same order, with the same exposure, name,
  description and printed schema.
\<close>

theorem revision_identifies_catalog:
  assumes "catalog_revision env ts = catalog_revision env us"
    and "\<forall>t \<in> set ts \<union> set us. tool_fits env t"
    and "inj_on (tn_sha256 env) {concat (map (tool_fingerprint env) ts), concat (map (tool_fingerprint env) us)}"
  shows "map (tool_signature env) ts = map (tool_signature env) us"
proof (rule fingerprints_cancel [OF _ assms(2)])
  show "concat (map (tool_fingerprint env) ts) = concat (map (tool_fingerprint env) us)"
    using inj_onD [OF assms(3)] assms(1) unfolding catalog_revision_def by blast
qed

theorem revision_identifies_catalog_witness:
  "map (tool_signature sample_env) [sample_entry ''look'' Deferred Parallel Never]
    = map (tool_signature sample_env) [sample_entry ''look'' Deferred Exclusive Never]"
proof (rule revision_identifies_catalog)
  let ?a = "sample_entry ''look'' Deferred Parallel Never" and ?b = "sample_entry ''look'' Deferred Exclusive Never"
  have eq: "tool_fingerprint sample_env ?a = tool_fingerprint sample_env ?b"
    by (simp add: tool_fingerprint_def sample_entry_def)
  then show "catalog_revision sample_env [?a] = catalog_revision sample_env [?b]"
    by (simp add: catalog_revision_def)
  show "inj_on (tn_sha256 sample_env) {concat (map (tool_fingerprint sample_env) [?a]), concat (map (tool_fingerprint sample_env) [?b])}"
    using eq by simp
  have "(4 :: nat) \<le> u64_max" by (simp add: u64_max_def)
  then have "tool_fits sample_env ?a" "tool_fits sample_env ?b"
    by (simp_all add: tool_fits_def sample_entry_def sample_env_def)
  then show "\<forall>t \<in> set [?a] \<union> set [?b]. tool_fits sample_env t" by simp
qed

text \<open>Loaded tools stay loaded: when the provider materializes tools for a step, preparing the next step
  from the same input with the item this leaves in the model context gives exactly the tool set the step
  ended with.\<close>

lemma materialized_tools_reload:
  assumes catalog: "c = catalog_run env ops" and rv: "\<not> blank (ct_revision c)"
    and prepared: "prepare_tools env c input available = Inr tools"
    and accepted: "accept_materialized tools names turn load = (tools', Inr effects)" and names: "distinct names"
  shows "prepare_tools env c (input @ fx_input effects) available = Inr tools'"
proof -
  note prep = prepare_tools_InrD [OF prepared]
  have sub: "set names \<subseteq> set (ps_searchable tools)"
    and tools': "tools' = tools\<lparr>ps_materialized := extend_names (ps_materialized tools) names\<rparr>"
    and fx: "effects = materialization_effects (ct_revision c) names turn load"
    using accepted prep(2) by (auto simp: accept_materialized_def split: if_splits)
  have "loaded_names_ok [] names"
  proof -
    have "\<not> blank n \<and> length n \<le> MAX_TOOL_NAME_BYTES" if "n \<in> set names" for n
    proof -
      from that sub prep(4) obtain d where "d \<in> set (ct_deferred_definitions c)" "n = td_name d" by blast
      with catalog_run_inv [of env ops] catalog show ?thesis
        by (auto simp: catalog_inv_def definitions_fresh_iff tool_ok_def definition_validate_def res_bind_Inr_iff)
    qed
    with names show ?thesis by (simp add: loaded_names_ok_iff)
  qed
  then have load: "load_from_input env item = Inr (Some \<lparr>ld_catalog_revision = ct_revision c, ld_tools = names\<rparr>)"
    if "item \<in> set (fx_input effects)" for item
    using that rv by (auto simp: fx materialization_effects_def intro!: load_roundtrip split: if_splits)
  have filt: "filter (\<lambda>n. n \<in> set (ps_searchable tools)) names = names" using sub by (auto simp: filter_id_conv)
  have "fold_res (load_item env (ct_revision c) (ps_searchable tools)) (ps_materialized tools) (fx_input effects)
      = Inr (extend_names (ps_materialized tools) names)"
    using load by (cases "names = []") (auto simp: fx materialization_effects_def load_item_def filt extend_names_def)
  moreover have "loaded_tools env input (ct_revision c) (ps_searchable tools) = Inr (ps_materialized tools)"
    using prepared prep(1) by (auto simp: prepare_tools_def Let_def res_bind_Inr_iff revision_def)
  ultimately have "loaded_tools env (input @ fx_input effects) (ct_revision c) (ps_searchable tools)
      = Inr (extend_names (ps_materialized tools) names)"
    by (simp add: loaded_tools_def fold_res_append)
  with prepared prep(1) show ?thesis
    by (auto simp: prepare_tools_def Let_def res_bind_Inr_iff revision_def tools')
qed

end
