(* ===== verification/Tool_Step.thy ===== *)
theory Tool_Step
  imports Routing Catalog "HOL-Library.Multiset"
begin

text \<open>
  The durable side of a tool step, \<open>src/agent/tool_step.rs\<close>: accounting of a batch, the model items and
  events its results become, the order they are kept in, and the checkpoint written with them, with its
  undoing when the save fails.  \<open>tool_output\<close> and the encoding of its content follow
  \<open>src/backend/model/mod.rs\<close> and \<open>src/protocol/content.rs\<close>.
\<close>

subsection \<open>Result items\<close>

definition file_json :: "session_file_reference \<Rightarrow> json" where
  "file_json f = JObject [(''id'', JString (sf_id f)), (''name'', JString (sf_name f)),
     (''size'', JNumber (PosInt (sf_size f))), (''media_type'', JString (sf_media_type f))]"

fun detail_json :: "image_detail \<Rightarrow> json" where
  "detail_json DetailAuto = JString ''auto''"
| "detail_json DetailLow = JString ''low''"
| "detail_json DetailHigh = JString ''high''"

definition image_json :: "image_reference \<Rightarrow> json" where
  "image_json i = JObject ([(''file'', file_json (im_file i)), (''width'', JNumber (PosInt (im_width i))),
     (''height'', JNumber (PosInt (im_height i))), (''detail'', detail_json (im_detail i))]
     @ (case im_rendition i of None \<Rightarrow> []
        | Some r \<Rightarrow> [(''rendition'', JObject [(''file'', file_json (ir_file r)),
            (''width'', JNumber (PosInt (ir_width r))), (''height'', JNumber (PosInt (ir_height r)))])]))"

fun part_json :: "content_part \<Rightarrow> json" where
  "part_json (PText text) = JObject [(''type'', JString ''input_text''), (''text'', JString text)]"
| "part_json (PImage i) = JObject [(''type'', JString ''input_image''), (''image'', image_json i)]"
| "part_json (PFile f) = JObject [(''type'', JString ''file''), (''file'', file_json f)]"

definition tool_output :: "string \<Rightarrow> tool_content \<Rightarrow> bool \<Rightarrow> json" where
  "tool_output call_id out is_error = set_field (JObject [(''type'', JString ''function_call_output''),
     (''call_id'', JString call_id), (''output'', JArray (map part_json out))]) TOOL_ERROR_FIELD (JBool is_error)"

definition tool_call_inputs :: "(json \<Rightarrow> string) \<Rightarrow> tool_call list \<Rightarrow> json list" where
  "tool_call_inputs print calls = map (\<lambda>call. JObject [(''type'', JString ''function_call''),
     (''call_id'', JString (tc_call_id call)), (''name'', JString (tc_name call)),
     (''arguments'', JString (print (tc_arguments call)))]) calls"

definition tool_result_events :: "string \<Rightarrow> string \<Rightarrow> tool_result list \<Rightarrow> event list" where
  "tool_result_events submission_id turn_id results = concat (map (\<lambda>r.
     turn_event submission_id (ToolCallEnd \<lparr>te_turn_id = turn_id, te_call_id = rs_call_id r, te_name = rs_name r,
       te_output = rs_output r, te_is_error = rs_is_error r\<rparr>) # map (turn_event submission_id) (rs_events r)) results)"

definition interrupted_results :: "tool_call list \<Rightarrow> string \<Rightarrow> nat \<Rightarrow> tool_result list" where
  "interrupted_results calls message limit = map (\<lambda>call. result_error call message limit) calls"

definition denied_results :: "tool_call list \<Rightarrow> string \<Rightarrow> nat \<Rightarrow> tool_result list" where
  "denied_results calls rejection limit = map (\<lambda>call. result_error call (''tool denied: '' @ rejection) limit) calls"

subsection \<open>Ordering\<close>

text \<open>\<open>Vec::swap_remove\<close>: the last element takes the place of the removed one.\<close>

definition swap_remove :: "nat \<Rightarrow> 'a list \<Rightarrow> 'a list" where
  "swap_remove i xs = (if i < length xs then butlast (xs[i := last xs]) else xs)"

fun order_results :: "tool_call list \<Rightarrow> tool_result list \<Rightarrow> tool_result list" where
  "order_results [] results = []"
| "order_results (call # calls) results = (case rposition (\<lambda>r. rs_call_id r = tc_call_id call) results of
      None \<Rightarrow> order_results calls results
    | Some i \<Rightarrow> results ! i # order_results calls (swap_remove i results))"

subsection \<open>Accounting and persistence\<close>

record tool_step_config =
  kx_output_limit :: nat
  kx_observer :: "(string \<Rightarrow> token_usage \<Rightarrow> unit res) option"
  kx_context_window :: int
  kx_print :: "json \<Rightarrow> string"

record tool_completion =
  cpl_results :: "tool_result list"
  cpl_events :: "event_msg list"

fun sum_usage :: "token_usage option \<Rightarrow> token_usage list \<Rightarrow> token_usage option res" where
  "sum_usage sofar [] = Inr sofar"
| "sum_usage sofar (u # us) =
     (case usage_checked_add (case sofar of None \<Rightarrow> usage_zero | Some t \<Rightarrow> t) u of
        (_, None) \<Rightarrow> Inl usage_overflow
      | (t, Some _) \<Rightarrow> sum_usage (Some t) us)"

definition batch_usage :: "tool_result list \<Rightarrow> token_usage option res" where
  "batch_usage results = sum_usage None (map snd (List.map_filter rs_usage results))"

text \<open>\<open>usage_event\<close> for the usage of a tool batch, which carries no estimate of the context.\<close>

definition tool_usage_event :: "tool_step_config \<Rightarrow> runner \<Rightarrow> string \<Rightarrow> token_usage \<Rightarrow> event" where
  "tool_usage_event kx self submission_id last_usage = turn_event submission_id (TokenCount
     \<lparr>tk_info = Some \<lparr>ti_total_token_usage = ck_total_usage (ru_state self), ti_last_token_usage = last_usage,
        ti_model_context_window = Some (kx_context_window kx), ti_context = None\<rparr>, tk_rate_limits = None\<rparr>)"

fun record_usages :: "tool_step_config \<Rightarrow> runner \<Rightarrow> (string \<times> token_usage) list \<Rightarrow> runner \<times> unit res" where
  "record_usages kx self [] = (self, Inr ())"
| "record_usages kx self ((route, usage) # us) = (case record_usage (kx_observer kx) self route usage of
      (self', Inl e) \<Rightarrow> (self', Inl e)
    | (self', Inr _) \<Rightarrow> record_usages kx self' us)"

definition append_result :: "runner \<Rightarrow> tool_result \<Rightarrow> runner" where
  "append_result self r =
     extend_context (push_context self (tool_output (rs_call_id r) (rs_output r) (rs_is_error r))) (rs_additional_input r)"

definition append_tool_results :: "tool_step_config \<Rightarrow> runner \<Rightarrow> tool_result list \<Rightarrow> runner \<times> unit res" where
  "append_tool_results kx self results =
     (case record_tools self (length results) (length (filter rs_is_error results)) of
        (self', Inl e) \<Rightarrow> (self', Inl e)
      | (self', Inr _) \<Rightarrow> (case record_usages kx self' (List.map_filter rs_usage results) of
            (self'', Inl e) \<Rightarrow> (self'', Inl e)
          | (self'', Inr _) \<Rightarrow>
              (foldl append_result (set_state self'' (\<lambda>c. c\<lparr>ck_pending_tools :=
                 filter (\<lambda>call. tc_call_id call \<notin> rs_call_id ` set results) (ck_pending_tools c)\<rparr>)) results, Inr ())))"

definition restore_accounting :: "(nat \<times> nat \<times> token_usage) option \<Rightarrow> checkpoint \<Rightarrow> checkpoint" where
  "restore_accounting saved c = (case (saved, ck_active_execution c) of
      (Some (tool_calls, failed_tool_calls, usage), Some active) \<Rightarrow> c\<lparr>ck_active_execution := Some (active\<lparr>
        ax_tool_calls := tool_calls, ax_failed_tool_calls := failed_tool_calls, ax_usage := usage\<rparr>)\<rparr>
    | _ \<Rightarrow> c)"

definition commit_tool_results ::
    "runner_config \<Rightarrow> tool_step_config \<Rightarrow> runner \<Rightarrow> string \<Rightarrow> string \<Rightarrow> tool_completion \<Rightarrow> token_usage option
      \<Rightarrow> runner \<times> unit res" where
  "commit_tool_results cf kx self submission_id turn_id completion tool_usage =
     (case append_tool_results kx self (cpl_results completion) of
        (self', Inl e) \<Rightarrow> (self', Inl e)
      | (self', Inr _) \<Rightarrow> (case persist_with_events cf self'
            (map (turn_event submission_id) (cpl_events completion)
              @ tool_result_events submission_id turn_id (cpl_results completion)
              @ (case tool_usage of None \<Rightarrow> [] | Some u \<Rightarrow> [tool_usage_event kx self' submission_id u])) None of
          (self'', r) \<Rightarrow> (self'', res_bind r (\<lambda>_. Inr ()))))"

definition undo_tool_results :: "runner \<Rightarrow> runner \<Rightarrow> runner" where
  "undo_tool_results before self =
     (let c = ru_state before;
          context_len = length (ck_context c);
          saved = map_option (\<lambda>a. (ax_tool_calls a, ax_failed_tool_calls a, ax_usage a)) (ck_active_execution c);
          self = set_state self (\<lambda>s. s\<lparr>ck_pending_tools := ck_pending_tools c\<rparr>);
          self = set_state self (restore_accounting saved);
          self = set_state self (\<lambda>s. s\<lparr>ck_total_usage := ck_total_usage c\<rparr>);
          self = set_state self (\<lambda>s. s\<lparr>ck_delivered_once :=
            rollback (ck_delivered_once s) (drop context_len (ck_context s))\<rparr>);
          self = set_state self (\<lambda>s. s\<lparr>ck_context := take context_len (ck_context s)\<rparr>)
      in self\<lparr>ru_transcript_delta := take (length (ru_transcript_delta before)) (ru_transcript_delta self)\<rparr>)"

definition persist_tool_results ::
    "runner_config \<Rightarrow> tool_step_config \<Rightarrow> runner \<Rightarrow> string \<Rightarrow> string \<Rightarrow> tool_completion \<Rightarrow> runner \<times> unit res" where
  "persist_tool_results cf kx self submission_id turn_id completion =
     (if cpl_results completion = [] \<and> cpl_events completion = [] then (self, Inr ())
      else (case batch_usage (cpl_results completion) of
          Inl e \<Rightarrow> (self, Inl e)
        | Inr tool_usage \<Rightarrow>
            (case commit_tool_results cf kx self submission_id turn_id completion tool_usage of
               (self', Inr _) \<Rightarrow> (self', Inr ())
             | (self', Inl e) \<Rightarrow> (undo_tool_results self self', Inl e))))"

definition complete_tool_step ::
    "runner_config \<Rightarrow> tool_step_config \<Rightarrow> runner \<Rightarrow> string \<Rightarrow> string \<Rightarrow> tool_completion \<Rightarrow> runner \<times> unit res" where
  "complete_tool_step cf kx self submission_id turn_id completion =
     (let pending_approval = ck_pending_approval (ru_state self) in
      case persist_tool_results cf kx (set_state self (\<lambda>c. c\<lparr>ck_pending_approval := None\<rparr>)) submission_id turn_id completion of
        (self', Inr _) \<Rightarrow> (self', Inr ())
      | (self', Inl e) \<Rightarrow> (set_state self' (\<lambda>c. c\<lparr>ck_pending_approval := pending_approval\<rparr>), Inl e))"

definition finish_pending_tools ::
    "tool_step_config \<Rightarrow> runner \<Rightarrow> string \<Rightarrow> string \<Rightarrow> string \<Rightarrow> runner \<times> event list res" where
  "finish_pending_tools kx self submission_id turn_id reason =
     (let calls = ck_pending_tools (ru_state self);
          self = set_state self (\<lambda>c. c\<lparr>ck_pending_tools := []\<rparr>);
          self = (if ck_active_model_step (ru_state self) \<noteq> None
                  then extend_context self (tool_call_inputs (kx_print kx) calls) else self);
          results = interrupted_results calls (''execution interrupted; result unknown: '' @ reason) (kx_output_limit kx)
      in if results = [] then (self, Inr [])
         else (case append_tool_results kx self results of
             (self', Inl e) \<Rightarrow> (self', Inl e)
           | (self', Inr _) \<Rightarrow> (self', Inr (tool_result_events submission_id turn_id results))))"

subsection \<open>What appending does\<close>

lemma identity_tool_output [simp]: "identity (tool_output i out err) = None"
  by (simp add: identity_def tool_output_def set_field_def field_names)

lemma text_parts_match:
  "list_all (\<lambda>p. \<exists>t. p = PText t) out \<Longrightarrow> list_all2 text_part_matches (map part_json out) out"
  by (induction out) (auto simp: text_part_matches_def get_str_def)

lemma tool_output_matches:
  "list_all (\<lambda>p. \<exists>t. p = PText t) out \<Longrightarrow> matching_output (tool_output i out err)
     \<lparr>te_turn_id = turn, te_call_id = i, te_name = n, te_output = out, te_is_error = err\<rparr>"
  using text_parts_match [of out]
  by (simp add: matching_output_def tool_output_def set_field_def field_names get_str_def get_array_def)

definition appended :: "json list \<Rightarrow> runner \<Rightarrow> runner" where
  "appended items self = (let kept = snd (accept_batch (ck_delivered_once (ru_state self)) items) in
     self\<lparr>ru_state := (ru_state self)\<lparr>
         ck_delivered_once := fst (accept_batch (ck_delivered_once (ru_state self)) items),
         ck_context := ck_context (ru_state self) @ kept\<rparr>,
       ru_transcript_delta := ru_transcript_delta self @ kept\<rparr>)"

lemma extend_context_appended: "extend_context self items = appended items self"
proof (induction items arbitrary: self)
  case Nil
  then show ?case by (simp add: extend_context_def appended_def)
next
  case (Cons x xs)
  obtain r ok where a: "accept (ck_delivered_once (ru_state self)) x = (r, ok)" by fastforce
  let ?self = "if ok then push_context (set_state self (\<lambda>c. c\<lparr>ck_delivered_once := r\<rparr>)) x
     else set_state self (\<lambda>c. c\<lparr>ck_delivered_once := r\<rparr>)"
  have "extend_context self (x # xs) = extend_context ?self xs" by (simp add: extend_context_def a)
  also have "\<dots> = appended xs ?self" by (rule Cons.IH)
  also have "\<dots> = appended (x # xs) self"
    by (simp add: appended_def push_context_def a split_beta Let_def)
  finally show ?case .
qed

lemma push_context_appended: "identity x = None \<Longrightarrow> push_context self x = appended [x] self"
  by (simp add: appended_def push_context_def accept_def Let_def)

lemma appended_append: "appended (xs @ ys) self = appended ys (appended xs self)"
  unfolding extend_context_appended [symmetric] extend_context_def foldl_append ..

definition result_items :: "tool_result list \<Rightarrow> json list" where
  "result_items results =
     concat (map (\<lambda>r. tool_output (rs_call_id r) (rs_output r) (rs_is_error r) # rs_additional_input r) results)"

lemma foldl_append_result: "foldl append_result self results = appended (result_items results) self"
proof (induction results arbitrary: self)
  case Nil
  then show ?case by (simp add: result_items_def appended_def)
next
  case (Cons r rs)
  let ?x = "tool_output (rs_call_id r) (rs_output r) (rs_is_error r)"
  have step: "append_result self r = appended (?x # rs_additional_input r) self"
    using appended_append [of "[?x]" "rs_additional_input r" self]
    by (simp add: append_result_def push_context_appended extend_context_appended)
  have "foldl append_result self (r # rs) = appended (result_items rs) (append_result self r)" by (simp add: Cons)
  also have "\<dots> = appended ((?x # rs_additional_input r) @ result_items rs) self"
    unfolding step appended_append ..
  finally show ?case by (simp add: result_items_def)
qed

lemma accept_batch_keeps_plain: "x \<in> set items \<Longrightarrow> identity x = None \<Longrightarrow> x \<in> set (snd (accept_batch r items))"
proof (induction items arbitrary: r)
  case (Cons y ys)
  then show ?case by (auto simp: split_beta accept_def)
qed simp

text \<open>A checkpoint without its accounting; two checkpoints with the same rest differ in the accounting only.\<close>

definition unaccounted :: "checkpoint \<Rightarrow> checkpoint" where
  "unaccounted c = c\<lparr>ck_total_usage := usage_zero, ck_active_execution := map_option (\<lambda>a.
     a\<lparr>ax_tool_calls := 0, ax_failed_tool_calls := 0, ax_usage := usage_zero\<rparr>) (ck_active_execution c)\<rparr>"

lemma unaccounted_sel:
  "ck_active_execution (unaccounted c) = map_option (\<lambda>a. a\<lparr>ax_tool_calls := 0, ax_failed_tool_calls := 0, ax_usage := usage_zero\<rparr>) (ck_active_execution c)"
  "ck_delivered_once (unaccounted c) = ck_delivered_once c" "ck_context (unaccounted c) = ck_context c"
  "ck_pending_tools (unaccounted c) = ck_pending_tools c" "ck_pending_approval (unaccounted c) = ck_pending_approval c"
  "ck_sequence (unaccounted c) = ck_sequence c" "ck_session_id (unaccounted c) = ck_session_id c"
  by (simp_all add: unaccounted_def)

abbreviation reaccounted :: "checkpoint \<Rightarrow> checkpoint \<Rightarrow> bool" where
  "reaccounted c c' \<equiv> unaccounted c' = unaccounted c"

definition reaccounts :: "runner \<Rightarrow> runner \<Rightarrow> bool" where
  "reaccounts self self' \<longleftrightarrow> reaccounted (ru_state self) (ru_state self')
     \<and> ru_transcript_delta self' = ru_transcript_delta self \<and> ru_recorder self' = ru_recorder self"

lemmas reaccounts_state = reaccounts_def [THEN iffD1, THEN conjunct1]

lemma record_tools_reaccounts: "record_tools self n f = (self', r) \<Longrightarrow> reaccounts self self'"
  by (auto simp: record_tools_def reaccounts_def set_active_def unaccounted_def split: option.splits)

lemma record_usage_reaccounts: "record_usage obs self route u = (self', r) \<Longrightarrow> reaccounts self self'"
  by (auto simp: record_usage_def reaccounts_def set_active_def unaccounted_def
      split: option.splits prod.splits sum.splits)

lemma record_usages_reaccounts: "record_usages kx self us = (self', r) \<Longrightarrow> reaccounts self self'"
proof (induction kx self us rule: record_usages.induct)
  case (1 kx self)
  then show ?case by (simp add: reaccounts_def)
next
  case (2 kx self route usage us)
  obtain self1 r1 where u: "record_usage (kx_observer kx) self route usage = (self1, r1)" by fastforce
  show ?case
  proof (cases r1)
    case (Inl e)
    with 2 u record_usage_reaccounts [OF u] show ?thesis by simp
  next
    case (Inr x)
    with 2 u record_usage_reaccounts [OF u] show ?thesis
      by (simp add: reaccounts_def)
  qed
qed

lemma restore_reaccounted:
  assumes "reaccounted c c'"
  shows "restore_accounting (map_option (\<lambda>a. (ax_tool_calls a, ax_failed_tool_calls a, ax_usage a)) (ck_active_execution c)) c'
      \<lparr>ck_total_usage := ck_total_usage c\<rparr> = c"
proof (cases "ck_active_execution c")
  case None
  with assms show ?thesis
    by (cases c; cases c') (auto simp: unaccounted_def restore_accounting_def split: option.splits)
next
  case (Some x)
  moreover have "map_option (\<lambda>a. a\<lparr>ax_tool_calls := 0, ax_failed_tool_calls := 0, ax_usage := usage_zero\<rparr>)
      (ck_active_execution c') = map_option (\<lambda>a. a\<lparr>ax_tool_calls := 0, ax_failed_tool_calls := 0, ax_usage := usage_zero\<rparr>)
      (ck_active_execution c)"
    using arg_cong [OF assms, of ck_active_execution] by (simp only: unaccounted_sel)
  ultimately obtain y where y: "ck_active_execution c' = Some y"
    and eq: "y\<lparr>ax_tool_calls := 0, ax_failed_tool_calls := 0, ax_usage := usage_zero\<rparr>
      = x\<lparr>ax_tool_calls := 0, ax_failed_tool_calls := 0, ax_usage := usage_zero\<rparr>" by auto
  have "y\<lparr>ax_tool_calls := ax_tool_calls x, ax_failed_tool_calls := ax_failed_tool_calls x, ax_usage := ax_usage x\<rparr> = x"
    using eq by (cases x; cases y) simp
  with Some y assms show ?thesis
    by (cases c; cases c') (auto simp: unaccounted_def restore_accounting_def)
qed

text \<open>A state reached while results are applied: accounting, the pending calls and an appended batch of items.\<close>

definition tentative :: "runner \<Rightarrow> runner \<Rightarrow> bool" where
  "tentative before self \<longleftrightarrow> (\<exists>c pending items. reaccounted (ru_state before) c
     \<and> ck_delivered_once c = ck_delivered_once (ru_state before) \<and> ck_context c = ck_context (ru_state before)
     \<and> ru_state self = ru_state (appended items (before\<lparr>ru_state := c\<lparr>ck_pending_tools := pending\<rparr>\<rparr>))
     \<and> ru_transcript_delta self = ru_transcript_delta (appended items (before\<lparr>ru_state := c\<lparr>ck_pending_tools := pending\<rparr>\<rparr>)))"

lemma unaccounted_fields:
  assumes "reaccounted c c'"
  shows "ck_delivered_once c' = ck_delivered_once c" "ck_context c' = ck_context c" "ck_pending_tools c' = ck_pending_tools c"
    "ck_pending_approval c' = ck_pending_approval c" "ck_sequence c' = ck_sequence c" "ck_session_id c' = ck_session_id c"
  using arg_cong [OF assms, of ck_delivered_once] arg_cong [OF assms, of ck_context] arg_cong [OF assms, of ck_pending_tools]
    arg_cong [OF assms, of ck_pending_approval] arg_cong [OF assms, of ck_sequence] arg_cong [OF assms, of ck_session_id]
  by (simp_all only: unaccounted_sel)

lemma undo_tentative:
  assumes wf: "receipts_wf (ck_delivered_once (ru_state before))" and t: "tentative before self"
  shows "ru_state (undo_tool_results before self) = ru_state before
    \<and> ru_transcript_delta (undo_tool_results before self) = ru_transcript_delta before
    \<and> ru_recorder (undo_tool_results before self) = ru_recorder self"
proof -
  let ?b = "ru_state before"
  from t obtain c p items where c: "reaccounted ?b c"
    and st: "ru_state self = ru_state (appended items (before\<lparr>ru_state := c\<lparr>ck_pending_tools := p\<rparr>\<rparr>))"
    and tr: "ru_transcript_delta self = ru_transcript_delta (appended items (before\<lparr>ru_state := c\<lparr>ck_pending_tools := p\<rparr>\<rparr>))"
    by (auto simp: tentative_def)
  obtain r kept where a: "accept_batch (ck_delivered_once ?b) items = (r, kept)" by fastforce
  note f = unaccounted_fields [OF c]
  have s: "ru_state self = c\<lparr>ck_pending_tools := p, ck_delivered_once := r, ck_context := ck_context ?b @ kept\<rparr>"
    "ru_transcript_delta self = ru_transcript_delta before @ kept"
    using st tr by (simp_all add: appended_def f a)
  have undone: "rollback r kept = ck_delivered_once ?b" by (rule rollback_undoes_batch [OF wf a])
  let ?saved = "map_option (\<lambda>a. (ax_tool_calls a, ax_failed_tool_calls a, ax_usage a)) (ck_active_execution ?b)"
  define base where "base = restore_accounting ?saved c"
  have base: "base\<lparr>ck_total_usage := ck_total_usage ?b\<rparr> = ?b" unfolding base_def by (rule restore_reaccounted [OF c])
  have "ru_state (undo_tool_results before self)
      = base\<lparr>ck_pending_tools := ck_pending_tools ?b, ck_delivered_once := rollback r kept, ck_context := ck_context ?b,
          ck_total_usage := ck_total_usage ?b\<rparr>"
    by (simp add: undo_tool_results_def Let_def s base_def restore_accounting_def split: option.split)
  also have "\<dots> = (base\<lparr>ck_total_usage := ck_total_usage ?b\<rparr>)\<lparr>ck_pending_tools := ck_pending_tools ?b,
      ck_delivered_once := ck_delivered_once ?b, ck_context := ck_context ?b\<rparr>"
    by (simp add: undone)
  also have "\<dots> = ?b" unfolding base by simp
  finally show ?thesis by (simp add: undo_tool_results_def Let_def s)
qed

lemma append_tool_results_sequence:
  assumes "append_tool_results kx self results = (self', r)"
  shows "ck_sequence (ru_state self') = ck_sequence (ru_state self)"
proof -
  obtain s1 r1 where t: "record_tools self (length results) (length (filter rs_is_error results)) = (s1, r1)" by fastforce
  obtain s2 r2 where u: "record_usages kx s1 (List.map_filter rs_usage results) = (s2, r2)" by fastforce
  have "ck_sequence (ru_state s1) = ck_sequence (ru_state self)" "ck_sequence (ru_state s2) = ck_sequence (ru_state s1)"
    by (rule unaccounted_fields(5) [OF reaccounts_state], rule record_tools_reaccounts [OF t])
      (rule unaccounted_fields(5) [OF reaccounts_state], rule record_usages_reaccounts [OF u])
  then show ?thesis
    using assms t u by (auto simp: append_tool_results_def foldl_append_result appended_def Let_def split: sum.splits)
qed

lemma appended_noop [simp]: "appended [] self = self"
  by (simp add: appended_def)

lemma append_tool_results_tentative:
  assumes "append_tool_results kx self results = (self', r)"
  shows "tentative self self' \<and> ru_recorder self' = ru_recorder self"
    and "r = Inr u \<Longrightarrow> ru_transcript_delta self' = ru_transcript_delta self @ snd (accept_batch (ck_delivered_once (ru_state self)) (result_items results))
      \<and> ck_context (ru_state self') = ck_context (ru_state self) @ snd (accept_batch (ck_delivered_once (ru_state self)) (result_items results))
      \<and> ck_pending_tools (ru_state self') = filter (\<lambda>call. tc_call_id call \<notin> rs_call_id ` set results) (ck_pending_tools (ru_state self))
      \<and> ck_pending_approval (ru_state self') = ck_pending_approval (ru_state self)"
proof -
  have plain: "tentative self s" if "reaccounts self s" for s
    unfolding tentative_def
    using that unaccounted_fields [of "ru_state self" "ru_state s"]
    by (intro exI [of _ "ru_state s"] exI [of _ "ck_pending_tools (ru_state s)"] exI [of _ "[]"]) (simp add: reaccounts_def)
  obtain s1 r1 where t: "record_tools self (length results) (length (filter rs_is_error results)) = (s1, r1)" by fastforce
  obtain s2 r2 where u: "record_usages kx s1 (List.map_filter rs_usage results) = (s2, r2)" by fastforce
  have re1: "reaccounts self s1" by (rule record_tools_reaccounts [OF t])
  have re2: "reaccounts self s2" using re1 record_usages_reaccounts [OF u] by (simp add: reaccounts_def)
  note f = unaccounted_fields [OF reaccounts_state [OF re2]]
  let ?s3 = "set_state s2 (\<lambda>c. c\<lparr>ck_pending_tools := filter (\<lambda>call. tc_call_id call \<notin> rs_call_id ` set results) (ck_pending_tools c)\<rparr>)"
  show "tentative self self' \<and> ru_recorder self' = ru_recorder self"
  proof (cases "\<exists>x y. r1 = Inr x \<and> r2 = Inr y")
    case True
    then have self': "self' = appended (result_items results) ?s3"
      using assms t u by (auto simp: append_tool_results_def foldl_append_result)
    have "tentative self self'"
      unfolding tentative_def
      using re2 f
      by (intro exI [of _ "ru_state s2"] exI [of _ "filter (\<lambda>call. tc_call_id call \<notin> rs_call_id ` set results) (ck_pending_tools (ru_state s2))"]
          exI [of _ "result_items results"]) (simp add: self' appended_def Let_def reaccounts_def)
    moreover have "ru_recorder self' = ru_recorder self" using re2 by (simp add: self' appended_def Let_def reaccounts_def)
    ultimately show ?thesis by simp
  next
    case False
    with assms t u have "self' = s1 \<or> self' = s2" by (auto simp: append_tool_results_def split: sum.splits)
    with plain re1 re2 show ?thesis by (auto simp: reaccounts_def)
  qed
  assume "r = Inr u"
  then have "self' = appended (result_items results) ?s3"
    using assms t u by (auto simp: append_tool_results_def foldl_append_result split: sum.splits)
  then show "ru_transcript_delta self' = ru_transcript_delta self @ snd (accept_batch (ck_delivered_once (ru_state self)) (result_items results))
      \<and> ck_context (ru_state self') = ck_context (ru_state self) @ snd (accept_batch (ck_delivered_once (ru_state self)) (result_items results))
      \<and> ck_pending_tools (ru_state self') = filter (\<lambda>call. tc_call_id call \<notin> rs_call_id ` set results) (ck_pending_tools (ru_state self))
      \<and> ck_pending_approval (ru_state self') = ck_pending_approval (ru_state self)"
    using re2 f by (simp add: appended_def Let_def reaccounts_def)
qed

definition kept_items :: "runner \<Rightarrow> tool_result list \<Rightarrow> json list" where
  "kept_items self results = snd (accept_batch (ck_delivered_once (ru_state self)) (result_items results))"

lemma kept_items_outputs:
  "r \<in> set results \<Longrightarrow> tool_output (rs_call_id r) (rs_output r) (rs_is_error r) \<in> set (kept_items self results)"
  unfolding kept_items_def by (rule accept_batch_keeps_plain) (auto simp: result_items_def)

lemma tentative_same_live:
  assumes "receipts_wf (ck_delivered_once (ru_state before))" and "tentative before self" and "same_live self self'"
    and "ids_inv (ru_recorder before) \<longrightarrow> ids_inv (ru_recorder self)"
  shows "same_live before (undo_tool_results before self')"
proof -
  have "tentative before self'" using assms(2,3) by (simp add: tentative_def same_live_def)
  from undo_tentative [OF assms(1) this] assms(3,4) show ?thesis by (auto simp: same_live_def)
qed

lemma persist_tool_results_atomic:
  assumes wf: "receipts_wf (ck_delivered_once (ru_state self))"
    and step: "persist_tool_results cf kx self sid turn completion = (self', r)"
  shows "r = Inl e \<Longrightarrow> same_live self self'"
    and "r = Inr u \<Longrightarrow> cpl_results completion \<noteq> [] \<or> cpl_events completion \<noteq> [] \<Longrightarrow> ids_inv (ru_recorder self) \<Longrightarrow>
      ids_inv (ru_recorder self') \<and> durable self' \<and> ru_transcript_delta self' = []
      \<and> ck_sequence (ru_state self') = Suc (ck_sequence (ru_state self))
      \<and> ck_context (ru_state self') = ck_context (ru_state self) @ kept_items self (cpl_results completion)
      \<and> ck_pending_tools (ru_state self')
          = filter (\<lambda>call. tc_call_id call \<notin> rs_call_id ` set (cpl_results completion)) (ck_pending_tools (ru_state self))
      \<and> ck_pending_approval (ru_state self') = ck_pending_approval (ru_state self)"
proof -
  obtain s1 r1 where a: "append_tool_results kx self (cpl_results completion) = (s1, r1)" by fastforce
  have t: "tentative self s1" and rec: "ru_recorder s1 = ru_recorder self"
    using append_tool_results_tentative(1) [OF a] by auto
  {
    assume r: "r = Inl e"
    show "same_live self self'"
    proof (cases "self' = self")
      case False
      with step r obtain s2 usage where c: "commit_tool_results cf kx self sid turn completion usage = (s2, Inl e)"
        and self': "self' = undo_tool_results self s2"
        by (auto simp: persist_tool_results_def split: if_splits sum.splits prod.splits)
      have "same_live s1 s2"
        using c a by (auto simp: commit_tool_results_def same_live_refl res_bind_def split: sum.splits prod.splits dest: persist_fails)
      from tentative_same_live [OF wf t this] rec self' show ?thesis by simp
    qed (simp add: same_live_refl)
  }
  assume r: "r = Inr u" and ne: "cpl_results completion \<noteq> [] \<or> cpl_events completion \<noteq> []" and inv: "ids_inv (ru_recorder self)"
  from step r ne obtain usage where c: "commit_tool_results cf kx self sid turn completion usage = (self', Inr ())"
    by (auto simp: persist_tool_results_def split: if_splits sum.splits prod.splits)
  from c a obtain es n where r1: "r1 = Inr ()" and p: "persist_with_events cf s1 es None = (self', Inr n)"
    by (auto simp: commit_tool_results_def res_bind_def split: sum.splits prod.splits)
  have seq: "ck_sequence (ru_state s1) = ck_sequence (ru_state self)"
    using append_tool_results_sequence [OF a] .
  show "ids_inv (ru_recorder self') \<and> durable self' \<and> ru_transcript_delta self' = []
      \<and> ck_sequence (ru_state self') = Suc (ck_sequence (ru_state self))
      \<and> ck_context (ru_state self') = ck_context (ru_state self) @ kept_items self (cpl_results completion)
      \<and> ck_pending_tools (ru_state self')
          = filter (\<lambda>call. tc_call_id call \<notin> rs_call_id ` set (cpl_results completion)) (ck_pending_tools (ru_state self))
      \<and> ck_pending_approval (ru_state self') = ck_pending_approval (ru_state self)"
    using persist_succeeds(1) [OF p] persist_succeeds(2) [OF p] inv rec seq append_tool_results_tentative(2) [OF a r1]
    by (simp add: kept_items_def)
qed


definition sample_step :: tool_step_config where
  "sample_step = \<lparr>kx_output_limit = 1024, kx_observer = None, kx_context_window = 100, kx_print = \<lambda>_. ''{}''\<rparr>"

definition step_result :: "string \<Rightarrow> tool_result" where
  "step_result i = \<lparr>rs_call_id = i, rs_name = ''read'', rs_output = [PText ''done''], rs_is_error = False, rs_usage = None,
     rs_handler_executed = True, rs_additional_input = [], rs_events = [], rs_output_limit = 1024\<rparr>"

definition step_call :: "string \<Rightarrow> tool_call" where
  "step_call i = \<lparr>tc_call_id = i, tc_name = ''read'', tc_arguments = JObject []\<rparr>"

definition stuck_runner :: runner where
  "stuck_runner = sample_runner\<lparr>ru_state := sample_checkpoint\<lparr>ck_sequence := u64_max, ck_pending_tools := [step_call ''c1'']\<rparr>\<rparr>"


subsection \<open>The order of results\<close>

lemma mset_swap_remove:
  assumes "i < length xs"
  shows "add_mset (xs ! i) (mset (swap_remove i xs)) = mset xs"
proof -
  let ?ys = "xs[i := last xs]"
  from assms have ne: "?ys \<noteq> []" by auto
  have "last ?ys = last xs" using assms by (simp add: last_conv_nth nth_list_update ne [unfolded list_update_nonempty])
  with ne have "add_mset (last xs) (mset (butlast ?ys)) = mset ?ys"
    by (metis append_butlast_last_id mset_append mset_single_iff_right mset.simps union_mset_add_mset_right add.right_neutral)
  also have "\<dots> = add_mset (last xs) (mset xs - {#xs ! i#})" using assms by (simp add: mset_update)
  finally have "mset (butlast ?ys) = mset xs - {#xs ! i#}" by simp
  with assms show ?thesis by (simp add: swap_remove_def)
qed

lemma order_results_spec:
  "mset (order_results calls results) \<subseteq># mset results
    \<and> (distinct (map tc_call_id calls) \<longrightarrow> mset (map rs_call_id results) = mset (map tc_call_id calls) \<longrightarrow>
        map rs_call_id (order_results calls results) = map tc_call_id calls \<and> mset (order_results calls results) = mset results)"
proof (induction calls arbitrary: results)
  case Nil
  then show ?case by simp
next
  case (Cons call calls)
  show ?case
  proof (cases "rposition (\<lambda>r. rs_call_id r = tc_call_id call) results")
    case None
    then have "\<forall>r \<in> set results. rs_call_id r \<noteq> tc_call_id call" by simp
    then have "tc_call_id call \<notin># mset (map rs_call_id results)" by auto
    then have "mset (map rs_call_id results) \<noteq> mset (map tc_call_id (call # calls))" by (metis mset.simps(2) list.simps(9) union_single_eq_member)
    with None Cons.IH [of results] show ?thesis by (simp del: rposition_None)
  next
    case (Some i)
    then have i: "i < length results" "rs_call_id (results ! i) = tc_call_id call" using rposition_SomeD by fastforce+
    note m = mset_swap_remove [OF i(1)]
    have "add_mset (tc_call_id call) (mset (map rs_call_id (swap_remove i results))) = mset (map rs_call_id results)"
      using arg_cong [OF m, of "image_mset rs_call_id"] i(2) by simp
    then have ids: "mset (map rs_call_id results) = mset (map tc_call_id (call # calls)) \<Longrightarrow>
        mset (map rs_call_id (swap_remove i results)) = mset (map tc_call_id calls)"
      by (metis add_mset_add_mset_same_iff list.simps(9) mset.simps(2))
    have "add_mset (results ! i) (mset (order_results calls (swap_remove i results))) \<subseteq># mset results"
      using Cons.IH [of "swap_remove i results"] m by (metis mset_subset_eq_add_mset_cancel)
    with Cons.IH [of "swap_remove i results"] ids Some i m show ?thesis by simp
  qed
qed

text \<open>Whatever order a batch's results arrive in, they are kept in the order of the calls, exactly one for
  each: when the results answer the calls (the call ids are distinct and the results carry the same ids, in any
  order), ordering them gives a permutation of the results whose ids are the call ids in order.\<close>

lemma order_results_exact:
  assumes "distinct (map tc_call_id calls)" and "mset (map rs_call_id results) = mset (map tc_call_id calls)"
  shows "map rs_call_id (order_results calls results) = map tc_call_id calls
    \<and> mset (order_results calls results) = mset results"
  using order_results_spec [of calls results] assms by blast

subsection \<open>Interrupted calls\<close>

lemma append_free_results:
  assumes "record_tools s1 (length results) (length (filter rs_is_error results)) = (s2, Inr ())"
    and "List.map_filter rs_usage results = []" and "ck_pending_tools (ru_state s2) = []"
  shows "append_tool_results kx s1 results = (appended (result_items results) s2, Inr ())"
proof -
  have same: "set_state s2 (\<lambda>c. c\<lparr>ck_pending_tools := []\<rparr>) = s2"
    using assms(3) by (cases s2; cases "ru_state s2") simp
  have "append_tool_results kx s1 results
      = (appended (result_items results) (set_state s2 (\<lambda>c. c\<lparr>ck_pending_tools := []\<rparr>)), Inr ())"
    using assms by (simp add: append_tool_results_def foldl_append_result)
  then show ?thesis unfolding same .
qed

lemma record_usages_errors: "List.map_filter rs_usage (interrupted_results calls m limit) = []"
  by (induction calls) (simp_all add: interrupted_results_def List.map_filter_def result_error_def result_failure_def)

text \<open>Interrupting a turn leaves no call unanswered.  With an active execution whose counters have room,
  finishing the pending calls succeeds, none stays pending, the context gains for each of them an error output
  saying that the result is unknown and why, the execution counts each as a failed call, and the events are one
  end-of-call event for each call in order.\<close>

lemma finish_pending_tools_answers_all:
  assumes active: "ck_active_execution (ru_state self) = Some active"
    and room: "ax_tool_calls active + length (ck_pending_tools (ru_state self)) \<le> u64_max"
      "ax_failed_tool_calls active + length (ck_pending_tools (ru_state self)) \<le> u64_max"
  shows "\<exists>self' items active'. finish_pending_tools kx self sid turn reason = (self', Inr (map (\<lambda>call.
        turn_event sid (ToolCallEnd \<lparr>te_turn_id = turn, te_call_id = tc_call_id call, te_name = tc_name call,
          te_output = content_of_text (capped (''execution interrupted; result unknown: '' @ reason) (kx_output_limit kx)),
          te_is_error = True\<rparr>)) (ck_pending_tools (ru_state self))))
    \<and> ck_pending_tools (ru_state self') = []
    \<and> ck_context (ru_state self') = ck_context (ru_state self) @ items
    \<and> (\<forall>call \<in> set (ck_pending_tools (ru_state self)). tool_output (tc_call_id call)
          (content_of_text (capped (''execution interrupted; result unknown: '' @ reason) (kx_output_limit kx))) True \<in> set items)
    \<and> ck_active_execution (ru_state self') = Some active'
    \<and> ax_tool_calls active' = ax_tool_calls active + length (ck_pending_tools (ru_state self))
    \<and> ax_failed_tool_calls active' = ax_failed_tool_calls active + length (ck_pending_tools (ru_state self))"
proof -
  let ?calls = "ck_pending_tools (ru_state self)"
  define message where "message = ''execution interrupted; result unknown: '' @ reason"
  let ?results = "interrupted_results ?calls message (kx_output_limit kx)"
  let ?s0 = "set_state self (\<lambda>c. c\<lparr>ck_pending_tools := []\<rparr>)"
  define s1 where "s1 = (if ck_active_model_step (ru_state self) \<noteq> None
     then extend_context ?s0 (tool_call_inputs (kx_print kx) ?calls) else ?s0)"
  have "\<exists>pre. ck_context (ru_state s1) = ck_context (ru_state self) @ pre"
    by (simp add: s1_def extend_context_appended appended_def Let_def)
  then obtain pre where s1: "ck_context (ru_state s1) = ck_context (ru_state self) @ pre" "ck_pending_tools (ru_state s1) = []"
    "ck_active_execution (ru_state s1) = Some active"
    using active by (elim exE) (simp add: s1_def extend_context_appended appended_def Let_def)
  have events: "tool_result_events sid turn ?results = map (\<lambda>call. turn_event sid (ToolCallEnd \<lparr>te_turn_id = turn,
      te_call_id = tc_call_id call, te_name = tc_name call, te_output = content_of_text (capped message (kx_output_limit kx)),
      te_is_error = True\<rparr>)) ?calls"
    by (simp add: tool_result_events_def interrupted_results_def result_error_def result_failure_def comp_def)
  have finish: "finish_pending_tools kx self sid turn reason = (if ?results = [] then (s1, Inr [])
      else (case append_tool_results kx s1 ?results of
          (self', Inl e) \<Rightarrow> (self', Inl e)
        | (self', Inr _) \<Rightarrow> (self', Inr (tool_result_events sid turn ?results))))"
    unfolding finish_pending_tools_def Let_def message_def [symmetric] by (simp add: s1_def)
  show ?thesis
  proof (cases "?calls = []")
    case True
    then have "?results = []" by (simp add: interrupted_results_def)
    then have "finish_pending_tools kx self sid turn reason = (s1, Inr [])"
      by (simp add: finish)
    with True s1 show ?thesis unfolding message_def [symmetric] by simp
  next
    case False
    have n: "length ?results = length ?calls" "length (filter rs_is_error ?results) = length ?calls"
      by (simp_all add: interrupted_results_def result_error_def result_failure_def comp_def)
    define active' where "active' = active\<lparr>ax_tool_calls := ax_tool_calls active + length ?calls,
      ax_failed_tool_calls := ax_failed_tool_calls active + length ?calls\<rparr>"
    define s2 where "s2 = set_state s1 (\<lambda>c. set_active c active')"
    have "record_tools s1 (length ?calls) (length ?calls) = (s2, Inr ())"
      using room by (simp add: record_tools_def s1(3) u64_checked_add_def s2_def active'_def)
    then have "append_tool_results kx s1 ?results = (appended (result_items ?results) s2, Inr ())"
      using s1(2) by (intro append_free_results [OF _ record_usages_errors]) (simp_all add: n s2_def set_active_def)
    moreover from False have "?results \<noteq> []" by (simp add: interrupted_results_def)
    ultimately have "finish_pending_tools kx self sid turn reason
        = (appended (result_items ?results) s2, Inr (tool_result_events sid turn ?results))"
      by (simp add: finish)
    moreover have "tool_output (tc_call_id call) (content_of_text (capped message (kx_output_limit kx))) True
        \<in> set (kept_items s2 ?results)" if "call \<in> set ?calls" for call
      using kept_items_outputs [of "result_error call message (kx_output_limit kx)" ?results s2] that
      by (simp add: interrupted_results_def result_error_def result_failure_def)
    ultimately show ?thesis
      using s1 unfolding events message_def [symmetric]
      by (intro exI [of _ "appended (result_items ?results) s2"] exI [of _ "pre @ kept_items s2 ?results"] exI [of _ active'])
        (simp add: appended_def Let_def kept_items_def s2_def set_active_def active'_def)
  qed
qed

end
