(* ===== verification/Turn.thy ===== *)
theory Turn
  imports Tool_Step
begin

text \<open>
  The life of a turn, \<open>src/agent/turn.rs\<close> and the staging of messages in \<open>src/agent/turn/model.rs\<close>: a queued
  message becomes a turn, messages for the running turn are staged into its context, and a turn is completed,
  aborted or failed.  Every step changes the live checkpoint first and undoes the change when the checkpoint
  cannot be saved.  The hooks of the installed middleware are the functions of \<open>turn_config\<close>; the model loop
  between the start and the end of a turn is not part of these steps.
\<close>

subsection \<open>Model input of a turn\<close>

definition content_field :: "json \<Rightarrow> string" where
  "content_field item = (if get_str ''type'' item = Some ''function_call_output'' then ''output'' else ''content'')"

definition content_parts :: "json \<Rightarrow> json list option" where
  "content_parts item = get_array (content_field item) item"

definition has_prompt_cache_breakpoint :: "json list \<Rightarrow> bool" where
  "has_prompt_cache_breakpoint input = list_ex (\<lambda>item. case content_parts item of
      None \<Rightarrow> False
    | Some parts \<Rightarrow> list_ex (\<lambda>part. Option.bind (json_get PROMPT_CACHE_BREAKPOINT_FIELD part) as_bool = Some True) parts) input"

definition mark_prompt_cache_breakpoint :: "json \<Rightarrow> json \<times> bool" where
  "mark_prompt_cache_breakpoint item = (case content_parts item of
      None \<Rightarrow> (item, False)
    | Some parts \<Rightarrow>
        (case rposition (\<lambda>part. get_str ''type'' part \<in> {Some ''input_text'', Some ''input_image''}) parts of
           None \<Rightarrow> (item, False)
         | Some i \<Rightarrow> (set_field item (content_field item) (JArray
             (parts[i := set_field (parts ! i) PROMPT_CACHE_BREAKPOINT_FIELD (JBool True)])), True)))"

definition prepare_turn_input :: "json list \<Rightarrow> json \<Rightarrow> json" where
  "prepare_turn_input context input =
     (if has_prompt_cache_breakpoint context then input else fst (mark_prompt_cache_breakpoint input))"

fun with_message_target :: "event_msg \<Rightarrow> message_target option \<Rightarrow> event_msg option" where
  "with_message_target (MessageMsg m) target = Some (MessageMsg (m\<lparr>me_target := target\<rparr>))"
| "with_message_target (AssistantMessage m) target = Some (AssistantMessage (m\<lparr>am_target := target\<rparr>))"
| "with_message_target _ target = None"

definition no_message_target :: error where
  "no_message_target = CheckpointErr ''prepared input event has no message target''"

subsection \<open>Hooks\<close>

record submit_context =
  sc_events :: "event_msg list"
  sc_input :: "json list"
  sc_rejection :: "string option"

type_synonym submit_hook =
  "string \<Rightarrow> message_author \<Rightarrow> message_event \<Rightarrow> receipts \<Rightarrow> submit_context \<Rightarrow> submit_context \<times> unit res"

record message_submit_result =
  sb_input :: "json list"
  sb_rejection :: "string option"

record turn_config =
  tc_runner :: runner_config
  tc_step :: tool_step_config
  tc_codec :: codec
  tc_submit_hooks :: "submit_hook list"
  tc_turn_end :: "string \<Rightarrow> execution_outcome \<Rightarrow> queued_message list \<Rightarrow> bool \<Rightarrow> event_msg list \<times> unit res"

record turn_runner =
  tn_runner :: runner
  tn_turn_end_turn_id :: "string option"
  tn_idle_spent :: bool
  tn_session_start_stop :: "string option"

abbreviation tn_state :: "turn_runner \<Rightarrow> checkpoint" where
  "tn_state self \<equiv> ru_state (tn_runner self)"

abbreviation set_turn_state :: "turn_runner \<Rightarrow> (checkpoint \<Rightarrow> checkpoint) \<Rightarrow> turn_runner" where
  "set_turn_state self f \<equiv> self\<lparr>tn_runner := set_state (tn_runner self) f\<rparr>"

fun run_submit_hooks :: "submit_hook list \<Rightarrow> string \<Rightarrow> message_author \<Rightarrow> message_event \<Rightarrow> receipts \<Rightarrow> submit_context
    \<Rightarrow> submit_context \<times> unit res" where
  "run_submit_hooks [] turn_id author e receipts ctx = (ctx, Inr ())"
| "run_submit_hooks (hook # hooks) turn_id author e receipts ctx = (case hook turn_id author e receipts ctx of
      (ctx', Inl err) \<Rightarrow> (ctx', Inl err)
    | (ctx', Inr _) \<Rightarrow> run_submit_hooks hooks turn_id author e receipts ctx')"

definition message_submit ::
    "turn_config \<Rightarrow> string \<Rightarrow> message_author \<Rightarrow> prepared_message \<Rightarrow> receipts
      \<Rightarrow> event_msg list \<times> message_submit_result res" where
  "message_submit tc turn_id author message receipts = (case pm_event message of
      MessageMsg e \<Rightarrow>
        (case run_submit_hooks (tc_submit_hooks tc) turn_id author e receipts
               \<lparr>sc_events = [], sc_input = [], sc_rejection = None\<rparr> of
           (ctx, Inl err) \<Rightarrow> (sc_events ctx, Inl err)
         | (ctx, Inr _) \<Rightarrow> (sc_events ctx, Inr \<lparr>sb_input = sc_input ctx, sb_rejection = sc_rejection ctx\<rparr>))
    | _ \<Rightarrow> ([], Inl (CheckpointErr ''prepared event is not a message'')))"

definition active_author :: "checkpoint \<Rightarrow> message_author res" where
  "active_author c = (case ck_active_execution c of
      Some execution \<Rightarrow> Inr (ax_author execution)
    | None \<Rightarrow> Inl (CheckpointErr ''active turn has no initiating message''))"

definition is_idle_turn :: "checkpoint \<Rightarrow> bool" where
  "is_idle_turn c = (case ck_active_execution c of Some execution \<Rightarrow> ax_idle execution | None \<Rightarrow> False)"

subsection \<open>The end of a turn\<close>

definition turn_end_events ::
    "turn_config \<Rightarrow> turn_runner \<Rightarrow> string \<Rightarrow> string \<Rightarrow> execution_outcome \<Rightarrow> turn_runner \<times> event list res" where
  "turn_end_events tc self submission_id turn_id outcome =
     (if tn_turn_end_turn_id self = Some turn_id then (self, Inr [])
      else (let self = self\<lparr>tn_turn_end_turn_id := Some turn_id\<rparr> in
        case tc_turn_end tc turn_id outcome (ck_pending_messages (tn_state self)) (is_idle_turn (tn_state self)) of
          (_, Inl e) \<Rightarrow> (self, Inl e)
        | (messages, Inr _) \<Rightarrow> (self, Inr (map (turn_event submission_id) messages))))"

definition finish_turn ::
    "turn_config \<Rightarrow> turn_runner \<Rightarrow> string \<Rightarrow> string \<Rightarrow> execution_outcome \<Rightarrow> event_msg \<Rightarrow> event list \<Rightarrow> turn_runner \<times> unit res" where
  "finish_turn tc self submission_id turn_id outcome terminal events =
     (case finish_message_turn (cf_middleware (tc_runner tc)) (ck_pending_messages (tn_state self)) turn_id outcome of
        (items, r) \<Rightarrow>
          (let self = set_turn_state self (\<lambda>c. c\<lparr>ck_pending_messages := items\<rparr>) in
           case r of Inl e \<Rightarrow> (self, Inl e)
           | Inr _ \<Rightarrow> (case turn_end_events tc self submission_id turn_id outcome of
                 (self', Inl e) \<Rightarrow> (self', Inl e)
               | (self', Inr end_events) \<Rightarrow>
                   (case finish_and_persist_execution (tc_runner tc) (tn_runner self') outcome
                          (events @ end_events @ [turn_event submission_id terminal]) of
                      (ru, r) \<Rightarrow> (self'\<lparr>tn_runner := ru\<rparr>, res_bind r (\<lambda>_. Inr ()))))))"

definition complete_turn :: "turn_config \<Rightarrow> turn_runner \<Rightarrow> string \<Rightarrow> string \<Rightarrow> event list \<Rightarrow> turn_runner \<times> unit res" where
  "complete_turn tc self submission_id turn_id events = finish_turn tc self submission_id turn_id OutCompleted
     (TurnComplete \<lparr>tcp_idle = is_idle_turn (tn_state self), tcp_turn_id = turn_id\<rparr>) events"

definition abort_attempt ::
    "turn_config \<Rightarrow> turn_runner \<Rightarrow> string \<Rightarrow> string \<Rightarrow> string \<Rightarrow> execution_outcome \<Rightarrow> event list \<Rightarrow> turn_runner \<times> unit res" where
  "abort_attempt tc self submission_id turn_id reason outcome events =
     (case finish_pending_tools (tc_step tc) (tn_runner self) submission_id turn_id reason of
        (ru, Inl e) \<Rightarrow> (self\<lparr>tn_runner := ru\<rparr>, Inl e)
      | (ru, Inr tool_events) \<Rightarrow>
          (let self = self\<lparr>tn_runner := ru\<rparr>;
               self = set_turn_state self (\<lambda>c. c\<lparr>ck_active_model_step := None\<rparr>);
               self = set_turn_state self (\<lambda>c. c\<lparr>ck_pending_approval := None\<rparr>)
           in finish_turn tc self submission_id turn_id outcome
                (TurnAborted \<lparr>ta_idle = is_idle_turn (tn_state self), ta_turn_id = turn_id, ta_reason = reason\<rparr>)
                (events @ tool_events)))"

definition abort_with_events ::
    "turn_config \<Rightarrow> turn_runner \<Rightarrow> string \<Rightarrow> string \<Rightarrow> string \<Rightarrow> execution_outcome \<Rightarrow> event list \<Rightarrow> turn_runner \<times> unit res" where
  "abort_with_events tc self submission_id turn_id reason outcome events =
     (let previous_state = tn_state self; transcript_len = length (ru_transcript_delta (tn_runner self)) in
      case abort_attempt tc self submission_id turn_id reason outcome events of
        (self', Inr _) \<Rightarrow> (self', Inr ())
      | (self', Inl e) \<Rightarrow> (self'\<lparr>tn_runner := (tn_runner self')\<lparr>ru_state := previous_state,
            ru_transcript_delta := take transcript_len (ru_transcript_delta (tn_runner self'))\<rparr>\<rparr>, Inl e))"

definition abort_turn ::
    "turn_config \<Rightarrow> turn_runner \<Rightarrow> string \<Rightarrow> string \<Rightarrow> string \<Rightarrow> execution_outcome \<Rightarrow> turn_runner \<times> unit res" where
  "abort_turn tc self submission_id turn_id reason outcome = abort_with_events tc self submission_id turn_id reason outcome []"

definition TURN_INTERRUPTED_REASON :: string where "TURN_INTERRUPTED_REASON = ''interrupted''"
definition FRONTEND_DISCONNECTED_REASON :: string where "FRONTEND_DISCONNECTED_REASON = ''frontend disconnected''"

definition fail_message :: "error \<Rightarrow> string" where
  "fail_message e = (if e = Stopped FRONTEND_DISCONNECTED_REASON then FRONTEND_DISCONNECTED_REASON
     else ee_message (error_event_from e))"

definition fail_turn_with_events ::
    "turn_config \<Rightarrow> turn_runner \<Rightarrow> string \<Rightarrow> error \<Rightarrow> event list \<Rightarrow> turn_runner \<times> unit res" where
  "fail_turn_with_events tc self submission_id e events = (case ck_active_execution (tn_state self) of
      None \<Rightarrow> (self, Inl e)
    | Some execution \<Rightarrow> abort_with_events tc self submission_id (ax_turn_id execution) (fail_message e) OutFailed
        (events @ [turn_event submission_id (ErrorMsg (error_event_from e))]))"

definition fail_turn :: "turn_config \<Rightarrow> turn_runner \<Rightarrow> string \<Rightarrow> error \<Rightarrow> turn_runner \<times> unit res" where
  "fail_turn tc self submission_id e = fail_turn_with_events tc self submission_id e []"

definition stop_resumed_turn_at_session_start :: "turn_config \<Rightarrow> turn_runner \<Rightarrow> turn_runner \<times> unit res" where
  "stop_resumed_turn_at_session_start tc self = (case tn_session_start_stop self of
      None \<Rightarrow> (self, Inr ())
    | Some reason \<Rightarrow>
        (let self = self\<lparr>tn_session_start_stop := None\<rparr> in
         case ck_active_execution (tn_state self) of
           None \<Rightarrow> (self, Inr ())
         | Some execution \<Rightarrow> abort_turn tc self (ax_submission_id execution) (ax_turn_id execution) reason OutAborted))"

subsection \<open>The start of a turn\<close>

definition new_execution :: "string \<Rightarrow> message_author \<Rightarrow> string \<Rightarrow> int \<Rightarrow> active_execution" where
  "new_execution submission_id author turn_id now = \<lparr>ax_submission_id = submission_id, ax_author = author,
     ax_turn_id = turn_id, ax_started_at_ms = now, ax_model_calls = 0, ax_tool_calls = 0, ax_failed_tool_calls = 0,
     ax_usage = usage_zero, ax_next_model_step = 0, ax_stop_hook_active = False, ax_phase = PhaseModel, ax_idle = False\<rparr>"

definition begin_turn :: "turn_config \<Rightarrow> turn_runner \<Rightarrow> string \<Rightarrow> string \<Rightarrow> message_author \<Rightarrow> turn_runner \<times> unit res" where
  "begin_turn tc self submission_id turn_id author =
     (if ck_active_execution (tn_state self) \<noteq> None
      then (self, Inl (CheckpointErr ''cannot start a turn while another execution is active''))
      else (case cf_clock (tc_runner tc) of
          Inl e \<Rightarrow> (self, Inl e)
        | Inr now \<Rightarrow> (set_turn_state self (\<lambda>c. c\<lparr>ck_active_execution :=
              Some (new_execution submission_id author turn_id now)\<rparr>), Inr ())))"

definition turn_started :: "turn_config \<Rightarrow> bool \<Rightarrow> string \<Rightarrow> event_msg" where
  "turn_started tc idle turn_id = TurnStarted \<lparr>ts_idle = idle, ts_turn_id = turn_id,
     ts_model_context_window = Some (kx_context_window (tc_step tc))\<rparr>"

definition insert_message :: "nat \<Rightarrow> queued_message \<Rightarrow> queued_message list \<Rightarrow> queued_message list" where
  "insert_message i q items = take i items @ q # drop i items"

definition restore_message :: "turn_runner \<Rightarrow> nat \<times> queued_message \<Rightarrow> turn_runner" where
  "restore_message self removed = set_turn_state self (\<lambda>c. c\<lparr>ck_pending_messages :=
     insert_message (fst removed) (snd removed) (ck_pending_messages c)\<rparr>)"

definition consume_and_begin ::
    "turn_config \<Rightarrow> turn_runner \<Rightarrow> string \<Rightarrow> string \<Rightarrow> message_author \<Rightarrow> turn_runner \<times> (nat \<times> queued_message) res" where
  "consume_and_begin tc self submission_id turn_id author =
     (case stack_consume_next_turn (cf_middleware (tc_runner tc)) (ck_pending_messages (tn_state self)) submission_id of
        (items, Inl e) \<Rightarrow> (set_turn_state self (\<lambda>c. c\<lparr>ck_pending_messages := items\<rparr>), Inl e)
      | (items, Inr removed) \<Rightarrow>
          (case begin_turn tc (set_turn_state self (\<lambda>c. c\<lparr>ck_pending_messages := items\<rparr>)) submission_id turn_id author of
             (self', Inl e) \<Rightarrow> (restore_message self' removed, Inl e)
           | (self', Inr _) \<Rightarrow> (self', Inr removed)))"

definition reject_message_turn ::
    "turn_config \<Rightarrow> turn_runner \<Rightarrow> string \<Rightarrow> string \<Rightarrow> message_author \<Rightarrow> string \<Rightarrow> event_msg list \<Rightarrow> turn_runner \<times> unit res" where
  "reject_message_turn tc self submission_id turn_id author rejection messages =
     (case consume_and_begin tc self submission_id turn_id author of
        (self', Inl e) \<Rightarrow> (self', Inl e)
      | (self', Inr removed) \<Rightarrow>
          (case abort_with_events tc self' submission_id turn_id rejection OutAborted
                 (map (turn_event submission_id) (turn_started tc False turn_id # messages)) of
             (self'', Inr _) \<Rightarrow> (self'', Inr ())
           | (self'', Inl e) \<Rightarrow> (restore_message self'' removed, Inl e)))"

definition add_turn_input :: "turn_runner \<Rightarrow> json list \<Rightarrow> string option \<Rightarrow> json \<Rightarrow> turn_runner" where
  "add_turn_input self hook_input title_seed model_input =
     (let self = set_turn_state self (\<lambda>c. case accept_batch (ck_delivered_once c) hook_input of
            (receipts, kept) \<Rightarrow> c\<lparr>ck_delivered_once := receipts, ck_context := ck_context c @ kept\<rparr>);
          self = (if ck_first_user_message (tn_state self) = None
                  then set_turn_state self (\<lambda>c. c\<lparr>ck_first_user_message := title_seed\<rparr>) else self)
      in self\<lparr>tn_runner := push_context (tn_runner self) model_input\<rparr>)"

definition undo_turn_start :: "turn_runner \<Rightarrow> turn_runner \<Rightarrow> nat \<times> queued_message \<Rightarrow> turn_runner" where
  "undo_turn_start before self removed =
     (let context_len = length (ck_context (tn_state before));
          transcript_len = length (ru_transcript_delta (tn_runner before));
          self = restore_message self removed;
          self = set_turn_state self (\<lambda>c. c\<lparr>ck_delivered_once := rollback (ck_delivered_once c) (drop context_len (ck_context c))\<rparr>);
          self = set_turn_state self (\<lambda>c. c\<lparr>ck_context := take context_len (ck_context c)\<rparr>);
          self = self\<lparr>tn_runner := (tn_runner self)\<lparr>ru_transcript_delta := take transcript_len (ru_transcript_delta (tn_runner self))\<rparr>\<rparr>;
          self = (if ck_first_user_message (tn_state before) = None
                  then set_turn_state self (\<lambda>c. c\<lparr>ck_first_user_message := None\<rparr>) else self)
      in set_turn_state self (\<lambda>c. c\<lparr>ck_active_execution := None\<rparr>))"

definition accept_message_turn ::
    "turn_config \<Rightarrow> turn_runner \<Rightarrow> prepared_message \<Rightarrow> string \<Rightarrow> message_author \<Rightarrow> json list \<Rightarrow> event_msg list \<Rightarrow> turn_runner \<times> unit res" where
  "accept_message_turn tc self message turn_id author hook_input hook_messages =
     (let submission_id = pm_submission_id message;
          model_input = prepare_turn_input (ck_context (tn_state self)) (pm_input message) in
      case u64_checked_add (ck_sequence (tn_state self)) 1 of
        None \<Rightarrow> (self, Inl (CheckpointErr ''checkpoint sequence overflow''))
      | Some sequence \<Rightarrow>
          (case with_message_target (pm_event message) (Some \<lparr>checkpoint_sequence = sequence,
                 batch_item_count = sat_add 1 (length (ru_transcript_delta (tn_runner self)))\<rparr>) of
             None \<Rightarrow> (self, Inl no_message_target)
           | Some e \<Rightarrow>
               (case consume_and_begin tc self submission_id turn_id author of
                  (self', Inl err) \<Rightarrow> (self', Inl err)
                | (self', Inr removed) \<Rightarrow>
                    (let started = add_turn_input self' hook_input (pm_title_seed message) model_input in
                     case persist_with_events (tc_runner tc) (tn_runner started) (map (turn_event submission_id)
                            (turn_started tc False turn_id # hook_messages @ pm_boundary_events message @ [e])) None of
                       (ru, Inr _) \<Rightarrow> (started\<lparr>tn_runner := ru\<rparr>, Inr ())
                     | (ru, Inl err) \<Rightarrow> (undo_turn_start self' (started\<lparr>tn_runner := ru\<rparr>) removed, Inl err)))))"

text \<open>\<open>start_message_turn\<close> up to the model loop: \<open>Inr True\<close> when the turn goes on, \<open>Inr False\<close> when a hook rejected it.\<close>

definition start_message_turn ::
    "turn_config \<Rightarrow> turn_runner \<Rightarrow> string \<Rightarrow> prepared_message \<Rightarrow> turn_runner \<times> bool res" where
  "start_message_turn tc self turn_id message = (case pm_event message of
      MessageMsg e \<Rightarrow>
        (case message_submit tc turn_id (me_author e) message (ck_delivered_once (tn_state self)) of
           (_, Inl err) \<Rightarrow> (self, Inl err)
         | (hook_messages, Inr submitted) \<Rightarrow>
             (case sb_rejection submitted of
                Some rejection \<Rightarrow>
                  (case reject_message_turn tc self (pm_submission_id message) turn_id (me_author e) rejection
                         (hook_messages @ pm_boundary_events message) of
                     (self', r) \<Rightarrow> (self', res_bind r (\<lambda>_. Inr False)))
              | None \<Rightarrow>
                  (case accept_message_turn tc self message turn_id (me_author e) (sb_input submitted) hook_messages of
                     (self', r) \<Rightarrow> (self', res_bind r (\<lambda>_. Inr True)))))
    | _ \<Rightarrow> (self, Inl (CheckpointErr ''prepared message has no author'')))"

text \<open>\<open>run_idle_turn\<close> up to the model loop.\<close>

definition start_idle_turn :: "turn_config \<Rightarrow> turn_runner \<Rightarrow> string \<Rightarrow> string \<Rightarrow> turn_runner \<times> unit res" where
  "start_idle_turn tc self submission_id turn_id = (case begin_turn tc self submission_id turn_id User of
      (self', Inl e) \<Rightarrow> (self', Inl e)
    | (self', Inr _) \<Rightarrow>
        (let self' = set_turn_state self' (\<lambda>c. c\<lparr>ck_active_execution :=
               map_option (\<lambda>execution. execution\<lparr>ax_idle := True\<rparr>) (ck_active_execution c)\<rparr>) in
         case persist_with_events (tc_runner tc) (tn_runner self') [turn_event submission_id (turn_started tc True turn_id)] None of
           (ru, Inr _) \<Rightarrow> (self'\<lparr>tn_runner := ru\<rparr>, Inr ())
         | (ru, Inl e) \<Rightarrow> (set_turn_state (self'\<lparr>tn_runner := ru\<rparr>) (\<lambda>c. c\<lparr>ck_active_execution := None\<rparr>), Inl e)))"

subsection \<open>Staging messages into the running turn\<close>

text \<open>
  \<open>stage_message_input\<close> of \<open>src/agent/turn/model.rs\<close>.  The messages the queue holds for the turn are prepared
  one after another against a staged context; nothing of the live checkpoint changes before all are prepared.
\<close>

record message_staging =
  sg_appended :: "json list"
  sg_delivered_once :: receipts
  sg_transcript :: "json list"
  sg_events :: "event list"
  sg_idle_origin :: "(message_author \<times> string) option"

definition stage_accepted ::
    "turn_runner \<Rightarrow> nat \<Rightarrow> message_staging \<Rightarrow> prepared_message \<Rightarrow> event list \<Rightarrow> json list \<Rightarrow> message_staging res" where
  "stage_accepted self sequence sg message events input =
     (let idle_origin = (case (sg_idle_origin sg, pm_event message) of
            (None, MessageMsg e) \<Rightarrow> (if is_idle_turn (tn_state self) then Some (me_author e, pm_submission_id message) else None)
          | (origin, _) \<Rightarrow> origin)
      in case accept_batch (sg_delivered_once sg) input of (receipts, kept) \<Rightarrow>
        (let appended = sg_appended sg @ kept;
             model_input = prepare_turn_input (ck_context (tn_state self) @ appended) (pm_input message)
         in case with_message_target (pm_event message) (Some \<lparr>checkpoint_sequence = sequence,
                batch_item_count = sat_add 1 (length (ru_transcript_delta (tn_runner self)) + length (sg_transcript sg))\<rparr>) of
              None \<Rightarrow> Inl no_message_target
            | Some e \<Rightarrow> Inr \<lparr>sg_appended = appended @ [model_input], sg_delivered_once = receipts,
                sg_transcript = sg_transcript sg @ [model_input],
                sg_events = sg_events sg @ events @ [turn_event (pm_submission_id message) e], sg_idle_origin = idle_origin\<rparr>))"

definition stage_one ::
    "turn_config \<Rightarrow> turn_runner \<Rightarrow> string \<Rightarrow> nat \<Rightarrow> message_staging \<Rightarrow> prepared_message \<Rightarrow> message_staging res" where
  "stage_one tc self turn_id sequence sg message = res_bind (active_author (tn_state self)) (\<lambda>author.
     case message_submit tc turn_id author message (sg_delivered_once sg) of
       (_, Inl e) \<Rightarrow> Inl e
     | (hook_events, Inr submitted) \<Rightarrow>
         (let events = map (turn_event (pm_submission_id message)) (hook_events @ pm_boundary_events message) in
          case sb_rejection submitted of
            Some rejection \<Rightarrow> Inr (sg\<lparr>sg_events := sg_events sg @ events
                @ [turn_event (pm_submission_id message) (SubmissionRejected rejection)]\<rparr>)
          | None \<Rightarrow> stage_accepted self sequence sg message events (sb_input submitted)))"

definition stage_start :: "turn_runner \<Rightarrow> message_staging" where
  "stage_start self = \<lparr>sg_appended = [], sg_delivered_once = ck_delivered_once (tn_state self), sg_transcript = [],
     sg_events = [], sg_idle_origin = None\<rparr>"

definition was_idle :: "turn_runner \<Rightarrow> message_staging \<Rightarrow> bool" where
  "was_idle self sg \<longleftrightarrow> sg_transcript sg \<noteq> [] \<and> is_idle_turn (tn_state self)"

definition promote_idle_turn :: "turn_runner \<Rightarrow> message_staging \<Rightarrow> checkpoint \<Rightarrow> checkpoint" where
  "promote_idle_turn self sg c =
     (let c = (if sg_transcript sg \<noteq> [] then c\<lparr>ck_active_execution :=
            map_option (\<lambda>execution. execution\<lparr>ax_idle := False\<rparr>) (ck_active_execution c)\<rparr> else c)
      in case sg_idle_origin sg of None \<Rightarrow> c
         | Some (author, _) \<Rightarrow> c\<lparr>ck_active_execution := map_option (\<lambda>execution. execution\<lparr>ax_author := author\<rparr>) (ck_active_execution c)\<rparr>)"

definition staged_runner :: "turn_runner \<Rightarrow> queued_message list \<Rightarrow> message_staging \<Rightarrow> runner" where
  "staged_runner self pending sg =
     (let ru = set_state (tn_runner self) (\<lambda>c. c\<lparr>ck_pending_messages := pending\<rparr>);
          ru = set_state ru (promote_idle_turn self sg);
          ru = set_state ru (\<lambda>c. c\<lparr>ck_context := ck_context c @ sg_appended sg\<rparr>);
          ru = set_state ru (\<lambda>c. c\<lparr>ck_delivered_once := sg_delivered_once sg\<rparr>)
      in ru\<lparr>ru_transcript_delta := ru_transcript_delta ru @ sg_transcript sg\<rparr>)"

definition staged_events :: "turn_config \<Rightarrow> turn_runner \<Rightarrow> string \<Rightarrow> message_staging \<Rightarrow> event list" where
  "staged_events tc self turn_id sg = (case sg_idle_origin sg of
      Some (_, submission_id) \<Rightarrow>
        (if was_idle self sg then [turn_event submission_id (turn_started tc False turn_id)] else [])
    | None \<Rightarrow> []) @ sg_events sg"

definition undo_staging :: "turn_runner \<Rightarrow> message_staging \<Rightarrow> runner \<Rightarrow> runner" where
  "undo_staging before sg ru =
     (let c = tn_state before;
          ru = set_state ru (\<lambda>s. s\<lparr>ck_pending_messages := ck_pending_messages c\<rparr>);
          ru = (if was_idle before sg then set_state ru (\<lambda>s. s\<lparr>ck_active_execution := map_option (\<lambda>execution.
                  (case (sg_idle_origin sg, ck_active_execution c) of
                     (Some _, Some previous) \<Rightarrow> execution\<lparr>ax_idle := True, ax_author := ax_author previous\<rparr>
                   | _ \<Rightarrow> execution\<lparr>ax_idle := True\<rparr>)) (ck_active_execution s)\<rparr>) else ru);
          ru = set_state ru (\<lambda>s. s\<lparr>ck_context := take (length (ck_context c)) (ck_context s)\<rparr>);
          ru = set_state ru (\<lambda>s. s\<lparr>ck_delivered_once := ck_delivered_once c\<rparr>)
      in ru\<lparr>ru_transcript_delta := take (length (ru_transcript_delta (tn_runner before))) (ru_transcript_delta ru)\<rparr>)"

definition stage_message_input :: "turn_config \<Rightarrow> turn_runner \<Rightarrow> string \<Rightarrow> turn_runner \<times> unit res" where
  "stage_message_input tc self turn_id =
     (let items = ck_pending_messages (tn_state self) in
      case messages_ready (cf_middleware (tc_runner tc)) items turn_id of
        Inl e \<Rightarrow> (self, Inl e)
      | Inr ready \<Rightarrow> if \<not> ready then (self, Inr ()) else
          (case stack_stage_model_messages (tc_codec tc) (cf_middleware (tc_runner tc)) items turn_id of
             (_, Inl e) \<Rightarrow> (self, Inl e)
           | (pending, Inr messages) \<Rightarrow>
               (if messages = [] then (self, Inr ())
                else (case u64_checked_add (ck_sequence (tn_state self)) 1 of
                    None \<Rightarrow> (self, Inl (CheckpointErr ''checkpoint sequence overflow''))
                  | Some sequence \<Rightarrow>
                      (case fold_res (stage_one tc self turn_id sequence) (stage_start self) messages of
                         Inl e \<Rightarrow> (self, Inl e)
                       | Inr sg \<Rightarrow>
                           (case persist_with_events (tc_runner tc) (staged_runner self pending sg) (staged_events tc self turn_id sg) None of
                              (ru, Inl e) \<Rightarrow> (self\<lparr>tn_runner := undo_staging self sg ru\<rparr>, Inl e)
                            | (ru, Inr _) \<Rightarrow>
                                (self\<lparr>tn_runner := ru, tn_idle_spent := (if was_idle self sg then False else tn_idle_spent self)\<rparr>, Inr ())))))))"

subsection \<open>Undoing and finishing\<close>

lemma insert_message_remove: "i < length items \<Longrightarrow> insert_message i (items ! i) (remove_nth i items) = items"
  by (simp add: insert_message_def insert_remove_nth)

lemma stack_consume_Inr:
  "stack_consume_next_turn entries items i = (items', Inr removed) \<Longrightarrow>
     fst removed < length items \<and> snd removed = items ! fst removed \<and> items' = remove_nth (fst removed) items
     \<and> qm_id (snd removed) = i"
  by (auto simp: stack_consume_next_turn_def queue_consume_next_turn_def simp del: position_None
      split: sum.splits option.splits dest!: position_SomeD)

lemma stack_consume_Inl: "stack_consume_next_turn entries items i = (items', Inl e) \<Longrightarrow> items' = items"
  by (auto simp: stack_consume_next_turn_def queue_consume_next_turn_def split: sum.splits option.splits)

lemma finish_pending_tools_shape:
  assumes "finish_pending_tools kx self sid turn reason = (self', r)"
  shows "ru_recorder self' = ru_recorder self \<and> (\<exists>xs. ru_transcript_delta self' = ru_transcript_delta self @ xs)"
    and "r = Inr events \<Longrightarrow> ck_pending_tools (ru_state self') = []
      \<and> ck_sequence (ru_state self') = ck_sequence (ru_state self)
      \<and> (\<exists>items. ck_context (ru_state self') = ck_context (ru_state self) @ items)"
proof -
  let ?calls = "ck_pending_tools (ru_state self)"
  let ?s0 = "set_state self (\<lambda>c. c\<lparr>ck_pending_tools := []\<rparr>)"
  define s1 where "s1 = (if ck_active_model_step (ru_state self) \<noteq> None
     then extend_context ?s0 (tool_call_inputs (kx_print kx) ?calls) else ?s0)"
  define results where "results = interrupted_results ?calls (''execution interrupted; result unknown: '' @ reason) (kx_output_limit kx)"
  have s1: "ru_recorder s1 = ru_recorder self" "\<exists>xs. ru_transcript_delta s1 = ru_transcript_delta self @ xs"
    "ck_pending_tools (ru_state s1) = []" "ck_sequence (ru_state s1) = ck_sequence (ru_state self)"
    "\<exists>items. ck_context (ru_state s1) = ck_context (ru_state self) @ items"
    by (simp_all add: s1_def extend_context_appended appended_def Let_def)
  have eq: "finish_pending_tools kx self sid turn reason = (if results = [] then (s1, Inr [])
      else (case append_tool_results kx s1 results of
          (self', Inl e) \<Rightarrow> (self', Inl e)
        | (self', Inr _) \<Rightarrow> (self', Inr (tool_result_events sid turn results))))"
    unfolding finish_pending_tools_def Let_def results_def by (simp add: s1_def)
  have "(ru_recorder self' = ru_recorder self \<and> (\<exists>xs. ru_transcript_delta self' = ru_transcript_delta self @ xs))
    \<and> (r = Inr events \<longrightarrow> ck_pending_tools (ru_state self') = [] \<and> ck_sequence (ru_state self') = ck_sequence (ru_state self)
      \<and> (\<exists>items. ck_context (ru_state self') = ck_context (ru_state self) @ items))"
  proof (cases "results = []")
    case True
    with assms eq s1 show ?thesis by auto
  next
    case False
    obtain s2 r2 where a: "append_tool_results kx s1 results = (s2, r2)" by fastforce
    have self': "self' = s2" "r = Inr events \<longrightarrow> r2 = Inr ()"
      using assms eq a False by (auto split: sum.splits)
    obtain xs where "ru_transcript_delta s2 = ru_transcript_delta s1 @ xs"
      using append_tool_results_tentative(1) [OF a] by (auto simp: tentative_def appended_def Let_def)
    with append_tool_results_tentative [OF a] append_tool_results_sequence [OF a] s1 self' show ?thesis by auto
  qed
  then show "ru_recorder self' = ru_recorder self \<and> (\<exists>xs. ru_transcript_delta self' = ru_transcript_delta self @ xs)"
    and "r = Inr events \<Longrightarrow> ck_pending_tools (ru_state self') = [] \<and> ck_sequence (ru_state self') = ck_sequence (ru_state self)
      \<and> (\<exists>items. ck_context (ru_state self') = ck_context (ru_state self) @ items)" by auto
qed

lemma turn_end_events_runner: "turn_end_events tc self sid turn outcome = (self', r) \<Longrightarrow> tn_runner self' = tn_runner self"
  by (auto simp: turn_end_events_def Let_def split: if_splits prod.splits sum.splits)

text \<open>A finished turn is durable and idle; a turn that could not be finished keeps its transcript.\<close>

lemma finish_turn_cases:
  assumes inv: "ids_inv (ru_recorder (tn_runner self))"
    and finish: "finish_turn tc self sid turn outcome terminal events = (self', r)"
  shows "case r of
      Inl e \<Rightarrow> ru_transcript_delta (tn_runner self') = ru_transcript_delta (tn_runner self) \<and> ids_inv (ru_recorder (tn_runner self'))
    | Inr _ \<Rightarrow> durable (tn_runner self') \<and> ids_inv (ru_recorder (tn_runner self')) \<and> ru_transcript_delta (tn_runner self') = []
        \<and> (\<exists>stats. tn_state self' = (tn_state self)\<lparr>
              ck_pending_messages := fst (finish_message_turn (cf_middleware (tc_runner tc)) (ck_pending_messages (tn_state self)) turn outcome),
              ck_active_execution := None, ck_execution_stats := stats, ck_sequence := Suc (ck_sequence (tn_state self))\<rparr>)"
proof -
  obtain items r1 where m: "finish_message_turn (cf_middleware (tc_runner tc)) (ck_pending_messages (tn_state self)) turn outcome
      = (items, r1)" by fastforce
  define self1 where "self1 = set_turn_state self (\<lambda>c. c\<lparr>ck_pending_messages := items\<rparr>)"
  obtain self2 r2 where t: "turn_end_events tc self1 sid turn outcome = (self2, r2)" by fastforce
  note same = turn_end_events_runner [OF t]
  show ?thesis
  proof (cases "\<exists>u end_events. r1 = Inr u \<and> r2 = Inr end_events")
    case False
    then have "(self' = self1 \<or> self' = self2) \<and> (\<exists>e. r = Inl e)"
      using finish m t by (cases r1; cases r2) (auto simp: finish_turn_def Let_def self1_def)
    with same inv show ?thesis by (auto simp: self1_def)
  next
    case True
    then obtain end_events where r12: "r1 = Inr ()" "r2 = Inr end_events" by auto
    obtain ru q where f: "finish_and_persist_execution (tc_runner tc) (tn_runner self2) outcome
        (events @ end_events @ [turn_event sid terminal]) = (ru, q)" by fastforce
    have self': "self' = self2\<lparr>tn_runner := ru\<rparr>" "r = res_bind q (\<lambda>_. Inr ())"
      using finish m t r12 f by (auto simp: finish_turn_def Let_def self1_def)
    have "ids_inv (ru_recorder (tn_runner self2))" using same inv by (simp add: self1_def)
    from finish_and_persist_atomic [OF this f] show ?thesis
      using self' same m inv by (cases q) (auto simp: self1_def same_live_def)
  qed
qed

lemma abort_with_events_cases:
  assumes inv: "ids_inv (ru_recorder (tn_runner self))"
    and abort: "abort_with_events tc self sid turn reason outcome events = (self', r)"
  shows "case r of
      Inl e \<Rightarrow> same_live (tn_runner self) (tn_runner self')
    | Inr _ \<Rightarrow> durable (tn_runner self') \<and> ids_inv (ru_recorder (tn_runner self')) \<and> ru_transcript_delta (tn_runner self') = []
        \<and> ck_active_execution (tn_state self') = None \<and> ck_active_model_step (tn_state self') = None
        \<and> ck_pending_tools (tn_state self') = [] \<and> ck_pending_approval (tn_state self') = None
        \<and> (\<exists>items. ck_context (tn_state self') = ck_context (tn_state self) @ items)"
proof -
  obtain ru p where f: "finish_pending_tools (tc_step tc) (tn_runner self) sid turn reason = (ru, p)" by fastforce
  note shape = finish_pending_tools_shape [OF f]
  obtain self1 q where a: "abort_attempt tc self sid turn reason outcome events = (self1, q)" by fastforce
  have attempt: "case q of
      Inl e \<Rightarrow> ids_inv (ru_recorder (tn_runner self1)) \<and> (\<exists>xs. ru_transcript_delta (tn_runner self1) = ru_transcript_delta (tn_runner self) @ xs)
    | Inr _ \<Rightarrow> durable (tn_runner self1) \<and> ids_inv (ru_recorder (tn_runner self1)) \<and> ru_transcript_delta (tn_runner self1) = []
        \<and> ck_active_execution (tn_state self1) = None \<and> ck_active_model_step (tn_state self1) = None
        \<and> ck_pending_tools (tn_state self1) = [] \<and> ck_pending_approval (tn_state self1) = None
        \<and> (\<exists>items. ck_context (tn_state self1) = ck_context (tn_state self) @ items)"
  proof (cases p)
    case (Inl e)
    with a f shape(1) inv show ?thesis by (auto simp: abort_attempt_def)
  next
    case (Inr tool_events)
    let ?self = "self\<lparr>tn_runner := ru\<lparr>ru_state := (ru_state ru)\<lparr>ck_active_model_step := None, ck_pending_approval := None\<rparr>\<rparr>\<rparr>"
    have fin: "finish_turn tc ?self sid turn outcome
        (TurnAborted \<lparr>ta_idle = is_idle_turn (tn_state ?self), ta_turn_id = turn, ta_reason = reason\<rparr>) (events @ tool_events) = (self1, q)"
      using a f Inr by (simp add: abort_attempt_def Let_def)
    have "ids_inv (ru_recorder (tn_runner ?self))" using shape(1) inv by simp
    from finish_turn_cases [OF this fin] shape(1) shape(2) [OF Inr] show ?thesis by (cases q) auto
  qed
  show ?thesis
  proof (cases q)
    case (Inl e)
    with abort a attempt show ?thesis by (auto simp: abort_with_events_def Let_def same_live_def)
  next
    case (Inr u)
    with abort a attempt show ?thesis by (auto simp: abort_with_events_def Let_def)
  qed
qed

subsection \<open>Starting\<close>

lemma new_execution_fields:
  "ax_submission_id (new_execution sid author turn now) = sid" "ax_turn_id (new_execution sid author turn now) = turn"
  "ax_author (new_execution sid author turn now) = author" "\<not> ax_idle (new_execution sid author turn now)"
  by (simp_all add: new_execution_def)

lemma begin_turn_cases:
  assumes "begin_turn tc self sid turn author = (self', r)"
  shows "case r of Inl e \<Rightarrow> self' = self
    | Inr _ \<Rightarrow> ck_active_execution (tn_state self) = None
        \<and> (\<exists>now. self' = set_turn_state self (\<lambda>c. c\<lparr>ck_active_execution := Some (new_execution sid author turn now)\<rparr>))"
  using assms by (cases "cf_clock (tc_runner tc)") (auto simp: begin_turn_def split: if_splits)

lemma consume_and_begin_cases:
  assumes "consume_and_begin tc self sid turn author = (self', r)"
  shows "case r of Inl e \<Rightarrow> self' = self
    | Inr (i, q) \<Rightarrow> ck_active_execution (tn_state self) = None \<and> i < length (ck_pending_messages (tn_state self))
        \<and> q = ck_pending_messages (tn_state self) ! i \<and> qm_id q = sid
        \<and> (\<exists>now. self' = set_turn_state self (\<lambda>c. c\<lparr>ck_pending_messages := remove_nth i (ck_pending_messages c),
             ck_active_execution := Some (new_execution sid author turn now)\<rparr>))"
proof -
  let ?items = "ck_pending_messages (tn_state self)"
  obtain items p where c: "stack_consume_next_turn (cf_middleware (tc_runner tc)) ?items sid = (items, p)" by fastforce
  show ?thesis
  proof (cases p)
    case (Inl e)
    with assms c stack_consume_Inl [OF c [unfolded Inl]] show ?thesis by (auto simp: consume_and_begin_def)
  next
    case (Inr removed)
    note removed = stack_consume_Inr [OF c [unfolded Inr]]
    obtain self1 b where bt: "begin_turn tc (set_turn_state self (\<lambda>c. c\<lparr>ck_pending_messages := items\<rparr>)) sid turn author = (self1, b)"
      by fastforce
    show ?thesis
    proof (cases b)
      case (Inl e)
      with begin_turn_cases [OF bt] have "self1 = set_turn_state self (\<lambda>c. c\<lparr>ck_pending_messages := items\<rparr>)" by simp
      with assms c Inr bt Inl removed insert_message_remove [of "fst removed" ?items] show ?thesis
        by (auto simp: consume_and_begin_def restore_message_def)
    next
      case (Inr u)
      with begin_turn_cases [OF bt] assms c \<open>p = Inr removed\<close> bt removed show ?thesis
        by (cases removed) (auto simp: consume_and_begin_def)
    qed
  qed
qed

lemma identity_message_input: "message_input cd e = Inr v \<Longrightarrow> identity v = None"
proof -
  have set_other: "identity (set_field w k x) = identity w" if "k \<noteq> FIELD" for w k x
    using that by (cases w) (simp_all add: identity_def set_field_def update_conv')
  have plain: "identity (user_message t) = None" for t
    by (simp add: identity_def user_message_def field_names)
  have names: "MESSAGE_METADATA_FIELD \<noteq> FIELD" "ATTACHMENTS_FIELD \<noteq> FIELD" "INTERNAL_MESSAGE_FIELD \<noteq> FIELD"
    by (simp_all add: field_names)
  assume "message_input cd e = Inr v"
  then show ?thesis
    by (auto simp: message_input_def user_message_with_attachments_def internal_user_message_def res_bind_Inr_iff set_other names plain
        split: message_author.splits if_splits)
qed

lemma identity_prepare_turn_input: "identity (prepare_turn_input context v) = identity v"
proof -
  have "content_field v \<noteq> FIELD" by (simp add: content_field_def field_names)
  then have "identity (set_field v (content_field v) x) = identity v" for x
    by (cases v) (simp_all add: identity_def set_field_def update_conv')
  then show ?thesis
    by (simp add: prepare_turn_input_def mark_prompt_cache_breakpoint_def split: option.split)
qed

lemma identity_prepare_queued: "prepare_queued cd q = Inr p \<Longrightarrow> identity (pm_input p) = None"
  using identity_message_input by (auto simp: prepare_queued_def prepared_new_def res_bind_Inr_iff split: prod.splits)

lemma next_turn_message:
  assumes "stack_next_turn cd entries items = Inr (Some message)"
  shows "identity (pm_input message) = None \<and> (\<exists>e. pm_event message = MessageMsg e)"
proof -
  from assms obtain q z where "prepare_queued cd q = Inr z" "pm_input message = pm_input z" "pm_event message = pm_event z"
    by (auto simp: stack_next_turn_def queue_next_turn_def res_bind_Inr_iff split: option.splits)
  with identity_prepare_queued [of cd q z] prepare_queued_fields [of cd q z] show ?thesis by auto
qed

lemma accept_batch_subset: "x \<in> set (snd (accept_batch r items)) \<Longrightarrow> x \<in> set items"
  by (induction items arbitrary: r) (auto simp: split_beta Let_def split: if_splits)

lemma rollback_snoc_plain: "identity x = None \<Longrightarrow> rollback r (xs @ [x]) = rollback r xs"
  by (simp add: rollback_def rollback_item_def)

text \<open>What a turn start adds, and that taking it back gives the checkpoint before the message was consumed.\<close>

lemma add_turn_input_fields:
  assumes "accept_batch (ck_delivered_once (tn_state self)) hook_input = (receipts, kept)"
  shows "tn_state (add_turn_input self hook_input title input) = (tn_state self)\<lparr>ck_delivered_once := receipts,
      ck_context := ck_context (tn_state self) @ kept @ [input],
      ck_first_user_message := (if ck_first_user_message (tn_state self) = None then title else ck_first_user_message (tn_state self))\<rparr>
    \<and> ru_transcript_delta (tn_runner (add_turn_input self hook_input title input)) = ru_transcript_delta (tn_runner self) @ [input]
    \<and> ru_recorder (tn_runner (add_turn_input self hook_input title input)) = ru_recorder (tn_runner self)"
  using assms by (simp add: add_turn_input_def push_context_def Let_def)

lemma undo_turn_start_restores:
  assumes wf: "receipts_wf (ck_delivered_once (tn_state self))" and plain: "identity input = None"
    and idle: "ck_active_execution (tn_state self) = None"
    and i: "i < length (ck_pending_messages (tn_state self))"
    and before: "before = set_turn_state self (\<lambda>c. c\<lparr>ck_pending_messages := remove_nth i (ck_pending_messages c),
         ck_active_execution := Some active\<rparr>)"
    and live: "same_live (tn_runner (add_turn_input before hook_input title input)) ru"
  shows "same_live (tn_runner self)
    (tn_runner (undo_turn_start before ((add_turn_input before hook_input title input)\<lparr>tn_runner := ru\<rparr>)
       (i, ck_pending_messages (tn_state self) ! i)))"
proof -
  let ?c = "tn_state self"
  obtain receipts kept where a: "accept_batch (ck_delivered_once ?c) hook_input = (receipts, kept)" by fastforce
  have a': "accept_batch (ck_delivered_once (tn_state before)) hook_input = (receipts, kept)" using a before by simp
  note f = add_turn_input_fields [OF a', of title input]
  have undone: "rollback receipts (kept @ [input]) = ck_delivered_once ?c"
    using rollback_snoc_plain [OF plain] rollback_undoes_batch [OF wf a] by simp
  have r: "ru_state ru = (tn_state before)\<lparr>ck_delivered_once := receipts, ck_context := ck_context ?c @ kept @ [input],
      ck_first_user_message := (if ck_first_user_message ?c = None then title else ck_first_user_message ?c)\<rparr>"
    "ru_transcript_delta ru = ru_transcript_delta (tn_runner self) @ [input]"
    "ids_inv (ru_recorder (tn_runner self)) \<Longrightarrow> ids_inv (ru_recorder ru)"
    using live f before by (simp_all add: same_live_def)
  define self' where "self' = undo_turn_start before ((add_turn_input before hook_input title input)\<lparr>tn_runner := ru\<rparr>)
      (i, ck_pending_messages ?c ! i)"
  have b: "ck_context (tn_state before) = ck_context ?c" "ck_first_user_message (tn_state before) = ck_first_user_message ?c"
    "ru_transcript_delta (tn_runner before) = ru_transcript_delta (tn_runner self)"
    by (simp_all add: before)
  have rest: "ru_transcript_delta (tn_runner self') = take (length (ru_transcript_delta (tn_runner self))) (ru_transcript_delta ru)"
    "ru_recorder (tn_runner self') = ru_recorder ru"
    unfolding self'_def undo_turn_start_def restore_message_def Let_def b by simp_all
  have "tn_state self' = (ru_state ru)\<lparr>
      ck_pending_messages := insert_message i (ck_pending_messages ?c ! i) (ck_pending_messages (ru_state ru)),
      ck_delivered_once := rollback (ck_delivered_once (ru_state ru)) (drop (length (ck_context ?c)) (ck_context (ru_state ru))),
      ck_context := take (length (ck_context ?c)) (ck_context (ru_state ru)),
      ck_first_user_message := (if ck_first_user_message ?c = None then None else ck_first_user_message (ru_state ru)),
      ck_active_execution := None\<rparr>"
    unfolding self'_def undo_turn_start_def restore_message_def Let_def b by (cases "ck_first_user_message ?c") simp_all
  also have "\<dots> = (tn_state before)\<lparr>ck_pending_messages := ck_pending_messages ?c, ck_active_execution := None\<rparr>"
    using insert_message_remove [OF i] undone unfolding r(1) by (simp add: before)
  also have "\<dots> = ?c" using idle by (cases ?c) (simp add: before)
  finally show ?thesis using rest r(2,3) unfolding self'_def [symmetric] by (simp add: same_live_def)
qed

subsection \<open>Properties\<close>

definition hook_rejects :: "turn_config \<Rightarrow> turn_runner \<Rightarrow> string \<Rightarrow> prepared_message \<Rightarrow> bool" where
  "hook_rejects tc self turn_id message = (case pm_event message of
      MessageMsg e \<Rightarrow> (case snd (message_submit tc turn_id (me_author e) message (ck_delivered_once (tn_state self))) of
          Inr submitted \<Rightarrow> sb_rejection submitted \<noteq> None | Inl _ \<Rightarrow> False)
    | _ \<Rightarrow> False)"

lemma accept_message_turn_cases:
  assumes wf: "receipts_wf (ck_delivered_once (tn_state self))" and inv: "ids_inv (ru_recorder (tn_runner self))"
    and plain: "identity (pm_input message) = None"
    and start: "accept_message_turn tc self message turn author hook_input hook_messages = (self', r)"
  shows "case r of
      Inl e \<Rightarrow> same_live (tn_runner self) (tn_runner self')
    | Inr _ \<Rightarrow> durable (tn_runner self') \<and> ids_inv (ru_recorder (tn_runner self')) \<and> ru_transcript_delta (tn_runner self') = []
        \<and> (\<exists>i now kept. i < length (ck_pending_messages (tn_state self))
            \<and> qm_id (ck_pending_messages (tn_state self) ! i) = pm_submission_id message
            \<and> ck_pending_messages (tn_state self') = remove_nth i (ck_pending_messages (tn_state self))
            \<and> ck_active_execution (tn_state self') = Some (new_execution (pm_submission_id message) author turn now)
            \<and> ck_context (tn_state self') = ck_context (tn_state self) @ kept
                @ [prepare_turn_input (ck_context (tn_state self)) (pm_input message)]
            \<and> set kept \<subseteq> set hook_input)"
proof -
  let ?input = "prepare_turn_input (ck_context (tn_state self)) (pm_input message)"
  obtain self1 b where c: "consume_and_begin tc self (pm_submission_id message) turn author = (self1, b)" by fastforce
  note cb = consume_and_begin_cases [OF c]
  let ?target = "Some \<lparr>checkpoint_sequence = Suc (ck_sequence (tn_state self)),
    batch_item_count = sat_add 1 (length (ru_transcript_delta (tn_runner self)))\<rparr>"
  show ?thesis
  proof (cases "ck_sequence (tn_state self) + 1 \<le> u64_max \<and> with_message_target (pm_event message) ?target \<noteq> None \<and> (\<exists>x. b = Inr x)")
    case False
    then have "self' = self \<and> (\<exists>e. r = Inl e)"
      using start c cb
      by (cases b; cases "with_message_target (pm_event message) ?target")
        (auto simp: accept_message_turn_def Let_def u64_checked_add_def split: if_splits)
    then show ?thesis by (auto simp: same_live_refl)
  next
    case True
    then obtain e i q where ok: "ck_sequence (tn_state self) + 1 \<le> u64_max" "with_message_target (pm_event message) ?target = Some e"
      and b: "b = Inr (i, q)" by auto
    let ?added = "add_turn_input self1 hook_input (pm_title_seed message) ?input"
    let ?events = "map (turn_event (pm_submission_id message))
      (turn_started tc False turn # hook_messages @ pm_boundary_events message @ [e])"
    from cb b obtain now where i: "ck_active_execution (tn_state self) = None" "i < length (ck_pending_messages (tn_state self))"
      "q = ck_pending_messages (tn_state self) ! i" "qm_id q = pm_submission_id message"
      and self1: "self1 = set_turn_state self (\<lambda>c. c\<lparr>ck_pending_messages := remove_nth i (ck_pending_messages c),
         ck_active_execution := Some (new_execution (pm_submission_id message) author turn now)\<rparr>)"
      by auto
    obtain receipts kept where a: "accept_batch (ck_delivered_once (tn_state self1)) hook_input = (receipts, kept)" by fastforce
    note f = add_turn_input_fields [OF a, of "pm_title_seed message" ?input]
    obtain ru p where ps: "persist_with_events (tc_runner tc) (tn_runner ?added) ?events None = (ru, p)" by fastforce
    have eq: "accept_message_turn tc self message turn author hook_input hook_messages
        = (case p of Inr _ \<Rightarrow> (?added\<lparr>tn_runner := ru\<rparr>, Inr ()) | Inl err \<Rightarrow> (undo_turn_start self1 (?added\<lparr>tn_runner := ru\<rparr>) (i, q), Inl err))"
      using ok c b ps unfolding accept_message_turn_def Let_def by (simp add: u64_checked_add_def split: sum.split)
    show ?thesis
    proof (cases p)
      case (Inl err)
      have "identity ?input = None" using plain by (simp add: identity_prepare_turn_input)
      from undo_turn_start_restores [OF wf this i(1,2) self1 persist_fails [OF ps [unfolded Inl]]]
      show ?thesis using start eq Inl i(3) by auto
    next
      case (Inr n)
      have "set kept \<subseteq> set hook_input" using accept_batch_subset [of _ "ck_delivered_once (tn_state self1)" hook_input] a by auto
      moreover have "ids_inv (ru_recorder (tn_runner ?added))" using f self1 inv by simp
      moreover have "self' = ?added\<lparr>tn_runner := ru\<rparr>" "r = Inr ()" using start eq Inr by auto
      ultimately show ?thesis
        using persist_succeeds [OF ps [unfolded Inr]] f self1 i by auto
    qed
  qed
qed

lemma reject_message_turn_cases:
  assumes inv: "ids_inv (ru_recorder (tn_runner self))"
    and reject: "reject_message_turn tc self sid turn author rejection messages = (self', Inr u)"
  shows "durable (tn_runner self') \<and> ids_inv (ru_recorder (tn_runner self')) \<and> ck_active_execution (tn_state self') = None
    \<and> ck_pending_tools (tn_state self') = []"
proof -
  from reject obtain self1 removed where c: "consume_and_begin tc self sid turn author = (self1, Inr removed)"
    and a: "abort_with_events tc self1 sid turn rejection OutAborted (map (turn_event sid) (turn_started tc False turn # messages)) = (self', Inr ())"
    by (auto simp: reject_message_turn_def split: prod.splits sum.splits)
  have "ids_inv (ru_recorder (tn_runner self1))" using consume_and_begin_cases [OF c] inv by (auto split: prod.splits)
  from abort_with_events_cases [OF this a] show ?thesis by simp
qed


text \<open>
  When a rejected message's turn cannot be recorded, the message goes back to the queue but its turn stays
  active in memory.
\<close>

lemma failed_rejection_leaves_turn_active:
  assumes inv: "ids_inv (ru_recorder (tn_runner self))"
    and c: "consume_and_begin tc self sid turn author = (self1, Inr removed)"
    and a: "abort_with_events tc self1 sid turn rejection OutAborted (map (turn_event sid) (turn_started tc False turn # messages)) = (self2, Inl e)"
  shows "\<exists>self' execution. reject_message_turn tc self sid turn author rejection messages = (self', Inl e)
    \<and> ck_pending_messages (tn_state self') = ck_pending_messages (tn_state self)
    \<and> ck_active_execution (tn_state self') = Some execution"
proof -
  obtain i q where ri: "removed = (i, q)" by fastforce
  from consume_and_begin_cases [OF c] ri obtain now where i: "i < length (ck_pending_messages (tn_state self))"
    "q = ck_pending_messages (tn_state self) ! i"
    and self1: "self1 = set_turn_state self (\<lambda>c. c\<lparr>ck_pending_messages := remove_nth i (ck_pending_messages c),
         ck_active_execution := Some (new_execution sid author turn now)\<rparr>)" by auto
  have "ids_inv (ru_recorder (tn_runner self1))" using inv self1 by simp
  from abort_with_events_cases [OF this a] have "tn_state self2 = tn_state self1" by (simp add: same_live_def)
  moreover have "reject_message_turn tc self sid turn author rejection messages = (restore_message self2 removed, Inl e)"
    using c a by (simp add: reject_message_turn_def)
  ultimately show ?thesis
    using self1 i ri insert_message_remove [OF i(1)] by (simp add: restore_message_def)
qed

subsection \<open>Staging\<close>

lemma stage_accepted_origin:
  assumes "stage_accepted self sequence sg message events input = Inr sg'"
  shows "sg_transcript sg' \<noteq> [] \<and> (sg_idle_origin sg' \<noteq> None \<longrightarrow> sg_idle_origin sg \<noteq> None \<or> is_idle_turn (tn_state self))"
proof -
  obtain receipts kept where a: "accept_batch (sg_delivered_once sg) input = (receipts, kept)" by fastforce
  from assms show ?thesis
    unfolding stage_accepted_def Let_def a prod.case
    by (cases "sg_idle_origin sg"; cases "pm_event message") (auto split: if_splits)
qed

lemma stage_one_cases:
  assumes "stage_one tc self turn sequence sg message = Inr sg'"
  obtains (rejected) events where "sg' = sg\<lparr>sg_events := events\<rparr>"
  | (accepted) events input where "stage_accepted self sequence sg message events input = Inr sg'"
proof -
  from assms obtain author where author: "active_author (tn_state self) = Inr author"
    by (auto simp: stage_one_def res_bind_Inr_iff)
  obtain hooks s where m: "message_submit tc turn author message (sg_delivered_once sg) = (hooks, s)" by fastforce
  with assms author obtain submitted where s: "s = Inr submitted" by (cases s) (auto simp: stage_one_def)
  show ?thesis
  proof (cases "sb_rejection submitted")
    case None
    with assms author m s have "stage_accepted self sequence sg message
        (map (turn_event (pm_submission_id message)) (hooks @ pm_boundary_events message)) (sb_input submitted) = Inr sg'"
      by (simp add: stage_one_def Let_def)
    then show ?thesis by (rule accepted)
  next
    case (Some rejection)
    with assms author m s have "sg' = sg\<lparr>sg_events := sg_events sg' \<rparr>" by (auto simp: stage_one_def Let_def)
    then show ?thesis by (rule rejected)
  qed
qed

lemma fold_res_inv:
  assumes "\<And>s x s'. P s \<Longrightarrow> f s x = Inr s' \<Longrightarrow> P s'" and "P s" and "fold_res f s xs = Inr s'"
  shows "P s'"
  using assms(2,3)
proof (induction xs arbitrary: s)
  case (Cons x xs)
  then show ?case using assms(1) by (auto simp: res_bind_Inr_iff)
qed simp

definition staging_ok :: "turn_runner \<Rightarrow> message_staging \<Rightarrow> bool" where
  "staging_ok self sg \<longleftrightarrow> (sg_appended sg = [] \<or> sg_transcript sg \<noteq> [])
     \<and> (sg_idle_origin sg \<noteq> None \<longrightarrow> sg_transcript sg \<noteq> [] \<and> is_idle_turn (tn_state self))"

lemma stage_one_ok:
  assumes "staging_ok self sg" and "stage_one tc self turn sequence sg message = Inr sg'"
  shows "staging_ok self sg'"
  using assms(2)
proof (cases rule: stage_one_cases)
  case (rejected events)
  with assms(1) show ?thesis by (simp add: staging_ok_def)
next
  case (accepted events input)
  from stage_accepted_origin [OF this] assms(1) show ?thesis by (auto simp: staging_ok_def)
qed

lemma stage_ok:
  assumes "fold_res (stage_one tc self turn sequence) (stage_start self) messages = Inr sg"
  shows "staging_ok self sg"
  using stage_one_ok by (rule fold_res_inv [OF _ _ assms]) (simp_all add: stage_start_def staging_ok_def)

lemma undo_staging_restores:
  assumes ok: "staging_ok self sg"
    and live: "same_live (staged_runner self pending sg) ru"
  shows "same_live (tn_runner self) (undo_staging self sg ru)"
proof -
  let ?c = "tn_state self" and ?ru = "undo_staging self sg ru"
  have r: "ru_state ru = (promote_idle_turn self sg (?c\<lparr>ck_pending_messages := pending\<rparr>))\<lparr>
      ck_context := ck_context ?c @ sg_appended sg, ck_delivered_once := sg_delivered_once sg\<rparr>"
    "ru_transcript_delta ru = ru_transcript_delta (tn_runner self) @ sg_transcript sg"
    "ids_inv (ru_recorder (tn_runner self)) \<longrightarrow> ids_inv (ru_recorder ru)"
    using live by (auto simp: staged_runner_def same_live_def Let_def promote_idle_turn_def split: option.split)
  define active where "active = ck_active_execution (promote_idle_turn self sg (?c\<lparr>ck_pending_messages := pending\<rparr>))"
  have p: "promote_idle_turn self sg (?c\<lparr>ck_pending_messages := pending\<rparr>)
      = ?c\<lparr>ck_pending_messages := pending, ck_active_execution := active\<rparr>"
    unfolding active_def by (auto simp: promote_idle_turn_def Let_def split: option.split)
  have act: "(if was_idle self sg then map_option (\<lambda>execution.
      (case (sg_idle_origin sg, ck_active_execution ?c) of
         (Some _, Some previous) \<Rightarrow> execution\<lparr>ax_idle := True, ax_author := ax_author previous\<rparr>
       | _ \<Rightarrow> execution\<lparr>ax_idle := True\<rparr>)) active else active) = ck_active_execution ?c"
    using ok unfolding active_def staging_ok_def
    by (cases "ck_active_execution ?c"; cases "sg_idle_origin sg")
      (auto simp: promote_idle_turn_def was_idle_def is_idle_turn_def Let_def)
  have ra: "ck_active_execution (ru_state ru) = active" unfolding r(1) p by simp
  have "ru_state ?ru = (ru_state ru)\<lparr>ck_pending_messages := ck_pending_messages ?c,
      ck_active_execution := (if was_idle self sg then map_option (\<lambda>execution.
        (case (sg_idle_origin sg, ck_active_execution ?c) of
           (Some _, Some previous) \<Rightarrow> execution\<lparr>ax_idle := True, ax_author := ax_author previous\<rparr>
         | _ \<Rightarrow> execution\<lparr>ax_idle := True\<rparr>)) active else active),
      ck_context := take (length (ck_context ?c)) (ck_context (ru_state ru)), ck_delivered_once := ck_delivered_once ?c\<rparr>"
    unfolding undo_staging_def Let_def by (cases "was_idle self sg") (simp_all add: ra)
  also have "\<dots> = ?c" unfolding act r(1) p by simp
  finally have "ru_state ?ru = ?c" .
  moreover have "ru_transcript_delta ?ru = ru_transcript_delta (tn_runner self)" "ru_recorder ?ru = ru_recorder ru"
    using r(2) unfolding undo_staging_def Let_def by simp_all
  ultimately show ?thesis using r(3) by (simp add: same_live_def)
qed

text \<open>
  C11. Staging messages into a running turn is atomic.  When it fails, because a hook fails, a message cannot be
  prepared or the checkpoint cannot be saved, the live checkpoint is exactly what it was: every message is
  still queued, and an idle turn is still idle with its author.  When it succeeds and changes anything, the store
  holds the new checkpoint: the queue is what staging left, the context grew by the staged items, and an
  idle turn that received a message is a normal turn.
\<close>
theorem stage_message_input_atomic:
  assumes inv: "ids_inv (ru_recorder (tn_runner self))" and stage: "stage_message_input tc self turn = (self', r)"
  shows "case r of
      Inl e \<Rightarrow> same_live (tn_runner self) (tn_runner self') \<and> tn_idle_spent self' = tn_idle_spent self
    | Inr _ \<Rightarrow> self' = self
        \<or> (durable (tn_runner self') \<and> ru_transcript_delta (tn_runner self') = []
          \<and> ck_pending_messages (tn_state self')
              = fst (stack_stage_model_messages (tc_codec tc) (cf_middleware (tc_runner tc)) (ck_pending_messages (tn_state self)) turn)
          \<and> (\<exists>appended. ck_context (tn_state self') = ck_context (tn_state self) @ appended
              \<and> (appended = [] \<or> \<not> is_idle_turn (tn_state self') \<or> \<not> is_idle_turn (tn_state self))))"
proof (cases "self' = self")
  case True
  then show ?thesis by (cases r) (simp_all add: same_live_refl)
next
  case False
  let ?mw = "cf_middleware (tc_runner tc)"
  obtain pending q where st: "stack_stage_model_messages (tc_codec tc) ?mw (ck_pending_messages (tn_state self)) turn = (pending, q)"
    by fastforce
  from False stage st obtain messages sequence sg where sg: "fold_res (stage_one tc self turn sequence) (stage_start self) messages = Inr sg"
    and eq: "(self', r) = (case persist_with_events (tc_runner tc) (staged_runner self pending sg) (staged_events tc self turn sg) None of
        (ru, Inl e) \<Rightarrow> (self\<lparr>tn_runner := undo_staging self sg ru\<rparr>, Inl e)
      | (ru, Inr _) \<Rightarrow> (self\<lparr>tn_runner := ru, tn_idle_spent := (if was_idle self sg then False else tn_idle_spent self)\<rparr>, Inr ()))"
    unfolding stage_message_input_def Let_def by (auto split: sum.splits prod.splits if_splits option.splits)
  have ok: "staging_ok self sg" by (rule stage_ok [OF sg])
  obtain ru p where ps: "persist_with_events (tc_runner tc) (staged_runner self pending sg) (staged_events tc self turn sg) None = (ru, p)"
    by fastforce
  show ?thesis
  proof (cases p)
    case (Inl e)
    from undo_staging_restores [OF ok persist_fails [OF ps [unfolded Inl]]] eq ps Inl show ?thesis by simp
  next
    case (Inr n)
    have s: "self' = self\<lparr>tn_runner := ru, tn_idle_spent := (if was_idle self sg then False else tn_idle_spent self)\<rparr>" "r = Inr ()"
      using eq ps Inr by simp_all
    have "ids_inv (ru_recorder (staged_runner self pending sg))" using inv by (simp add: staged_runner_def Let_def)
    then have d: "durable ru" using persist_succeeds(2) [OF ps [unfolded Inr]] by simp
    have c: "ru_state ru = (ru_state (staged_runner self pending sg))\<lparr>ck_sequence := n\<rparr>" "ru_transcript_delta ru = []"
      using persist_succeeds(1) [OF ps [unfolded Inr]] by simp_all
    have f: "ck_pending_messages (ru_state (staged_runner self pending sg)) = pending"
      "ck_context (ru_state (staged_runner self pending sg)) = ck_context (tn_state self) @ sg_appended sg"
      "ck_active_execution (ru_state (staged_runner self pending sg))
         = ck_active_execution (promote_idle_turn self sg ((tn_state self)\<lparr>ck_pending_messages := pending\<rparr>))"
      by (simp_all add: staged_runner_def promote_idle_turn_def Let_def split: option.split)
    have idle: "sg_transcript sg \<noteq> [] \<Longrightarrow> \<not> is_idle_turn (ru_state ru)"
      unfolding is_idle_turn_def c(1) by (simp add: f(3)) (auto simp: promote_idle_turn_def Let_def split: option.splits)
    have "sg_appended sg = [] \<or> sg_transcript sg \<noteq> []" using ok by (simp add: staging_ok_def)
    with s d c f st idle show ?thesis by auto
  qed
qed

text \<open>
  C12. Aborting a turn, which is also how a turn fails, is all or nothing.  When it cannot be recorded the live
  checkpoint and the transcript are what they were before: pending tool calls, the active model step, the paused
  approval, the queued messages and the running execution are all kept, so the turn can be resumed.  When it
  succeeds the store holds the checkpoint of a session at rest: no execution, no model step, no pending call and no
  paused approval, and the context only grew.
\<close>
theorem abort_turn_atomic:
  assumes inv: "ids_inv (ru_recorder (tn_runner self))"
    and abort: "abort_with_events tc self sid turn reason outcome events = (self', r)"
  shows "case r of
      Inl e \<Rightarrow> same_live (tn_runner self) (tn_runner self')
    | Inr _ \<Rightarrow> durable (tn_runner self') \<and> ru_transcript_delta (tn_runner self') = []
        \<and> ck_active_execution (tn_state self') = None \<and> ck_active_model_step (tn_state self') = None
        \<and> ck_pending_tools (tn_state self') = [] \<and> ck_pending_approval (tn_state self') = None
        \<and> (\<exists>items. ck_context (tn_state self') = ck_context (tn_state self) @ items)"
  using abort_with_events_cases [OF assms] by (cases r) auto

subsection \<open>Witnesses\<close>

definition clock_failure :: error where
  "clock_failure = CheckpointErr ''clock''"

definition failing_hook :: submit_hook where
  "failing_hook turn_id author e receipts ctx = (ctx, Inl (CheckpointErr ''hook''))"

definition sample_turn_config :: turn_config where
  "sample_turn_config = \<lparr>tc_runner = sample_config\<lparr>cf_clock := Inl clock_failure\<rparr>, tc_step = sample_step, tc_codec = unit_codec,
     tc_submit_hooks = [], tc_turn_end = \<lambda>_ _ _ _. ([], Inr ())\<rparr>"

definition sample_turn :: "checkpoint \<Rightarrow> turn_runner" where
  "sample_turn c = \<lparr>tn_runner = sample_runner\<lparr>ru_state := c\<rparr>, tn_turn_end_turn_id = None, tn_idle_spent = False,
     tn_session_start_stop = None\<rparr>"

lemma sample_turn_fields [simp]:
  "tn_state (sample_turn c) = c" "ids_inv (ru_recorder (tn_runner (sample_turn c)))"
  by (simp_all add: sample_turn_def sample_runner_def ids_inv_spawn)

lemma sample_turn_config_fields [simp]:
  "cf_clock (tc_runner sample_turn_config) = Inl clock_failure" "tc_codec sample_turn_config = unit_codec"
  "tc_submit_hooks sample_turn_config = []" "tc_turn_end sample_turn_config turn outcome items idle = ([], Inr ())"
  "tc_step sample_turn_config = sample_step"
  by (simp_all add: sample_turn_config_def)

lemma sample_handler [simp]:
  "message_handler_required (cf_middleware (tc_runner sample_turn_config)) = Inr sample_middleware"
  "mw_name sample_middleware = MESSAGES"
  by (simp_all add: message_handler_required_def message_handler_def sample_turn_config_def sample_config_def
      sample_middleware_def messages_middleware_def)

lemma sample_finish_turn:
  "\<exists>self'. finish_turn sample_turn_config self sid turn outcome terminal events = (self', Inl clock_failure)"
  by (cases "outcome = OutCompleted")
    (simp_all add: finish_turn_def finish_message_turn_def queue_promote_failed_turn_def scope_owner_def turn_end_events_def
      finish_and_persist_execution_def runner_finish_execution_def Let_def)

theorem abort_turn_atomic_witness:
  "\<exists>self' e. abort_with_events sample_turn_config (sample_turn sample_checkpoint) ''s1'' ''t1'' ''stop'' OutAborted [] = (self', Inl e)
     \<and> tn_state self' = sample_checkpoint"
proof -
  obtain ru es where f: "finish_pending_tools sample_step (tn_runner (sample_turn sample_checkpoint)) ''s1'' ''t1'' ''stop'' = (ru, Inr es)"
    by (simp add: finish_pending_tools_def interrupted_results_def sample_turn_def sample_checkpoint_def checkpoint_empty_def Let_def)
  obtain self' where "abort_attempt sample_turn_config (sample_turn sample_checkpoint) ''s1'' ''t1'' ''stop'' OutAborted []
      = (self', Inl clock_failure)"
    using f sample_finish_turn by (fastforce simp: abort_attempt_def Let_def)
  then obtain self' where a: "abort_with_events sample_turn_config (sample_turn sample_checkpoint) ''s1'' ''t1'' ''stop'' OutAborted []
      = (self', Inl clock_failure)"
    by (simp add: abort_with_events_def Let_def)
  from abort_turn_atomic [OF _ a] have "same_live (tn_runner (sample_turn sample_checkpoint)) (tn_runner self')" by simp
  with a show ?thesis by (auto simp: same_live_def)
qed

definition waiting_checkpoint :: checkpoint where
  "waiting_checkpoint = sample_checkpoint\<lparr>ck_active_execution := None, ck_pending_messages := [sample_queued]\<rparr>"

lemma sample_next_turn:
  obtains message e where "stack_next_turn (tc_codec sample_turn_config) (cf_middleware (tc_runner sample_turn_config)) [sample_queued] = Inr (Some message)"
    "pm_event message = MessageMsg e" "pm_submission_id message = ''s2''"
proof -
  obtain p where p: "prepare_queued unit_codec sample_queued = Inr p"
    by (simp add: prepare_queued_def into_parts_def prepared_new_def message_input_def user_message_with_attachments_def
        sample_queued_def unit_codec_def split: prod.split)
  show ?thesis
    by (rule that [of "p\<lparr>pm_boundary_events := mw_boundary_events sample_middleware (pm_submission_id p)\<rparr>" "queued_event sample_queued"])
      (use p prepare_queued_fields [OF p] in \<open>simp_all add: stack_next_turn_def queue_next_turn_def scope_owner_def sample_queued_def MESSAGES_def\<close>)
qed


theorem stage_message_input_atomic_witness:
  "\<exists>self' e. stage_message_input (sample_turn_config\<lparr>tc_submit_hooks := [failing_hook]\<rparr>)
       (sample_turn (sample_checkpoint\<lparr>ck_pending_messages := [Messages.sample_entry]\<rparr>)) ''t1'' = (self', Inl e)
     \<and> ck_pending_messages (tn_state self') = [Messages.sample_entry]"
proof -
  let ?tc = "sample_turn_config\<lparr>tc_submit_hooks := [failing_hook]\<rparr>"
  let ?self = "sample_turn (sample_checkpoint\<lparr>ck_pending_messages := [Messages.sample_entry]\<rparr>)"
  obtain p where p: "prepare_queued unit_codec Messages.sample_entry = Inr p"
    by (simp add: prepare_queued_def into_parts_def prepared_new_def message_input_def user_message_with_attachments_def
        Messages.sample_entry_def unit_codec_def split: prod.split)
  note event = prepare_queued_fields [OF p]
  have st: "steers MESSAGES ''t1'' Messages.sample_entry" by (simp add: steers_def Messages.sample_entry_def)
  obtain self' where s: "stage_message_input ?tc ?self ''t1'' = (self', Inl (CheckpointErr ''hook''))"
    using p event st
    by (simp add: stage_message_input_def messages_ready_def stack_stage_model_messages_def queue_stage_def Let_def
        u64_checked_add_def u64_max_def stage_one_def active_author_def sample_checkpoint_def message_submit_def failing_hook_def)
  from stage_message_input_atomic [OF _ s] have "same_live (tn_runner ?self) (tn_runner self')" by simp
  with s show ?thesis by (auto simp: same_live_def)
qed

end
