(* ===== verification/Transcript.thy ===== *)
theory Transcript
  imports Events "HOL-Library.Product_Lexorder"
begin

text \<open>
  The transcript reducer of the gateway, \<open>crates/mobius-gateway/src/host/transcript.rs\<close>, with the wire types of
  \<open>wire/transcript.rs\<close>: journal events and their rendered blocks become the items and rows every client shows, and
  the ops that bring a client from one state to the next.  Hash maps are association lists with distinct keys; where
  the code iterates over one, the model iterates in insertion order and no statement depends on it.  A function of the
  code that returns a mutable item takes the edit of its caller as an argument.  The client is the one the
  repository's tests keep beside the reducer (\<open>host/transcript/tests.rs\<close>); what it would panic on is \<open>None\<close>.
\<close>

subsection \<open>Wire types\<close>

datatype transcript_position = Position (tp_depth: nat) (tp_sequence: nat) (tp_index: nat)

text \<open>Farther inherited history first, then the journal sequence, then the order within one event.\<close>

definition position_key :: "transcript_position \<Rightarrow> transcript_position \<Rightarrow> (nat \<times> nat \<times> nat) \<times> (nat \<times> nat \<times> nat)" where
  "position_key p q = ((tp_depth q, tp_sequence p, tp_index p), (tp_depth p, tp_sequence q, tp_index q))"

instantiation transcript_position :: linorder
begin

definition less_eq_transcript_position :: "transcript_position \<Rightarrow> transcript_position \<Rightarrow> bool" where
  "less_eq_transcript_position p q \<longleftrightarrow> fst (position_key p q) \<le> snd (position_key p q)"

definition less_transcript_position :: "transcript_position \<Rightarrow> transcript_position \<Rightarrow> bool" where
  "less_transcript_position p q \<longleftrightarrow> fst (position_key p q) < snd (position_key p q)"

instance
  by standard
    (auto simp: less_eq_transcript_position_def less_transcript_position_def position_key_def less_eq_prod_def less_prod_def
      transcript_position.expand)

end

datatype transcript_item_state = Streaming | ItemPending | ItemComplete

datatype transcript_item_content =
    ItemMessage message_event
  | ItemAssistant model_step_content_phase string "model_step_annotation list"
  | ItemBlock string frontend_block "string option"
  | ItemNotice frontend_tone string
  | ItemForkPoint string

record transcript_item =
  xi_id :: string
  xi_turn_id :: "string option"
  xi_recorded_at_ms :: int
  xi_state :: transcript_item_state
  xi_terminal :: bool
  xi_starts_turn :: bool
  xi_resumed :: bool
  xi_inherited :: bool
  xi_target :: "message_target option"
  xi_content :: transcript_item_content

datatype transcript_child = ChildItem string | ChildRow string

fun child_item :: "transcript_child \<Rightarrow> string option" where
  "child_item (ChildItem i) = Some i"
| "child_item (ChildRow _) = None"

record activity_counts =
  an_thoughts :: nat
  an_tool_calls :: nat
  an_web_searches :: nat
  an_approvals :: nat
  an_artifacts :: nat
  an_events :: nat
  an_errors :: nat

record diff_totals =
  dt_additions :: nat
  dt_deletions :: nat

record turn_changes =
  tx_diffs :: "string list"
  tx_totals :: diff_totals

datatype transcript_row_kind =
    KEntry "turn_changes option"
  | KNotice
  | KActivity activity_counts
  | KWorked activity_counts int "nat option"

record transcript_row =
  xw_id :: string
  xw_position :: transcript_position
  xw_items :: "transcript_child list"
  xw_kind :: transcript_row_kind

record block_delta =
  bd_text :: string
  bd_links :: "frontend_link list"
  bd_files :: "session_file_reference list"
  bd_content :: tool_content
  bd_ui :: "ui_block list"
  bd_title :: "string option"
  bd_state :: "frontend_block_state option"
  bd_role :: "frontend_block_role option"
  bd_tone :: "frontend_tone option"
  bd_format :: "frontend_block_format option"
  bd_symbol :: "frontend_symbol option"
  bd_group :: "string option"
  bd_group_title :: "string option"
  bd_item_state :: "transcript_item_state option"

definition block_delta_default :: block_delta where
  "block_delta_default = \<lparr>bd_text = [], bd_links = [], bd_files = [], bd_content = [], bd_ui = [], bd_title = None,
     bd_state = None, bd_role = None, bd_tone = None, bd_format = None, bd_symbol = None, bd_group = None,
     bd_group_title = None, bd_item_state = None\<rparr>"

datatype transcript_op =
    OpItem transcript_item
  | OpAppendText string string
  | OpAppendBlock string block_delta
  | OpRow transcript_row
  | OpExtendRow string "transcript_child list" transcript_row_kind
  | OpRemoveRow string

record transcript_page =
  xp_items :: "transcript_item list"
  xp_rows :: "transcript_row list"

subsection \<open>The state of the reducer\<close>

definition u32_max :: nat where "u32_max = 2 ^ 32 - 1"

definition u32_sat_add :: "nat \<Rightarrow> nat \<Rightarrow> nat" where
  "u32_sat_add a b = min (a + b) u32_max"

definition BLOCK_INDEX_BASE :: nat where "BLOCK_INDEX_BASE = 3"

record slot =
  sl_item :: transcript_item
  sl_position :: transcript_position
  sl_turn :: "string option"

record reduced_turn =
  td_started_at_ms :: int
  td_start_sequence :: nat
  td_ended_at_ms :: "int option"
  td_items :: "string list"
  td_rows :: "string list"

record reduce_step =
  zs_sequence :: nat
  zs_base :: nat
  zs_at :: int
  zs_ops :: "transcript_op list"
  zs_items :: "(string \<times> block_delta option) list"
  zs_turns :: "string list"
  zs_loose :: bool

definition touch_turn :: "reduce_step \<Rightarrow> string option \<Rightarrow> reduce_step" where
  "touch_turn self turn = (case turn of
      Some t \<Rightarrow> (if t \<in> set (zs_turns self) then self else self\<lparr>zs_turns := zs_turns self @ [t]\<rparr>)
    | None \<Rightarrow> self\<lparr>zs_loose := True\<rparr>)"

text \<open>\<open>AList.update\<close> changes the first entry of a key or adds a new entry at the end.\<close>

definition touch :: "reduce_step \<Rightarrow> string \<Rightarrow> string option \<Rightarrow> reduce_step" where
  "touch self i turn = touch_turn (self\<lparr>zs_items := AList.update i None (zs_items self)\<rparr>) turn"

definition touch_delta :: "reduce_step \<Rightarrow> string \<Rightarrow> string option \<Rightarrow> block_delta \<Rightarrow> reduce_step" where
  "touch_delta self i turn delta = touch_turn (self\<lparr>zs_items := AList.update i
     (case map_of (zs_items self) i of Some _ \<Rightarrow> None | None \<Rightarrow> Some delta) (zs_items self)\<rparr>) turn"

record transcript_reducer =
  rx_depth :: nat
  rx_items :: "(string \<times> slot) list"
  rx_rows :: "(string \<times> transcript_row) list"
  rx_turns :: "(string \<times> reduced_turn) list"
  rx_loose :: "string list"
  rx_loose_rows :: "string list"
  rx_groups :: "(string \<times> string \<times> string) list"
  rx_current_turn :: "string option"
  rx_awaiting_input :: "string option"
  rx_last_event :: "(nat \<times> nat) option"
  rx_cut :: "nat option"
  rx_follows_turn :: bool
  rx_resumed :: bool

definition reducer_new :: "nat \<Rightarrow> transcript_reducer" where
  "reducer_new depth = \<lparr>rx_depth = depth, rx_items = [], rx_rows = [], rx_turns = [], rx_loose = [], rx_loose_rows = [],
     rx_groups = [], rx_current_turn = None, rx_awaiting_input = None, rx_last_event = None, rx_cut = None,
     rx_follows_turn = False, rx_resumed = False\<rparr>"

definition new_step :: "nat \<Rightarrow> nat \<Rightarrow> int \<Rightarrow> reduce_step" where
  "new_step sequence base at = \<lparr>zs_sequence = sequence, zs_base = base, zs_at = at, zs_ops = [], zs_items = [],
     zs_turns = [], zs_loose = False\<rparr>"

definition quiet_step :: "nat \<Rightarrow> int \<Rightarrow> reduce_step" where
  "quiet_step sequence at = new_step sequence 0 at"

definition reducer_id :: "transcript_reducer \<Rightarrow> string \<Rightarrow> string" where
  "reducer_id self base = (if rx_depth self = 0 then base else ''fork:'' @ show_nat (rx_depth self) @ '':'' @ base)"

definition own :: "transcript_reducer \<Rightarrow> message_target option \<Rightarrow> message_target option" where
  "own self target = (if rx_depth self = 0 then target else None)"

subsection \<open>Classifying items\<close>

definition from_session :: "message_event \<Rightarrow> bool" where
  "from_session message = (case me_author message of Source _ (SrcSession _) _ _ _ _ \<Rightarrow> True | _ \<Rightarrow> False)"

definition is_answer :: "transcript_item \<Rightarrow> bool" where
  "is_answer item = (case xi_content item of ItemAssistant FinalAnswer _ _ \<Rightarrow> True | _ \<Rightarrow> False)"

definition stands_alone :: "transcript_item \<Rightarrow> bool" where
  "stands_alone item = (case xi_content item of ItemBlock _ block _ \<Rightarrow> fb_format block \<in> {ImageFormat, Ui} | _ \<Rightarrow> False)"

definition notice_tone :: "transcript_item \<Rightarrow> frontend_tone option" where
  "notice_tone item = (case xi_content item of
      ItemNotice tone _ \<Rightarrow> Some tone
    | ItemBlock _ block _ \<Rightarrow> (if fb_role block = Notice \<and> \<not> stands_alone item then Some (fb_tone block) else None)
    | _ \<Rightarrow> None)"

definition is_notice :: "transcript_item \<Rightarrow> bool" where
  "is_notice item \<longleftrightarrow> notice_tone item \<noteq> None"

definition notice_text :: "transcript_item \<Rightarrow> string option" where
  "notice_text item = (case xi_content item of
      ItemNotice _ text \<Rightarrow> Some text | ItemBlock _ block _ \<Rightarrow> Some (fb_text block) | _ \<Rightarrow> None)"

definition is_activity :: "transcript_item \<Rightarrow> bool" where
  "is_activity item \<longleftrightarrow> \<not> xi_terminal item \<and> (case xi_content item of
      ItemAssistant phase _ _ \<Rightarrow> phase = Reasoning
    | ItemBlock _ _ _ \<Rightarrow> \<not> stands_alone item
    | _ \<Rightarrow> False)"

definition activity_key :: "transcript_item \<Rightarrow> string option" where
  "activity_key item = (case xi_turn_id item of
      Some turn \<Rightarrow> Some turn
    | None \<Rightarrow> (case xi_content item of ItemBlock _ block _ \<Rightarrow> fb_group block | _ \<Rightarrow> None))"

fun phase_name :: "model_step_content_phase \<Rightarrow> string" where
  "phase_name Reasoning = ''reasoning''"
| "phase_name Commentary = ''commentary''"
| "phase_name FinalAnswer = ''final_answer''"

fun phase_index :: "model_step_content_phase \<Rightarrow> nat" where
  "phase_index Reasoning = 0"
| "phase_index Commentary = 1"
| "phase_index FinalAnswer = 2"

definition item_state :: "frontend_block \<Rightarrow> transcript_item_state" where
  "item_state block = (if fb_state block = BlockPending then ItemPending else ItemComplete)"

datatype place = PEntry | PNotice | PAnswer | PWork

definition item_place :: "transcript_item \<Rightarrow> place" where
  "item_place item =
     (if xi_starts_turn item \<or> stands_alone item then PEntry
      else if notice_tone item = Some ErrorTone then PNotice
      else if xi_terminal item then (if is_notice item then PNotice else PEntry)
      else if is_answer item then PAnswer else PWork)"

subsection \<open>Merging blocks\<close>

fun push_new_links :: "frontend_link list \<Rightarrow> frontend_link list \<Rightarrow> frontend_link list \<times> frontend_link list" where
  "push_new_links links [] = (links, [])"
| "push_new_links links (link # rest) =
     (if link \<in> set links then push_new_links links rest
      else (case push_new_links (links @ [link]) rest of (links', new) \<Rightarrow> (links', link # new)))"

definition upsert_file :: "session_file_reference list \<Rightarrow> session_file_reference \<Rightarrow> session_file_reference list" where
  "upsert_file files f = (case position (\<lambda>current. sf_id current = sf_id f) files of
      Some i \<Rightarrow> files[i := f] | None \<Rightarrow> files @ [f])"

fun merge_files ::
    "session_file_reference list \<Rightarrow> session_file_reference list \<Rightarrow> session_file_reference list \<times> session_file_reference list" where
  "merge_files files [] = (files, [])"
| "merge_files files (f # rest) =
     (if find (\<lambda>current. sf_id current = sf_id f) files = Some f then merge_files files rest
      else (case merge_files (upsert_file files f) rest of (files', new) \<Rightarrow> (files', f # new)))"

definition change :: "'a \<Rightarrow> 'a \<Rightarrow> 'a option" where
  "change field v = (if field \<noteq> v then Some v else None)"

definition merge_block :: "frontend_block \<Rightarrow> frontend_block \<Rightarrow> frontend_block \<times> block_delta \<times> bool" where
  "merge_block merged block =
     (let text = block_update_apply (fb_update block) (fb_text merged) (fb_text block);
          delta_text = (if length (fb_text merged) + length (fb_text block) < length text
                        then LF # fb_text block else fb_text block);
          (links, new_links) = push_new_links (fb_links merged) (fb_links block);
          (files, new_files) = merge_files (fb_files merged) (fb_files block);
          titled = fb_title block \<noteq> [] \<and> fb_title block \<noteq> fb_title merged;
          grouped = fb_group block \<noteq> None \<and> fb_group merged \<noteq> fb_group block;
          cleared = fb_symbol block = None \<and> fb_symbol merged \<noteq> None
      in (merged\<lparr>fb_text := text, fb_links := links, fb_files := files,
            fb_content := fb_content merged @ fb_content block, fb_ui := fb_ui merged @ fb_ui block,
            fb_title := (if titled then fb_title block else fb_title merged),
            fb_group := (if grouped then fb_group block else fb_group merged),
            fb_state := fb_state block, fb_role := fb_role block, fb_tone := fb_tone block,
            fb_format := fb_format block, fb_symbol := fb_symbol block\<rparr>,
          \<lparr>bd_text = delta_text, bd_links = new_links, bd_files = new_files, bd_content = fb_content block,
            bd_ui = fb_ui block, bd_title = (if titled then Some (fb_title block) else None),
            bd_state = change (fb_state merged) (fb_state block), bd_role = change (fb_role merged) (fb_role block),
            bd_tone = change (fb_tone merged) (fb_tone block), bd_format = change (fb_format merged) (fb_format block),
            bd_symbol = (if fb_symbol block \<noteq> fb_symbol merged then fb_symbol block else None),
            bd_group = (if grouped then fb_group block else None), bd_group_title = None, bd_item_state = None\<rparr>,
          cleared))"

definition group_title :: "(string \<times> string \<times> string) list \<Rightarrow> string \<Rightarrow> frontend_block
    \<Rightarrow> (string \<times> string \<times> string) list \<times> string option" where
  "group_title groups i block = (case fb_group block of
      None \<Rightarrow> (groups, None)
    | Some g \<Rightarrow> (case map_of groups g of
          Some (first, title) \<Rightarrow> (groups, if first \<noteq> i then Some title else None)
        | None \<Rightarrow> (if fb_title block \<noteq> [] then AList.update g (i, fb_title block) groups else groups, None)))"

subsection \<open>Grouping items into rows\<close>

definition zero_counts :: activity_counts where
  "zero_counts = \<lparr>an_thoughts = 0, an_tool_calls = 0, an_web_searches = 0, an_approvals = 0, an_artifacts = 0,
     an_events = 0, an_errors = 0\<rparr>"

definition errored :: "transcript_item \<Rightarrow> bool" where
  "errored item = (case xi_content item of
      ItemBlock _ block _ \<Rightarrow> fb_tone block = ErrorTone | ItemNotice tone _ \<Rightarrow> tone = ErrorTone | _ \<Rightarrow> False)"

definition count_item :: "activity_counts \<Rightarrow> transcript_item \<Rightarrow> activity_counts" where
  "count_item n item =
     (if errored item then n\<lparr>an_errors := u32_sat_add (an_errors n) 1\<rparr>
      else (case xi_content item of
          ItemAssistant Reasoning _ _ \<Rightarrow> n\<lparr>an_thoughts := u32_sat_add (an_thoughts n) 1\<rparr>
        | ItemBlock _ block _ \<Rightarrow> (case fb_role block of
              RoleTool \<Rightarrow> n\<lparr>an_tool_calls := u32_sat_add (an_tool_calls n) 1\<rparr>
            | WebSearch \<Rightarrow> n\<lparr>an_web_searches := u32_sat_add (an_web_searches n) 1\<rparr>
            | ApprovalRole \<Rightarrow> n\<lparr>an_approvals := u32_sat_add (an_approvals n) 1\<rparr>
            | Artifact \<Rightarrow> n\<lparr>an_artifacts := u32_sat_add (an_artifacts n) 1\<rparr>
            | _ \<Rightarrow> n\<lparr>an_events := u32_sat_add (an_events n) 1\<rparr>)
        | _ \<Rightarrow> n\<lparr>an_events := u32_sat_add (an_events n) 1\<rparr>))"

definition counts :: "transcript_item list \<Rightarrow> activity_counts" where
  "counts items = foldl count_item zero_counts items"

definition single :: "slot \<Rightarrow> transcript_row_kind \<Rightarrow> transcript_row" where
  "single slot kind = \<lparr>xw_id = xi_id (sl_item slot), xw_position = sl_position slot,
     xw_items = [ChildItem (xi_id (sl_item slot))], xw_kind = kind\<rparr>"

definition activity_row :: "slot \<Rightarrow> transcript_row" where
  "activity_row slot = \<lparr>xw_id = ''activity:'' @ xi_id (sl_item slot), xw_position = sl_position slot,
     xw_items = [ChildItem (xi_id (sl_item slot))], xw_kind = KActivity (counts [sl_item slot])\<rparr>"

fun same_variant :: "transcript_row_kind \<Rightarrow> transcript_row_kind \<Rightarrow> bool" where
  "same_variant (KEntry _) (KEntry _) = True"
| "same_variant KNotice KNotice = True"
| "same_variant (KActivity _) (KActivity _) = True"
| "same_variant (KWorked _ _ _) (KWorked _ _ _) = True"
| "same_variant _ _ = False"

definition extends :: "transcript_row \<Rightarrow> transcript_row \<Rightarrow> bool" where
  "extends current row \<longleftrightarrow> xw_position current = xw_position row \<and> same_variant (xw_kind current) (xw_kind row)
     \<and> take (length (xw_items current)) (xw_items row) = xw_items current"

definition is_run :: "transcript_row \<Rightarrow> bool" where
  "is_run row = (case xw_kind row of KActivity _ \<Rightarrow> True | _ \<Rightarrow> False)"

definition sort_rows :: "transcript_row list \<Rightarrow> transcript_row list" where
  "sort_rows rows = sort_key (\<lambda>row. (xw_position row, is_run row)) rows"

definition slots :: "transcript_reducer \<Rightarrow> string list \<Rightarrow> slot list" where
  "slots self ids = List.map_filter (map_of (rx_items self)) ids"

definition child_items :: "transcript_reducer \<Rightarrow> transcript_child list \<Rightarrow> transcript_item list" where
  "child_items self children = map sl_item (slots self (List.map_filter child_item children))"

definition first_item :: "transcript_reducer \<Rightarrow> transcript_row \<Rightarrow> transcript_item option" where
  "first_item self row = (case xw_items row of
      [] \<Rightarrow> None
    | child # _ \<Rightarrow> Option.bind (child_item child) (\<lambda>i. map_option sl_item (map_of (rx_items self) i)))"

definition repeats_error :: "transcript_row option \<Rightarrow> transcript_reducer \<Rightarrow> transcript_item \<Rightarrow> bool" where
  "repeats_error previous reducer item = (case notice_text item of
      None \<Rightarrow> False
    | Some text \<Rightarrow> if notice_tone item = Some ErrorTone then False
        else (case previous of
            None \<Rightarrow> False
          | Some row \<Rightarrow> if xw_kind row \<noteq> KNotice then False
              else (case first_item reducer row of
                  None \<Rightarrow> False
                | Some e \<Rightarrow> notice_tone e = Some ErrorTone
                    \<and> (case notice_text e of None \<Rightarrow> False | Some error \<Rightarrow> error \<noteq> [] \<and> error = text))))"

definition last_row :: "transcript_row list \<Rightarrow> transcript_row option" where
  "last_row rows = (if rows = [] then None else Some (last rows))"

definition is_diff :: "transcript_item \<Rightarrow> bool" where
  "is_diff item = (case xi_content item of
      ItemBlock _ block _ \<Rightarrow> fb_role block = RoleTool \<and> fb_format block = UnifiedDiff \<and> xi_state item = ItemComplete
    | _ \<Rightarrow> False)"

definition count_line :: "diff_totals \<Rightarrow> string \<Rightarrow> diff_totals" where
  "count_line totals line =
     (if starts_with ''+'' line then totals\<lparr>dt_additions := sat_add (dt_additions totals) 1\<rparr>
      else if starts_with ''-'' line then totals\<lparr>dt_deletions := sat_add (dt_deletions totals) 1\<rparr> else totals)"

definition diff_lines :: "transcript_item \<Rightarrow> string list" where
  "diff_lines item = (case xi_content item of
      ItemBlock _ block _ \<Rightarrow> dropWhile (\<lambda>line. \<not> starts_with ''@@ '' line) (lines (fb_text block)) | _ \<Rightarrow> [])"

definition turn_changes_of :: "slot list \<Rightarrow> turn_changes option" where
  "turn_changes_of all =
     (let diffs = filter is_diff (map sl_item all) in
      if diffs = [] then None
      else Some \<lparr>tx_diffs = map xi_id diffs,
        tx_totals = foldl count_line \<lparr>dt_additions = 0, dt_deletions = 0\<rparr> (concat (map diff_lines diffs))\<rparr>)"

text \<open>
  The rows of a started turn.  \<open>turn_place\<close> is the place of the item at an index once the whole turn is known;
  \<open>build_rows\<close> is the first loop (the rows in view and the work), \<open>build_runs\<close> the second (the children of the
  \<open>worked\<close> row and its nested runs).
\<close>

definition turn_place :: "bool \<Rightarrow> nat option \<Rightarrow> nat \<Rightarrow> place \<Rightarrow> place" where
  "turn_place running last_work index p = (case p of
      PAnswer \<Rightarrow> if \<not> running \<or> (case last_work of Some l \<Rightarrow> index < l | None \<Rightarrow> False) then PWork else PEntry
    | _ \<Rightarrow> p)"

fun build_rows :: "transcript_reducer \<Rightarrow> slot list \<Rightarrow> nat option \<Rightarrow> (nat \<times> slot \<times> place) list
    \<Rightarrow> transcript_row list \<Rightarrow> slot list \<Rightarrow> transcript_row list \<times> slot list" where
  "build_rows self all last_answer [] rows work = (rows, work)"
| "build_rows self all last_answer ((index, slot, p) # rest) rows work = (case p of
      PWork \<Rightarrow> build_rows self all last_answer rest rows (work @ [slot])
    | PNotice \<Rightarrow> build_rows self all last_answer rest
        (if repeats_error (last_row rows) self (sl_item slot) then rows else rows @ [single slot KNotice]) work
    | _ \<Rightarrow> build_rows self all last_answer rest
        (rows @ [single slot (KEntry (if last_answer = Some index then turn_changes_of all else None))]) work)"

fun build_runs :: "slot list \<Rightarrow> transcript_child list \<Rightarrow> transcript_row list \<Rightarrow> bool \<Rightarrow> transcript_child list \<times> transcript_row list" where
  "build_runs [] items runs in_run = (items, runs)"
| "build_runs (slot # rest) items runs in_run =
     (if \<not> is_activity (sl_item slot) then build_runs rest (items @ [ChildItem (xi_id (sl_item slot))]) runs False
      else if in_run \<and> runs \<noteq> [] then build_runs rest items
        (butlast runs @ [(last runs)\<lparr>xw_items := xw_items (last runs) @ [ChildItem (xi_id (sl_item slot))]\<rparr>]) in_run
      else build_runs rest (items @ [ChildRow (xw_id (activity_row slot))]) (runs @ [activity_row slot]) True)"

definition duration_ms :: "reduced_turn \<Rightarrow> nat option" where
  "duration_ms turn = map_option (\<lambda>ended. nat (max i64_min (min i64_max (ended - td_started_at_ms turn)))) (td_ended_at_ms turn)"

definition sorted_slots :: "transcript_reducer \<Rightarrow> reduced_turn \<Rightarrow> slot list" where
  "sorted_slots self turn = sort_key sl_position (slots self (td_items turn))"

definition placed_slots :: "transcript_reducer \<Rightarrow> reduced_turn \<Rightarrow> (nat \<times> slot \<times> place) list" where
  "placed_slots self turn =
     (let all = sorted_slots self turn; places = map (item_place \<circ> sl_item) all;
          running = td_ended_at_ms turn = None; last_work = rposition (\<lambda>p. p = PWork) places
      in map (\<lambda>(index, slot). (index, slot, turn_place running last_work index (item_place (sl_item slot)))) (enumerate 0 all))"

definition turn_rows :: "transcript_reducer \<Rightarrow> string \<Rightarrow> reduced_turn \<Rightarrow> transcript_row list" where
  "turn_rows self turn_id turn =
     (let all = sorted_slots self turn;
          last_answer = rposition (\<lambda>slot. xi_terminal (sl_item slot) \<and> is_answer (sl_item slot)) all
      in case build_rows self all last_answer (placed_slots self turn) [] [] of (rows, work) \<Rightarrow>
        sort_rows (case work of
            [] \<Rightarrow> rows
          | first # _ \<Rightarrow> (case build_runs work [] [] False of (items, runs) \<Rightarrow>
              rows @ map (\<lambda>run. run\<lparr>xw_kind := KActivity (counts (child_items self (xw_items run)))\<rparr>) runs
              @ [\<lparr>xw_id = reducer_id self (''worked:'' @ turn_id), xw_position = sl_position first, xw_items = items,
                  xw_kind = KWorked (counts (map sl_item work)) (td_started_at_ms turn) (duration_ms turn)\<rparr>])))"

definition joins_row :: "transcript_reducer \<Rightarrow> transcript_row \<Rightarrow> transcript_item \<Rightarrow> bool" where
  "joins_row self row item \<longleftrightarrow> is_run row \<and> activity_key item \<noteq> None
     \<and> (case first_item self row of Some first \<Rightarrow> activity_key first = activity_key item | None \<Rightarrow> False)"

definition add_loose :: "transcript_reducer \<Rightarrow> transcript_row list \<Rightarrow> slot \<Rightarrow> transcript_row list" where
  "add_loose self rows slot =
     (let item = sl_item slot in
      if is_notice item then (if repeats_error (last_row rows) self item then rows else rows @ [single slot KNotice])
      else if is_activity item then
        (if rows \<noteq> [] \<and> joins_row self (last rows) item
         then (let items = xw_items (last rows) @ [ChildItem (xi_id item)] in
               butlast rows @ [(last rows)\<lparr>xw_items := items, xw_kind := KActivity (counts (child_items self items))\<rparr>])
         else rows @ [activity_row slot])
      else rows @ [single slot (KEntry None)])"

definition make_loose_rows :: "transcript_reducer \<Rightarrow> transcript_row list" where
  "make_loose_rows self = foldl (add_loose self) [] (slots self (rx_loose self))"

subsection \<open>Publishing a step\<close>

text \<open>A loop that changes a state and pushes ops; the ops of all its rounds are sent in order.\<close>

fun emit_all :: "('s \<Rightarrow> 'a \<Rightarrow> 's \<times> transcript_op list) \<Rightarrow> 's \<Rightarrow> 'a list \<Rightarrow> 's \<times> transcript_op list" where
  "emit_all f s [] = (s, [])"
| "emit_all f s (x # xs) = (case f s x of (s', ops) \<Rightarrow> (case emit_all f s' xs of (s'', ops') \<Rightarrow> (s'', ops @ ops')))"

definition remove_row :: "transcript_row list \<Rightarrow> (string \<times> transcript_row) list \<Rightarrow> string
    \<Rightarrow> (string \<times> transcript_row) list \<times> transcript_op list" where
  "remove_row rows known i = (if i \<notin> xw_id ` set rows \<and> map_of known i \<noteq> None
     then (AList.delete i known, [OpRemoveRow i]) else (known, []))"

definition put_row :: "(string \<times> transcript_row) list \<Rightarrow> transcript_row \<Rightarrow> (string \<times> transcript_row) list \<times> transcript_op list" where
  "put_row known row = (case map_of known (xw_id row) of
      Some current \<Rightarrow>
        (if current = row then (known, [])
         else if extends current row
         then (AList.update (xw_id row) row known,
               [OpExtendRow (xw_id row) (drop (length (xw_items current)) (xw_items row)) (xw_kind row)])
         else (AList.update (xw_id row) row known, [OpRow row]))
    | None \<Rightarrow> (AList.update (xw_id row) row known, [OpRow row]))"

definition replace_rows :: "(string \<times> transcript_row) list \<Rightarrow> string list \<Rightarrow> transcript_row list
    \<Rightarrow> (string \<times> transcript_row) list \<times> transcript_op list \<times> string list" where
  "replace_rows known previous rows = (case emit_all (remove_row rows) known previous of (known', removed) \<Rightarrow>
     (case emit_all put_row known' rows of (known'', ops) \<Rightarrow> (known'', removed @ ops, map xw_id rows)))"

definition item_ops :: "(string \<times> slot) list \<Rightarrow> (string \<times> block_delta option) list \<Rightarrow> transcript_op list" where
  "item_ops items changed = List.map_filter (\<lambda>(i, delta). case delta of
      Some d \<Rightarrow> Some (OpAppendBlock i d)
    | None \<Rightarrow> map_option (OpItem \<circ> sl_item) (map_of items i)) changed"

definition publish_turn :: "transcript_reducer \<Rightarrow> string \<Rightarrow> transcript_reducer \<times> transcript_op list" where
  "publish_turn self turn_id = (case map_of (rx_turns self) turn_id of
      None \<Rightarrow> (self, [])
    | Some turn \<Rightarrow> (case replace_rows (rx_rows self) (td_rows turn) (turn_rows self turn_id turn) of (rows, ops, published) \<Rightarrow>
        (self\<lparr>rx_rows := rows, rx_turns := AList.update turn_id (turn\<lparr>td_rows := published\<rparr>) (rx_turns self)\<rparr>, ops)))"

definition publish_loose :: "transcript_reducer \<Rightarrow> transcript_reducer \<times> transcript_op list" where
  "publish_loose self = (case replace_rows (rx_rows self) (rx_loose_rows self) (make_loose_rows self) of (rows, ops, published) \<Rightarrow>
     (self\<lparr>rx_rows := rows, rx_loose_rows := published\<rparr>, ops))"

definition reduce_publish :: "transcript_reducer \<Rightarrow> reduce_step \<Rightarrow> transcript_reducer \<times> transcript_op list" where
  "reduce_publish self step = (case emit_all publish_turn self (zs_turns step) of (self', turn_ops) \<Rightarrow>
     (case (if zs_loose step then publish_loose self' else (self', [])) of (self'', loose_ops) \<Rightarrow>
       (self'', zs_ops step @ item_ops (rx_items self) (zs_items step) @ turn_ops @ loose_ops)))"

subsection \<open>Changing items\<close>

definition current_started :: "transcript_reducer \<Rightarrow> string option" where
  "current_started self = (case rx_current_turn self of
      Some t \<Rightarrow> if map_of (rx_turns self) t \<noteq> None then Some t else None | None \<Rightarrow> None)"

definition file_item :: "transcript_reducer \<Rightarrow> string option \<Rightarrow> string \<Rightarrow> transcript_reducer" where
  "file_item self turn i = (case turn of
      Some t \<Rightarrow> (case map_of (rx_turns self) t of
          Some d \<Rightarrow> self\<lparr>rx_turns := AList.update t (d\<lparr>td_items := td_items d @ [i]\<rparr>) (rx_turns self)\<rparr>
        | None \<Rightarrow> self)
    | None \<Rightarrow> self\<lparr>rx_loose := rx_loose self @ [i]\<rparr>)"

definition new_slot :: "transcript_reducer \<Rightarrow> reduce_step \<Rightarrow> string \<Rightarrow> nat \<Rightarrow> transcript_item_content \<Rightarrow> slot" where
  "new_slot self step i index content = \<lparr>
     sl_item = \<lparr>xi_id = i, xi_turn_id = rx_current_turn self, xi_recorded_at_ms = zs_at step, xi_state = ItemComplete,
       xi_terminal = False, xi_starts_turn = False, xi_resumed = False, xi_inherited = 0 < rx_depth self,
       xi_target = None, xi_content = content\<rparr>,
     sl_position = Position (rx_depth self) (zs_sequence step) (u32_sat_add (zs_base step) index),
     sl_turn = current_started self\<rparr>"

definition set_item :: "transcript_reducer \<Rightarrow> reduce_step \<Rightarrow> string \<Rightarrow> nat \<Rightarrow> transcript_item_content
    \<Rightarrow> (transcript_item \<Rightarrow> transcript_item) \<Rightarrow> transcript_reducer \<times> reduce_step" where
  "set_item self step i index content f = (case map_of (rx_items self) i of
      Some slot \<Rightarrow>
        (self\<lparr>rx_items := AList.update i (slot\<lparr>sl_item := f ((sl_item slot)\<lparr>xi_content := content\<rparr>)\<rparr>) (rx_items self)\<rparr>,
         touch step (xi_id (sl_item slot)) (sl_turn slot))
    | None \<Rightarrow>
        (let slot = new_slot self step i index content; self' = file_item self (sl_turn slot) i in
         (self'\<lparr>rx_items := AList.update i (slot\<lparr>sl_item := f (sl_item slot)\<rparr>) (rx_items self')\<rparr>,
          touch step i (sl_turn slot))))"

definition edit_if :: "transcript_reducer \<Rightarrow> reduce_step \<Rightarrow> string \<Rightarrow> (transcript_item \<Rightarrow> bool)
    \<Rightarrow> (transcript_item \<Rightarrow> transcript_item) \<Rightarrow> transcript_reducer \<times> reduce_step" where
  "edit_if self step i changes f = (case map_of (rx_items self) i of
      None \<Rightarrow> (self, step)
    | Some slot \<Rightarrow> if \<not> changes (sl_item slot) then (self, step)
        else (self\<lparr>rx_items := AList.update i (slot\<lparr>sl_item := f (sl_item slot)\<rparr>) (rx_items self)\<rparr>,
              touch step i (sl_turn slot)))"

fun append_content :: "string \<Rightarrow> transcript_item_content \<Rightarrow> transcript_item_content option" where
  "append_content delta (ItemMessage message) = Some (ItemMessage (message\<lparr>me_text := me_text message @ delta\<rparr>))"
| "append_content delta (ItemAssistant phase text annotations) = Some (ItemAssistant phase (text @ delta) annotations)"
| "append_content delta _ = None"

text \<open>\<open>append\<close>: \<open>None\<close> when the item is unknown or carries no text, so that the caller creates it.\<close>

definition append_text :: "transcript_reducer \<Rightarrow> reduce_step \<Rightarrow> string \<Rightarrow> string \<Rightarrow> (transcript_reducer \<times> reduce_step) option" where
  "append_text self step i delta = (case map_of (rx_items self) i of
      None \<Rightarrow> None
    | Some slot \<Rightarrow> (case append_content delta (xi_content (sl_item slot)) of
          None \<Rightarrow> None
        | Some content \<Rightarrow> Some
            (if xi_state (sl_item slot) = Streaming
             then (self\<lparr>rx_items := AList.update i (slot\<lparr>sl_item := (sl_item slot)\<lparr>xi_content := content\<rparr>\<rparr>) (rx_items self)\<rparr>,
                   step\<lparr>zs_ops := zs_ops step @ [OpAppendText i delta]\<rparr>)
             else (self\<lparr>rx_items := AList.update i (slot\<lparr>sl_item := (sl_item slot)\<lparr>xi_content := content, xi_state := Streaming\<rparr>\<rparr>)
                     (rx_items self)\<rparr>,
                   touch step i (sl_turn slot)))))"

definition append_block :: "transcript_reducer \<Rightarrow> reduce_step \<Rightarrow> string \<Rightarrow> frontend_block \<Rightarrow> bool \<Rightarrow> transcript_reducer \<times> reduce_step" where
  "append_block self step i block ends_turn = (case map_of (rx_items self) i of
      None \<Rightarrow> (self, step)
    | Some slot \<Rightarrow> (case xi_content (sl_item slot) of
          ItemBlock capability previous previous_title \<Rightarrow>
            (case merge_block previous block of (merged, delta, cleared) \<Rightarrow>
             (case group_title (rx_groups self) i merged of (groups, title) \<Rightarrow>
               (let item = sl_item slot;
                    state = item_state merged;
                    whole = cleared \<or> (title \<noteq> previous_title \<and> title = None) \<or> (ends_turn \<and> \<not> xi_terminal item);
                    delta = (if title \<noteq> previous_title then delta\<lparr>bd_group_title := title\<rparr> else delta);
                    delta = (if state \<noteq> xi_state item then delta\<lparr>bd_item_state := Some state\<rparr> else delta);
                    item' = item\<lparr>xi_content := ItemBlock capability merged title, xi_state := state,
                      xi_terminal := xi_terminal item \<or> ends_turn\<rparr>;
                    self' = self\<lparr>rx_groups := groups, rx_items := AList.update i (slot\<lparr>sl_item := item'\<rparr>) (rx_items self)\<rparr>
                in (self', if whole then touch step i (sl_turn slot)
                           else if delta \<noteq> block_delta_default then touch_delta step i (sl_turn slot) delta else step))))
        | _ \<Rightarrow> (self, step)))"

subsection \<open>Reducing an event\<close>

fun max_by_key :: "('a \<Rightarrow> 'k::linorder) \<Rightarrow> 'a list \<Rightarrow> 'a option" where
  "max_by_key f [] = None"
| "max_by_key f (x # xs) = (case max_by_key f xs of None \<Rightarrow> Some x | Some y \<Rightarrow> if f x \<le> f y then Some y else Some x)"

definition turn_answer :: "transcript_reducer \<Rightarrow> string list \<Rightarrow> string option" where
  "turn_answer self items = map_option fst (max_by_key (sl_position \<circ> snd)
     (filter (\<lambda>(_, slot). is_answer (sl_item slot))
       (List.map_filter (\<lambda>i. map_option (\<lambda>slot. (i, slot)) (map_of (rx_items self) i)) items)))"

definition finish_item :: "string option \<Rightarrow> transcript_reducer \<times> reduce_step \<Rightarrow> string \<Rightarrow> transcript_reducer \<times> reduce_step" where
  "finish_item answer s i = (let terminal = answer = Some i in
     edit_if (fst s) (snd s) i (\<lambda>item. xi_state item = Streaming \<or> terminal \<and> \<not> xi_terminal item)
       (\<lambda>item. item\<lparr>xi_state := (if xi_state item = Streaming then ItemComplete else xi_state item),
          xi_terminal := xi_terminal item \<or> terminal\<rparr>))"

definition reduce_finish_turn :: "transcript_reducer \<Rightarrow> reduce_step \<Rightarrow> string \<Rightarrow> transcript_reducer \<times> reduce_step" where
  "reduce_finish_turn self step turn_id = (case map_of (rx_turns self) turn_id of
      None \<Rightarrow> (self, step)
    | Some turn \<Rightarrow>
        (if td_ended_at_ms turn \<noteq> None then (self, step)
         else (let self = self\<lparr>rx_turns := AList.update turn_id (turn\<lparr>td_ended_at_ms := Some (zs_at step)\<rparr>) (rx_turns self)\<rparr>
               in case foldl (finish_item (turn_answer self (td_items turn))) (self, step) (td_items turn) of
                    (self', step') \<Rightarrow> (self', touch_turn step' (Some turn_id)))))"

definition start_turn :: "transcript_reducer \<Rightarrow> reduce_step \<Rightarrow> string \<Rightarrow> transcript_reducer \<times> reduce_step" where
  "start_turn self step turn_id =
     (case (case rx_current_turn self of
          Some current \<Rightarrow> (if current \<noteq> turn_id then reduce_finish_turn (self\<lparr>rx_current_turn := None\<rparr>) step current
                            else (self\<lparr>rx_current_turn := None\<rparr>, step))
        | None \<Rightarrow> (self, step)) of (self, step) \<Rightarrow>
        (let turn = (case map_of (rx_turns self) turn_id of Some turn \<Rightarrow> turn
            | None \<Rightarrow> \<lparr>td_started_at_ms = zs_at step, td_start_sequence = zs_sequence step, td_ended_at_ms = None,
                td_items = [], td_rows = []\<rparr>)
         in (self\<lparr>rx_turns := AList.update turn_id (turn\<lparr>td_started_at_ms := zs_at step, td_ended_at_ms := None\<rparr>) (rx_turns self),
               rx_current_turn := Some turn_id, rx_awaiting_input := Some turn_id, rx_follows_turn := True\<rparr>,
             touch_turn step (Some turn_id))))"

definition opens_turn :: "transcript_reducer \<Rightarrow> message_event \<Rightarrow> bool" where
  "opens_turn self message \<longleftrightarrow> me_delivery message \<noteq> DSteer \<and> rx_awaiting_input self \<noteq> None
     \<and> rx_awaiting_input self = rx_current_turn self"

definition clear_awaiting :: "bool \<Rightarrow> transcript_reducer \<Rightarrow> transcript_reducer" where
  "clear_awaiting opens self = (if opens then self\<lparr>rx_awaiting_input := None\<rparr> else self)"

definition message_id :: "transcript_reducer \<Rightarrow> reduce_step \<Rightarrow> string option \<Rightarrow> string" where
  "message_id self step submission = reducer_id self (case submission of
      Some s \<Rightarrow> ''message:'' @ s
    | None \<Rightarrow> ''event:'' @ show_nat (zs_sequence step) @ '':'' @ show_nat (zs_base step))"

definition reduce_message :: "transcript_reducer \<Rightarrow> reduce_step \<Rightarrow> string option \<Rightarrow> message_event \<Rightarrow> transcript_reducer \<times> reduce_step" where
  "reduce_message self step submission message =
     (if me_text message = [] \<and> me_attachments message = [] then (self, step)
      else (let opens = opens_turn self message; target = own self (me_target message);
                resumed = opens \<and> rx_resumed self;
                i = message_id self step submission;
                self = clear_awaiting opens self;
                self = (if opens then self\<lparr>rx_resumed := False\<rparr> else self)
            in set_item self step i 0 (ItemMessage (message\<lparr>me_target := target\<rparr>))
                 (\<lambda>item. item\<lparr>xi_state := ItemComplete, xi_starts_turn := xi_starts_turn item \<or> opens,
                    xi_resumed := xi_resumed item \<or> resumed, xi_target := target\<rparr>)))"

definition message_delta :: "transcript_reducer \<Rightarrow> reduce_step \<Rightarrow> string option \<Rightarrow> string \<Rightarrow> transcript_reducer \<times> reduce_step" where
  "message_delta self step submission text =
     (let i = message_id self step submission in
      case append_text self step i text of
        Some result \<Rightarrow> result
      | None \<Rightarrow> set_item self step i 0 (ItemMessage \<lparr>me_author = User, me_delivery = DTurn, me_text = text,
            me_attachments = [], me_reply = None, me_target = None\<rparr>) (\<lambda>item. item\<lparr>xi_state := Streaming\<rparr>))"

definition assistant_id :: "transcript_reducer \<Rightarrow> string \<Rightarrow> model_step_content_phase \<Rightarrow> string" where
  "assistant_id self model_step phase = reducer_id self (''assistant:'' @ model_step @ '':'' @ phase_name phase)"

definition assistant_delta :: "transcript_reducer \<Rightarrow> reduce_step \<Rightarrow> assistant_content_delta_event \<Rightarrow> transcript_reducer \<times> reduce_step" where
  "assistant_delta self step delta =
     (let self = self\<lparr>rx_current_turn := Some (ad_turn_id delta)\<rparr>;
          i = assistant_id self (ad_model_step_id delta) (ad_phase delta) in
      case append_text self step i (ad_delta delta) of
        Some result \<Rightarrow> result
      | None \<Rightarrow> set_item self step i (phase_index (ad_phase delta)) (ItemAssistant (ad_phase delta) (ad_delta delta) [])
          (\<lambda>item. item\<lparr>xi_state := Streaming\<rparr>))"

definition assistant_phase :: "assistant_message_event \<Rightarrow> transcript_reducer \<times> reduce_step \<Rightarrow> model_step_content_phase \<Rightarrow> transcript_reducer \<times> reduce_step" where
  "assistant_phase message s phase =
     (let target_phase = map_option sc_phase (find (\<lambda>part. sc_phase part \<noteq> Reasoning \<and> sc_text part \<noteq> []) (rev (am_content message)));
          parts = filter (\<lambda>part. sc_phase part = phase) (am_content message);
          text = join [LF] (map sc_text parts)
      in if text = [] then s
         else set_item (fst s) (snd s) (assistant_id (fst s) (am_model_step_id message) phase) (phase_index phase)
                (ItemAssistant phase text (concat (map sc_annotations parts)))
                (\<lambda>item. item\<lparr>xi_state := ItemComplete,
                   xi_target := own (fst s) (if target_phase = Some phase then am_target message else None)\<rparr>))"

definition assistant :: "transcript_reducer \<Rightarrow> reduce_step \<Rightarrow> assistant_message_event \<Rightarrow> transcript_reducer \<times> reduce_step" where
  "assistant self step message = foldl (assistant_phase message)
     (self\<lparr>rx_current_turn := Some (am_turn_id message)\<rparr>, step) [Reasoning, Commentary, FinalAnswer]"

definition reduce_notice :: "transcript_reducer \<Rightarrow> reduce_step \<Rightarrow> frontend_tone \<Rightarrow> string \<Rightarrow> bool \<Rightarrow> transcript_reducer \<times> reduce_step" where
  "reduce_notice self step tone text terminal = set_item self step
     (reducer_id self (''notice:'' @ show_nat (zs_sequence step) @ '':'' @ show_nat (zs_base step))) 0 (ItemNotice tone text)
     (\<lambda>item. item\<lparr>xi_terminal := xi_terminal item \<or> terminal\<rparr>)"

definition block_id :: "transcript_reducer \<Rightarrow> reduce_step \<Rightarrow> nat \<Rightarrow> rendered_block \<Rightarrow> string" where
  "block_id self step offset rendered = reducer_id self (case fb_id (rb_block rendered) of
      Some i \<Rightarrow> ''block:'' @ rb_capability rendered @ '':'' @ i
    | None \<Rightarrow> ''block:'' @ show_nat (zs_sequence step) @ '':''
        @ show_nat (u32_sat_add (u32_sat_add (zs_base step) BLOCK_INDEX_BASE) offset))"

definition known_block :: "transcript_reducer \<Rightarrow> string \<Rightarrow> frontend_block option" where
  "known_block self i = (case map_of (rx_items self) i of
      Some slot \<Rightarrow> (case xi_content (sl_item slot) of ItemBlock _ previous _ \<Rightarrow> Some previous | _ \<Rightarrow> None)
    | None \<Rightarrow> None)"

definition put_block :: "transcript_reducer \<Rightarrow> reduce_step \<Rightarrow> nat \<Rightarrow> rendered_block \<Rightarrow> bool \<Rightarrow> transcript_reducer \<times> reduce_step" where
  "put_block self step offset rendered ends_turn =
     (let i = block_id self step offset rendered; block = rb_block rendered in
      if known_block self i \<noteq> None \<and> fb_update block = Append then append_block self step i block ends_turn
      else (let block = (case known_block self i of
                Some previous \<Rightarrow> if fb_group block = None then block\<lparr>fb_group := fb_group previous\<rparr> else block
              | None \<Rightarrow> block);
                block = block\<lparr>fb_update := Replace\<rparr>
            in case group_title (rx_groups self) i block of (groups, title) \<Rightarrow>
              set_item (self\<lparr>rx_groups := groups\<rparr>) step i (u32_sat_add BLOCK_INDEX_BASE offset)
                (ItemBlock (rb_capability rendered) block title)
                (\<lambda>item. item\<lparr>xi_state := item_state block, xi_terminal := xi_terminal item \<or> ends_turn\<rparr>)))"

fun put_blocks :: "transcript_reducer \<Rightarrow> reduce_step \<Rightarrow> nat \<Rightarrow> rendered_block list \<Rightarrow> bool \<Rightarrow> transcript_reducer \<times> reduce_step" where
  "put_blocks self step offset [] ends_turn = (self, step)"
| "put_blocks self step offset (rendered # rest) ends_turn = (case put_block self step offset rendered ends_turn of
     (self', step') \<Rightarrow> put_blocks self' step' (Suc offset) rest ends_turn)"

definition reduce_event :: "transcript_reducer \<Rightarrow> reduce_step \<Rightarrow> event \<Rightarrow> bool \<Rightarrow> transcript_reducer \<times> reduce_step" where
  "reduce_event self step e rendered = (case ev_msg e of
      SessionConfigured _ \<Rightarrow> (self\<lparr>rx_resumed := rx_resumed self \<or> rx_follows_turn self\<rparr>, step)
    | TurnStarted turn \<Rightarrow> start_turn self step (ts_turn_id turn)
    | TurnComplete turn \<Rightarrow> reduce_finish_turn self step (tcp_turn_id turn)
    | TurnAborted turn \<Rightarrow> (case reduce_finish_turn self step (ta_turn_id turn) of (self', step') \<Rightarrow>
        if rendered then (self', step') else reduce_notice self' step' WarningTone (ta_reason turn) True)
    | MessageMsg message \<Rightarrow> (if rendered \<and> me_author message \<noteq> User \<and> \<not> from_session message then (self, step)
        else reduce_message self step (ev_submission_id e) message)
    | MessageDelta text \<Rightarrow> message_delta self step (ev_submission_id e) text
    | AssistantContentDelta delta \<Rightarrow> assistant_delta self step delta
    | AssistantMessage message \<Rightarrow> assistant self step message
    | ErrorMsg error \<Rightarrow> (if rendered then (self, step) else reduce_notice self step ErrorTone (ee_message error) False)
    | Warning text \<Rightarrow> (if rendered then (self, step) else reduce_notice self step WarningTone text False)
    | SubmissionRejected text \<Rightarrow> (if rendered then (self, step) else reduce_notice self step ErrorTone text False)
    | _ \<Rightarrow> (self, step))"

definition ends_turn_event :: "event_msg \<Rightarrow> bool" where
  "ends_turn_event msg = (case msg of ErrorMsg _ \<Rightarrow> True | TurnAborted _ \<Rightarrow> True | _ \<Rightarrow> False)"

definition finished_turn_id :: "event_msg \<Rightarrow> string option" where
  "finished_turn_id msg = (case msg of
      TurnComplete turn \<Rightarrow> Some (tcp_turn_id turn) | TurnAborted turn \<Rightarrow> Some (ta_turn_id turn) | _ \<Rightarrow> None)"

definition own_report :: "transcript_reducer \<Rightarrow> reduce_step \<Rightarrow> event_msg \<Rightarrow> string option \<Rightarrow> transcript_reducer \<times> reduce_step" where
  "own_report self step msg first_block = (case (msg, first_block) of
      (MessageMsg message, Some i) \<Rightarrow>
        (if me_author message \<noteq> User \<and> \<not> from_session message
         then (let opens = opens_turn self message; target = own self (me_target message); self = clear_awaiting opens self in
               edit_if self step i (\<lambda>_. True) (\<lambda>item. item\<lparr>xi_target := target, xi_starts_turn := opens\<rparr>))
         else (self, step))
    | _ \<Rightarrow> (self, step))"

definition leave_turn :: "event_msg \<Rightarrow> transcript_reducer \<Rightarrow> transcript_reducer" where
  "leave_turn msg self = (if finished_turn_id msg \<noteq> None \<and> rx_current_turn self = finished_turn_id msg
     then self\<lparr>rx_current_turn := None, rx_awaiting_input := None\<rparr> else self)"

definition event_base :: "transcript_reducer \<Rightarrow> nat \<Rightarrow> nat" where
  "event_base self sequence = (case rx_last_event self of
      Some (last_sequence, next_index) \<Rightarrow> if last_sequence = sequence then next_index else 0 | None \<Rightarrow> 0)"

definition reduce_apply :: "transcript_reducer \<Rightarrow> nat \<Rightarrow> int \<Rightarrow> event \<Rightarrow> rendered_block list
    \<Rightarrow> transcript_reducer \<times> transcript_op list" where
  "reduce_apply self sequence recorded_at_ms e blocks =
     (let base = event_base self sequence;
          reserved = u32_sat_add (min (length blocks) u32_max) BLOCK_INDEX_BASE;
          self = self\<lparr>rx_last_event := Some (sequence, u32_sat_add base reserved)\<rparr>
      in case reduce_event self (new_step sequence base recorded_at_ms) e (blocks \<noteq> []) of (self, step) \<Rightarrow>
        (let first_block = (case blocks of [] \<Rightarrow> None | rendered # _ \<Rightarrow> Some (block_id self step 0 rendered)) in
         case put_blocks self step 0 blocks (ends_turn_event (ev_msg e)) of (self, step) \<Rightarrow>
           (case own_report self step (ev_msg e) first_block of (self, step) \<Rightarrow>
             reduce_publish (leave_turn (ev_msg e) self) step)))"

subsection \<open>Other operations of the reducer\<close>

definition fork_point :: "transcript_reducer \<Rightarrow> string \<Rightarrow> transcript_reducer" where
  "fork_point self parent = (case set_item (self\<lparr>rx_current_turn := None\<rparr>) (quiet_step 0 0) (reducer_id self ''fork-point'') 0
       (ItemForkPoint parent) id of
     (self', step) \<Rightarrow> (fst (reduce_publish self' step))\<lparr>rx_current_turn := rx_current_turn self\<rparr>)"

definition follow_turn :: "transcript_reducer \<Rightarrow> transcript_reducer" where
  "follow_turn self = self\<lparr>rx_follows_turn := True\<rparr>"

definition open_turns :: "transcript_reducer \<Rightarrow> (string \<times> int) list" where
  "open_turns self = map (\<lambda>(i, turn). (i, (case map (xi_recorded_at_ms \<circ> sl_item) (slots self (td_items turn)) of
       [] \<Rightarrow> td_started_at_ms turn | t # ts \<Rightarrow> Max (set (t # ts)))))
     (filter (\<lambda>(_, turn). td_ended_at_ms turn = None) (rx_turns self))"

definition finish_open_turn :: "transcript_reducer \<Rightarrow> string \<times> int \<Rightarrow> transcript_reducer" where
  "finish_open_turn self open_turn = (case reduce_finish_turn self (quiet_step 0 (snd open_turn)) (fst open_turn) of
     (self', step) \<Rightarrow> fst (reduce_publish self' step))"

definition finish_open_turns :: "transcript_reducer \<Rightarrow> transcript_reducer" where
  "finish_open_turns self = foldl finish_open_turn self (open_turns self)"

definition delete_all :: "'k list \<Rightarrow> ('k \<times> 'v) list \<Rightarrow> ('k \<times> 'v) list" where
  "delete_all keys m = filter (\<lambda>(k, _). k \<notin> set keys) m"

definition drop_turn :: "transcript_reducer \<Rightarrow> string \<Rightarrow> transcript_reducer" where
  "drop_turn self i = (case map_of (rx_turns self) i of
      None \<Rightarrow> self
    | Some turn \<Rightarrow> self\<lparr>rx_turns := AList.delete i (rx_turns self), rx_items := delete_all (td_items turn) (rx_items self),
        rx_rows := delete_all (td_rows turn) (rx_rows self)\<rparr>)"

definition row_item_ids :: "transcript_row \<Rightarrow> string list" where
  "row_item_ids row = List.map_filter child_item (xw_items row)"

definition drop_row :: "transcript_reducer \<Rightarrow> string \<Rightarrow> transcript_reducer" where
  "drop_row self i = (case map_of (rx_rows self) i of
      None \<Rightarrow> self
    | Some row \<Rightarrow> self\<lparr>rx_rows := AList.delete i (rx_rows self), rx_items := delete_all (row_item_ids row) (rx_items self)\<rparr>)"

definition item_before :: "transcript_reducer \<Rightarrow> nat \<Rightarrow> string \<Rightarrow> bool" where
  "item_before self sequence i = (case map_of (rx_items self) i of
      None \<Rightarrow> True | Some slot \<Rightarrow> tp_sequence (sl_position slot) < sequence)"

definition old_turns :: "transcript_reducer \<Rightarrow> nat \<Rightarrow> string list" where
  "old_turns self sequence = map fst (filter (\<lambda>(i, turn). td_ended_at_ms turn \<noteq> None
     \<and> td_start_sequence turn < sequence \<and> rx_current_turn self \<noteq> Some i) (rx_turns self))"

definition old_rows :: "transcript_reducer \<Rightarrow> nat \<Rightarrow> string list" where
  "old_rows self sequence = filter (\<lambda>i. case map_of (rx_rows self) i of
      None \<Rightarrow> False | Some row \<Rightarrow> list_all (item_before self sequence) (row_item_ids row)) (rx_loose_rows self)"

definition trim_loose :: "transcript_reducer \<Rightarrow> nat \<Rightarrow> transcript_reducer" where
  "trim_loose self sequence =
     (let shown = concat (map row_item_ids (List.map_filter (map_of (rx_rows self)) (rx_loose_rows self)));
          keep = (\<lambda>i. i \<in> set shown \<or> (case map_of (rx_items self) i of
              None \<Rightarrow> False | Some slot \<Rightarrow> sequence \<le> tp_sequence (sl_position slot)))
      in self\<lparr>rx_items := delete_all (filter (\<lambda>i. \<not> keep i) (rx_loose self)) (rx_items self),
              rx_loose := filter keep (rx_loose self)\<rparr>)"

definition trim_before :: "transcript_reducer \<Rightarrow> nat \<Rightarrow> transcript_reducer" where
  "trim_before self sequence =
     (let self = foldl drop_turn self (old_turns self sequence);
          gone = old_rows self sequence;
          self = foldl drop_row self gone;
          self = self\<lparr>rx_loose_rows := filter (\<lambda>i. i \<notin> set gone) (rx_loose_rows self)\<rparr>;
          self = trim_loose self sequence
      in self\<lparr>rx_cut := Some (case rx_cut self of None \<Rightarrow> sequence | Some earlier \<Rightarrow> max earlier sequence)\<rparr>)"

definition history_before :: "transcript_reducer \<Rightarrow> nat option" where
  "history_before self = map_option (\<lambda>earlier. foldl min earlier (map (td_start_sequence \<circ> snd) (rx_turns self))) (rx_cut self)"

definition snapshot :: "transcript_reducer \<Rightarrow> transcript_page" where
  "snapshot self = \<lparr>xp_items = map sl_item (sort_key sl_position (map snd (rx_items self))),
     xp_rows = sort_rows (map snd (rx_rows self))\<rparr>"

subsection \<open>A client\<close>

record transcript_client =
  vw_items :: "string \<rightharpoonup> transcript_item"
  vw_rows :: "string \<rightharpoonup> transcript_row"

definition client_empty :: transcript_client where
  "client_empty = \<lparr>vw_items = Map.empty, vw_rows = Map.empty\<rparr>"

definition client_from_page :: "transcript_page \<Rightarrow> transcript_client" where
  "client_from_page page = \<lparr>vw_items = map_of (rev (map (\<lambda>item. (xi_id item, item)) (xp_items page))),
     vw_rows = map_of (rev (map (\<lambda>row. (xw_id row, row)) (xp_rows page)))\<rparr>"

definition or_else :: "'a option \<Rightarrow> 'a \<Rightarrow> 'a" where
  "or_else v d = (case v of Some x \<Rightarrow> x | None \<Rightarrow> d)"

definition client_merge :: "block_delta \<Rightarrow> frontend_block \<Rightarrow> frontend_block" where
  "client_merge delta block = block\<lparr>
     fb_text := fb_text block @ bd_text delta,
     fb_links := fb_links block @ bd_links delta,
     fb_files := foldl upsert_file (fb_files block) (bd_files delta),
     fb_content := fb_content block @ bd_content delta,
     fb_ui := fb_ui block @ bd_ui delta,
     fb_title := or_else (bd_title delta) (fb_title block),
     fb_state := or_else (bd_state delta) (fb_state block),
     fb_role := or_else (bd_role delta) (fb_role block),
     fb_tone := or_else (bd_tone delta) (fb_tone block),
     fb_format := or_else (bd_format delta) (fb_format block),
     fb_symbol := (if bd_symbol delta \<noteq> None then bd_symbol delta else fb_symbol block),
     fb_group := (if bd_group delta \<noteq> None then bd_group delta else fb_group block)\<rparr>"

definition client_append_block :: "block_delta \<Rightarrow> transcript_item \<Rightarrow> transcript_item option" where
  "client_append_block delta item = (case xi_content item of
      ItemBlock capability block title \<Rightarrow> Some (item\<lparr>
        xi_content := ItemBlock capability (client_merge delta block)
          (if bd_group_title delta \<noteq> None then bd_group_title delta else title),
        xi_state := or_else (bd_item_state delta) (xi_state item)\<rparr>)
    | _ \<Rightarrow> None)"

fun client_apply_op :: "transcript_client \<Rightarrow> transcript_op \<Rightarrow> transcript_client option" where
  "client_apply_op self (OpItem item) = Some (self\<lparr>vw_items := (vw_items self)(xi_id item \<mapsto> item)\<rparr>)"
| "client_apply_op self (OpAppendText i text) = (case vw_items self i of
      None \<Rightarrow> Some self
    | Some item \<Rightarrow> map_option (\<lambda>content. self\<lparr>vw_items := (vw_items self)(i \<mapsto> item\<lparr>xi_content := content\<rparr>)\<rparr>)
        (append_content text (xi_content item)))"
| "client_apply_op self (OpAppendBlock i delta) = (case vw_items self i of
      None \<Rightarrow> None
    | Some item \<Rightarrow> map_option (\<lambda>item'. self\<lparr>vw_items := (vw_items self)(i \<mapsto> item')\<rparr>) (client_append_block delta item))"
| "client_apply_op self (OpRow row) = Some (self\<lparr>vw_rows := (vw_rows self)(xw_id row \<mapsto> row)\<rparr>)"
| "client_apply_op self (OpExtendRow i items kind) = (case vw_rows self i of
      None \<Rightarrow> None
    | Some row \<Rightarrow> if same_variant (xw_kind row) kind
        then Some (self\<lparr>vw_rows := (vw_rows self)(i \<mapsto> row\<lparr>xw_items := xw_items row @ items, xw_kind := kind\<rparr>)\<rparr>)
        else None)"
| "client_apply_op self (OpRemoveRow i) = Some (self\<lparr>vw_rows := (vw_rows self)(i := None)\<rparr>)"

fun client_apply :: "transcript_client \<Rightarrow> transcript_op list \<Rightarrow> transcript_client option" where
  "client_apply self [] = Some self"
| "client_apply self (op # ops) = Option.bind (client_apply_op self op) (\<lambda>self'. client_apply self' ops)"

text \<open>What the reducer holds, seen as a client's store.\<close>

definition client_of :: "transcript_reducer \<Rightarrow> transcript_client" where
  "client_of self = \<lparr>vw_items = map_option sl_item \<circ> map_of (rx_items self), vw_rows = map_of (rx_rows self)\<rparr>"

text \<open>A live session: events are reduced one after another, and a truncated replay window trims the reducer.\<close>

datatype reducer_input = Reduce nat int event "rendered_block list" | Trim nat

definition reduce_input :: "transcript_reducer \<Rightarrow> reducer_input \<Rightarrow> transcript_reducer \<times> transcript_op list" where
  "reduce_input self input = (case input of
      Reduce sequence at e blocks \<Rightarrow> reduce_apply self sequence at e blocks
    | Trim sequence \<Rightarrow> (trim_before self sequence, []))"

definition reduce_all :: "transcript_reducer \<Rightarrow> reducer_input list \<Rightarrow> transcript_reducer \<times> transcript_op list" where
  "reduce_all = emit_all reduce_input"

end
