(* ===== verification/Transcript_Sync.thy ===== *)
theory Transcript_Sync
  imports Transcript "HOL-Library.Multiset"
begin

text \<open>
  The transcript reducer and its clients stay in step.  Every operation of the reducer is a sequence of moves
  (an item is added, changed, extended or streamed into, a turn is started or ended); the moves carry the invariants.
  The locale \<open>op_stream\<close> states what a loop that emits ops promises to a client and is interpreted on the loops
  of the reducer.
\<close>

subsection \<open>Moves\<close>

definition item_id_ok :: "nat \<Rightarrow> string \<Rightarrow> bool" where
  "item_id_ok depth i \<longleftrightarrow> (\<exists>base. i = (if depth = 0 then base else ''fork:'' @ show_nat depth @ '':'' @ base)
     \<and> take 2 base \<in> {''me'', ''ev'', ''as'', ''no'', ''bl'', ''fo''})"

definition same_core :: "transcript_reducer \<Rightarrow> transcript_reducer \<Rightarrow> bool" where
  "same_core self self' \<longleftrightarrow> rx_depth self' = rx_depth self \<and> rx_items self' = rx_items self \<and> rx_rows self' = rx_rows self
     \<and> rx_turns self' = rx_turns self \<and> rx_loose self' = rx_loose self \<and> rx_loose_rows self' = rx_loose_rows self"

definition set_slot :: "transcript_reducer \<Rightarrow> string \<Rightarrow> slot \<Rightarrow> transcript_reducer" where
  "set_slot self i slot = self\<lparr>rx_items := AList.update i slot (rx_items self)\<rparr>"

inductive move :: "transcript_reducer \<times> reduce_step \<Rightarrow> transcript_reducer \<times> reduce_step \<Rightarrow> bool" where
  same: "same_core self self' \<Longrightarrow> move (self, step) (self', step)"
| change: "map_of (rx_items self) i = Some slot \<Longrightarrow> xi_id item = xi_id (sl_item slot)
    \<Longrightarrow> move (self, step) (set_slot self i (slot\<lparr>sl_item := item\<rparr>), touch step i (sl_turn slot))"
| extend: "map_of (rx_items self) i = Some slot \<Longrightarrow> client_append_block delta (sl_item slot) = Some item
    \<Longrightarrow> move (self, step) (set_slot self i (slot\<lparr>sl_item := item\<rparr>), touch_delta step i (sl_turn slot) delta)"
| stream: "map_of (rx_items self) i = Some slot \<Longrightarrow> zs_items step = []
    \<Longrightarrow> append_content text (xi_content (sl_item slot)) = Some content
    \<Longrightarrow> move (self, step) (set_slot self i (slot\<lparr>sl_item := (sl_item slot)\<lparr>xi_content := content\<rparr>\<rparr>),
          step\<lparr>zs_ops := zs_ops step @ [OpAppendText i text]\<rparr>)"
| add: "map_of (rx_items self) i = None \<Longrightarrow> xi_id (sl_item slot) = i \<Longrightarrow> item_id_ok (rx_depth self) i
    \<Longrightarrow> (\<And>t. sl_turn slot = Some t \<Longrightarrow> map_of (rx_turns self) t \<noteq> None)
    \<Longrightarrow> move (self, step) (set_slot (file_item self (sl_turn slot) i) i slot, touch step i (sl_turn slot))"
| turn: "(case map_of (rx_turns self) t of
      Some d \<Rightarrow> td_items turn = td_items d \<and> td_rows turn = td_rows d | None \<Rightarrow> td_items turn = [] \<and> td_rows turn = [])
    \<Longrightarrow> move (self, step) (self\<lparr>rx_turns := AList.update t turn (rx_turns self)\<rparr>, touch_turn step (Some t))"

definition items_keyed :: "transcript_reducer \<Rightarrow> bool" where
  "items_keyed self \<longleftrightarrow> (\<forall>i slot. map_of (rx_items self) i = Some slot \<longrightarrow> xi_id (sl_item slot) = i)"

lemma append_block_id: "client_append_block delta item = Some item' \<Longrightarrow> xi_id item' = xi_id item"
  by (auto simp: client_append_block_def split: transcript_item_content.splits)

lemma file_item_items [simp]: "rx_items (file_item self turn i) = rx_items self"
  by (auto simp: file_item_def split: option.splits)

lemma move_items_keyed:
  assumes "move s s'" and "items_keyed (fst s)"
  shows "items_keyed (fst s')"
  using assms
  by (cases rule: move.cases)
    (auto simp: items_keyed_def same_core_def set_slot_def update_conv' dest: append_block_id split: if_splits)

lemma moves_items_keyed:
  assumes "move\<^sup>*\<^sup>* s s'" and "items_keyed (fst s)"
  shows "items_keyed (fst s')"
  using assms by induction (auto intro: move_items_keyed)

lemma move_depth: "move s s' \<Longrightarrow> rx_depth (fst s') = rx_depth (fst s)"
  by (cases rule: move.cases) (auto simp: same_core_def set_slot_def file_item_def split: option.split)

lemma moves_depth: "move\<^sup>*\<^sup>* s s' \<Longrightarrow> rx_depth (fst s') = rx_depth (fst s)"
  by (induction rule: rtranclp_induct) (auto dest: move_depth)

subsection \<open>Every operation is a sequence of moves\<close>

lemma moves_one: "move s s' \<Longrightarrow> move\<^sup>*\<^sup>* s s'"
  by blast

lemma same_moves: "same_core self self' \<Longrightarrow> move\<^sup>*\<^sup>* (self, step) (self', step)"
  by (intro moves_one same)

lemma same_core_refl [simp]: "same_core self self"
  by (simp add: same_core_def)

lemma current_started_known: "current_started self = Some t \<Longrightarrow> map_of (rx_turns self) t \<noteq> None"
  by (auto simp: current_started_def split: option.splits if_splits)

lemma set_item_moves:
  assumes keyed: "items_keyed self" and ok: "item_id_ok (rx_depth self) i" and f: "\<And>item. xi_id (f item) = xi_id item"
  shows "move (self, step) (set_item self step i index content f)"
proof (cases "map_of (rx_items self) i")
  case None
  let ?slot = "new_slot self step i index content"
  have "move (self, step) (set_slot (file_item self (sl_turn ?slot) i) i (?slot\<lparr>sl_item := f (sl_item ?slot)\<rparr>),
      touch step i (sl_turn ?slot))"
    using add [of self i "?slot\<lparr>sl_item := f (sl_item ?slot)\<rparr>" step] None ok f current_started_known [of self]
    by (auto simp: new_slot_def)
  with None show ?thesis by (simp add: set_item_def set_slot_def Let_def)
next
  case (Some slot)
  with keyed have "xi_id (sl_item slot) = i" by (simp add: items_keyed_def)
  with change [OF Some, of "f ((sl_item slot)\<lparr>xi_content := content\<rparr>)" step] f Some show ?thesis
    by (simp add: set_item_def set_slot_def)
qed

lemma edit_if_moves:
  assumes f: "\<And>item. xi_id (f item) = xi_id item"
  shows "move (self, step) (edit_if self step i P f)"
  using change [of self i _ "f _" step] f same [of self self step]
  by (auto simp: edit_if_def set_slot_def split: option.split)

lemma append_text_moves:
  assumes "append_text self step i text = Some s" and "zs_items step = []"
  shows "move (self, step) s"
  using assms change [of self i _ "(sl_item _)\<lparr>xi_content := _, xi_state := Streaming\<rparr>" step] stream [of self i _ step "text"]
  by (auto simp: append_text_def set_slot_def split: option.splits if_splits)

lemma push_new_links_append: "push_new_links links new = (links', added) \<Longrightarrow> links' = links @ added"
  by (induction links new arbitrary: added rule: push_new_links.induct) (auto split: if_splits prod.splits)

lemma upsert_same: "find (\<lambda>current. sf_id current = sf_id f) files = Some f \<Longrightarrow> upsert_file files f = files"
  by (induction files) (auto simp: upsert_file_def split: if_splits option.splits dest!: position_SomeD intro: nth_mem)

lemma merge_files_fold: "merge_files files new = (files', added) \<Longrightarrow> files' = foldl upsert_file files added"
  by (induction files new arbitrary: added rule: merge_files.induct) (auto split: if_splits prod.splits)

lemma merged_text:
  "block_update_apply Append current text = current
     @ (if length current + length text < length (block_update_apply Append current text) then LF # text else text)"
  by (auto simp: block_update_apply_def Let_def)

lemma change_or_else: "or_else (change field v) field = v"
  by (simp add: change_def or_else_def)

text \<open>A client that applies the delta of a merge gets the merged block, unless the whole item has to be sent.\<close>

lemma merge_block_delta:
  assumes m: "merge_block block new = (merged, delta, cleared)" and u: "fb_update new = Append" and c: "\<not> cleared"
  shows "client_merge (delta\<lparr>bd_group_title := gt, bd_item_state := st\<rparr>) block = merged"
proof -
  obtain links added where l: "push_new_links (fb_links block) (fb_links new) = (links, added)" by fastforce
  obtain files upserted where f: "merge_files (fb_files block) (fb_files new) = (files, upserted)" by fastforce
  define whole_text where "whole_text = block_update_apply Append (fb_text block) (fb_text new)"
  define added_text where "added_text = (if length (fb_text block) + length (fb_text new) < length whole_text then LF # fb_text new else fb_text new)"
  define titled where "titled \<longleftrightarrow> fb_title new \<noteq> [] \<and> fb_title new \<noteq> fb_title block"
  define grouped where "grouped \<longleftrightarrow> fb_group new \<noteq> None \<and> fb_group block \<noteq> fb_group new"
  have t: "whole_text = fb_text block @ added_text" unfolding whole_text_def added_text_def by (rule merged_text)
  from m have merged: "merged = block\<lparr>fb_text := whole_text, fb_links := links, fb_files := files,
            fb_content := fb_content block @ fb_content new, fb_ui := fb_ui block @ fb_ui new,
            fb_title := (if titled then fb_title new else fb_title block),
            fb_group := (if grouped then fb_group new else fb_group block),
            fb_state := fb_state new, fb_role := fb_role new, fb_tone := fb_tone new,
            fb_format := fb_format new, fb_symbol := fb_symbol new\<rparr>"
    and delta: "delta = \<lparr>bd_text = added_text, bd_links = added, bd_files = upserted, bd_content = fb_content new,
            bd_ui = fb_ui new, bd_title = (if titled then Some (fb_title new) else None),
            bd_state = Transcript.change (fb_state block) (fb_state new), bd_role = Transcript.change (fb_role block) (fb_role new),
            bd_tone = Transcript.change (fb_tone block) (fb_tone new), bd_format = Transcript.change (fb_format block) (fb_format new),
            bd_symbol = (if fb_symbol new \<noteq> fb_symbol block then fb_symbol new else None),
            bd_group = (if grouped then fb_group new else None), bd_group_title = None, bd_item_state = None\<rparr>"
    and cl: "cleared \<longleftrightarrow> fb_symbol new = None \<and> fb_symbol block \<noteq> None"
    unfolding merge_block_def Let_def l f u prod.case whole_text_def [symmetric] titled_def [symmetric] grouped_def [symmetric]
      added_text_def [symmetric] by simp_all
  have scalars: "or_else (if titled then Some (fb_title new) else None) (fb_title block) = (if titled then fb_title new else fb_title block)"
    "(if (if grouped then fb_group new else None) \<noteq> None then (if grouped then fb_group new else None) else fb_group block)
       = (if grouped then fb_group new else fb_group block)"
    "(if (if fb_symbol new \<noteq> fb_symbol block then fb_symbol new else None) \<noteq> None
       then (if fb_symbol new \<noteq> fb_symbol block then fb_symbol new else None) else fb_symbol block) = fb_symbol new"
    using c cl by (auto simp: or_else_def grouped_def)
  show ?thesis
    unfolding client_merge_def merged delta block_delta.select_convs block_delta.update_convs scalars t
      push_new_links_append [OF l] merge_files_fold [OF f] change_or_else
    by (rule frontend_block.equality) simp_all
qed

lemma merge_block_fresh:
  "merge_block block new = (merged, delta, cleared) \<Longrightarrow> bd_group_title delta = None \<and> bd_item_state delta = None"
  by (auto simp: merge_block_def Let_def split: prod.splits)

lemma client_merge_default: "client_merge block_delta_default block = block"
  by (simp add: client_merge_def block_delta_default_def or_else_def)

lemma default_fields: "bd_group_title block_delta_default = None" "bd_item_state block_delta_default = None"
  by (simp_all add: block_delta_default_def)

lemma client_append_default: "client_append_block block_delta_default item = Some item' \<Longrightarrow> item' = item"
  by (cases item) (auto simp: client_append_block_def client_merge_default default_fields or_else_def
      split: transcript_item_content.splits)

lemma update_same: "map_of m k = Some v \<Longrightarrow> AList.update k v m = m"
  by (induction m) auto

lemma append_block_moves:
  assumes u: "fb_update block = Append"
  shows "move\<^sup>*\<^sup>* (self, step) (append_block self step i block ends_turn)"
proof (cases "\<exists>slot capability previous title. map_of (rx_items self) i = Some slot
    \<and> xi_content (sl_item slot) = ItemBlock capability previous title")
  case False
  then have "append_block self step i block ends_turn = (self, step)"
    by (auto simp: append_block_def split: option.split transcript_item_content.split)
  then show ?thesis by simp
next
  case True
  then obtain slot capability previous previous_title where slot: "map_of (rx_items self) i = Some slot"
    "xi_content (sl_item slot) = ItemBlock capability previous previous_title" by blast
  obtain merged delta cleared where m: "merge_block previous block = (merged, delta, cleared)" by (metis prod_cases3)
  obtain groups title where g: "group_title (rx_groups self) i merged = (groups, title)" by fastforce
  define item where "item = sl_item slot"
  define gt where "gt = (if title \<noteq> previous_title then title else None)"
  define st where "st = (if item_state merged \<noteq> xi_state item then Some (item_state merged) else None)"
  define whole where "whole \<longleftrightarrow> cleared \<or> (title \<noteq> previous_title \<and> title = None) \<or> (ends_turn \<and> \<not> xi_terminal item)"
  define item' where "item' = item\<lparr>xi_content := ItemBlock capability merged title, xi_state := item_state merged,
     xi_terminal := xi_terminal item \<or> ends_turn\<rparr>"
  define delta' where "delta' = delta\<lparr>bd_group_title := gt, bd_item_state := st\<rparr>"
  define base where "base = self\<lparr>rx_groups := groups\<rparr>"
  have d: "(if item_state merged \<noteq> xi_state item
      then (if title \<noteq> previous_title then delta\<lparr>bd_group_title := title\<rparr> else delta)\<lparr>bd_item_state := Some (item_state merged)\<rparr>
      else (if title \<noteq> previous_title then delta\<lparr>bd_group_title := title\<rparr> else delta)) = delta'"
    using merge_block_fresh [OF m] by (cases delta) (auto simp: delta'_def gt_def st_def)
  have eq: "append_block self step i block ends_turn = (set_slot base i (slot\<lparr>sl_item := item'\<rparr>),
      if whole then touch step i (sl_turn slot)
      else if delta' \<noteq> block_delta_default then touch_delta step i (sl_turn slot) delta' else step)"
    unfolding append_block_def slot(1) option.case item_def [symmetric] slot(2) [folded item_def] transcript_item_content.case
      m prod.case g Let_def d
      item'_def [symmetric] whole_def [symmetric] by (simp add: set_slot_def base_def)
  have b: "map_of (rx_items base) i = Some slot" "same_core self base" using slot by (simp_all add: base_def same_core_def)
  have "move (base, step) (append_block self step i block ends_turn)"
  proof (cases whole)
    case True
    with change [OF b(1), of item' step] eq show ?thesis by (simp add: item'_def item_def)
  next
    case False
    have "client_append_block delta' (sl_item slot) = Some (item\<lparr>xi_content := ItemBlock capability merged
        (if gt \<noteq> None then gt else previous_title), xi_state := or_else st (xi_state item)\<rparr>)"
      using merge_block_delta [OF m u, where gt = gt and st = st] False slot(2)
      by (simp add: client_append_block_def delta'_def whole_def item_def)
    also have "\<dots> = Some item'"
      using False by (auto simp: item'_def gt_def st_def or_else_def whole_def)
    finally have ap: "client_append_block delta' (sl_item slot) = Some item'" .
    show ?thesis
    proof (cases "delta' = block_delta_default")
      case True
      with client_append_default ap have "item' = sl_item slot" by auto
      then have "set_slot base i (slot\<lparr>sl_item := item'\<rparr>) = base" using b by (simp add: set_slot_def update_same)
      with eq False True same [of base base step] show ?thesis by simp
    next
      case neq: False
      with extend [OF b(1) ap, of step] eq False show ?thesis by simp
    qed
  qed
  with same [OF b(2), of step] show ?thesis by (meson converse_rtranclp_into_rtranclp r_into_rtranclp)
qed

lemma turn_update_finish:
  "foldl (finish_item answer) (self\<lparr>rx_turns := turns\<rparr>, step) items
     = (case foldl (finish_item answer) (self, step) items of (self', step') \<Rightarrow> (self'\<lparr>rx_turns := turns\<rparr>, step'))"
proof (induction items arbitrary: self step)
  case (Cons i items)
  obtain self1 step1 where f: "finish_item answer (self, step) i = (self1, step1)" by fastforce
  then have "finish_item answer (self\<lparr>rx_turns := turns\<rparr>, step) i = (self1\<lparr>rx_turns := turns\<rparr>, step1)"
    by (auto simp: finish_item_def edit_if_def Let_def split: option.splits if_splits)
  with f Cons.IH show ?case by simp
qed simp

lemma fold_moves:
  assumes "\<And>s x. move\<^sup>*\<^sup>* s (f s x)"
  shows "move\<^sup>*\<^sup>* s (foldl f s xs)"
proof (induction xs arbitrary: s)
  case (Cons x xs)
  from rtranclp_trans [OF assms Cons.IH] show ?case by simp
qed simp

lemma finish_item_moves: "move\<^sup>*\<^sup>* s (finish_item answer s i)"
  unfolding finish_item_def Let_def by (cases s) (auto intro!: moves_one edit_if_moves)

lemma finish_item_turns: "rx_turns (fst (finish_item answer s i)) = rx_turns (fst s)"
  by (auto simp: finish_item_def edit_if_def Let_def split: option.split)

lemma fold_finish_turns: "rx_turns (fst (foldl (finish_item answer) s items)) = rx_turns (fst s)"
  by (induction items arbitrary: s) (simp_all add: finish_item_turns)

lemma finish_turn_moves: "move\<^sup>*\<^sup>* (self, step) (reduce_finish_turn self step t)"
proof (cases "\<exists>d. map_of (rx_turns self) t = Some d \<and> td_ended_at_ms d = None")
  case False
  then have "reduce_finish_turn self step t = (self, step)" by (auto simp: reduce_finish_turn_def split: option.split)
  then show ?thesis by simp
next
  case True
  then obtain d where d: "map_of (rx_turns self) t = Some d" "td_ended_at_ms d = None" by blast
  let ?turns = "AList.update t (d\<lparr>td_ended_at_ms := Some (zs_at step)\<rparr>) (rx_turns self)"
  have answer: "turn_answer (self\<lparr>rx_turns := ?turns\<rparr>) items = turn_answer self items" for items by (simp add: turn_answer_def)
  obtain self' step' where f: "foldl (finish_item (turn_answer self (td_items d))) (self, step) (td_items d) = (self', step')"
    by fastforce
  have eq: "reduce_finish_turn self step t = (self'\<lparr>rx_turns := ?turns\<rparr>, touch_turn step' (Some t))"
    using d f by (simp add: reduce_finish_turn_def answer turn_update_finish)
  have "move\<^sup>*\<^sup>* (self, step) (self', step')" using fold_moves [of "finish_item _", OF finish_item_moves] f by metis
  moreover have "rx_turns self' = rx_turns self"
    using fold_finish_turns [of "turn_answer self (td_items d)" "(self, step)" "td_items d"] f by simp
  then have "move (self', step') (self'\<lparr>rx_turns := ?turns\<rparr>, touch_turn step' (Some t))"
    using move.turn [where self = self' and t = t and turn = "d\<lparr>td_ended_at_ms := Some (zs_at step)\<rparr>" and step = step'] d by simp
  ultimately show ?thesis unfolding eq by (rule rtranclp.rtrancl_into_rtrancl)
qed

lemma moves_then_same:
  "move\<^sup>*\<^sup>* s (self, step) \<Longrightarrow> same_core self self' \<Longrightarrow> move\<^sup>*\<^sup>* s (self', step)"
  by (rule rtranclp.rtrancl_into_rtrancl) (auto intro: same)

lemma same_then_moves:
  "same_core self self' \<Longrightarrow> move\<^sup>*\<^sup>* (self', step) s \<Longrightarrow> move\<^sup>*\<^sup>* (self, step) s"
  by (rule converse_rtranclp_into_rtranclp) (auto intro: same)

lemma start_turn_moves: "move\<^sup>*\<^sup>* (self, step) (start_turn self step t)"
proof -
  obtain self1 step1 where f: "(case rx_current_turn self of
      Some current \<Rightarrow> (if current \<noteq> t then reduce_finish_turn (self\<lparr>rx_current_turn := None\<rparr>) step current
                        else (self\<lparr>rx_current_turn := None\<rparr>, step))
    | None \<Rightarrow> (self, step)) = (self1, step1)" by fastforce
  have c: "same_core self (self\<lparr>rx_current_turn := None\<rparr>)" by (simp add: same_core_def)
  have m: "move\<^sup>*\<^sup>* (self, step) (self1, step1)"
    using f same_then_moves [OF c finish_turn_moves [of "self\<lparr>rx_current_turn := None\<rparr>" step]] same_moves [OF c, of step]
    by (auto split: option.splits if_splits) metis+
  define d where "d = (case map_of (rx_turns self1) t of Some turn \<Rightarrow> turn
    | None \<Rightarrow> \<lparr>td_started_at_ms = zs_at step1, td_start_sequence = zs_sequence step1, td_ended_at_ms = None, td_items = [], td_rows = []\<rparr>)"
  define self2 where "self2 = self1\<lparr>rx_turns := AList.update t (d\<lparr>td_started_at_ms := zs_at step1, td_ended_at_ms := None\<rparr>) (rx_turns self1)\<rparr>"
  have "move (self1, step1) (self2, touch_turn step1 (Some t))"
    unfolding self2_def by (rule move.turn) (simp add: d_def split: option.split)
  with m have "move\<^sup>*\<^sup>* (self, step) (self2, touch_turn step1 (Some t))" by (rule rtranclp.rtrancl_into_rtrancl)
  moreover have "start_turn self step t = (self2\<lparr>rx_current_turn := Some t, rx_awaiting_input := Some t, rx_follows_turn := True\<rparr>,
      touch_turn step1 (Some t))"
    unfolding start_turn_def f prod.case Let_def d_def [symmetric] by (simp add: self2_def)
  ultimately show ?thesis using moves_then_same by (simp add: same_core_def)
qed

lemma reducer_id_ok:
  "take 2 base \<in> {''me'', ''ev'', ''as'', ''no'', ''bl'', ''fo''} \<Longrightarrow> rx_depth self' = rx_depth self
     \<Longrightarrow> item_id_ok (rx_depth self') (reducer_id self base)"
  by (auto simp: item_id_ok_def reducer_id_def)

lemma ids_ok:
  "item_id_ok (rx_depth self) (message_id self step submission)"
  "item_id_ok (rx_depth self) (assistant_id self model_step phase)"
  "item_id_ok (rx_depth self) (reducer_id self (''notice:'' @ rest))"
  "item_id_ok (rx_depth self) (reducer_id self ''fork-point'')"
  "item_id_ok (rx_depth self) (block_id self step offset rendered)"
  by (auto simp: message_id_def assistant_id_def block_id_def intro!: reducer_id_ok split: option.split)

lemma reducer_id_depth: "rx_depth self' = rx_depth self \<Longrightarrow> reducer_id self' = reducer_id self"
  by (simp add: reducer_id_def fun_eq_iff)

lemma same_set_item_moves:
  assumes "same_core self self1" and "items_keyed self" and "item_id_ok (rx_depth self) i" and "\<And>item. xi_id (f item) = xi_id item"
  shows "move\<^sup>*\<^sup>* (self, step) (set_item self1 step i index content f)"
proof -
  have "items_keyed self1" "item_id_ok (rx_depth self1) i" using assms by (simp_all add: items_keyed_def same_core_def)
  then have "move (self1, step) (set_item self1 step i index content f)" using assms(4) by (rule set_item_moves)
  then show ?thesis by (rule same_then_moves [OF assms(1) moves_one])
qed

lemma same_append_text_moves:
  "same_core self self1 \<Longrightarrow> zs_items step = [] \<Longrightarrow> append_text self1 step i t = Some s \<Longrightarrow> move\<^sup>*\<^sup>* (self, step) s"
  using append_text_moves by (blast intro: same_then_moves)

lemma reduce_message_moves:
  assumes "items_keyed self"
  shows "move\<^sup>*\<^sup>* (self, step) (reduce_message self step submission message)"
proof (cases "me_text message = [] \<and> me_attachments message = []")
  case False
  define self1 where "self1 = (if opens_turn self message then (clear_awaiting (opens_turn self message) self)\<lparr>rx_resumed := False\<rparr>
    else clear_awaiting (opens_turn self message) self)"
  have c: "same_core self self1" by (simp add: self1_def same_core_def clear_awaiting_def)
  have "move\<^sup>*\<^sup>* (self, step) (set_item self1 step (message_id self step submission) 0
      (ItemMessage (message\<lparr>me_target := own self (me_target message)\<rparr>))
      (\<lambda>item. item\<lparr>xi_state := ItemComplete, xi_starts_turn := xi_starts_turn item \<or> opens_turn self message,
         xi_resumed := xi_resumed item \<or> opens_turn self message \<and> rx_resumed self, xi_target := own self (me_target message)\<rparr>))"
    by (rule same_set_item_moves [OF c assms ids_ok(1)]) simp
  with False show ?thesis unfolding reduce_message_def Let_def self1_def [symmetric] by simp
qed (simp add: reduce_message_def)

lemma message_delta_moves:
  assumes "items_keyed self" and "zs_items step = []"
  shows "move\<^sup>*\<^sup>* (self, step) (message_delta self step submission t)"
proof (cases "append_text self step (message_id self step submission) t")
  case None
  then show ?thesis unfolding message_delta_def Let_def
    by (simp add: same_set_item_moves [OF same_core_refl assms(1) ids_ok(1)])
next
  case (Some s)
  from same_append_text_moves [OF same_core_refl assms(2) Some] Some show ?thesis by (simp add: message_delta_def Let_def)
qed

lemma assistant_delta_moves:
  assumes "items_keyed self" and "zs_items step = []"
  shows "move\<^sup>*\<^sup>* (self, step) (assistant_delta self step delta)"
proof -
  define self1 where "self1 = self\<lparr>rx_current_turn := Some (ad_turn_id delta)\<rparr>"
  define i where "i = assistant_id self1 (ad_model_step_id delta) (ad_phase delta)"
  have c: "same_core self self1" by (simp add: self1_def same_core_def)
  have ok: "item_id_ok (rx_depth self) i" using ids_ok(2) [of self1] c by (simp add: i_def same_core_def)
  show ?thesis
  proof (cases "append_text self1 step i (ad_delta delta)")
    case None
    then show ?thesis unfolding assistant_delta_def Let_def self1_def [symmetric] i_def [symmetric]
      by (simp add: same_set_item_moves [OF c assms(1) ok])
  next
    case (Some s)
    from same_append_text_moves [OF c assms(2) Some] Some show ?thesis
      unfolding assistant_delta_def Let_def self1_def [symmetric] i_def [symmetric] by simp
  qed
qed

lemma assistant_phase_moves:
  assumes "items_keyed (fst s)"
  shows "move\<^sup>*\<^sup>* s (assistant_phase message s phase)"
proof (cases s)
  case (Pair self step)
  with assms have "items_keyed self" by simp
  from same_set_item_moves [OF same_core_refl this ids_ok(2)] Pair show ?thesis
    unfolding assistant_phase_def Let_def by simp
qed

lemma assistant_moves:
  assumes "items_keyed self"
  shows "move\<^sup>*\<^sup>* (self, step) (assistant self step message)"
proof -
  have fold: "move\<^sup>*\<^sup>* s (foldl (assistant_phase message) s phases)" if "items_keyed (fst s)" for s phases
    using that
  proof (induction phases arbitrary: s)
    case (Cons phase phases)
    from assistant_phase_moves [OF Cons.prems] have m: "move\<^sup>*\<^sup>* s (assistant_phase message s phase)" .
    with Cons.IH [OF moves_items_keyed [OF m Cons.prems]] show ?case by simp
  qed simp
  show ?thesis unfolding assistant_def
    by (rule same_then_moves [OF _ fold]) (use assms in \<open>simp_all add: same_core_def items_keyed_def\<close>)
qed

lemma reduce_notice_moves:
  assumes "items_keyed self"
  shows "move\<^sup>*\<^sup>* (self, step) (reduce_notice self step tone t terminal)"
  unfolding reduce_notice_def by (rule same_set_item_moves [OF same_core_refl assms ids_ok(3)]) simp

lemma put_block_moves:
  assumes "items_keyed self"
  shows "move\<^sup>*\<^sup>* (self, step) (put_block self step offset rendered ends_turn)"
proof (cases "known_block self (block_id self step offset rendered) \<noteq> None \<and> fb_update (rb_block rendered) = Append")
  case True
  then show ?thesis by (simp add: put_block_def Let_def append_block_moves)
next
  case False
  let ?i = "block_id self step offset rendered"
  define block where "block = (case known_block self ?i of
      Some previous \<Rightarrow> if fb_group (rb_block rendered) = None then (rb_block rendered)\<lparr>fb_group := fb_group previous\<rparr> else rb_block rendered
    | None \<Rightarrow> rb_block rendered)\<lparr>fb_update := Replace\<rparr>"
  obtain groups title where g: "group_title (rx_groups self) ?i block = (groups, title)" by fastforce
  define self1 where "self1 = self\<lparr>rx_groups := groups\<rparr>"
  have c: "same_core self self1" by (simp add: self1_def same_core_def)
  have eq: "put_block self step offset rendered ends_turn = set_item self1 step ?i (u32_sat_add BLOCK_INDEX_BASE offset)
      (ItemBlock (rb_capability rendered) block title)
      (\<lambda>item. item\<lparr>xi_state := item_state block, xi_terminal := xi_terminal item \<or> ends_turn\<rparr>)"
    unfolding put_block_def Let_def block_def [symmetric] g prod.case self1_def [symmetric] using False by auto
  show ?thesis unfolding eq by (rule same_set_item_moves [OF c assms ids_ok(5)]) simp
qed

lemma put_blocks_moves:
  assumes "items_keyed self"
  shows "move\<^sup>*\<^sup>* (self, step) (put_blocks self step offset blocks ends_turn)"
  using assms
proof (induction blocks arbitrary: self step offset)
  case (Cons rendered blocks)
  obtain self' step' where p: "put_block self step offset rendered ends_turn = (self', step')" by fastforce
  from put_block_moves [OF Cons.prems] p have m: "move\<^sup>*\<^sup>* (self, step) (self', step')" by metis
  with Cons.IH [of self' step' "Suc offset"] moves_items_keyed [OF m] Cons.prems p show ?case by auto
qed simp

lemma reduce_event_moves:
  assumes "items_keyed self" and "zs_items step = []"
  shows "move\<^sup>*\<^sup>* (self, step) (reduce_event self step e rendered)"
proof -
  have abort: "move\<^sup>*\<^sup>* (self, step) (case reduce_finish_turn self step t of (self', step') \<Rightarrow>
      if rendered then (self', step') else reduce_notice self' step' WarningTone r True)" for t r
  proof -
    obtain self' step' where f: "reduce_finish_turn self step t = (self', step')" by fastforce
    then have m: "move\<^sup>*\<^sup>* (self, step) (self', step')" using finish_turn_moves [of self step t] by simp
    from moves_items_keyed [OF m] assms(1) have "items_keyed self'" by simp
    with m reduce_notice_moves [of self' step' WarningTone r True] f show ?thesis by (auto split: prod.split)
  qed
  have "same_core self (self\<lparr>rx_resumed := rx_resumed self \<or> rx_follows_turn self\<rparr>)" by (simp add: same_core_def)
  with assms abort show ?thesis
    by (cases "ev_msg e")
      (auto simp: reduce_event_def same_moves start_turn_moves finish_turn_moves reduce_message_moves
        message_delta_moves assistant_delta_moves assistant_moves reduce_notice_moves)
qed

lemma own_report_moves: "move\<^sup>*\<^sup>* (self, step) (own_report self step msg first)"
proof (cases "\<exists>message i. msg = MessageMsg message \<and> first = Some i \<and> me_author message \<noteq> User \<and> \<not> from_session message")
  case False
  then have "own_report self step msg first = (self, step)"
    by (auto simp: own_report_def split: event_msg.split option.split)
  then show ?thesis by simp
next
  case True
  then obtain message i where m: "msg = MessageMsg message" "first = Some i" "me_author message \<noteq> User" "\<not> from_session message" by blast
  have c: "same_core self (clear_awaiting (opens_turn self message) self)" by (simp add: same_core_def clear_awaiting_def)
  have "move\<^sup>*\<^sup>* (self, step) (edit_if (clear_awaiting (opens_turn self message) self) step i (\<lambda>_. True)
      (\<lambda>item. item\<lparr>xi_target := own self (me_target message), xi_starts_turn := opens_turn self message\<rparr>))"
    by (rule same_then_moves [OF c moves_one [OF edit_if_moves]]) simp
  with m show ?thesis by (simp add: own_report_def Let_def)
qed

lemma leave_turn_same: "same_core self (leave_turn msg self)"
  by (simp add: leave_turn_def same_core_def)

text \<open>Reducing an event is a sequence of moves from a fresh step, then one publication.\<close>

lemma reduce_apply_moves:
  assumes "items_keyed self"
  obtains self' step where "move\<^sup>*\<^sup>* (self, new_step sequence (event_base self sequence) at) (self', step)"
    "reduce_apply self sequence at e blocks = reduce_publish self' step"
proof -
  define self0 where "self0 = self\<lparr>rx_last_event := Some (sequence, u32_sat_add (event_base self sequence)
    (u32_sat_add (min (length blocks) u32_max) BLOCK_INDEX_BASE))\<rparr>"
  let ?step = "new_step sequence (event_base self sequence) at"
  have c: "same_core self self0" by (simp add: self0_def same_core_def)
  then have k0: "items_keyed self0" using assms by (simp add: items_keyed_def same_core_def)
  obtain self1 step1 where r1: "reduce_event self0 ?step e (blocks \<noteq> []) = (self1, step1)" by fastforce
  have "zs_items ?step = []" by (simp add: new_step_def)
  from reduce_event_moves [OF k0 this] r1 have m1: "move\<^sup>*\<^sup>* (self0, ?step) (self1, step1)" by metis
  from moves_items_keyed [OF m1] k0 have k1: "items_keyed self1" by simp
  obtain self2 step2 where r2: "put_blocks self1 step1 0 blocks (ends_turn_event (ev_msg e)) = (self2, step2)" by fastforce
  from put_blocks_moves [OF k1] r2 have m2: "move\<^sup>*\<^sup>* (self1, step1) (self2, step2)" by metis
  define first_block where "first_block = (case blocks of [] \<Rightarrow> None | rendered # _ \<Rightarrow> Some (block_id self1 step1 0 rendered))"
  obtain self3 step3 where r3: "own_report self2 step2 (ev_msg e) first_block = (self3, step3)" by fastforce
  from own_report_moves [of self2 step2] r3 have m3: "move\<^sup>*\<^sup>* (self2, step2) (self3, step3)" by metis
  have "move\<^sup>*\<^sup>* (self, ?step) (leave_turn (ev_msg e) self3, step3)"
    by (rule same_then_moves [OF c]) (use m1 m2 m3 moves_then_same [OF _ leave_turn_same] in \<open>meson rtranclp_trans\<close>)
  moreover have "reduce_apply self sequence at e blocks = reduce_publish (leave_turn (ev_msg e) self3) step3"
    unfolding reduce_apply_def Let_def self0_def [symmetric] r1 prod.case first_block_def [symmetric] r2 r3 by simp
  ultimately show ?thesis by (rule that)
qed

subsection \<open>Loops that emit ops\<close>

lemma client_apply_append:
  "client_apply c (xs @ ys) = Option.bind (client_apply c xs) (\<lambda>c'. client_apply c' ys)"
  by (induction xs arbitrary: c) (auto split: Option.bind_split)

text \<open>
  A round of a loop takes a state related to a client to a state related to the client after the ops of the round,
  which the client can apply.  Then so does the loop.
\<close>

locale op_stream =
  fixes round :: "'s \<Rightarrow> 'a \<Rightarrow> 's \<times> transcript_op list" and rel :: "'s \<Rightarrow> transcript_client \<Rightarrow> bool"
  assumes round_ok: "rel s c \<Longrightarrow> round s x = (s', ops) \<Longrightarrow> \<exists>c'. client_apply c ops = Some c' \<and> rel s' c'"
begin

lemma emit_all_ok:
  "rel s c \<Longrightarrow> emit_all round s xs = (s', ops) \<Longrightarrow> \<exists>c'. client_apply c ops = Some c' \<and> rel s' c'"
proof (induction xs arbitrary: s c ops)
  case (Cons x xs)
  obtain s1 ops1 where r: "round s x = (s1, ops1)" by fastforce
  from Cons.prems(2) r obtain ops2 where e: "emit_all round s1 xs = (s', ops2)" "ops = ops1 @ ops2" by (auto split: prod.splits)
  from round_ok [OF Cons.prems(1) r] obtain c1 where c1: "client_apply c ops1 = Some c1" "rel s1 c1" by blast
  from Cons.IH [OF c1(2) e(1)] e(2) c1(1) show ?case by (auto simp: client_apply_append)
qed simp

end

text \<open>
  A client agrees with what the reducer holds, except on ids of the set \<open>H\<close> that the reducer no longer holds: the
  history the client loaded before the reducer was trimmed.
\<close>

definition agrees :: "string set \<Rightarrow> (string \<rightharpoonup> 'a) \<Rightarrow> (string \<rightharpoonup> 'a) \<Rightarrow> bool" where
  "agrees H client server \<longleftrightarrow> (\<forall>i. client i = server i \<or> server i = None \<and> i \<in> H)"

lemma agrees_empty: "agrees {} client server \<longleftrightarrow> client = server"
  by (auto simp: agrees_def fun_eq_iff)

lemma agrees_known: "agrees H client server \<Longrightarrow> server i = Some x \<Longrightarrow> client i = Some x"
  by (auto simp: agrees_def dest: spec [of _ i])

lemma agrees_upd: "agrees H client server \<Longrightarrow> agrees H (client(i \<mapsto> x)) (server(i \<mapsto> x))"
  by (simp add: agrees_def)

lemma agrees_del: "agrees H client server \<Longrightarrow> agrees H (client(i := None)) (server(i := None))"
  by (simp add: agrees_def)

lemma agrees_mono: "agrees H client server \<Longrightarrow> H \<subseteq> H' \<Longrightarrow> agrees H' client server"
  by (auto simp: agrees_def)

definition rows_keyed :: "(string \<times> transcript_row) list \<Rightarrow> bool" where
  "rows_keyed known \<longleftrightarrow> (\<forall>i row. map_of known i = Some row \<longrightarrow> xw_id row = i)"

definition row_rel :: "string set \<Rightarrow> (string \<rightharpoonup> transcript_item) \<Rightarrow> (string \<times> transcript_row) list \<Rightarrow> transcript_client \<Rightarrow> bool" where
  "row_rel H items known c \<longleftrightarrow> vw_items c = items \<and> agrees H (vw_rows c) (map_of known) \<and> rows_keyed known"

lemma extends_items: "extends current row \<Longrightarrow> xw_items current @ drop (length (xw_items current)) (xw_items row) = xw_items row"
  by (metis extends_def append_take_drop_id)

lemma put_row_ok:
  assumes r: "row_rel H items known c" and p: "put_row known row = (known', ops)"
  shows "\<exists>c'. client_apply c ops = Some c' \<and> row_rel H items known' c'"
proof -
  note rel = r [unfolded row_rel_def]
  have keyed: "rows_keyed (AList.update (xw_id row) row known)" using rel by (auto simp: rows_keyed_def update_conv')
  have upd: "agrees H ((vw_rows c)(xw_id row \<mapsto> row)) (map_of (AList.update (xw_id row) row known))"
    using rel agrees_upd by (auto simp: update_conv')
  have whole: ?thesis if "known' = AList.update (xw_id row) row known" "ops = [OpRow row]"
    using that rel keyed upd by (simp add: row_rel_def)
  show ?thesis
  proof (cases "map_of known (xw_id row)")
    case None
    with p have "known' = AList.update (xw_id row) row known" "ops = [OpRow row]" by (auto simp: put_row_def)
    then show ?thesis by (rule whole)
  next
    case (Some current)
    from Some rel have id: "xw_id current = xw_id row" by (simp add: rows_keyed_def)
    from Some rel have held: "vw_rows c (xw_id row) = Some current" by (blast intro: agrees_known)
    consider (equal) "current = row" | (ext) "current \<noteq> row" "extends current row" | (other) "current \<noteq> row" "\<not> extends current row"
      by blast
    then show ?thesis
    proof cases
      case equal
      with Some p have "known' = known" "ops = []" by (simp_all add: put_row_def)
      with r show ?thesis by simp
    next
      case ext
      with Some p have e: "known' = AList.update (xw_id row) row known"
        "ops = [OpExtendRow (xw_id row) (drop (length (xw_items current)) (xw_items row)) (xw_kind row)]"
        by (simp_all add: put_row_def)
      have "same_variant (xw_kind current) (xw_kind row)" using ext by (simp add: extends_def)
      moreover have "current\<lparr>xw_items := xw_items row, xw_kind := xw_kind row\<rparr> = row"
        using ext(2) id by (cases current; cases row) (simp add: extends_def)
      ultimately show ?thesis using e held extends_items [OF ext(2)] rel keyed upd by (simp add: row_rel_def)
    next
      case other
      with Some p have "known' = AList.update (xw_id row) row known" "ops = [OpRow row]" by (simp_all add: put_row_def)
      then show ?thesis by (rule whole)
    qed
  qed
qed

interpretation put: op_stream put_row "row_rel H items" for H items
  by unfold_locales (rule put_row_ok)

interpretation removal: op_stream "remove_row rows" "row_rel H items" for rows H items
proof unfold_locales
  fix known c i known' ops
  assume r: "row_rel H items known c" and e: "remove_row rows known i = (known', ops)"
  show "\<exists>c'. client_apply c ops = Some c' \<and> row_rel H items known' c'"
  proof (cases "i \<notin> xw_id ` set rows \<and> map_of known i \<noteq> None")
    case True
    with e have "known' = AList.delete i known" "ops = [OpRemoveRow i]" by (simp_all add: remove_row_def)
    with r agrees_del [of H "vw_rows c" "map_of known" i] show ?thesis
      by (auto simp: row_rel_def rows_keyed_def delete_conv')
  next
    case False
    with e r show ?thesis by (auto simp: remove_row_def split: if_splits)
  qed
qed

lemma replace_rows_ok:
  assumes "row_rel H items known c" and "replace_rows known previous rows = (known', ops, published)"
  shows "\<exists>c'. client_apply c ops = Some c' \<and> row_rel H items known' c'"
proof -
  obtain known1 ops1 where e1: "emit_all (remove_row rows) known previous = (known1, ops1)" by fastforce
  obtain known2 ops2 where e2: "emit_all put_row known1 rows = (known2, ops2)" by fastforce
  from removal.emit_all_ok [OF assms(1) e1] obtain c1 where c1: "client_apply c ops1 = Some c1" "row_rel H items known1 c1" by blast
  from put.emit_all_ok [OF c1(2) e2] obtain c2 where "client_apply c1 ops2 = Some c2" "row_rel H items known2 c2" by blast
  with c1(1) e1 e2 assms(2) show ?thesis by (auto simp: replace_rows_def client_apply_append)
qed

definition reducer_row_rel :: "string set \<Rightarrow> (string \<rightharpoonup> transcript_item) \<Rightarrow> transcript_reducer \<Rightarrow> transcript_client \<Rightarrow> bool" where
  "reducer_row_rel H items self c \<longleftrightarrow> row_rel H items (rx_rows self) c"

interpretation publication: op_stream publish_turn "reducer_row_rel H items" for H items
proof unfold_locales
  fix self c t self' ops
  assume r: "reducer_row_rel H items self c" and e: "publish_turn self t = (self', ops)"
  show "\<exists>c'. client_apply c ops = Some c' \<and> reducer_row_rel H items self' c'"
  proof (cases "map_of (rx_turns self) t")
    case None
    with e r show ?thesis by (simp add: publish_turn_def)
  next
    case (Some d)
    obtain rows ops' published where p: "replace_rows (rx_rows self) (td_rows d) (turn_rows self t d) = (rows, ops', published)"
      by (metis prod_cases3)
    with Some e have "rx_rows self' = rows" "ops = ops'" by (auto simp: publish_turn_def)
    with replace_rows_ok [OF r [unfolded reducer_row_rel_def] p] show ?thesis by (simp add: reducer_row_rel_def)
  qed
qed

lemma publish_loose_ok:
  assumes r: "reducer_row_rel H items self c" and e: "publish_loose self = (self', ops)"
  shows "\<exists>c'. client_apply c ops = Some c' \<and> reducer_row_rel H items self' c'"
proof -
  obtain rows ops' published where p: "replace_rows (rx_rows self) (rx_loose_rows self) (make_loose_rows self) = (rows, ops', published)"
    by (metis prod_cases3)
  with e have "rx_rows self' = rows" "ops = ops'" by (auto simp: publish_loose_def)
  with replace_rows_ok [OF r [unfolded reducer_row_rel_def] p] show ?thesis by (simp add: reducer_row_rel_def)
qed

subsection \<open>Items during a step\<close>

definition item_view :: "transcript_reducer \<Rightarrow> string \<rightharpoonup> transcript_item" where
  "item_view self i = map_option sl_item (map_of (rx_items self) i)"

text \<open>
  While an event is reduced, an item the step has not marked is what the client holds, an item marked with a delta is
  what the client gets by applying it, and an item marked whole is sent as it is.
\<close>

fun pending_at :: "bool \<Rightarrow> transcript_item option \<Rightarrow> transcript_item option \<Rightarrow> block_delta option option \<Rightarrow> bool" where
  "pending_at historic client server None \<longleftrightarrow> client = server \<or> server = None \<and> historic"
| "pending_at historic client server (Some None) \<longleftrightarrow> server \<noteq> None"
| "pending_at historic client server (Some (Some delta)) \<longleftrightarrow>
     (\<exists>held item. client = Some held \<and> server = Some item \<and> client_append_block delta held = Some item)"

definition pending_ok :: "string set \<Rightarrow> (string \<rightharpoonup> transcript_item) \<Rightarrow> (string \<rightharpoonup> transcript_item)
    \<Rightarrow> (string \<times> block_delta option) list \<Rightarrow> bool" where
  "pending_ok H client server changed \<longleftrightarrow> (\<forall>i. pending_at (i \<in> H) (client i) (server i) (map_of changed i))"

definition step_rel :: "string set \<Rightarrow> transcript_client \<Rightarrow> transcript_reducer \<times> reduce_step \<Rightarrow> bool" where
  "step_rel H c s \<longleftrightarrow> (\<exists>c1. client_apply c (zs_ops (snd s)) = Some c1 \<and> vw_rows c1 = vw_rows c
     \<and> pending_ok H (vw_items c1) (item_view (fst s)) (zs_items (snd s))) \<and> distinct (map fst (zs_items (snd s)))"

lemma touch_turn_fields [simp]:
  "zs_ops (touch_turn step turn) = zs_ops step" "zs_items (touch_turn step turn) = zs_items step"
  by (simp_all add: touch_turn_def split: option.split)

lemma touch_fields [simp]:
  "zs_ops (touch step i turn) = zs_ops step" "zs_items (touch step i turn) = AList.update i None (zs_items step)"
  "zs_ops (touch_delta step i turn delta) = zs_ops step"
  "zs_items (touch_delta step i turn delta) = AList.update i
     (case map_of (zs_items step) i of Some _ \<Rightarrow> None | None \<Rightarrow> Some delta) (zs_items step)"
  by (simp_all add: touch_def touch_delta_def)

lemma item_view_set_slot: "item_view (set_slot self i slot) = (item_view self)(i \<mapsto> sl_item slot)"
  by (auto simp: item_view_def set_slot_def update_conv' fun_eq_iff)

lemma item_view_same: "same_core self self' \<Longrightarrow> item_view self' = item_view self"
  by (simp add: same_core_def item_view_def fun_eq_iff)

lemma item_view_file [simp]: "item_view (file_item self turn i) = item_view self"
  by (simp add: item_view_def fun_eq_iff)

lemma item_view_turns [simp]: "item_view (self\<lparr>rx_turns := turns\<rparr>) = item_view self"
  by (simp add: item_view_def fun_eq_iff)

lemma pending_whole:
  "pending_ok H client server changed \<Longrightarrow> pending_ok H client (server(i \<mapsto> item)) (AList.update i None changed)"
  by (auto simp: pending_ok_def update_conv')

lemma pending_delta:
  assumes p: "pending_ok H client server changed" and "server i = Some held" and "client_append_block delta held = Some item"
  shows "pending_ok H client (server(i \<mapsto> item))
    (AList.update i (case map_of changed i of Some _ \<Rightarrow> None | None \<Rightarrow> Some delta) changed)"
proof -
  from p have at: "pending_at (i \<in> H) (client i) (server i) (map_of changed i)" by (simp add: pending_ok_def)
  have "pending_at (i \<in> H) (client i) (Some item) (Some (case map_of changed i of Some _ \<Rightarrow> None | None \<Rightarrow> Some delta))"
    using at assms(2,3) by (cases "map_of changed i") auto
  with p show ?thesis by (simp add: pending_ok_def update_conv')
qed

lemma move_step_rel:
  assumes "move s s'" and "step_rel H c s"
  shows "step_rel H c s'"
  using assms
proof (cases rule: move.cases)
  case (same self self' step)
  with assms(2) show ?thesis by (simp add: step_rel_def item_view_same)
next
  case (change self i slot item step)
  with assms(2) show ?thesis
    by (auto simp: step_rel_def item_view_set_slot distinct_update intro!: pending_whole)
next
  case (extend self i slot delta item step)
  have "item_view self i = Some (sl_item slot)" using extend by (simp add: item_view_def)
  with extend assms(2) show ?thesis
    by (auto simp: step_rel_def item_view_set_slot distinct_update intro!: pending_delta)
next
  case (stream self i slot step t content)
  from assms(2) stream obtain c1 where c1: "client_apply c (zs_ops step) = Some c1" "vw_rows c1 = vw_rows c"
    "pending_ok H (vw_items c1) (item_view self) []" by (auto simp: step_rel_def)
  have held: "vw_items c1 i = Some (sl_item slot)"
    using c1(3) [unfolded pending_ok_def, THEN spec, of i] stream by (simp add: item_view_def)
  let ?item = "(sl_item slot)\<lparr>xi_content := content\<rparr>"
  have "client_apply c (zs_ops step @ [OpAppendText i t]) = Some (c1\<lparr>vw_items := (vw_items c1)(i \<mapsto> ?item)\<rparr>)"
    using c1(1) held stream by (simp add: client_apply_append)
  moreover have "pending_ok H ((vw_items c1)(i \<mapsto> ?item)) ((item_view self)(i \<mapsto> ?item)) []"
    using c1(3) by (simp add: pending_ok_def)
  ultimately show ?thesis using c1(2) stream by (simp add: step_rel_def item_view_set_slot)
next
  case (add self i slot step)
  with assms(2) show ?thesis
    by (auto simp: step_rel_def item_view_set_slot distinct_update intro!: pending_whole)
next
  case (turn self t d step)
  with assms(2) show ?thesis by (simp add: step_rel_def)
qed

lemma moves_step_rel: "move\<^sup>*\<^sup>* s s' \<Longrightarrow> step_rel H c s \<Longrightarrow> step_rel H c s'"
  by (induction rule: rtranclp_induct) (auto intro: move_step_rel)

lemma item_ops_ok:
  assumes "pending_ok H (vw_items c) (item_view self) changed" and "distinct (map fst changed)" and keyed: "items_keyed self"
  shows "\<exists>c'. client_apply c (item_ops (rx_items self) changed) = Some c' \<and> vw_rows c' = vw_rows c
    \<and> agrees H (vw_items c') (item_view self)"
  using assms(1,2)
proof (induction changed arbitrary: c)
  case Nil
  then show ?case by (simp add: item_ops_def List.map_filter_def pending_ok_def agrees_def)
next
  case (Cons x changed)
  obtain i d where x: "x = (i, d)" by fastforce
  with Cons.prems(2) have fresh: "map_of changed i = None" by (simp add: map_of_eq_None_iff)
  have rest: "pending_ok H ((vw_items c)(i \<mapsto> item)) (item_view self) changed" if "item_view self i = Some item" for item
    unfolding pending_ok_def
  proof (rule allI)
    fix j
    show "pending_at (j \<in> H) (((vw_items c)(i \<mapsto> item)) j) (item_view self j) (map_of changed j)"
      using Cons.prems(1) [unfolded pending_ok_def, THEN spec, of j] x fresh that by (cases "j = i") auto
  qed
  have at: "pending_at (i \<in> H) (vw_items c i) (item_view self i) (Some d)"
    using Cons.prems(1) [unfolded pending_ok_def, THEN spec, of i] x by simp
  obtain item op where op: "client_apply_op c op = Some (c\<lparr>vw_items := (vw_items c)(i \<mapsto> item)\<rparr>)" "item_view self i = Some item"
    "item_ops (rx_items self) (x # changed) = op # item_ops (rx_items self) changed"
  proof (cases d)
    case None
    with at obtain slot where slot: "map_of (rx_items self) i = Some slot" by (auto simp: item_view_def)
    moreover from slot keyed have "xi_id (sl_item slot) = i" by (simp add: items_keyed_def)
    ultimately show ?thesis using that [of "OpItem (sl_item slot)" "sl_item slot"] None x
      by (simp add: item_ops_def item_view_def map_filter_simps)
  next
    case (Some delta)
    with at obtain held item where h: "vw_items c i = Some held" "item_view self i = Some item"
      "client_append_block delta held = Some item" by auto
    show ?thesis using that [of "OpAppendBlock i delta" item] h Some x by (simp add: item_ops_def map_filter_simps)
  qed
  have "distinct (map fst changed)" using Cons.prems(2) by simp
  moreover have "pending_ok H (vw_items (c\<lparr>vw_items := (vw_items c)(i \<mapsto> item)\<rparr>)) (item_view self) changed"
    using rest [OF op(2)] by simp
  ultimately obtain c' where "client_apply (c\<lparr>vw_items := (vw_items c)(i \<mapsto> item)\<rparr>) (item_ops (rx_items self) changed) = Some c'"
    "vw_rows c' = vw_rows c" "agrees H (vw_items c') (item_view self)" using Cons.IH by fastforce
  with op(1,3) show ?case by simp
qed

lemma emit_publish_items: "rx_items (fst (emit_all publish_turn self ts)) = rx_items self"
proof (induction ts arbitrary: self)
  case (Cons t ts)
  have "rx_items (fst (publish_turn self t)) = rx_items self" by (auto simp: publish_turn_def split: option.split prod.split)
  with Cons.IH [of "fst (publish_turn self t)"] show ?case by (auto simp: split_beta)
qed simp

definition in_sync :: "string set \<Rightarrow> transcript_reducer \<Rightarrow> transcript_client \<Rightarrow> bool" where
  "in_sync H self c \<longleftrightarrow> agrees H (vw_items c) (item_view self) \<and> agrees H (vw_rows c) (map_of (rx_rows self))
     \<and> items_keyed self \<and> rows_keyed (rx_rows self)"

lemma publish_ok:
  assumes rel: "step_rel H c (self, step)" and keyed: "items_keyed self" and rows: "rows_keyed (rx_rows self)"
    and agree: "agrees H (vw_rows c) (map_of (rx_rows self))" and e: "reduce_publish self step = (self', ops)"
  shows "\<exists>c'. client_apply c ops = Some c' \<and> in_sync H self' c'"
proof -
  from rel obtain c1 where c1: "client_apply c (zs_ops step) = Some c1" "vw_rows c1 = vw_rows c"
    "pending_ok H (vw_items c1) (item_view self) (zs_items step)" "distinct (map fst (zs_items step))"
    by (auto simp: step_rel_def)
  from item_ops_ok [OF c1(3,4) keyed] obtain c2 where c2: "client_apply c1 (item_ops (rx_items self) (zs_items step)) = Some c2"
    "vw_rows c2 = vw_rows c1" "agrees H (vw_items c2) (item_view self)" by blast
  have r: "reducer_row_rel H (vw_items c2) self c2" using c1(2) c2(2) agree rows by (simp add: reducer_row_rel_def row_rel_def)
  obtain self1 ops1 where e1: "emit_all publish_turn self (zs_turns step) = (self1, ops1)" by fastforce
  from publication.emit_all_ok [OF r e1] obtain c3 where c3: "client_apply c2 ops1 = Some c3" "reducer_row_rel H (vw_items c2) self1 c3" by blast
  obtain self2 ops2 where e2: "(if zs_loose step then publish_loose self1 else (self1, [])) = (self2, ops2)" by fastforce
  then obtain c4 where c4: "client_apply c3 ops2 = Some c4" "reducer_row_rel H (vw_items c2) self2 c4"
    using c3(2) publish_loose_ok [OF c3(2), of self2 ops2] by (auto split: if_splits)
  have eq: "self' = self2" "ops = zs_ops step @ item_ops (rx_items self) (zs_items step) @ ops1 @ ops2"
    using e e1 e2 by (auto simp: reduce_publish_def)
  have "rx_items self1 = rx_items self" using emit_publish_items [of self "zs_turns step"] e1 by simp
  moreover have "rx_items self2 = rx_items self1"
    using e2 by (auto simp: publish_loose_def split: if_splits prod.splits)
  ultimately have "item_view self' = item_view self" "items_keyed self'"
    using keyed eq by (simp_all add: item_view_def fun_eq_iff items_keyed_def)
  moreover have "client_apply c ops = Some c4" using eq(2) c1(1) c2(1) c3(1) c4(1) by (simp add: client_apply_append)
  ultimately show ?thesis using c4(2) c2(3) eq(1) by (auto simp: in_sync_def reducer_row_rel_def row_rel_def)
qed

lemma move_rows: "move s s' \<Longrightarrow> rx_rows (fst s') = rx_rows (fst s)"
  by (cases rule: move.cases) (auto simp: same_core_def set_slot_def file_item_def split: option.split)

lemma moves_rows: "move\<^sup>*\<^sup>* s s' \<Longrightarrow> rx_rows (fst s') = rx_rows (fst s)"
  by (induction rule: rtranclp_induct) (auto dest: move_rows)

lemma reduce_apply_ok:
  assumes sync: "in_sync H self c" and e: "reduce_apply self sequence at e blocks = (self', ops)"
  shows "\<exists>c'. client_apply c ops = Some c' \<and> in_sync H self' c'"
proof -
  let ?step = "new_step sequence (event_base self sequence) at"
  from sync have keyed: "items_keyed self" by (simp add: in_sync_def)
  obtain self1 step where m: "move\<^sup>*\<^sup>* (self, ?step) (self1, step)" and p: "reduce_publish self1 step = (self', ops)"
    using reduce_apply_moves [OF keyed, of sequence at e blocks] e by metis
  have "step_rel H c (self, ?step)"
    using sync by (simp add: step_rel_def new_step_def pending_ok_def in_sync_def agrees_def)
  from moves_step_rel [OF m this] have "step_rel H c (self1, step)" .
  moreover have "items_keyed self1" using moves_items_keyed [OF m] keyed by simp
  moreover have "rx_rows self1 = rx_rows self" using moves_rows [OF m] by simp
  ultimately show ?thesis using publish_ok [OF _ _ _ _ p] sync by (auto simp: in_sync_def)
qed

subsection \<open>Snapshots and trimming\<close>

definition keys_distinct :: "transcript_reducer \<Rightarrow> bool" where
  "keys_distinct self \<longleftrightarrow> distinct (map fst (rx_items self)) \<and> distinct (map fst (rx_rows self))"

lemma move_keys_distinct: "move s s' \<Longrightarrow> keys_distinct (fst s) \<Longrightarrow> keys_distinct (fst s')"
  by (cases rule: move.cases)
    (auto simp: keys_distinct_def same_core_def set_slot_def file_item_def distinct_update split: option.split)

lemma moves_keys_distinct: "move\<^sup>*\<^sup>* s s' \<Longrightarrow> keys_distinct (fst s) \<Longrightarrow> keys_distinct (fst s')"
  by (induction rule: rtranclp_induct) (auto intro: move_keys_distinct)

lemma emit_all_inv:
  assumes "\<And>s x. P s \<Longrightarrow> P (fst (f s x))" and "P s"
  shows "P (fst (emit_all f s xs))"
  using assms(2)
proof (induction xs arbitrary: s)
  case (Cons x xs)
  from Cons.IH [OF assms(1) [OF Cons.prems]] show ?case by (auto simp: split_beta)
qed simp

lemma replace_rows_distinct:
  assumes "distinct (map fst known)"
  shows "distinct (map fst (fst (replace_rows known previous rows)))"
proof -
  have "distinct (map fst (fst (emit_all (remove_row rows) known previous)))"
    by (rule emit_all_inv) (use assms in \<open>auto simp: remove_row_def distinct_delete\<close>)
  then have "distinct (map fst (fst (emit_all put_row (fst (emit_all (remove_row rows) known previous)) rows)))"
    by (intro emit_all_inv [where P = "\<lambda>known. distinct (map fst known)" and f = put_row])
      (auto simp: put_row_def distinct_update split: option.split)
  then show ?thesis by (simp add: replace_rows_def split_beta)
qed

lemma publish_turn_distinct: "keys_distinct self \<Longrightarrow> keys_distinct (fst (publish_turn self t))"
  using replace_rows_distinct [of "rx_rows self"]
  by (auto simp: keys_distinct_def publish_turn_def split_beta split: option.split)

lemma publish_distinct: "keys_distinct self \<Longrightarrow> keys_distinct (fst (reduce_publish self step))"
  using emit_all_inv [where P = keys_distinct and f = publish_turn and xs = "zs_turns step"] publish_turn_distinct
    replace_rows_distinct
  by (auto simp: reduce_publish_def publish_loose_def split_beta keys_distinct_def)

lemma reduce_apply_distinct:
  assumes "items_keyed self" and "keys_distinct self"
  shows "keys_distinct (fst (reduce_apply self sequence at e blocks))"
proof -
  obtain self1 step where m: "move\<^sup>*\<^sup>* (self, new_step sequence (event_base self sequence) at) (self1, step)"
    "reduce_apply self sequence at e blocks = reduce_publish self1 step"
    using reduce_apply_moves [OF assms(1)] by metis
  with moves_keys_distinct [OF m(1)] assms(2) publish_distinct show ?thesis by simp
qed

lemma map_of_values:
  assumes d: "distinct (map fst al)" and k: "\<And>i v. map_of al i = Some v \<Longrightarrow> key v = i" and ys: "mset ys = mset (map snd al)"
  shows "map_of (rev (map (\<lambda>v. (key v, f v)) ys)) = map_option f \<circ> map_of al"
proof -
  have in_al: "(i, v) \<in> set al \<longleftrightarrow> map_of al i = Some v" for i v using d by (simp add: map_of_eq_Some_iff)
  then have keys: "map key (map snd al) = map fst al" using k by (auto intro!: map_cong)
  have "mset (map key ys) = mset (map fst al)" using ys keys by (metis mset_map)
  with d have dk: "distinct (map key ys)" by (metis mset_eq_imp_distinct_iff)
  let ?xs = "rev (map (\<lambda>v. (key v, f v)) ys)"
  have "distinct (map fst ?xs)" using dk by (simp add: rev_map [symmetric] comp_def)
  then have in_xs: "map_of ?xs i = Some w \<longleftrightarrow> (\<exists>v \<in> set ys. key v = i \<and> w = f v)" for i w
    by (auto simp: map_of_eq_Some_iff)
  have in_ys: "v \<in> set ys \<longleftrightarrow> (\<exists>i. map_of al i = Some v)" for v
  proof -
    have "v \<in> set ys \<longleftrightarrow> (\<exists>i. (i, v) \<in> set al)" using mset_eq_setD [OF ys] by (auto simp: image_iff) (metis snd_conv)
    then show ?thesis by (simp only: in_al)
  qed
  have "map_of ?xs i = map_option f (map_of al i)" for i
  proof (cases "map_of al i")
    case None
    have "map_of ?xs i \<noteq> Some w" for w
    proof
      assume "map_of ?xs i = Some w"
      then obtain v where "v \<in> set ys" "key v = i" by (auto simp only: in_xs)
      with in_ys k None show False by auto
    qed
    then have "map_of ?xs i = None" by (cases "map_of ?xs i") auto
    with None show ?thesis by simp
  next
    case (Some v)
    then have "v \<in> set ys" "key v = i" using in_ys k by blast+
    then have "map_of ?xs i = Some (f v)" using in_xs by blast
    with Some show ?thesis by simp
  qed
  then show ?thesis by (simp add: fun_eq_iff)
qed

lemma mset_sort_key [simp]: "mset (sort_key k xs) = mset xs"
  by (fact mset_sort)

lemma client_from_snapshot:
  assumes "items_keyed self" and "rows_keyed (rx_rows self)" and "keys_distinct self"
  shows "client_from_page (snapshot self) = client_of self"
proof -
  have "map_of (rev (map (\<lambda>slot. (xi_id (sl_item slot), sl_item slot)) (sort_key sl_position (map snd (rx_items self)))))
      = map_option sl_item \<circ> map_of (rx_items self)"
    by (rule map_of_values) (use assms in \<open>simp_all add: keys_distinct_def items_keyed_def\<close>)
  moreover have "map_of (rev (map (\<lambda>row. (xw_id row, row)) (sort_rows (map snd (rx_rows self))))) = map_option id \<circ> map_of (rx_rows self)"
    using map_of_values [of "rx_rows self" xw_id "sort_rows (map snd (rx_rows self))" id] assms
    by (simp add: keys_distinct_def rows_keyed_def sort_rows_def id_def)
  ultimately show ?thesis
    by (simp add: client_from_page_def client_of_def snapshot_def comp_def option.map_id)
qed

text \<open>Trimming only forgets.\<close>

definition shrunk :: "transcript_reducer \<Rightarrow> transcript_reducer \<Rightarrow> bool" where
  "shrunk self self' \<longleftrightarrow> map_of (rx_items self') \<subseteq>\<^sub>m map_of (rx_items self) \<and> map_of (rx_rows self') \<subseteq>\<^sub>m map_of (rx_rows self)
     \<and> (keys_distinct self \<longrightarrow> keys_distinct self')"

lemma shrunk_refl [simp]: "shrunk self self"
  by (simp add: shrunk_def)

lemma shrunk_trans: "shrunk a b \<Longrightarrow> shrunk b c \<Longrightarrow> shrunk a c"
  by (auto simp: shrunk_def intro: map_le_trans)

lemma delete_all_le: "map_of (delete_all keys m) \<subseteq>\<^sub>m map_of m" "distinct (map fst m) \<Longrightarrow> distinct (map fst (delete_all keys m))"
proof -
  have "map_of (delete_all keys m) i = (if i \<in> set keys then None else map_of m i)" for i
    by (induction m) (auto simp: delete_all_def)
  then show "map_of (delete_all keys m) \<subseteq>\<^sub>m map_of m" by (auto simp: map_le_def)
  show "distinct (map fst m) \<Longrightarrow> distinct (map fst (delete_all keys m))"
    by (simp add: delete_all_def distinct_map_filter)
qed

lemma delete_le: "map_of (AList.delete k m) \<subseteq>\<^sub>m map_of m"
  by (auto simp: map_le_def delete_conv')

lemma fold_shrunk:
  assumes "\<And>self x. shrunk self (f self x)"
  shows "shrunk self (foldl f self xs)"
  using assms by (induction xs arbitrary: self) (auto intro: shrunk_trans)

lemma drop_shrunk: "shrunk self (drop_turn self i)" "shrunk self (drop_row self i)" "shrunk self (trim_loose self sequence)"
  by (auto simp: shrunk_def keys_distinct_def drop_turn_def drop_row_def trim_loose_def Let_def delete_all_le delete_le distinct_delete
      split: option.split)

lemma shrunk_fields:
  assumes "rx_items self' = rx_items self" and "rx_rows self' = rx_rows self"
  shows "shrunk self self'"
  using assms by (simp add: shrunk_def keys_distinct_def)

lemma trim_shrunk: "shrunk self (trim_before self sequence)"
proof -
  define self1 where "self1 = foldl drop_turn self (old_turns self sequence)"
  define gone where "gone = old_rows self1 sequence"
  define self2 where "self2 = foldl drop_row self1 gone"
  define self3 where "self3 = self2\<lparr>rx_loose_rows := filter (\<lambda>i. i \<notin> set gone) (rx_loose_rows self2)\<rparr>"
  have "shrunk self self1" "shrunk self1 self2" unfolding self1_def self2_def by (simp_all add: fold_shrunk drop_shrunk)
  moreover have "shrunk self2 self3" by (rule shrunk_fields) (simp_all add: self3_def)
  moreover have "shrunk self3 (trim_loose self3 sequence)" by (rule drop_shrunk)
  moreover have "shrunk (trim_loose self3 sequence) (trim_before self sequence)"
    by (rule shrunk_fields) (simp_all add: trim_before_def Let_def self1_def self2_def self3_def gone_def)
  ultimately show ?thesis by (blast intro: shrunk_trans)
qed

lemma shrunk_in_sync:
  assumes "in_sync H self c" and s: "shrunk self self'"
  shows "in_sync UNIV self' c"
proof -
  have le: "map_of (rx_items self') i = Some x \<Longrightarrow> map_of (rx_items self) i = Some x"
    "map_of (rx_rows self') i = Some y \<Longrightarrow> map_of (rx_rows self) i = Some y" for i x y
    using s by (auto simp: shrunk_def map_le_def dom_def)
  have "vw_items c i = item_view self' i \<or> item_view self' i = None" for i
    using assms(1) le(1) [of i] agrees_known [of H "vw_items c" "item_view self" i]
    by (cases "map_of (rx_items self') i") (auto simp: in_sync_def item_view_def)
  moreover have "vw_rows c i = map_of (rx_rows self') i \<or> map_of (rx_rows self') i = None" for i
    using assms(1) le(2) [of i] by (cases "map_of (rx_rows self') i") (auto simp: in_sync_def dest: agrees_known)
  ultimately show ?thesis
    using assms(1) le by (simp add: in_sync_def agrees_def items_keyed_def rows_keyed_def)
qed

subsection \<open>Properties\<close>

definition synced :: "string set \<Rightarrow> transcript_reducer \<Rightarrow> transcript_client \<Rightarrow> bool" where
  "synced H self c \<longleftrightarrow> in_sync H self c \<and> keys_distinct self"

text \<open>\<open>UNIV\<close> allows history of any id; with \<open>{}\<close> the client holds exactly what the reducer holds.\<close>

interpretation session: op_stream reduce_input "synced UNIV"
proof unfold_locales
  fix self c input self' ops
  assume s: "synced UNIV self c" and r: "reduce_input self input = (self', ops)"
  show "\<exists>c'. client_apply c ops = Some c' \<and> synced UNIV self' c'"
  proof (cases input)
    case (Reduce sequence at e blocks)
    with r have "reduce_apply self sequence at e blocks = (self', ops)" by (simp add: reduce_input_def)
    with s reduce_apply_ok [of UNIV self c sequence at e blocks self' ops] reduce_apply_distinct [of self sequence at e blocks]
    show ?thesis by (auto simp: synced_def in_sync_def)
  next
    case (Trim sequence)
    with r s shrunk_in_sync [OF _ trim_shrunk, of UNIV self c sequence] trim_shrunk [of self sequence] show ?thesis
      by (auto simp: synced_def reduce_input_def shrunk_def)
  qed
qed

type_synonym journal_item = "nat \<times> int \<times> event \<times> rendered_block list"

definition reduce_item :: "transcript_reducer \<Rightarrow> journal_item \<Rightarrow> transcript_reducer \<times> transcript_op list" where
  "reduce_item self item = (case item of (sequence, at, e, blocks) \<Rightarrow> reduce_apply self sequence at e blocks)"

interpretation events: op_stream reduce_item "synced H" for H
proof unfold_locales
  fix self c item self' ops
  assume s: "synced H self c" and r: "reduce_item self item = (self', ops)"
  obtain sequence at e blocks where item: "item = (sequence, at, e, blocks)" by (metis prod_cases4)
  with r have "reduce_apply self sequence at e blocks = (self', ops)" by (simp add: reduce_item_def)
  with s reduce_apply_ok [of H self c sequence at e blocks self' ops] reduce_apply_distinct [of self sequence at e blocks]
  show "\<exists>c'. client_apply c ops = Some c' \<and> synced H self' c'" by (auto simp: synced_def in_sync_def)
qed

lemma synced_new: "synced H (reducer_new depth) client_empty"
  by (simp add: synced_def in_sync_def reducer_new_def client_empty_def agrees_def item_view_def items_keyed_def rows_keyed_def
      keys_distinct_def)

lemma client_of_synced: "synced {} self c \<longleftrightarrow> c = client_of self \<and> synced {} self (client_of self)"
  by (cases c) (auto simp: synced_def in_sync_def agrees_empty client_of_def item_view_def fun_eq_iff comp_def)

lemma synced_self: "synced H self c \<Longrightarrow> synced {} self (client_of self)"
  by (auto simp: synced_def in_sync_def agrees_empty client_of_def item_view_def fun_eq_iff)

text \<open>
  C13. A client and the gateway show the same transcript.  Take any session, trimmed or not, open a client from its
  snapshot and let any further events arrive.  The client can apply every op it is sent: an op never extends an item
  or a row the client does not hold, and never appends to an item of another kind.  Afterwards the client holds
  exactly the items and rows of the reducer, which are also what a client opened now would hold.
\<close>
theorem transcript_clients_in_sync:
  "case reduce_all (reducer_new depth) before of (self, _) \<Rightarrow>
     (case emit_all reduce_item self later of (self', ops) \<Rightarrow>
        client_apply (client_from_page (snapshot self)) ops = Some (client_of self')
        \<and> client_from_page (snapshot self') = client_of self')"
proof -
  obtain self ops0 where r: "reduce_all (reducer_new depth) before = (self, ops0)" by fastforce
  obtain self' ops where e: "emit_all reduce_item self later = (self', ops)" by fastforce
  have page: "client_from_page (snapshot s) = client_of s" if "synced {} s c" for s c
    using that client_from_snapshot [of s] by (simp add: synced_def in_sync_def)
  from session.emit_all_ok [OF synced_new r [unfolded reduce_all_def]] obtain c where "synced UNIV self c" by blast
  then have s: "synced {} self (client_of self)" by (rule synced_self)
  from events.emit_all_ok [OF s e] obtain c' where c': "client_apply (client_of self) ops = Some c'" "synced {} self' c'" by blast
  with page [OF s] page [OF c'(2)] c'(2) r e show ?thesis by (simp add: client_of_synced [of self' c'])
qed

text \<open>
  C14. Trimming the reducer never disturbs a client.  For any sequence of events and trims, a client that follows from
  the start can apply every op, and it holds every item and row the reducer holds, with the same contents; all else
  it holds is history the reducer has forgotten.
\<close>
theorem transcript_trim_keeps_clients:
  "case reduce_all (reducer_new depth) inputs of (self, ops) \<Rightarrow>
     \<exists>c. client_apply client_empty ops = Some c
       \<and> vw_items (client_of self) \<subseteq>\<^sub>m vw_items c \<and> vw_rows (client_of self) \<subseteq>\<^sub>m vw_rows c"
proof -
  obtain self ops where r: "reduce_all (reducer_new depth) inputs = (self, ops)" by fastforce
  from session.emit_all_ok [OF synced_new r [unfolded reduce_all_def]] obtain c
    where c: "client_apply client_empty ops = Some c" "synced UNIV self c" by blast
  then have a: "agrees UNIV (vw_items c) (item_view self)" "agrees UNIV (vw_rows c) (map_of (rx_rows self))"
    by (simp_all add: synced_def in_sync_def)
  have "vw_items (client_of self) \<subseteq>\<^sub>m vw_items c" "vw_rows (client_of self) \<subseteq>\<^sub>m vw_rows c"
    using agrees_known [OF a(1)] agrees_known [OF a(2)] by (auto simp: map_le_def client_of_def item_view_def)
  with c(1) r show ?thesis by auto
qed

end
