(* ===== verification/Transcript_Rows.thy ===== *)
theory Transcript_Rows
  imports Transcript_Sync
begin

text \<open>
  The rows of the transcript.  The reducer regroups only the turns an event touched and sends the differences; this
  theory shows that its rows are at every moment what grouping all items from scratch gives, that no row id is
  shared, and that every item is shown exactly once.
\<close>

subsection \<open>Grouping depends on what items are, not on their streamed text\<close>

definition alike :: "transcript_item \<Rightarrow> transcript_item \<Rightarrow> bool" where
  "alike item item' \<longleftrightarrow> xi_id item' = xi_id item \<and> xi_terminal item' = xi_terminal item \<and> item_place item' = item_place item
     \<and> is_activity item' = is_activity item \<and> notice_tone item' = notice_tone item \<and> notice_text item' = notice_text item
     \<and> is_answer item' = is_answer item \<and> (\<forall>n. count_item n item' = count_item n item)
     \<and> is_diff item' = is_diff item \<and> diff_lines item' = diff_lines item \<and> activity_key item' = activity_key item"

definition inert :: "(slot \<Rightarrow> slot) \<Rightarrow> bool" where
  "inert g \<longleftrightarrow> (\<forall>s. sl_position (g s) = sl_position s \<and> alike (sl_item s) (sl_item (g s)))"

lemma alike_refl [simp]: "alike item item"
  by (simp add: alike_def)

lemma inert_id [simp]: "inert (\<lambda>s. s)"
  by (simp add: inert_def)

lemmas item_defs = item_place_def stands_alone_def notice_tone_def is_notice_def is_answer_def is_activity_def notice_text_def
  count_item_def errored_def is_diff_def diff_lines_def activity_key_def

lemma append_content_alike:
  assumes "append_content t (xi_content item) = Some content"
  shows "alike item (item\<lparr>xi_content := content\<rparr>)"
proof (cases "xi_content item")
  case (ItemMessage message)
  with assms have "content = ItemMessage (message\<lparr>me_text := me_text message @ t\<rparr>)" by simp
  with ItemMessage show ?thesis
    unfolding alike_def by (intro conjI allI) (simp_all add: item_defs split: option.split)
next
  case (ItemAssistant phase current annotations)
  with assms have "content = ItemAssistant phase (current @ t) annotations" by simp
  with ItemAssistant show ?thesis
    unfolding alike_def by (intro conjI allI) (simp_all add: item_defs split: option.split)
qed (use assms in simp_all)

lemma inert_fields:
  assumes "inert g"
  shows "sl_position (g s) = sl_position s" "xi_id (sl_item (g s)) = xi_id (sl_item s)"
    "xi_terminal (sl_item (g s)) = xi_terminal (sl_item s)" "item_place (sl_item (g s)) = item_place (sl_item s)"
    "is_activity (sl_item (g s)) = is_activity (sl_item s)" "notice_tone (sl_item (g s)) = notice_tone (sl_item s)"
    "notice_text (sl_item (g s)) = notice_text (sl_item s)" "is_answer (sl_item (g s)) = is_answer (sl_item s)"
    "count_item n (sl_item (g s)) = count_item n (sl_item s)" "is_diff (sl_item (g s)) = is_diff (sl_item s)"
    "diff_lines (sl_item (g s)) = diff_lines (sl_item s)" "activity_key (sl_item (g s)) = activity_key (sl_item s)"
  using assms by (simp_all add: inert_def alike_def)

lemma insort_key_map: "(\<And>y. k (g y) = k y) \<Longrightarrow> insort_key k (g x) (map g xs) = map g (insort_key k x xs)"
  by (induction xs) auto

lemma sort_key_map_same: "(\<And>y. k (g y) = k y) \<Longrightarrow> sort_key k (map g xs) = map g (sort_key k xs)"
  by (induction xs) (auto simp: insort_key_map)

lemma counts_map: "inert g \<Longrightarrow> counts (map sl_item (map g xs)) = counts (map sl_item xs)"
proof -
  assume g: "inert g"
  have "foldl count_item n (map sl_item (map g xs)) = foldl count_item n (map sl_item xs)" for n
    by (induction xs arbitrary: n) (simp_all add: inert_fields [OF g])
  then show ?thesis by (simp add: counts_def)
qed

lemma turn_changes_map: "inert g \<Longrightarrow> turn_changes_of (map g xs) = turn_changes_of xs"
proof -
  assume g: "inert g"
  show ?thesis by (simp add: turn_changes_of_def filter_map comp_def inert_fields [OF g] Let_def)
qed

text \<open>Two reducers look alike on a set of ids: each item of one is the image of the item of the other.\<close>

definition images :: "(slot \<Rightarrow> slot) \<Rightarrow> transcript_reducer \<Rightarrow> transcript_reducer \<Rightarrow> string set \<Rightarrow> bool" where
  "images g self self' ids \<longleftrightarrow> inert g \<and> rx_depth self' = rx_depth self
     \<and> (\<forall>i \<in> ids. map_of (rx_items self') i = map_option g (map_of (rx_items self) i))"

lemma slots_image:
  assumes "images g self self' I" and "set ids \<subseteq> I"
  shows "slots self' ids = map g (slots self ids)"
  using assms by (induction ids) (auto simp: slots_def images_def map_filter_simps split: option.split)

definition row_within :: "string set \<Rightarrow> transcript_row \<Rightarrow> bool" where
  "row_within I row \<longleftrightarrow> set (row_item_ids row) \<subseteq> I"

lemma child_items_image:
  assumes im: "images g self self' I" and "set (List.map_filter child_item children) \<subseteq> I"
  shows "counts (child_items self' children) = counts (child_items self children)"
  using slots_image [OF assms] im counts_map [of g] by (simp add: child_items_def images_def)

lemma first_item_image:
  assumes im: "images g self self' I" and row: "row_within I row"
  shows "rel_option alike (first_item self row) (first_item self' row)"
proof (cases "\<exists>i rest. xw_items row = ChildItem i # rest")
  case True
  then obtain i rest where i: "xw_items row = ChildItem i # rest" by blast
  with row have "i \<in> I" by (simp add: row_within_def row_item_ids_def map_filter_simps)
  with im i show ?thesis by (cases "map_of (rx_items self) i") (auto simp: first_item_def images_def inert_def)
next
  case False
  then have "first_item self row = None \<and> first_item self' row = None"
    by (cases "xw_items row"; cases "hd (xw_items row)") (auto simp: first_item_def)
  then show ?thesis by simp
qed

lemma repeats_error_image:
  assumes im: "images g self self' I" and "\<And>row. previous = Some row \<Longrightarrow> row_within I row"
  shows "repeats_error previous self' (sl_item (g s)) = repeats_error previous self (sl_item s)"
proof -
  have g: "inert g" using im by (simp add: images_def)
  show ?thesis
  proof (cases previous)
    case (Some row)
    from first_item_image [OF im assms(2) [OF Some]] show ?thesis
      by (cases "first_item self row"; cases "first_item self' row")
        (auto simp: repeats_error_def Some inert_fields [OF g] alike_def split: option.split)
  qed (simp add: repeats_error_def inert_fields [OF g] split: option.split)
qed

lemma row_within_single: "row_within I (single s kind) \<longleftrightarrow> xi_id (sl_item s) \<in> I"
  by (simp add: row_within_def row_item_ids_def single_def map_filter_simps)

lemma row_within_activity: "row_within I (activity_row s) \<longleftrightarrow> xi_id (sl_item s) \<in> I"
  by (simp add: row_within_def row_item_ids_def activity_row_def map_filter_simps)

lemma last_row_within: "(\<And>row. row \<in> set rows \<Longrightarrow> row_within I row) \<Longrightarrow> last_row rows = Some row \<Longrightarrow> row_within I row"
  by (auto simp: last_row_def split: if_splits)

abbreviation slot_id :: "slot \<Rightarrow> string" where
  "slot_id s \<equiv> xi_id (sl_item s)"

lemma single_image: "inert g \<Longrightarrow> single (g s) kind = single s kind"
  by (simp add: single_def inert_fields)

lemma activity_row_image: "inert g \<Longrightarrow> activity_row (g s) = activity_row s"
  by (simp add: activity_row_def inert_fields counts_def)

lemma build_rows_image:
  assumes im: "images g self self' I"
  shows "(\<And>row. row \<in> set rows \<Longrightarrow> row_within I row) \<Longrightarrow> (\<And>n s p. (n, s, p) \<in> set placed \<Longrightarrow> slot_id s \<in> I)
    \<Longrightarrow> build_rows self' (map g all) la (map (\<lambda>(n, s, p). (n, g s, p)) placed) rows (map g work)
      = (case build_rows self all la placed rows work of (rows', work') \<Rightarrow> (rows', map g work'))"
proof (induction placed arbitrary: rows work)
  case (Cons x placed)
  obtain n s p where x: "x = (n, s, p)" by (cases x)
  have g: "inert g" using im by (simp add: images_def)
  have i: "slot_id s \<in> I" using Cons.prems(2) [of n s p] x by simp
  have rest: "\<And>n s p. (n, s, p) \<in> set placed \<Longrightarrow> slot_id s \<in> I" using Cons.prems(2) by auto
  have more: "\<And>row. row \<in> set (rows @ [single s kind]) \<Longrightarrow> row_within I row" for kind
    using Cons.prems(1) i by (auto simp: row_within_single)
  have rep: "repeats_error (last_row rows) self' (sl_item (g s)) = repeats_error (last_row rows) self (sl_item s)"
    by (rule repeats_error_image [OF im]) (use last_row_within Cons.prems(1) in blast)
  have ih: "build_rows self' (map g all) la (map (\<lambda>(n, s, p). (n, g s, p)) placed) R (map g W)
      = (case build_rows self all la placed R W of (rows', work') \<Rightarrow> (rows', map g work'))"
    if "\<And>row. row \<in> set R \<Longrightarrow> row_within I row" for R W
    by (rule Cons.IH) (use that rest in blast)+
  have same: "build_rows self' (map g all) la (map (\<lambda>(n, s, p). (n, g s, p)) placed) rows (map g W)
      = (case build_rows self all la placed rows W of (rows', work') \<Rightarrow> (rows', map g work'))" for W
    by (rule ih) (rule Cons.prems(1))
  have entry: "build_rows self' (map g all) la (map (\<lambda>(n, s, p). (n, g s, p)) placed) (rows @ [single s kind]) (map g W)
      = (case build_rows self all la placed (rows @ [single s kind]) W of (rows', work') \<Rightarrow> (rows', map g work'))" for kind W
    by (rule ih) (rule more)
  show ?case
  proof (cases p)
    case PWork
    with same [of "work @ [s]"] x show ?thesis by simp
  next
    case PNotice
    with same [of work] entry [of KNotice work] x rep single_image [OF g] show ?thesis by simp
  next
    case PEntry
    with entry x single_image [OF g] turn_changes_map [OF g] show ?thesis by (cases "la = Some n") simp_all
  next
    case PAnswer
    with entry x single_image [OF g] turn_changes_map [OF g] show ?thesis by (cases "la = Some n") simp_all
  qed
qed simp

lemma build_runs_image: "inert g \<Longrightarrow> build_runs (map g work) items runs in_run = build_runs work items runs in_run"
proof (induction work arbitrary: items runs in_run)
  case (Cons s work)
  then show ?case by (simp only: list.map build_runs.simps inert_fields activity_row_image)
qed simp

text \<open>Where the items of the rows of a turn come from.\<close>

lemma placed_slots_within: "(n, s, p) \<in> set (placed_slots self turn) \<Longrightarrow> s \<in> set (sorted_slots self turn)"
  by (auto simp: placed_slots_def Let_def in_set_enumerate_eq)

lemma build_rows_work:
  "build_rows self all la placed rows work = (rows', work') \<Longrightarrow> set work' \<subseteq> set work \<union> (\<lambda>(n, s, p). s) ` set placed"
proof (induction placed arbitrary: rows work)
  case (Cons x placed)
  obtain n s p where x: "x = (n, s, p)" by (cases x)
  from Cons.prems x obtain rows1 work1 where r: "build_rows self all la placed rows1 work1 = (rows', work')" "set work1 \<subseteq> insert s (set work)"
    by (cases p) auto
  from Cons.IH [OF r(1)] r(2) x show ?case by auto
qed auto

lemma build_runs_within:
  "build_runs work items runs in_run = (items', runs') \<Longrightarrow> slot_id ` set work \<subseteq> I \<Longrightarrow> \<forall>run \<in> set runs. row_within I run
     \<Longrightarrow> \<forall>run \<in> set runs'. row_within I run"
proof (induction work arbitrary: items runs in_run)
  case (Cons s work)
  have i: "slot_id s \<in> I" "slot_id ` set work \<subseteq> I" using Cons.prems(2) by auto
  have new: "\<forall>run \<in> set (runs @ [activity_row s]). row_within I run" using Cons.prems(3) i by (auto simp: row_within_activity)
  have grown: "\<forall>run \<in> set (butlast runs @ [(last runs)\<lparr>xw_items := xw_items (last runs) @ [ChildItem (slot_id s)]\<rparr>]). row_within I run"
    if "runs \<noteq> []"
  proof -
    have "row_within I ((last runs)\<lparr>xw_items := xw_items (last runs) @ [ChildItem (slot_id s)]\<rparr>)"
      using Cons.prems(3) i that by (simp add: row_within_def row_item_ids_def List.map_filter_def)
    with Cons.prems(3) show ?thesis by (auto dest: in_set_butlastD)
  qed
  consider (other) "\<not> is_activity (sl_item s)" | (join) "is_activity (sl_item s)" "in_run \<and> runs \<noteq> []"
    | (fresh) "is_activity (sl_item s)" "\<not> (in_run \<and> runs \<noteq> [])" by blast
  then show ?case
  proof cases
    case other
    with Cons.prems(1) show ?thesis by (intro Cons.IH [OF _ i(2) Cons.prems(3)]) simp
  next
    case join
    with Cons.prems(1) show ?thesis by (intro Cons.IH [OF _ i(2) grown]) simp_all
  next
    case fresh
    with Cons.prems(1) show ?thesis by (intro Cons.IH [OF _ i(2) new]) simp
  qed
qed simp

lemma slots_ids: "items_keyed self \<Longrightarrow> s \<in> set (slots self ids) \<Longrightarrow> slot_id s \<in> set ids"
  by (auto simp: slots_def List.map_filter_def items_keyed_def)

lemma sorted_slots_ids: "items_keyed self \<Longrightarrow> s \<in> set (sorted_slots self turn) \<Longrightarrow> slot_id s \<in> set (td_items turn)"
  by (simp add: sorted_slots_def slots_ids)

lemma position_map: "position P (map g xs) = position (\<lambda>x. P (g x)) xs"
  by (induction xs) simp_all

lemma rposition_map: "rposition P (map g xs) = rposition (\<lambda>x. P (g x)) xs"
  by (simp add: rposition_def rev_map position_map)

definition same_turn :: "reduced_turn \<Rightarrow> reduced_turn \<Rightarrow> bool" where
  "same_turn d d' \<longleftrightarrow> td_items d' = td_items d \<and> td_started_at_ms d' = td_started_at_ms d \<and> td_ended_at_ms d' = td_ended_at_ms d"

lemma turn_rows_image:
  assumes im: "images g self self' (set (td_items d))" and keyed: "items_keyed self" and d: "same_turn d d'"
  shows "turn_rows self' t d' = turn_rows self t d"
proof -
  have g: "inert g" and depth: "rx_depth self' = rx_depth self" using im by (simp_all add: images_def)
  let ?I = "set (td_items d)" and ?all = "sorted_slots self d"
  have all: "sorted_slots self' d' = map g ?all"
    using slots_image [OF im subset_refl] d sort_key_map_same [of sl_position g] by (simp add: sorted_slots_def same_turn_def inert_fields [OF g])
  have placed: "placed_slots self' d' = map (\<lambda>(n, s, p). (n, g s, p)) (placed_slots self d)"
    using d by (simp add: placed_slots_def all Let_def same_turn_def inert_fields [OF g] comp_def enumerate_map_upt case_prod_beta
        enumerate_eq_zip zip_map2)
  have answer: "rposition (\<lambda>s. xi_terminal (sl_item s) \<and> is_answer (sl_item s)) (map g ?all)
      = rposition (\<lambda>s. xi_terminal (sl_item s) \<and> is_answer (sl_item s)) ?all"
    by (simp add: rposition_map inert_fields [OF g])
  let ?la = "rposition (\<lambda>s. xi_terminal (sl_item s) \<and> is_answer (sl_item s)) ?all"
  obtain rows work where b: "build_rows self ?all ?la (placed_slots self d) [] [] = (rows, work)" by fastforce
  have ids: "slot_id s \<in> ?I" if "(n, s, p) \<in> set (placed_slots self d)" for n s p
    using sorted_slots_ids [OF keyed placed_slots_within [OF that]] .
  have b': "build_rows self' (sorted_slots self' d')
      (rposition (\<lambda>s. xi_terminal (sl_item s) \<and> is_answer (sl_item s)) (sorted_slots self' d')) (placed_slots self' d') [] []
      = (rows, map g work)"
    using build_rows_image [OF im, of "[]" "placed_slots self d" ?all ?la "[]"] b ids by (simp add: all answer placed)
  have wi: "slot_id ` set work \<subseteq> ?I" using build_rows_work [OF b] ids by auto
  obtain items runs where r: "build_runs work [] [] False = (items, runs)" by fastforce
  have within: "\<forall>run \<in> set runs. row_within ?I run" by (rule build_runs_within [OF r wi]) simp
  have r': "build_runs (map g work) [] [] False = (items, runs)" using build_runs_image [OF g] r by simp
  have kinds: "map (\<lambda>run. run\<lparr>xw_kind := KActivity (counts (child_items self' (xw_items run)))\<rparr>) runs
      = map (\<lambda>run. run\<lparr>xw_kind := KActivity (counts (child_items self (xw_items run)))\<rparr>) runs"
    using within child_items_image [OF im] by (auto simp: row_within_def row_item_ids_def)
  have w: "counts (map sl_item (map g work)) = counts (map sl_item work)" by (rule counts_map [OF g])
  have dur: "duration_ms d' = duration_ms d" "td_started_at_ms d' = td_started_at_ms d" using d by (simp_all add: same_turn_def duration_ms_def)
  show ?thesis
    unfolding turn_rows_def Let_def b b' prod.case
  proof (cases work)
    case (Cons first rest)
    have f: "sl_position (g first) = sl_position first" by (rule inert_fields [OF g])
    show "sort_rows (case map g work of [] \<Rightarrow> rows | first # _ \<Rightarrow> (case build_runs (map g work) [] [] False of (items, runs) \<Rightarrow>
          rows @ map (\<lambda>run. run\<lparr>xw_kind := KActivity (counts (child_items self' (xw_items run)))\<rparr>) runs
          @ [\<lparr>xw_id = reducer_id self' (''worked:'' @ t), xw_position = sl_position first, xw_items = items,
              xw_kind = KWorked (counts (map sl_item (map g work))) (td_started_at_ms d') (duration_ms d')\<rparr>]))
      = sort_rows (case work of [] \<Rightarrow> rows | first # _ \<Rightarrow> (case build_runs work [] [] False of (items, runs) \<Rightarrow>
          rows @ map (\<lambda>run. run\<lparr>xw_kind := KActivity (counts (child_items self (xw_items run)))\<rparr>) runs
          @ [\<lparr>xw_id = reducer_id self (''worked:'' @ t), xw_position = sl_position first, xw_items = items,
              xw_kind = KWorked (counts (map sl_item work)) (td_started_at_ms d) (duration_ms d)\<rparr>]))"
      unfolding r r' prod.case kinds w dur reducer_id_depth [OF depth] using Cons f by simp
  qed simp
qed

lemma add_loose_image:
  assumes im: "images g self self' I" and rows: "\<And>row. row \<in> set rows \<Longrightarrow> row_within I row" and i: "slot_id s \<in> I"
  shows "add_loose self' rows (g s) = add_loose self rows s"
    and "\<And>row. row \<in> set (add_loose self rows s) \<Longrightarrow> row_within I row"
proof -
  have g: "inert g" using im by (simp add: images_def)
  have rep: "repeats_error (last_row rows) self' (sl_item (g s)) = repeats_error (last_row rows) self (sl_item s)"
    by (rule repeats_error_image [OF im]) (use last_row_within rows in blast)
  have join: "joins_row self' (last rows) (sl_item (g s)) = joins_row self (last rows) (sl_item s)" if "rows \<noteq> []"
    using first_item_image [OF im rows [OF last_in_set [OF that]]]
    by (cases "first_item self (last rows)"; cases "first_item self' (last rows)")
      (auto simp: joins_row_def inert_fields [OF g] alike_def)
  have kids: "set (List.map_filter child_item (xw_items (last rows) @ [ChildItem (slot_id s)])) \<subseteq> I" if "rows \<noteq> []"
    using rows [OF last_in_set [OF that]] i by (simp add: row_within_def row_item_ids_def List.map_filter_def)
  show "add_loose self' rows (g s) = add_loose self rows s"
    using join child_items_image [OF im kids]
    by (auto simp: add_loose_def Let_def rep is_notice_def inert_fields [OF g] single_image [OF g] activity_row_image [OF g])
  show "\<And>row. row \<in> set (add_loose self rows s) \<Longrightarrow> row_within I row"
    using rows i kids
    by (auto simp: add_loose_def Let_def row_within_single row_within_activity row_within_def [of _ "_\<lparr>xw_items := _, xw_kind := _\<rparr>"]
        row_item_ids_def split: if_splits dest: in_set_butlastD)
qed

lemma make_loose_rows_image:
  assumes im: "images g self self' (set (rx_loose self))" and keyed: "items_keyed self" and same: "rx_loose self' = rx_loose self"
  shows "make_loose_rows self' = make_loose_rows self"
proof -
  have "foldl (add_loose self') rows (map g xs) = foldl (add_loose self) rows xs"
    if "\<And>row. row \<in> set rows \<Longrightarrow> row_within (set (rx_loose self)) row" "slot_id ` set xs \<subseteq> set (rx_loose self)" for rows xs
    using that
  proof (induction xs arbitrary: rows)
    case (Cons s xs)
    from Cons.prems(2) have i: "slot_id s \<in> set (rx_loose self)" by simp
    note add = add_loose_image [OF im Cons.prems(1) i]
    from Cons.IH [of "add_loose self rows s"] add Cons.prems(2) show ?case by simp
  qed simp
  from this [of "[]" "slots self (rx_loose self)"] slots_image [OF im subset_refl] slots_ids [OF keyed] same
  show ?thesis by (auto simp: make_loose_rows_def)
qed

subsection \<open>The ids of rows\<close>

definition activity_id :: "string \<Rightarrow> string" where
  "activity_id i = ''activity:'' @ i"

lemma item_not_activity: "item_id_ok depth i \<Longrightarrow> i \<noteq> activity_id j"
  by (auto simp: item_id_ok_def activity_id_def split: if_splits)

lemma item_not_worked: "item_id_ok (rx_depth self) i \<Longrightarrow> i \<noteq> reducer_id self (''worked:'' @ t)"
  by (auto simp: item_id_ok_def reducer_id_def split: if_splits)

lemma activity_not_worked: "activity_id i \<noteq> reducer_id self (''worked:'' @ t)"
  by (simp add: activity_id_def reducer_id_def)

lemma worked_inj: "reducer_id self (''worked:'' @ t) = reducer_id self (''worked:'' @ t') \<longleftrightarrow> t = t'"
  by (simp add: reducer_id_def)

lemma activity_inj: "inj activity_id"
  by (simp add: inj_def activity_id_def)

lemma build_rows_ids:
  "build_rows self all la placed rows work = (rows', work')
    \<Longrightarrow> mset (map xw_id rows') + mset (map slot_id work') \<subseteq># mset (map xw_id rows) + mset (map slot_id work)
      + mset (map (\<lambda>(n, s, p). slot_id s) placed)"
proof (induction placed arbitrary: rows work)
  case (Cons x placed)
  obtain n s p where x: "x = (n, s, p)" by (cases x)
  from Cons.prems x obtain rows1 work1 where r: "build_rows self all la placed rows1 work1 = (rows', work')"
    and m: "mset (map xw_id rows1) + mset (map slot_id work1) \<subseteq># mset (map xw_id rows) + mset (map slot_id work) + {#slot_id s#}"
    by (cases p) (auto simp: single_def split: if_splits)
  have "mset (map xw_id rows') + mset (map slot_id work') \<subseteq># mset (map xw_id rows1) + mset (map slot_id work1)
      + mset (map (\<lambda>(n, s, p). slot_id s) placed)" by (rule Cons.IH [OF r])
  also have "\<dots> \<subseteq># mset (map xw_id rows) + mset (map slot_id work) + {#slot_id s#} + mset (map (\<lambda>(n, s, p). slot_id s) placed)"
    using m by (rule subset_mset.add_right_mono)
  finally show ?case using x by (simp add: ac_simps)
qed simp

lemma build_rows_single:
  "build_rows self all la placed rows work = (rows', work') \<Longrightarrow> \<forall>row \<in> set rows. row_item_ids row = [xw_id row]
    \<Longrightarrow> \<forall>row \<in> set rows'. row_item_ids row = [xw_id row]"
proof (induction placed arbitrary: rows work)
  case (Cons x placed)
  obtain n s p where x: "x = (n, s, p)" by (cases x)
  have one: "row_item_ids (single s kind) = [xw_id (single s kind)]" for kind
    by (simp add: single_def row_item_ids_def map_filter_simps)
  from Cons.prems x obtain rows1 work1 where r: "build_rows self all la placed rows1 work1 = (rows', work')"
    and m: "\<forall>row \<in> set rows1. row_item_ids row = [xw_id row]" using one
    by (cases p) (auto split: if_splits)
  from Cons.IH [OF r m] show ?case .
qed simp

lemma build_runs_ids:
  "build_runs work items runs in_run = (items', runs')
    \<Longrightarrow> mset (map xw_id runs') \<subseteq># mset (map xw_id runs) + mset (map (activity_id \<circ> slot_id) work)"
proof (induction work arbitrary: items runs in_run)
  case (Cons s work)
  have new: "xw_id (activity_row s) = activity_id (slot_id s)" by (simp add: activity_row_def activity_id_def)
  have grown: "map xw_id (butlast runs @ [(last runs)\<lparr>xw_items := cs\<rparr>]) = map xw_id runs" if "runs \<noteq> []" for cs
    using that by (cases runs rule: rev_cases) auto
  have "\<exists>items1 runs1 in_run1. build_runs work items1 runs1 in_run1 = (items', runs')
      \<and> mset (map xw_id runs1) \<subseteq># mset (map xw_id runs) + {#activity_id (slot_id s)#}"
  proof -
    consider (other) "\<not> is_activity (sl_item s)" | (join) "is_activity (sl_item s)" "in_run \<and> runs \<noteq> []"
      | (fresh) "is_activity (sl_item s)" "\<not> (in_run \<and> runs \<noteq> [])" by blast
    then show ?thesis
    proof cases
      case other
      with Cons.prems have "build_runs work (items @ [ChildItem (slot_id s)]) runs False = (items', runs')" by simp
      moreover have "mset (map xw_id runs) \<subseteq># mset (map xw_id runs) + {#activity_id (slot_id s)#}" by simp
      ultimately show ?thesis by blast
    next
      case join
      let ?runs = "butlast runs @ [(last runs)\<lparr>xw_items := xw_items (last runs) @ [ChildItem (slot_id s)]\<rparr>]"
      from join Cons.prems have "build_runs work items ?runs in_run = (items', runs')" by simp
      moreover have "map xw_id ?runs = map xw_id runs" by (rule grown) (use join in simp)
      then have "mset (map xw_id ?runs) \<subseteq># mset (map xw_id runs) + {#activity_id (slot_id s)#}" by (simp only:) simp
      ultimately show ?thesis by blast
    next
      case fresh
      with Cons.prems have "build_runs work (items @ [ChildRow (xw_id (activity_row s))]) (runs @ [activity_row s]) True = (items', runs')"
        by simp
      moreover have "mset (map xw_id (runs @ [activity_row s])) \<subseteq># mset (map xw_id runs) + {#activity_id (slot_id s)#}"
        by (simp add: new)
      ultimately show ?thesis by blast
    qed
  qed
  then obtain items1 runs1 in_run1 where r: "build_runs work items1 runs1 in_run1 = (items', runs')"
    and m: "mset (map xw_id runs1) \<subseteq># mset (map xw_id runs) + {#activity_id (slot_id s)#}" by blast
  have "mset (map xw_id runs') \<subseteq># mset (map xw_id runs1) + mset (map (activity_id \<circ> slot_id) work)" by (rule Cons.IH [OF r])
  also have "\<dots> \<subseteq># mset (map xw_id runs) + {#activity_id (slot_id s)#} + mset (map (activity_id \<circ> slot_id) work)"
    using m by (rule subset_mset.add_right_mono)
  finally show ?case by (simp add: ac_simps comp_def)
qed simp

text \<open>The rows a turn or the loose items may own.\<close>

definition items_of :: "transcript_reducer \<Rightarrow> string option \<Rightarrow> string set" where
  "items_of self owner = {i. \<exists>slot. map_of (rx_items self) i = Some slot \<and> sl_turn slot = owner}"

definition owned :: "transcript_reducer \<Rightarrow> string option \<Rightarrow> string set" where
  "owned self owner = items_of self owner \<union> activity_id ` items_of self owner
     \<union> (case owner of Some t \<Rightarrow> {reducer_id self (''worked:'' @ t)} | None \<Rightarrow> {})"

text \<open>Every item is filed in exactly one place, its turn or the loose items.\<close>

definition filed :: "transcript_reducer \<Rightarrow> bool" where
  "filed self \<longleftrightarrow> items_keyed self \<and> distinct (map fst (rx_turns self))
     \<and> (\<forall>i \<in> dom (map_of (rx_items self)). item_id_ok (rx_depth self) i)
     \<and> (\<forall>t d. map_of (rx_turns self) t = Some d \<longrightarrow> distinct (td_items d) \<and> set (td_items d) = items_of self (Some t))
     \<and> (\<forall>t. map_of (rx_turns self) t = None \<longrightarrow> items_of self (Some t) = {})
     \<and> distinct (rx_loose self) \<and> set (rx_loose self) = items_of self None"

lemma items_of_disjoint: "owner \<noteq> owner' \<Longrightarrow> items_of self owner \<inter> items_of self owner' = {}"
  by (auto simp: items_of_def)

lemma owned_disjoint:
  assumes f: "filed self" and "owner \<noteq> owner'"
  shows "owned self owner \<inter> owned self owner' = {}"
proof -
  have ok: "item_id_ok (rx_depth self) i" if "i \<in> items_of self o'" for i o'
    using f that by (auto simp: filed_def items_of_def)
  have item: "x \<in> items_of self o2" if "x \<in> items_of self o1" "x \<in> owned self o2" for x o1 o2
    using that item_not_activity [OF ok [OF that(1)]] item_not_worked [OF ok [OF that(1)]]
    by (auto simp: owned_def split: option.splits)
  have act: "i \<in> items_of self o2" if "activity_id i \<in> owned self o2" for i o2
  proof -
    have "activity_id i \<notin> items_of self o2" using item_not_activity [OF ok] by blast
    moreover have "activity_id i \<notin> (case o2 of Some t \<Rightarrow> {reducer_id self (''worked:'' @ t)} | None \<Rightarrow> {})"
      using activity_not_worked by (cases o2) simp_all
    ultimately have "activity_id i \<in> activity_id ` items_of self o2" using that unfolding owned_def by blast
    then show ?thesis by (simp add: inj_image_mem_iff [OF activity_inj])
  qed
  have worked: "o2 = Some t" if "reducer_id self (''worked:'' @ t) \<in> owned self o2" for t o2
  proof -
    have "reducer_id self (''worked:'' @ t) \<notin> items_of self o2" using item_not_worked [OF ok] by blast
    moreover have "reducer_id self (''worked:'' @ t) \<notin> activity_id ` items_of self o2"
      using activity_not_worked [of _ self t] by (auto simp: eq_commute)
    ultimately have "reducer_id self (''worked:'' @ t) \<in> (case o2 of Some t \<Rightarrow> {reducer_id self (''worked:'' @ t)} | None \<Rightarrow> {})"
      using that unfolding owned_def by blast
    then show ?thesis by (cases o2) (simp_all add: reducer_id_def split: if_splits)
  qed
  have False if "x \<in> owned self owner" "x \<in> owned self owner'" for x
  proof -
    from that(1) consider "x \<in> items_of self owner" | i where "i \<in> items_of self owner" "x = activity_id i"
      | t where "owner = Some t" "x = reducer_id self (''worked:'' @ t)" by (auto simp: owned_def split: option.splits)
    then show False
      by cases (use that(2) item act worked items_of_disjoint [OF assms(2), of self] assms(2) in blast)+
  qed
  then show ?thesis by blast
qed

lemma slots_all:
  assumes "items_keyed self" and "set ids \<subseteq> dom (map_of (rx_items self))"
  shows "map slot_id (slots self ids) = ids"
  using assms(2)
proof (induction ids)
  case (Cons i ids)
  then obtain slot where slot: "map_of (rx_items self) i = Some slot" by auto
  with assms(1) have "slot_id slot = i" by (simp add: items_keyed_def)
  with slot Cons show ?case by (simp add: slots_def map_filter_simps)
qed (simp add: slots_def map_filter_simps)

lemma turn_slot_ids:
  assumes "filed self" and "map_of (rx_turns self) t = Some d"
  shows "mset (map slot_id (sorted_slots self d)) = mset (td_items d)"
proof -
  have "set (td_items d) \<subseteq> dom (map_of (rx_items self))" "items_keyed self" using assms by (auto simp: filed_def items_of_def)
  from slots_all [OF this(2,1)] have "mset (map slot_id (slots self (td_items d))) = mset (td_items d)" by simp
  then show ?thesis by (simp add: sorted_slots_def)
qed

lemma placed_ids: "map (\<lambda>(n, s, p). slot_id s) (placed_slots self d) = map slot_id (sorted_slots self d)"
proof -
  have "map (slot_id \<circ> snd) (enumerate n xs) = map slot_id xs" for n xs by (induction xs arbitrary: n) simp_all
  then show ?thesis by (simp add: placed_slots_def Let_def case_prod_beta comp_def)
qed

lemma mset_le_distinct:
  assumes "mset xs \<subseteq># mset ys" and "distinct ys"
  shows "distinct xs" "set xs \<subseteq> set ys"
proof -
  from assms(1) obtain Z where "mset ys = mset xs + Z" by (auto simp: mset_subset_eq_exists_conv)
  moreover obtain zs where "mset zs = Z" using ex_mset by blast
  ultimately have "mset ys = mset (xs @ zs)" by simp
  with assms(2) have "distinct (xs @ zs)" by (metis mset_eq_imp_distinct_iff)
  then show "distinct xs" by simp
  show "set xs \<subseteq> set ys" using set_mset_mono [OF assms(1)] by simp
qed

lemma turn_rows_ids:
  assumes f: "filed self" and d: "map_of (rx_turns self) t = Some d"
  shows "distinct (map xw_id (turn_rows self t d))" "xw_id ` set (turn_rows self t d) \<subseteq> owned self (Some t)"
proof -
  let ?la = "rposition (\<lambda>s. xi_terminal (sl_item s) \<and> is_answer (sl_item s)) (sorted_slots self d)"
  obtain rows work where b: "build_rows self (sorted_slots self d) ?la (placed_slots self d) [] [] = (rows, work)" by fastforce
  obtain items runs where r: "build_runs work [] [] False = (items, runs)" by fastforce
  have I: "distinct (td_items d)" "set (td_items d) = items_of self (Some t)" using f d by (auto simp: filed_def)
  have ok: "item_id_ok (rx_depth self) i" if "i \<in> set (td_items d)" for i using f that I(2) by (auto simp: filed_def items_of_def)
  have "mset (map xw_id rows @ map slot_id work) \<subseteq># mset (td_items d)"
    using build_rows_ids [OF b] turn_slot_ids [OF f d] by (simp add: placed_ids)
  from mset_le_distinct [OF this I(1)]
  have base: "distinct (map xw_id rows @ map slot_id work)" "set (map xw_id rows @ map slot_id work) \<subseteq> set (td_items d)" .
  have "distinct (map activity_id (map slot_id work))"
    using base(1) activity_inj by (simp add: distinct_map inj_on_def inj_def)
  moreover have "mset (map xw_id runs) \<subseteq># mset (map activity_id (map slot_id work))" using build_runs_ids [OF r] by simp
  ultimately have acts: "distinct (map xw_id runs)" "set (map xw_id runs) \<subseteq> activity_id ` slot_id ` set work"
    using mset_le_distinct [of "map xw_id runs" "map activity_id (map slot_id work)"] by auto
  define all where "all = (case work of [] \<Rightarrow> rows
    | first # _ \<Rightarrow> rows @ map (\<lambda>run. run\<lparr>xw_kind := KActivity (counts (child_items self (xw_items run)))\<rparr>) runs
        @ [\<lparr>xw_id = reducer_id self (''worked:'' @ t), xw_position = sl_position first, xw_items = items,
            xw_kind = KWorked (counts (map sl_item work)) (td_started_at_ms d) (duration_ms d)\<rparr>])"
  have tr: "turn_rows self t d = sort_rows all"
    unfolding turn_rows_def Let_def b prod.case r all_def by simp
  have ids: "map xw_id all = map xw_id rows @ (if work = [] then [] else map xw_id runs @ [reducer_id self (''worked:'' @ t)])"
    by (cases work) (simp_all add: all_def comp_def)
  have own: "set (map xw_id rows) \<subseteq> items_of self (Some t)" "set (map xw_id runs) \<subseteq> activity_id ` items_of self (Some t)"
  proof -
    have "set (map xw_id rows) \<subseteq> set (td_items d)" "slot_id ` set work \<subseteq> set (td_items d)" using base(2) by simp_all
    then have sub: "set (map xw_id rows) \<subseteq> items_of self (Some t)" "slot_id ` set work \<subseteq> items_of self (Some t)"
      unfolding I(2) by blast+
    from sub(1) show "set (map xw_id rows) \<subseteq> items_of self (Some t)" .
    from acts(2) image_mono [OF sub(2)] show "set (map xw_id runs) \<subseteq> activity_id ` items_of self (Some t)"
      by (rule order_trans)
  qed
  have itemok: "item_id_ok (rx_depth self) i" if "i \<in> set (map xw_id rows)" for i using own(1) ok I(2) that by blast
  have apart: "set (map xw_id rows) \<inter> set (map xw_id runs) = {}"
    using item_not_activity [OF itemok] own(2) by blast
  have free: "reducer_id self (''worked:'' @ t) \<notin> set (map xw_id rows)" "reducer_id self (''worked:'' @ t) \<notin> set (map xw_id runs)"
    using item_not_worked [OF itemok] activity_not_worked [of _ self t, symmetric] own(2) by (blast, blast)
  have "distinct (map xw_id all)"
  proof -
    have "distinct (map xw_id rows)" using base(1) by simp
    moreover have "distinct (map xw_id runs @ [reducer_id self (''worked:'' @ t)])"
      using acts(1) free(2) by (simp only: distinct_append distinct.simps) auto
    moreover have "set (map xw_id rows) \<inter> set (map xw_id runs @ [reducer_id self (''worked:'' @ t)]) = {}"
      using apart free(1) by (simp only: set_append list.set) blast
    ultimately show ?thesis unfolding ids by (simp only: distinct_append if_split) simp
  qed
  moreover have "mset (map xw_id (turn_rows self t d)) = mset (map xw_id all)" by (simp add: tr sort_rows_def)
  ultimately show "distinct (map xw_id (turn_rows self t d))" by (metis mset_eq_imp_distinct_iff)
  have "set (turn_rows self t d) = set all" by (simp add: tr sort_rows_def)
  then have "xw_id ` set (turn_rows self t d) = set (map xw_id all)" by simp
  also have "\<dots> \<subseteq> owned self (Some t)" using own by (auto simp: ids owned_def)
  finally show "xw_id ` set (turn_rows self t d) \<subseteq> owned self (Some t)" .
qed

definition loose_key :: "slot \<Rightarrow> string" where
  "loose_key s = (if \<not> is_notice (sl_item s) \<and> is_activity (sl_item s) then activity_id (slot_id s) else slot_id s)"

lemma add_loose_ids: "mset (map xw_id (add_loose self rows s)) \<subseteq># mset (map xw_id rows) + {#loose_key s#}"
proof -
  have grown: "map xw_id (butlast rows @ [(last rows)\<lparr>xw_items := cs, xw_kind := k\<rparr>]) = map xw_id rows" if "rows \<noteq> []" for cs k
    using that by (cases rows rule: rev_cases) auto
  have "map xw_id (add_loose self rows s) = map xw_id rows \<or> map xw_id (add_loose self rows s) = map xw_id rows @ [loose_key s]"
    unfolding add_loose_def Let_def loose_key_def using grown
    by (simp add: single_def activity_row_def activity_id_def)
  then consider "map xw_id (add_loose self rows s) = map xw_id rows"
    | "map xw_id (add_loose self rows s) = map xw_id rows @ [loose_key s]" by blast
  then show ?thesis
  proof cases
    case 1
    then show ?thesis by (simp only:) simp
  next
    case 2
    then show ?thesis by (simp only:) simp
  qed
qed

lemma fold_loose_ids: "mset (map xw_id (foldl (add_loose self) rows xs)) \<subseteq># mset (map xw_id rows) + mset (map loose_key xs)"
proof (induction xs arbitrary: rows)
  case (Cons s xs)
  have "mset (map xw_id (foldl (add_loose self) (add_loose self rows s) xs))
      \<subseteq># mset (map xw_id (add_loose self rows s)) + mset (map loose_key xs)" by (rule Cons.IH)
  also have "\<dots> \<subseteq># mset (map xw_id rows) + {#loose_key s#} + mset (map loose_key xs)"
    using add_loose_ids by (rule subset_mset.add_right_mono)
  finally show ?case by (simp add: ac_simps)
qed simp

lemma loose_rows_ids:
  assumes f: "filed self"
  shows "distinct (map xw_id (make_loose_rows self))" "xw_id ` set (make_loose_rows self) \<subseteq> owned self None"
proof -
  let ?S = "slots self (rx_loose self)"
  have I: "distinct (rx_loose self)" "set (rx_loose self) = items_of self None" "items_keyed self" using f by (simp_all add: filed_def)
  have ok: "item_id_ok (rx_depth self) i" if "i \<in> items_of self None" for i using f that by (auto simp: filed_def items_of_def)
  have ids: "map slot_id ?S = rx_loose self" by (rule slots_all [OF I(3)]) (auto simp: I(2) items_of_def)
  have mem: "slot_id s \<in> items_of self None" if "s \<in> set ?S" for s using that ids I(2) by (metis image_eqI set_map)
  have "inj_on loose_key (set ?S)"
  proof (rule inj_onI)
    fix x y
    assume xy: "x \<in> set ?S" "y \<in> set ?S" "loose_key x = loose_key y"
    note n = item_not_activity [OF ok [OF mem [OF xy(1)]]] item_not_activity [OF ok [OF mem [OF xy(2)]]]
    from xy(3) have "slot_id x = slot_id y"
      by (auto simp: loose_key_def n n [symmetric] inj_eq [OF activity_inj] split: if_splits)
    moreover have "inj_on slot_id (set ?S)" using I(1) ids by (metis distinct_map)
    ultimately show "x = y" using xy by (auto dest: inj_onD)
  qed
  then have "distinct (map loose_key ?S)" using I(1) ids by (metis distinct_map)
  moreover have "mset (map xw_id (make_loose_rows self)) \<subseteq># mset (map loose_key ?S)"
    using fold_loose_ids [of self "[]" ?S] by (simp add: make_loose_rows_def)
  ultimately have r: "distinct (map xw_id (make_loose_rows self))" "set (map xw_id (make_loose_rows self)) \<subseteq> set (map loose_key ?S)"
    by (rule mset_le_distinct [rotated])+
  show "distinct (map xw_id (make_loose_rows self))" by (rule r)
  have "set (map loose_key ?S) \<subseteq> owned self None" using mem by (auto simp: loose_key_def owned_def)
  with r(2) show "xw_id ` set (make_loose_rows self) \<subseteq> owned self None" by (simp only: set_map)
qed

subsection \<open>Moves keep every item filed\<close>

lemma items_of_set_slot:
  assumes "map_of (rx_items self) i = Some slot" and "sl_turn slot' = sl_turn slot"
  shows "items_of (set_slot self i slot') owner = items_of self owner"
  using assms by (auto simp: items_of_def set_slot_def update_conv')

lemma set_slot_fields [simp]:
  "rx_depth (set_slot self i slot) = rx_depth self" "rx_turns (set_slot self i slot) = rx_turns self"
  "rx_rows (set_slot self i slot) = rx_rows self" "rx_loose (set_slot self i slot) = rx_loose self"
  "rx_loose_rows (set_slot self i slot) = rx_loose_rows self"
  by (simp_all add: set_slot_def)

lemma set_slot_filed:
  assumes f: "filed self" and i: "map_of (rx_items self) i = Some slot" and "sl_turn slot' = sl_turn slot" "slot_id slot' = slot_id slot"
  shows "filed (set_slot self i slot')"
proof -
  have "slot_id slot = i" using f i by (simp add: filed_def items_keyed_def)
  then have "items_keyed (set_slot self i slot')"
    using f assms(4) by (auto simp: filed_def items_keyed_def set_slot_def update_conv')
  moreover have "dom (map_of (rx_items (set_slot self i slot'))) = dom (map_of (rx_items self))"
    using i by (auto simp: set_slot_def update_conv')
  ultimately show ?thesis using f items_of_set_slot [OF i assms(3)] by (simp add: filed_def)
qed

lemma items_of_add:
  assumes "map_of (rx_items self) i = None"
  shows "items_of (set_slot (file_item self turn i) i slot) owner
    = (if owner = sl_turn slot then insert i (items_of self owner) else items_of self owner)"
  using assms by (auto simp: items_of_def set_slot_def update_conv')

lemma file_item_fields [simp]:
  "rx_depth (file_item self turn i) = rx_depth self" "rx_rows (file_item self turn i) = rx_rows self"
  "rx_loose_rows (file_item self turn i) = rx_loose_rows self"
  "rx_loose (file_item self turn i) = (if turn = None then rx_loose self @ [i] else rx_loose self)"
  by (auto simp: file_item_def split: option.split)

lemma file_item_turn:
  "map_of (rx_turns (file_item self turn i)) t = map_option (\<lambda>d. if turn = Some t then d\<lparr>td_items := td_items d @ [i]\<rparr> else d)
     (map_of (rx_turns self) t)"
proof (cases turn)
  case None
  then show ?thesis by (cases "map_of (rx_turns self) t") (simp_all add: file_item_def)
next
  case (Some u)
  then show ?thesis
    by (cases "map_of (rx_turns self) u"; cases "map_of (rx_turns self) t") (auto simp: file_item_def update_conv')
qed

lemma file_item_distinct: "distinct (map fst (rx_turns self)) \<Longrightarrow> distinct (map fst (rx_turns (file_item self turn i)))"
  by (auto simp: file_item_def distinct_update split: option.split)

lemma add_filed:
  assumes f: "filed self" and i: "map_of (rx_items self) i = None" "slot_id slot = i" "item_id_ok (rx_depth self) i"
    and t: "\<And>t. sl_turn slot = Some t \<Longrightarrow> map_of (rx_turns self) t \<noteq> None"
  shows "filed (set_slot (file_item self (sl_turn slot) i) i slot)"
proof -
  let ?self = "set_slot (file_item self (sl_turn slot) i) i slot"
  have free: "i \<notin> items_of self owner" for owner using i(1) by (simp add: items_of_def)
  note of = items_of_add [OF i(1), of "sl_turn slot" slot]
  have "items_keyed ?self" using f i by (auto simp: filed_def items_keyed_def set_slot_def update_conv')
  moreover have "\<forall>j \<in> dom (map_of (rx_items ?self)). item_id_ok (rx_depth ?self) j"
    using f i(3) by (auto simp: filed_def set_slot_def update_conv' dom_def)
  moreover have "distinct (td_items d) \<and> set (td_items d) = items_of ?self (Some t)" if "map_of (rx_turns ?self) t = Some d" for t d
  proof -
    from that obtain d0 where d0: "map_of (rx_turns self) t = Some d0"
      "d = (if sl_turn slot = Some t then d0\<lparr>td_items := td_items d0 @ [i]\<rparr> else d0)" by (auto simp: file_item_turn)
    with f have "distinct (td_items d0) \<and> set (td_items d0) = items_of self (Some t)" by (simp add: filed_def)
    with d0(2) free [of "Some t"] show ?thesis by (auto simp: of)
  qed
  moreover have "items_of ?self (Some t) = {}" if "map_of (rx_turns ?self) t = None" for t
  proof -
    have "map_of (rx_turns self) t = None" using that by (simp add: file_item_turn)
    moreover from this have "sl_turn slot \<noteq> Some t" using t by blast
    ultimately show ?thesis using f by (auto simp: of filed_def)
  qed
  moreover have "distinct (rx_loose ?self) \<and> set (rx_loose ?self) = items_of ?self None"
    using f free [of None] by (auto simp: of filed_def)
  moreover have "distinct (map fst (rx_turns ?self))" using f by (simp add: filed_def file_item_distinct)
  ultimately show ?thesis unfolding filed_def by blast
qed

lemma turn_filed:
  assumes f: "filed self" and t: "case map_of (rx_turns self) t of
      Some d \<Rightarrow> td_items turn = td_items d \<and> td_rows turn = td_rows d | None \<Rightarrow> td_items turn = [] \<and> td_rows turn = []"
  shows "filed (self\<lparr>rx_turns := AList.update t turn (rx_turns self)\<rparr>)"
proof -
  let ?self = "self\<lparr>rx_turns := AList.update t turn (rx_turns self)\<rparr>"
  have of: "items_of ?self = items_of self" by (simp add: items_of_def fun_eq_iff)
  have "distinct (td_items d) \<and> set (td_items d) = items_of self (Some u)" if "map_of (rx_turns ?self) u = Some d" for u d
  proof (cases "u = t")
    case True
    with that have "d = turn" by (simp add: update_conv')
    with True f t show ?thesis by (cases "map_of (rx_turns self) t") (auto simp: filed_def)
  qed (use that f in \<open>simp add: filed_def update_conv'\<close>)
  moreover have "items_of self (Some u) = {}" if "map_of (rx_turns ?self) u = None" for u
    using that f by (auto simp: filed_def update_conv' split: if_splits)
  ultimately show ?thesis using f unfolding filed_def of by (simp add: items_keyed_def distinct_update)
qed

lemma move_filed: "move s s' \<Longrightarrow> filed (fst s) \<Longrightarrow> filed (fst s')"
proof (induction rule: move.induct)
  case (same self self' step)
  then have "items_of self' = items_of self" by (simp add: same_core_def items_of_def fun_eq_iff)
  with same show ?case by (simp add: same_core_def filed_def items_keyed_def)
next
  case (extend self i slot delta item step)
  then show ?case by (simp add: set_slot_filed append_block_id)
next
  case (turn self t turn step)
  then show ?case by (simp add: turn_filed)
qed (simp_all add: set_slot_filed add_filed)

subsection \<open>Rows that are up to date\<close>

text \<open>The rows of a turn are published under the ids the turn lists; the turns of \<open>T\<close> and, if \<open>l\<close>, the loose items are stale.\<close>

definition listed :: "(string \<times> transcript_row) list \<Rightarrow> string list \<Rightarrow> transcript_row list \<Rightarrow> bool" where
  "listed known ids rows \<longleftrightarrow> ids = map xw_id rows \<and> (\<forall>row \<in> set rows. map_of known (xw_id row) = Some row)"

definition turn_fresh :: "transcript_reducer \<Rightarrow> string set \<Rightarrow> bool" where
  "turn_fresh self T \<longleftrightarrow> (\<forall>t d. map_of (rx_turns self) t = Some d \<longrightarrow> set (td_rows d) \<subseteq> owned self (Some t)
     \<and> (t \<notin> T \<longrightarrow> listed (rx_rows self) (td_rows d) (turn_rows self t d)))"

definition loose_fresh :: "transcript_reducer \<Rightarrow> bool \<Rightarrow> bool" where
  "loose_fresh self l \<longleftrightarrow> set (rx_loose_rows self) \<subseteq> owned self None
     \<and> (\<not> l \<longrightarrow> listed (rx_rows self) (rx_loose_rows self) (make_loose_rows self))"

definition rows_listed :: "transcript_reducer \<Rightarrow> bool" where
  "rows_listed self \<longleftrightarrow> dom (map_of (rx_rows self))
     \<subseteq> {i. \<exists>t d. map_of (rx_turns self) t = Some d \<and> i \<in> set (td_rows d)} \<union> set (rx_loose_rows self)"

definition fresh :: "transcript_reducer \<Rightarrow> string set \<Rightarrow> bool \<Rightarrow> bool" where
  "fresh self T l \<longleftrightarrow> filed self \<and> turn_fresh self T \<and> loose_fresh self l \<and> rows_listed self"

abbreviation step_fresh :: "transcript_reducer \<times> reduce_step \<Rightarrow> bool" where
  "step_fresh s \<equiv> fresh (fst s) (set (zs_turns (snd s))) (zs_loose (snd s))"

lemma touch_stale [simp]:
  "set (zs_turns (touch step i turn)) = set (zs_turns step) \<union> set_option turn"
  "zs_loose (touch step i turn) \<longleftrightarrow> zs_loose step \<or> turn = None"
  "set (zs_turns (touch_delta step i turn delta)) = set (zs_turns step) \<union> set_option turn"
  "zs_loose (touch_delta step i turn delta) \<longleftrightarrow> zs_loose step \<or> turn = None"
  "set (zs_turns (touch_turn step (Some t))) = insert t (set (zs_turns step))"
  "zs_loose (touch_turn step (Some t)) = zs_loose step"
  by (auto simp: touch_def touch_delta_def touch_turn_def split: option.split)

lemma owned_mono:
  assumes "items_of self owner \<subseteq> items_of self' owner" and "rx_depth self' = rx_depth self"
  shows "owned self owner \<subseteq> owned self' owner"
proof -
  have "activity_id ` items_of self owner \<subseteq> activity_id ` items_of self' owner" using assms(1) by (rule image_mono)
  with assms(1) show ?thesis unfolding owned_def reducer_id_depth [OF assms(2)] by blast
qed

text \<open>A change of the reducer that leaves the published rows alone keeps what is fresh fresh, where the grouping is unchanged.\<close>

lemma fresh_transfer:
  assumes f: "fresh self T l" and filed: "filed self'"
    and rows: "rx_rows self' = rx_rows self" "rx_loose_rows self' = rx_loose_rows self" "rx_depth self' = rx_depth self"
    and of: "\<And>owner. items_of self owner \<subseteq> items_of self' owner"
    and keep: "\<And>t d. map_of (rx_turns self) t = Some d \<Longrightarrow> \<exists>d'. map_of (rx_turns self') t = Some d' \<and> td_rows d' = td_rows d"
    and turns: "\<And>t d'. map_of (rx_turns self') t = Some d' \<Longrightarrow> (case map_of (rx_turns self) t of
        Some d \<Rightarrow> td_rows d' = td_rows d \<and> (t \<notin> T' \<longrightarrow> t \<notin> T \<and> turn_rows self' t d' = turn_rows self t d)
      | None \<Rightarrow> td_rows d' = [] \<and> t \<in> T')"
    and loose: "\<not> l' \<Longrightarrow> \<not> l \<and> make_loose_rows self' = make_loose_rows self"
  shows "fresh self' T' l'"
proof -
  have own: "owned self owner \<subseteq> owned self' owner" for owner by (rule owned_mono [OF of rows(3)])
  have "turn_fresh self' T'"
    unfolding turn_fresh_def
  proof (intro allI impI)
    fix t d'
    assume d': "map_of (rx_turns self') t = Some d'"
    show "set (td_rows d') \<subseteq> owned self' (Some t) \<and> (t \<notin> T' \<longrightarrow> listed (rx_rows self') (td_rows d') (turn_rows self' t d'))"
    proof (cases "map_of (rx_turns self) t")
      case None
      with turns [OF d'] show ?thesis by simp
    next
      case (Some d)
      with f have "set (td_rows d) \<subseteq> owned self (Some t)" "t \<notin> T \<longrightarrow> listed (rx_rows self) (td_rows d) (turn_rows self t d)"
        by (simp_all add: fresh_def turn_fresh_def)
      with turns [OF d'] Some own [of "Some t"] rows(1) show ?thesis by auto
    qed
  qed
  moreover have "loose_fresh self' l'"
    using f own [of None] loose rows unfolding fresh_def loose_fresh_def by auto
  moreover have "rows_listed self'"
  proof -
    have sub: "dom (map_of (rx_rows self)) \<subseteq> {i. \<exists>t d. map_of (rx_turns self) t = Some d \<and> i \<in> set (td_rows d)} \<union> set (rx_loose_rows self)"
      using f by (simp add: fresh_def rows_listed_def)
    have "{i. \<exists>t d. map_of (rx_turns self) t = Some d \<and> i \<in> set (td_rows d)}
        \<subseteq> {i. \<exists>t d. map_of (rx_turns self') t = Some d \<and> i \<in> set (td_rows d)}"
      by (clarify) (metis keep)
    with sub show ?thesis unfolding rows_listed_def rows by blast
  qed
  ultimately show ?thesis using filed by (simp add: fresh_def)
qed

lemma images_id:
  assumes "\<And>j. j \<in> I \<Longrightarrow> map_of (rx_items self') j = map_of (rx_items self) j" and "rx_depth self' = rx_depth self"
  shows "images (\<lambda>s. s) self self' I"
  using assms by (simp add: images_def option.map_ident)

lemma other_turn_rows:
  assumes "filed self" and "map_of (rx_turns self) t = Some d" and "rx_depth self' = rx_depth self" and "same_turn d d'"
    and "\<And>j. j \<in> items_of self (Some t) \<Longrightarrow> map_of (rx_items self') j = map_of (rx_items self) j"
  shows "turn_rows self' t d' = turn_rows self t d"
  using assms by (intro turn_rows_image [OF images_id]) (auto simp: filed_def)

lemma other_loose_rows:
  assumes "filed self" and "rx_depth self' = rx_depth self" and "rx_loose self' = rx_loose self"
    and "\<And>j. j \<in> items_of self None \<Longrightarrow> map_of (rx_items self') j = map_of (rx_items self) j"
  shows "make_loose_rows self' = make_loose_rows self"
  using assms by (intro make_loose_rows_image [OF images_id]) (auto simp: filed_def)

lemma same_turn_refl [simp]: "same_turn d d"
  by (simp add: same_turn_def)

lemma set_slot_other: "j \<noteq> i \<Longrightarrow> map_of (rx_items (set_slot self i slot)) j = map_of (rx_items self) j"
  by (simp add: set_slot_def update_conv')

lemma touched_fresh:
  assumes f: "fresh self T l" and i: "map_of (rx_items self) i = Some slot" and s: "sl_turn slot' = sl_turn slot" "slot_id slot' = slot_id slot"
  shows "fresh (set_slot self i slot') (T \<union> set_option (sl_turn slot)) (l \<or> sl_turn slot = None)"
proof (rule fresh_transfer [OF f])
  have fd: "filed self" using f by (simp add: fresh_def)
  show "filed (set_slot self i slot')" by (rule set_slot_filed [OF fd i s])
  have other: "map_of (rx_items (set_slot self i slot')) j = map_of (rx_items self) j" if "j \<in> items_of self owner" "owner \<noteq> sl_turn slot" for j owner
    using that i by (intro set_slot_other) (auto simp: items_of_def)
  show "\<exists>d'. map_of (rx_turns (set_slot self i slot')) t = Some d' \<and> td_rows d' = td_rows d" if "map_of (rx_turns self) t = Some d" for t d
    using that by simp
  show "case map_of (rx_turns self) t of
        Some d \<Rightarrow> td_rows d' = td_rows d \<and> (t \<notin> T \<union> set_option (sl_turn slot) \<longrightarrow> t \<notin> T \<and> turn_rows (set_slot self i slot') t d' = turn_rows self t d)
      | None \<Rightarrow> td_rows d' = [] \<and> t \<in> T \<union> set_option (sl_turn slot)" if "map_of (rx_turns (set_slot self i slot')) t = Some d'" for t d'
    using that other_turn_rows [OF fd, of t d' "set_slot self i slot'" d'] other [of _ "Some t"] by (auto simp: option.set_sel)
  show "\<not> l \<and> make_loose_rows (set_slot self i slot') = make_loose_rows self" if "\<not> (l \<or> sl_turn slot = None)"
    using that other_loose_rows [OF fd, of "set_slot self i slot'"] other [of _ None] by auto
qed (simp_all add: items_of_set_slot [OF i s(1)])

lemma stream_fresh:
  assumes f: "fresh self T l" and i: "map_of (rx_items self) i = Some slot"
    and s: "sl_turn slot' = sl_turn slot" "sl_position slot' = sl_position slot" "alike (sl_item slot) (sl_item slot')"
  shows "fresh (set_slot self i slot') T l"
proof (rule fresh_transfer [OF f])
  have fd: "filed self" and keyed: "items_keyed self" using f by (simp_all add: fresh_def filed_def)
  let ?self = "set_slot self i slot'" and ?g = "\<lambda>s. if s = slot then slot' else s"
  show "filed ?self" by (rule set_slot_filed [OF fd i s(1)]) (use s(3) in \<open>simp add: alike_def\<close>)
  have "map_of (rx_items ?self) j = map_option ?g (map_of (rx_items self) j)" for j
  proof (cases "j = i")
    case True
    with i show ?thesis by (simp add: set_slot_def update_conv')
  next
    case False
    then have "x \<noteq> slot" if "map_of (rx_items self) j = Some x" for x using keyed i that by (metis items_keyed_def)
    with False show ?thesis by (cases "map_of (rx_items self) j") (auto simp: set_slot_other)
  qed
  then have im: "images ?g self ?self I" for I using s by (simp add: images_def inert_def)
  show "case map_of (rx_turns self) t of
        Some d \<Rightarrow> td_rows d' = td_rows d \<and> (t \<notin> T \<longrightarrow> t \<notin> T \<and> turn_rows ?self t d' = turn_rows self t d)
      | None \<Rightarrow> td_rows d' = [] \<and> t \<in> T" if "map_of (rx_turns ?self) t = Some d'" for t d'
    using that turn_rows_image [OF im keyed] by simp
  show "\<not> l \<Longrightarrow> \<not> l \<and> make_loose_rows ?self = make_loose_rows self" using make_loose_rows_image [OF im keyed] by simp
qed (simp_all add: items_of_set_slot [OF i s(1)])

lemma add_fresh:
  assumes f: "fresh self T l" and i: "map_of (rx_items self) i = None" "slot_id slot = i" "item_id_ok (rx_depth self) i"
    and t: "\<And>t. sl_turn slot = Some t \<Longrightarrow> map_of (rx_turns self) t \<noteq> None"
  shows "fresh (set_slot (file_item self (sl_turn slot) i) i slot) (T \<union> set_option (sl_turn slot)) (l \<or> sl_turn slot = None)"
proof (rule fresh_transfer [OF f])
  have fd: "filed self" using f by (simp add: fresh_def)
  let ?self = "set_slot (file_item self (sl_turn slot) i) i slot"
  show "filed ?self" by (rule add_filed [OF fd i t])
  show "items_of self owner \<subseteq> items_of ?self owner" for owner by (auto simp: items_of_add [OF i(1)])
  have other: "map_of (rx_items ?self) j = map_of (rx_items self) j" if "j \<in> items_of self owner" for j owner
    using that i(1) set_slot_other [of j i "file_item self (sl_turn slot) i" slot] by (cases "j = i") (auto simp: items_of_def)
  show "\<exists>d'. map_of (rx_turns ?self) t = Some d' \<and> td_rows d' = td_rows d" if "map_of (rx_turns self) t = Some d" for t d
    using that by (simp add: file_item_turn)
  show "case map_of (rx_turns self) t of
        Some d \<Rightarrow> td_rows d' = td_rows d \<and> (t \<notin> T \<union> set_option (sl_turn slot) \<longrightarrow> t \<notin> T \<and> turn_rows ?self t d' = turn_rows self t d)
      | None \<Rightarrow> td_rows d' = [] \<and> t \<in> T \<union> set_option (sl_turn slot)" if "map_of (rx_turns ?self) t = Some d'" for t d'
  proof -
    from that obtain d where d: "map_of (rx_turns self) t = Some d" "d' = (if sl_turn slot = Some t then d\<lparr>td_items := td_items d @ [i]\<rparr> else d)"
      by (auto simp: file_item_turn)
    have "turn_rows ?self t d = turn_rows self t d" by (rule other_turn_rows [OF fd d(1)]) (simp_all add: other)
    with d show ?thesis by auto
  qed
  show "\<not> l \<and> make_loose_rows ?self = make_loose_rows self" if "\<not> (l \<or> sl_turn slot = None)"
    using that other_loose_rows [OF fd, of ?self] other [of _ None] by auto
qed simp_all

lemma turn_fresh_update:
  assumes f: "fresh self T l" and t: "case map_of (rx_turns self) t of
      Some d \<Rightarrow> td_items turn = td_items d \<and> td_rows turn = td_rows d | None \<Rightarrow> td_items turn = [] \<and> td_rows turn = []"
  shows "fresh (self\<lparr>rx_turns := AList.update t turn (rx_turns self)\<rparr>) (insert t T) l"
proof (rule fresh_transfer [OF f])
  have fd: "filed self" using f by (simp add: fresh_def)
  let ?self = "self\<lparr>rx_turns := AList.update t turn (rx_turns self)\<rparr>"
  show "filed ?self" by (rule turn_filed [OF fd t])
  show "items_of self owner \<subseteq> items_of ?self owner" for owner by (simp add: items_of_def)
  show "\<exists>d'. map_of (rx_turns ?self) u = Some d' \<and> td_rows d' = td_rows d" if "map_of (rx_turns self) u = Some d" for u d
    using that t by (auto simp: update_conv')
  show "case map_of (rx_turns self) u of
        Some d \<Rightarrow> td_rows d' = td_rows d \<and> (u \<notin> insert t T \<longrightarrow> u \<notin> T \<and> turn_rows ?self u d' = turn_rows self u d)
      | None \<Rightarrow> td_rows d' = [] \<and> u \<in> insert t T" if "map_of (rx_turns ?self) u = Some d'" for u d'
  proof (cases "u = t")
    case True
    with that t show ?thesis by (auto simp: update_conv' split: option.splits)
  next
    case False
    with that have d: "map_of (rx_turns self) u = Some d'" by (simp add: update_conv')
    then show ?thesis using other_turn_rows [OF fd d, of ?self d'] by simp
  qed
  show "\<not> l \<Longrightarrow> \<not> l \<and> make_loose_rows ?self = make_loose_rows self" using other_loose_rows [OF fd, of ?self] by simp
qed simp_all

text \<open>The grouping reads the items and the depth, nothing else of the reducer.\<close>

lemma same_items_rows:
  assumes items: "rx_items self' = rx_items self" and depth: "rx_depth self' = rx_depth self"
  shows "items_of self' = items_of self" "owned self' = owned self" "turn_rows self' t d = turn_rows self t d"
    "rx_loose self' = rx_loose self \<Longrightarrow> make_loose_rows self' = make_loose_rows self"
proof -
  have i: "reducer_id self' = reducer_id self" by (rule reducer_id_depth) (rule depth)
  have s: "slots self' = slots self" unfolding slots_def items ..
  show of: "items_of self' = items_of self" unfolding items_of_def items ..
  show "owned self' = owned self" unfolding owned_def of i ..
  have first: "first_item self' = first_item self" unfolding first_item_def items ..
  have r: "repeats_error p self' = repeats_error p self" "joins_row self' = joins_row self" for p
    unfolding repeats_error_def joins_row_def first by (rule refl)+
  have c: "child_items self' = child_items self" unfolding child_items_def s ..
  have b: "build_rows self' = build_rows self"
  proof (intro ext)
    fix all la placed rows work
    show "build_rows self' all la placed rows work = build_rows self all la placed rows work"
    proof (induction placed arbitrary: rows work)
      case (Cons x placed)
      obtain n s p where "x = (n, s, p)" by (cases x)
      then show ?case by (cases p) (simp_all only: build_rows.simps place.case r Cons.IH)
    qed (simp only: build_rows.simps)
  qed
  show "turn_rows self' t d = turn_rows self t d"
    unfolding turn_rows_def sorted_slots_def placed_slots_def s c i b ..
  have "add_loose self' = add_loose self" unfolding add_loose_def r c ..
  then show "rx_loose self' = rx_loose self \<Longrightarrow> make_loose_rows self' = make_loose_rows self" by (simp add: make_loose_rows_def s)
qed

lemma same_core_rows:
  assumes "same_core self self'"
  shows "turn_rows self' t d = turn_rows self t d" "make_loose_rows self' = make_loose_rows self" "items_of self' = items_of self"
    "owned self' = owned self" "filed self' = filed self"
proof -
  have c: "rx_items self' = rx_items self" "rx_depth self' = rx_depth self" "rx_loose self' = rx_loose self" "rx_turns self' = rx_turns self"
    using assms by (simp_all add: same_core_def)
  note s = same_items_rows [OF c(1,2)]
  show "turn_rows self' t d = turn_rows self t d" "make_loose_rows self' = make_loose_rows self" "items_of self' = items_of self"
    "owned self' = owned self" using s c(3) by blast+
  show "filed self' = filed self" unfolding filed_def s(1) items_keyed_def c ..
qed

lemma move_fresh: "move s s' \<Longrightarrow> step_fresh s \<Longrightarrow> step_fresh s'"
proof (induction rule: move.induct)
  case (same self self' step)
  note r = same_core_rows [OF same(1)]
  have "rx_rows self' = rx_rows self" "rx_turns self' = rx_turns self" "rx_loose_rows self' = rx_loose_rows self"
    using same(1) by (simp_all add: same_core_def)
  then have "fresh self' T l = fresh self T l" for T l
    unfolding fresh_def turn_fresh_def loose_fresh_def rows_listed_def r by simp
  with same(2) show ?case by simp
next
  case (change self i slot item step)
  with touched_fresh [OF _ change(1), of _ _ "slot\<lparr>sl_item := item\<rparr>"] show ?case by simp
next
  case (extend self i slot delta item step)
  with touched_fresh [OF _ extend(1), of _ _ "slot\<lparr>sl_item := item\<rparr>"] append_block_id show ?case by simp
next
  case (stream self i slot step t content)
  with stream_fresh [OF _ stream(1), of _ _ "slot\<lparr>sl_item := (sl_item slot)\<lparr>xi_content := content\<rparr>\<rparr>"] append_content_alike
  show ?case by simp
next
  case (add self i slot step)
  with add_fresh [of self _ _ i slot] show ?case by simp
next
  case (turn self t turn step)
  then show ?case by (simp add: turn_fresh_update)
qed

lemma moves_fresh: "move\<^sup>*\<^sup>* s s' \<Longrightarrow> step_fresh s \<Longrightarrow> step_fresh s'"
  by (induction rule: rtranclp_induct) (auto intro: move_fresh)

subsection \<open>Publishing makes the touched rows fresh\<close>

lemma emit_remove_spec:
  "map_of (fst (emit_all (remove_row rows) known previous)) i
     = (if i \<in> set previous \<and> i \<notin> xw_id ` set rows then None else map_of known i)"
proof (induction previous arbitrary: known)
  case (Cons j previous)
  have "map_of (fst (remove_row rows known j)) i = (if i = j \<and> i \<notin> xw_id ` set rows then None else map_of known i)"
    by (auto simp: remove_row_def delete_conv')
  with Cons.IH [of "fst (remove_row rows known j)"] show ?case by (auto simp: split_beta)
qed simp

lemma put_row_spec: "map_of (fst (put_row known row)) = (map_of known)(xw_id row \<mapsto> row)"
  by (auto simp: put_row_def update_conv' fun_eq_iff split: option.split)

lemma emit_put_spec:
  "distinct (map xw_id rows) \<Longrightarrow> (\<forall>row \<in> set rows. map_of (fst (emit_all put_row known rows)) (xw_id row) = Some row)
     \<and> (\<forall>i. i \<notin> xw_id ` set rows \<longrightarrow> map_of (fst (emit_all put_row known rows)) i = map_of known i)"
proof (induction rows arbitrary: known)
  case (Cons row rows)
  then have d: "distinct (map xw_id rows)" "xw_id row \<notin> xw_id ` set rows" by simp_all
  let ?known = "fst (put_row known row)"
  have e: "fst (emit_all put_row known (row # rows)) = fst (emit_all put_row ?known rows)" by (simp add: split_beta)
  note ih = Cons.IH [OF d(1), of ?known]
  from ih d(2) have "map_of (fst (emit_all put_row ?known rows)) (xw_id row) = Some row" by (simp add: put_row_spec)
  with ih show ?case unfolding e by (auto simp: put_row_spec)
qed simp

lemma replace_rows_spec:
  assumes r: "replace_rows known previous rows = (known', ops, published)" and d: "distinct (map xw_id rows)"
  shows "listed known' published rows"
    and "i \<notin> xw_id ` set rows \<Longrightarrow> map_of known' i = (if i \<in> set previous then None else map_of known i)"
proof -
  obtain known1 ops1 where e1: "emit_all (remove_row rows) known previous = (known1, ops1)" by fastforce
  obtain known2 ops2 where e2: "emit_all put_row known1 rows = (known2, ops2)" by fastforce
  have eq: "known' = known2" "published = map xw_id rows" using r e1 e2 by (auto simp: replace_rows_def)
  note put = emit_put_spec [OF d, of known1, unfolded e2 fst_conv]
  show "listed known' published rows" using put by (simp add: listed_def eq)
  assume "i \<notin> xw_id ` set rows"
  with put emit_remove_spec [of rows known previous i, unfolded e1 fst_conv]
  show "map_of known' i = (if i \<in> set previous then None else map_of known i)" by (simp add: eq)
qed

text \<open>Rows of one owner are replaced; rows other owners list stay.\<close>

lemma listed_apart:
  assumes l: "listed known ids rows" and ids: "set ids \<subseteq> owned self owner" and other: "taken \<inter> owned self owner = {}"
    and same: "\<And>i. i \<notin> taken \<Longrightarrow> map_of known' i = map_of known i"
  shows "listed known' ids rows"
proof -
  have "map_of known' (xw_id row) = Some row" if "row \<in> set rows" for row
  proof -
    have "xw_id row \<in> set ids" using l that by (simp add: listed_def)
    with ids other same have "map_of known' (xw_id row) = map_of known (xw_id row)" by blast
    with l that show ?thesis by (simp add: listed_def)
  qed
  with l show ?thesis by (simp add: listed_def)
qed

lemma turn_rows_td_rows: "turn_rows self t (d\<lparr>td_rows := ids\<rparr>) = turn_rows self t d"
  unfolding turn_rows_def sorted_slots_def placed_slots_def duration_ms_def reduced_turn.select_convs reduced_turn.update_convs
  by (cases d) (simp only: reduced_turn.select_convs reduced_turn.update_convs)

lemma filed_rows:
  assumes "filed self" and "rx_items self' = rx_items self" "rx_depth self' = rx_depth self" "rx_loose self' = rx_loose self"
    and "map fst (rx_turns self') = map fst (rx_turns self)"
    and "\<And>t. map_option td_items (map_of (rx_turns self') t) = map_option td_items (map_of (rx_turns self) t)"
  shows "filed self'"
proof -
  have some: "\<exists>d0. map_of (rx_turns self) t = Some d0 \<and> td_items d0 = td_items d" if "map_of (rx_turns self') t = Some d" for t d
    using assms(6) [of t] that by (cases "map_of (rx_turns self) t") auto
  have none: "map_of (rx_turns self) t = None" if "map_of (rx_turns self') t = None" for t
    using assms(6) [of t] that by (cases "map_of (rx_turns self) t") auto
  have "\<forall>t d. map_of (rx_turns self') t = Some d \<longrightarrow> distinct (td_items d) \<and> set (td_items d) = items_of self (Some t)"
    using assms(1) some unfolding filed_def by metis
  moreover have "\<forall>t. map_of (rx_turns self') t = None \<longrightarrow> items_of self (Some t) = {}"
    using assms(1) none unfolding filed_def by blast
  ultimately show ?thesis
    using assms(1) unfolding filed_def same_items_rows(1) [OF assms(2,3)] items_keyed_def assms(2-5) by blast
qed

lemma publish_turn_fresh:
  assumes f: "fresh self T l"
  shows "fresh (fst (publish_turn self t)) (T - {t}) l"
proof (cases "map_of (rx_turns self) t")
  case None
  then have "publish_turn self t = (self, [])" by (simp add: publish_turn_def)
  moreover have "turn_fresh self (T - {t})" using f None by (auto simp: fresh_def turn_fresh_def)
  ultimately show ?thesis using f by (simp add: fresh_def)
next
  case (Some d)
  obtain rows ops published where r: "replace_rows (rx_rows self) (td_rows d) (turn_rows self t d) = (rows, ops, published)"
    by (metis prod_cases3)
  let ?self = "self\<lparr>rx_rows := rows, rx_turns := AList.update t (d\<lparr>td_rows := published\<rparr>) (rx_turns self)\<rparr>"
  have eq: "fst (publish_turn self t) = ?self" using Some r by (simp add: publish_turn_def)
  have fd: "filed self" and tf: "turn_fresh self T" and lf: "loose_fresh self l" and rl: "rows_listed self"
    using f by (simp_all add: fresh_def)
  note ids = turn_rows_ids [OF fd Some]
  have "rx_items ?self = rx_items self" "rx_depth ?self = rx_depth self" by simp_all
  note same = same_items_rows [OF this]
  have fd': "filed ?self"
  proof (rule filed_rows [OF fd])
    show "map fst (rx_turns ?self) = map fst (rx_turns self)" using Some map_of_eq_None_iff [of "rx_turns self" t] by (simp add: update_keys)
    show "map_option td_items (map_of (rx_turns ?self) u) = map_option td_items (map_of (rx_turns self) u)" for u
      using Some by (simp add: update_conv')
  qed simp_all
  have listed: "listed rows published (turn_rows self t d)" by (rule replace_rows_spec(1) [OF r ids(1)])
  then have pub: "set published \<subseteq> owned self (Some t)" using ids(2) by (auto simp: listed_def)
  have old: "set (td_rows d) \<subseteq> owned self (Some t)" using tf Some by (simp add: turn_fresh_def)
  have keep: "map_of rows i = map_of (rx_rows self) i" if "i \<notin> owned self (Some t)" for i
  proof -
    have "i \<notin> xw_id ` set (turn_rows self t d)" "i \<notin> set (td_rows d)" using that ids(2) old by blast+
    with replace_rows_spec(2) [OF r ids(1), of i] show ?thesis by simp
  qed
  have tf': "turn_fresh ?self (T - {t})"
    unfolding turn_fresh_def same
  proof (intro allI impI)
    fix u e
    assume e: "map_of (rx_turns ?self) u = Some e"
    show "set (td_rows e) \<subseteq> owned self (Some u) \<and> (u \<notin> T - {t} \<longrightarrow> listed (rx_rows ?self) (td_rows e) (turn_rows self u e))"
    proof (cases "u = t")
      case True
      with e have "e = d\<lparr>td_rows := published\<rparr>" by (simp add: update_conv')
      with True pub listed show ?thesis by (simp add: turn_rows_td_rows)
    next
      case False
      with e have e: "map_of (rx_turns self) u = Some e" by (simp add: update_conv')
      with tf have own: "set (td_rows e) \<subseteq> owned self (Some u)" and l: "u \<notin> T \<Longrightarrow> listed (rx_rows self) (td_rows e) (turn_rows self u e)"
        by (simp_all add: turn_fresh_def)
      have "owned self (Some t) \<inter> owned self (Some u) = {}" using owned_disjoint [OF fd] False by simp
      then have "listed rows (td_rows e) (turn_rows self u e)" if "u \<notin> T" by (rule listed_apart [OF l [OF that] own]) (rule keep)
      with own False show ?thesis by simp
    qed
  qed
  have lf': "loose_fresh ?self l"
  proof -
    have apart: "owned self (Some t) \<inter> owned self None = {}" by (rule owned_disjoint [OF fd]) simp
    have own: "set (rx_loose_rows self) \<subseteq> owned self None"
      and l: "\<not> l \<Longrightarrow> listed (rx_rows self) (rx_loose_rows self) (make_loose_rows self)" using lf by (simp_all add: loose_fresh_def)
    have "listed rows (rx_loose_rows self) (make_loose_rows self)" if "\<not> l"
      by (rule listed_apart [OF l [OF that] own apart]) (rule keep)
    with own show ?thesis by (simp add: loose_fresh_def same)
  qed
  have rl': "rows_listed ?self"
    unfolding rows_listed_def
  proof (rule subsetI)
    fix i
    assume i: "i \<in> dom (map_of (rx_rows ?self))"
    show "i \<in> {i. \<exists>u e. map_of (rx_turns ?self) u = Some e \<and> i \<in> set (td_rows e)} \<union> set (rx_loose_rows ?self)"
    proof (cases "i \<in> xw_id ` set (turn_rows self t d)")
      case True
      with listed have "i \<in> set published" by (simp add: listed_def)
      moreover have "map_of (rx_turns ?self) t = Some (d\<lparr>td_rows := published\<rparr>)" by (simp add: update_conv')
      ultimately show ?thesis by force
    next
      case False
      from i replace_rows_spec(2) [OF r ids(1) False] have "i \<notin> set (td_rows d)" "i \<in> dom (map_of (rx_rows self))"
        by (auto simp: dom_def split: if_splits)
      with rl consider u e where "map_of (rx_turns self) u = Some e" "i \<in> set (td_rows e)" "u \<noteq> t" | "i \<in> set (rx_loose_rows self)"
        using Some unfolding rows_listed_def by fastforce
      then show ?thesis
      proof cases
        case 1
        then have "map_of (rx_turns ?self) u = Some e" by (simp add: update_conv')
        with 1 show ?thesis by blast
      qed simp
    qed
  qed
  from fd' tf' lf' rl' show ?thesis unfolding fresh_def eq by blast
qed

lemma publish_loose_fresh:
  assumes f: "fresh self T l"
  shows "fresh (fst (publish_loose self)) T False"
proof -
  obtain rows ops published where r: "replace_rows (rx_rows self) (rx_loose_rows self) (make_loose_rows self) = (rows, ops, published)"
    by (metis prod_cases3)
  let ?self = "self\<lparr>rx_rows := rows, rx_loose_rows := published\<rparr>"
  have eq: "fst (publish_loose self) = ?self" using r by (simp add: publish_loose_def)
  have fd: "filed self" and tf: "turn_fresh self T" and lf: "loose_fresh self l" and rl: "rows_listed self"
    using f by (simp_all add: fresh_def)
  note ids = loose_rows_ids [OF fd]
  have "rx_items ?self = rx_items self" "rx_depth ?self = rx_depth self" by simp_all
  note same = same_items_rows [OF this]
  have fd': "filed ?self" by (rule filed_rows [OF fd]) simp_all
  have listed: "listed rows published (make_loose_rows self)" by (rule replace_rows_spec(1) [OF r ids(1)])
  then have pub: "set published \<subseteq> owned self None" using ids(2) by (auto simp: listed_def)
  have old: "set (rx_loose_rows self) \<subseteq> owned self None" using lf by (simp add: loose_fresh_def)
  have keep: "map_of rows i = map_of (rx_rows self) i" if "i \<notin> owned self None" for i
  proof -
    have "i \<notin> xw_id ` set (make_loose_rows self)" "i \<notin> set (rx_loose_rows self)" using that ids(2) old by blast+
    with replace_rows_spec(2) [OF r ids(1), of i] show ?thesis by simp
  qed
  have tf': "turn_fresh ?self T"
    unfolding turn_fresh_def same
  proof (intro allI impI)
    fix u e
    assume e: "map_of (rx_turns ?self) u = Some e"
    then have own: "set (td_rows e) \<subseteq> owned self (Some u)" and l: "u \<notin> T \<Longrightarrow> listed (rx_rows self) (td_rows e) (turn_rows self u e)"
      using tf by (simp_all add: turn_fresh_def)
    have "owned self None \<inter> owned self (Some u) = {}" by (rule owned_disjoint [OF fd]) simp
    then have "listed rows (td_rows e) (turn_rows self u e)" if "u \<notin> T" by (rule listed_apart [OF l [OF that] own]) (rule keep)
    with own show "set (td_rows e) \<subseteq> owned self (Some u) \<and> (u \<notin> T \<longrightarrow> listed (rx_rows ?self) (td_rows e) (turn_rows self u e))"
      by simp
  qed
  have lf': "loose_fresh ?self False" using pub listed by (simp add: loose_fresh_def same)
  have rl': "rows_listed ?self"
    unfolding rows_listed_def
  proof (rule subsetI)
    fix i
    assume i: "i \<in> dom (map_of (rx_rows ?self))"
    show "i \<in> {i. \<exists>u e. map_of (rx_turns ?self) u = Some e \<and> i \<in> set (td_rows e)} \<union> set (rx_loose_rows ?self)"
    proof (cases "i \<in> xw_id ` set (make_loose_rows self)")
      case True
      with listed show ?thesis by (simp add: listed_def)
    next
      case False
      from i replace_rows_spec(2) [OF r ids(1) False] have "i \<notin> set (rx_loose_rows self)" "i \<in> dom (map_of (rx_rows self))"
        by (auto simp: dom_def split: if_splits)
      with rl show ?thesis unfolding rows_listed_def by auto
    qed
  qed
  from fd' tf' lf' rl' show ?thesis unfolding fresh_def eq by blast
qed

lemma emit_publish_fresh: "fresh self T l \<Longrightarrow> fresh (fst (emit_all publish_turn self ts)) (T - set ts) l"
proof (induction ts arbitrary: self T)
  case (Cons t ts)
  have "fst (emit_all publish_turn self (t # ts)) = fst (emit_all publish_turn (fst (publish_turn self t)) ts)"
    by (simp add: split_beta)
  moreover have "T - set (t # ts) = T - {t} - set ts" by auto
  ultimately show ?case using Cons.IH [OF publish_turn_fresh [OF Cons.prems, of t]] by (simp only:)
qed simp

lemma reduce_publish_fresh:
  assumes "step_fresh (self, step)"
  shows "fresh (fst (reduce_publish self step)) {} False"
proof -
  obtain self1 ops1 where e: "emit_all publish_turn self (zs_turns step) = (self1, ops1)" by fastforce
  have "fresh self1 {} (zs_loose step)" using emit_publish_fresh [OF assms [unfolded fst_conv snd_conv], of "zs_turns step"] e by simp
  with publish_loose_fresh [of self1] e show ?thesis by (auto simp: reduce_publish_def split_beta)
qed

lemma reduce_item_fresh:
  assumes "fresh self {} False"
  shows "fresh (fst (reduce_item self item)) {} False"
proof -
  obtain sequence at e blocks where item: "item = (sequence, at, e, blocks)" by (metis prod_cases4)
  have "items_keyed self" using assms by (simp add: fresh_def filed_def)
  from reduce_apply_moves [OF this, of sequence at e blocks] obtain self' step
    where m: "move\<^sup>*\<^sup>* (self, new_step sequence (event_base self sequence) at) (self', step)"
      and p: "reduce_apply self sequence at e blocks = reduce_publish self' step" by metis
  have "step_fresh (self, new_step sequence (event_base self sequence) at)" using assms by (simp add: new_step_def)
  from reduce_publish_fresh [OF moves_fresh [OF m this]] show ?thesis by (simp add: item reduce_item_def p)
qed

lemma emit_events_fresh: "fresh self {} False \<Longrightarrow> fresh (fst (emit_all reduce_item self items)) {} False"
proof (induction items arbitrary: self)
  case (Cons item items)
  from Cons.IH [OF reduce_item_fresh [OF Cons.prems]] show ?case by (simp add: split_beta)
qed simp

lemma new_fresh: "fresh (reducer_new depth) {} False"
  by (simp add: fresh_def filed_def items_keyed_def items_of_def turn_fresh_def loose_fresh_def rows_listed_def listed_def
      reducer_new_def make_loose_rows_def slots_def map_filter_simps)

subsection \<open>The reducer shows what regrouping everything would show\<close>

text \<open>All items grouped from scratch: the rows of every started turn and of the loose items.\<close>

definition regroup :: "transcript_reducer \<Rightarrow> transcript_row list" where
  "regroup self = concat (map (\<lambda>(t, d). turn_rows self t d) (rx_turns self)) @ make_loose_rows self"

lemma distinct_concat_map:
  "distinct xs \<Longrightarrow> (\<And>x. x \<in> set xs \<Longrightarrow> distinct (f x)) \<Longrightarrow> (\<And>x y. x \<in> set xs \<Longrightarrow> y \<in> set xs \<Longrightarrow> x \<noteq> y \<Longrightarrow> set (f x) \<inter> set (f y) = {})
     \<Longrightarrow> distinct (concat (map f xs))"
  by (induction xs) auto

text \<open>A family of lists, one per owner, that stay within disjoint sets.\<close>

lemma owners_distinct:
  assumes f: "filed self"
    and turn: "\<And>t d. map_of (rx_turns self) t = Some d \<Longrightarrow> distinct (F t d) \<and> set (F t d) \<subseteq> owned self (Some t)"
    and loose: "distinct G" "set G \<subseteq> owned self None"
  shows "distinct (concat (map (\<lambda>(t, d). F t d) (rx_turns self)) @ G)"
proof -
  have keys: "distinct (map fst (rx_turns self))" using f by (simp add: filed_def)
  have at: "map_of (rx_turns self) (fst x) = Some (snd x)" if "x \<in> set (rx_turns self)" for x
    using that map_of_is_SomeI [OF keys, of "fst x" "snd x"] by simp
  have sub: "set ((\<lambda>(t, d). F t d) x) \<subseteq> owned self (Some (fst x))" "distinct ((\<lambda>(t, d). F t d) x)" if "x \<in> set (rx_turns self)" for x
    using turn [OF at [OF that]] by (simp_all add: split_beta)
  have "set ((\<lambda>(t, d). F t d) x) \<inter> set ((\<lambda>(t, d). F t d) y) = {}"
    if "x \<in> set (rx_turns self)" "y \<in> set (rx_turns self)" "x \<noteq> y" for x y
  proof -
    have "fst x \<noteq> fst y" using that keys by (metis at option.inject prod_eqI)
    then have "owned self (Some (fst x)) \<inter> owned self (Some (fst y)) = {}" using owned_disjoint [OF f] by simp
    with sub(1) [OF that(1)] sub(1) [OF that(2)] show ?thesis by blast
  qed
  then have "distinct (concat (map (\<lambda>(t, d). F t d) (rx_turns self)))"
    using sub(2) keys by (intro distinct_concat_map) (auto simp: distinct_map)
  moreover have "set (concat (map (\<lambda>(t, d). F t d) (rx_turns self))) \<inter> set G = {}"
  proof -
    have "set ((\<lambda>(t, d). F t d) x) \<inter> set G = {}" if "x \<in> set (rx_turns self)" for x
      using sub(1) [OF that] loose(2) owned_disjoint [OF f, of "Some (fst x)" None] by blast
    then show ?thesis by (simp only: set_concat set_map) blast
  qed
  ultimately show ?thesis using loose(1) by simp
qed

lemma regroup_distinct: "filed self \<Longrightarrow> distinct (map xw_id (regroup self))"
proof -
  assume f: "filed self"
  have "distinct (concat (map (\<lambda>(t, d). map xw_id (turn_rows self t d)) (rx_turns self)) @ map xw_id (make_loose_rows self))"
    using turn_rows_ids [OF f] loose_rows_ids [OF f] by (intro owners_distinct [OF f]) simp_all
  moreover have "map xw_id (regroup self)
      = concat (map (\<lambda>(t, d). map xw_id (turn_rows self t d)) (rx_turns self)) @ map xw_id (make_loose_rows self)"
    by (simp add: regroup_def map_concat comp_def prod.case_distrib [of "map xw_id"])
  ultimately show ?thesis by simp
qed

lemma fresh_regroup:
  assumes f: "fresh self {} False"
  shows "map_of (rx_rows self) = map_of (map (\<lambda>row. (xw_id row, row)) (regroup self))"
proof -
  have fd: "filed self" and tf: "turn_fresh self {}" and lf: "loose_fresh self False" and rl: "rows_listed self"
    using f by (simp_all add: fresh_def)
  have keys: "distinct (map fst (rx_turns self))" using fd by (simp add: filed_def)
  have d: "distinct (map fst (map (\<lambda>row. (xw_id row, row)) (regroup self)))" using regroup_distinct [OF fd] by (simp add: comp_def)
  have shown: "map_of (rx_rows self) (xw_id row) = Some row" if "row \<in> set (regroup self)" for row
  proof -
    from that consider t d where "map_of (rx_turns self) t = Some d" "row \<in> set (turn_rows self t d)" | "row \<in> set (make_loose_rows self)"
      using keys by (auto simp: regroup_def)
    then show ?thesis using tf lf by cases (auto simp: turn_fresh_def loose_fresh_def listed_def)
  qed
  have only: "\<exists>row \<in> set (regroup self). xw_id row = i" if "map_of (rx_rows self) i \<noteq> None" for i
  proof -
    from that rl consider t d where "map_of (rx_turns self) t = Some d" "i \<in> set (td_rows d)" | "i \<in> set (rx_loose_rows self)"
      unfolding rows_listed_def by blast
    then show ?thesis
    proof cases
      case 1
      then have "i \<in> xw_id ` set (turn_rows self t d)" using tf by (simp add: turn_fresh_def listed_def)
      moreover have "set (turn_rows self t d) \<subseteq> set (regroup self)" using map_of_SomeD [OF 1(1)] by (auto simp: regroup_def)
      ultimately show ?thesis by blast
    next
      case 2
      then show ?thesis using lf by (auto simp: loose_fresh_def listed_def regroup_def)
    qed
  qed
  show ?thesis
  proof
    fix i
    show "map_of (rx_rows self) i = map_of (map (\<lambda>row. (xw_id row, row)) (regroup self)) i"
    proof (cases "\<exists>row \<in> set (regroup self). xw_id row = i")
      case True
      then obtain row where row: "row \<in> set (regroup self)" "xw_id row = i" by blast
      then have "(i, row) \<in> set (map (\<lambda>row. (xw_id row, row)) (regroup self))" by auto
      with d have "map_of (map (\<lambda>row. (xw_id row, row)) (regroup self)) i = Some row" by (rule map_of_is_SomeI)
      with shown [OF row(1)] row(2) show ?thesis by simp
    next
      case False
      then have "map_of (map (\<lambda>row. (xw_id row, row)) (regroup self)) i = None" by (auto simp: map_of_eq_None_iff)
      moreover have "map_of (rx_rows self) i = None" using only False by blast
      ultimately show ?thesis by simp
    qed
  qed
qed

text \<open>
  C15. The incremental grouping is exact.  The reducer regroups only the turns an event touched and skips an event that
  streams text; its rows are nevertheless, after any events, the rows that grouping all its items from scratch gives,
  and no two of these rows share an id, so that none replaces another at a client.
\<close>
theorem transcript_rows_exact:
  "case emit_all reduce_item (reducer_new depth) items of (self, _) \<Rightarrow>
     map_of (rx_rows self) = map_of (map (\<lambda>row. (xw_id row, row)) (regroup self)) \<and> distinct (map xw_id (regroup self))"
  using emit_events_fresh [OF new_fresh, of depth items] fresh_regroup regroup_distinct by (auto simp: fresh_def split_beta)

subsection \<open>What is shown\<close>

lemma row_item_ids_add: "row_item_ids (row\<lparr>xw_items := xw_items row @ [ChildItem i]\<rparr>) = row_item_ids row @ [i]"
  "row_item_ids (row\<lparr>xw_items := xw_items row @ [ChildItem i], xw_kind := k\<rparr>) = row_item_ids row @ [i]"
  "row_item_ids (row\<lparr>xw_kind := k\<rparr>) = row_item_ids row"
  by (simp_all add: row_item_ids_def List.map_filter_def)

abbreviation shown :: "transcript_row list \<Rightarrow> string list" where
  "shown rows \<equiv> concat (map row_item_ids rows)"

lemma shown_perm:
  assumes "mset rows = mset rows'"
  shows "mset (shown rows) = mset (shown rows')"
proof -
  have "mset (shown xs) = \<Sum>\<^sub># (image_mset (mset \<circ> row_item_ids) (mset xs))" for xs by (induction xs) simp_all
  with assms show ?thesis by simp
qed

lemma shown_grown:
  assumes "rows \<noteq> []" and "row_item_ids row = row_item_ids (last rows) @ [i]"
  shows "shown (butlast rows @ [row]) = shown rows @ [i]"
  using assms by (cases rows rule: rev_cases) auto

lemma build_runs_shown:
  "build_runs work items runs in_run = (items', runs')
    \<Longrightarrow> mset (List.map_filter child_item items') + mset (shown runs')
      = mset (List.map_filter child_item items) + mset (shown runs) + mset (map slot_id work)"
proof (induction work arbitrary: items runs in_run)
  case (Cons s work)
  have new: "row_item_ids (activity_row s) = [slot_id s]" by (simp add: row_item_ids_def activity_row_def map_filter_simps)
  consider (other) "\<not> is_activity (sl_item s)" | (join) "is_activity (sl_item s)" "in_run \<and> runs \<noteq> []"
    | (fresh) "is_activity (sl_item s)" "\<not> (in_run \<and> runs \<noteq> [])" by blast
  then show ?case
  proof cases
    case other
    with Cons.prems have "build_runs work (items @ [ChildItem (slot_id s)]) runs False = (items', runs')" by simp
    from Cons.IH [OF this] show ?thesis by (simp add: List.map_filter_def)
  next
    case join
    let ?runs = "butlast runs @ [(last runs)\<lparr>xw_items := xw_items (last runs) @ [ChildItem (slot_id s)]\<rparr>]"
    from join Cons.prems have "build_runs work items ?runs in_run = (items', runs')" by simp
    from Cons.IH [OF this] shown_grown [OF _ row_item_ids_add(1), of runs "slot_id s"] join show ?thesis by (simp del: map_append)
  next
    case fresh
    with Cons.prems have "build_runs work (items @ [ChildRow (xw_id (activity_row s))]) (runs @ [activity_row s]) True = (items', runs')"
      by simp
    from Cons.IH [OF this] show ?thesis by (simp add: List.map_filter_def new)
  qed
qed simp

lemma single_shown: "\<forall>row \<in> set rows. row_item_ids row = [xw_id row] \<Longrightarrow> shown rows = map xw_id rows"
  by (induction rows) auto

abbreviation plain :: "slot list \<Rightarrow> slot set" where
  "plain xs \<equiv> {s \<in> set xs. \<not> is_notice (sl_item s)}"

lemma plain_Cons: "slot_id ` plain (s # xs) = {i. i = slot_id s \<and> \<not> is_notice (sl_item s)} \<union> slot_id ` plain xs"
  by auto

lemma union_step: "A \<union> B \<union> C \<subseteq> D \<Longrightarrow> D \<union> E \<subseteq> F \<Longrightarrow> A \<union> B \<union> (C \<union> E) \<subseteq> F"
  by blast

lemma build_rows_keeps:
  "build_rows self all la placed rows work = (rows', work') \<Longrightarrow> \<forall>(n, s, p) \<in> set placed. p = PNotice \<longrightarrow> is_notice (sl_item s)
    \<Longrightarrow> xw_id ` set rows \<union> slot_id ` set work \<union> slot_id ` plain (map (\<lambda>(n, s, p). s) placed)
      \<subseteq> xw_id ` set rows' \<union> slot_id ` set work'"
proof (induction placed arbitrary: rows work)
  case (Cons x placed)
  obtain n s p where x: "x = (n, s, p)" by (cases x)
  have one: "xw_id (single s kind) = slot_id s" for kind by (simp add: single_def)
  obtain rows1 work1 where r: "build_rows self all la placed rows1 work1 = (rows', work')"
    and m: "xw_id ` set rows \<union> slot_id ` set work \<union> {i. i = slot_id s \<and> \<not> is_notice (sl_item s)} \<subseteq> xw_id ` set rows1 \<union> slot_id ` set work1"
  proof (cases p)
    case PNotice
    with Cons.prems x have "is_notice (sl_item s)" by simp
    with Cons.prems(1) x PNotice show ?thesis
      by (intro that [of "if repeats_error (last_row rows) self (sl_item s) then rows else rows @ [single s KNotice]" work]) auto
  next
    case PWork
    with Cons.prems(1) x show ?thesis by (intro that [of rows "work @ [s]"]) auto
  next
    case PEntry
    let ?row = "single s (KEntry (if la = Some n then turn_changes_of all else None))"
    from PEntry Cons.prems(1) x show ?thesis by (intro that [of "rows @ [?row]" work]) (auto simp: one)
  next
    case PAnswer
    let ?row = "single s (KEntry (if la = Some n then turn_changes_of all else None))"
    from PAnswer Cons.prems(1) x show ?thesis by (intro that [of "rows @ [?row]" work]) (auto simp: one)
  qed
  from Cons.IH [OF r] Cons.prems(2) have "xw_id ` set rows1 \<union> slot_id ` set work1
      \<union> slot_id ` plain (map (\<lambda>(n, s, p). s) placed) \<subseteq> xw_id ` set rows' \<union> slot_id ` set work'" by simp
  with m show ?case unfolding x list.map prod.case plain_Cons by (rule union_step)
qed auto

lemma placed_all: "map (\<lambda>(n, s, p). s) (placed_slots self d) = sorted_slots self d"
proof -
  have "map snd (enumerate n xs) = xs" for n and xs :: "slot list" by simp
  then show ?thesis by (simp add: placed_slots_def Let_def case_prod_beta comp_def)
qed

lemma placed_notice: "(n, s, PNotice) \<in> set (placed_slots self d) \<Longrightarrow> is_notice (sl_item s)"
  by (auto simp: placed_slots_def Let_def turn_place_def item_place_def is_notice_def split: place.splits if_splits)

lemma turn_rows_shown:
  assumes f: "filed self" and d: "map_of (rx_turns self) t = Some d"
  shows "distinct (shown (turn_rows self t d))" "set (shown (turn_rows self t d)) \<subseteq> items_of self (Some t)"
    "slot_id ` plain (sorted_slots self d) \<subseteq> set (shown (turn_rows self t d))"
proof -
  let ?la = "rposition (\<lambda>s. xi_terminal (sl_item s) \<and> is_answer (sl_item s)) (sorted_slots self d)"
  obtain rows work where b: "build_rows self (sorted_slots self d) ?la (placed_slots self d) [] [] = (rows, work)" by fastforce
  obtain items runs where r: "build_runs work [] [] False = (items, runs)" by fastforce
  have I: "distinct (td_items d)" "set (td_items d) = items_of self (Some t)" using f d by (auto simp: filed_def)
  define all where "all = (case work of [] \<Rightarrow> rows
    | first # _ \<Rightarrow> rows @ map (\<lambda>run. run\<lparr>xw_kind := KActivity (counts (child_items self (xw_items run)))\<rparr>) runs
        @ [\<lparr>xw_id = reducer_id self (''worked:'' @ t), xw_position = sl_position first, xw_items = items,
            xw_kind = KWorked (counts (map sl_item work)) (td_started_at_ms d) (duration_ms d)\<rparr>])"
  have "turn_rows self t d = sort_rows all" unfolding turn_rows_def Let_def b prod.case r all_def by simp
  then have "mset (turn_rows self t d) = mset all" by (simp add: sort_rows_def)
  then have "mset (shown (turn_rows self t d)) = mset (shown all)"
    by (rule shown_perm)
  also have "\<dots> = mset (map xw_id rows @ map slot_id work)"
  proof -
    have "shown rows = map xw_id rows" using build_rows_single [OF b] by (intro single_shown) simp
    moreover have "mset (List.map_filter child_item items) + mset (shown runs) = mset (map slot_id work)"
      using build_runs_shown [OF r] by (simp add: map_filter_simps)
    ultimately show ?thesis
      by (cases work) (simp_all add: all_def row_item_ids_add comp_def row_item_ids_def [of "\<lparr>xw_id = _, xw_position = _, xw_items = _, xw_kind = _\<rparr>"] ac_simps)
  qed
  finally have m: "mset (shown (turn_rows self t d)) = mset (map xw_id rows @ map slot_id work)" .
  have "mset (map xw_id rows @ map slot_id work) \<subseteq># mset (td_items d)"
    using build_rows_ids [OF b] turn_slot_ids [OF f d] by (simp add: placed_ids)
  note le = mset_le_distinct [OF this [folded m] I(1)]
  show "distinct (shown (turn_rows self t d))" by (rule le)
  show "set (shown (turn_rows self t d)) \<subseteq> items_of self (Some t)" using le(2) I(2) by blast
  have shown: "set (shown (turn_rows self t d)) = xw_id ` set rows \<union> slot_id ` set work"
    using arg_cong [OF m, of set_mset] by (simp only: set_mset_mset set_append set_map)
  have "\<forall>(n, s, p) \<in> set (placed_slots self d). p = PNotice \<longrightarrow> is_notice (sl_item s)" using placed_notice by blast
  from build_rows_keeps [OF b this] show "slot_id ` plain (sorted_slots self d) \<subseteq> set (shown (turn_rows self t d))"
    unfolding shown placed_all by blast
qed

lemma add_loose_shown:
  "shown (add_loose self rows s) = shown rows @ [slot_id s] \<or> shown (add_loose self rows s) = shown rows \<and> is_notice (sl_item s)"
proof -
  have one: "row_item_ids (single s kind) = [slot_id s]" "row_item_ids (activity_row s) = [slot_id s]" for kind
    by (simp_all add: row_item_ids_def single_def activity_row_def map_filter_simps)
  show ?thesis
    unfolding add_loose_def Let_def using shown_grown [of rows _ "slot_id s"] by (simp add: one row_item_ids_add del: map_append concat_append) (simp add: one)
qed

lemma fold_loose_shown:
  "mset (shown (foldl (add_loose self) rows xs)) \<subseteq># mset (shown rows) + mset (map slot_id xs)
    \<and> set (shown rows) \<union> slot_id ` plain xs \<subseteq> set (shown (foldl (add_loose self) rows xs))"
proof (induction xs arbitrary: rows)
  case (Cons s xs)
  let ?rows = "add_loose self rows s"
  have one: "mset (shown ?rows) \<subseteq># mset (shown rows) + {#slot_id s#}"
    "set (shown rows) \<union> {i. i = slot_id s \<and> \<not> is_notice (sl_item s)} \<subseteq> set (shown ?rows)"
    using add_loose_shown [of self rows s] by (auto simp del: set_concat set_map mset_concat)
  from Cons.IH [of ?rows] have a: "mset (shown (foldl (add_loose self) ?rows xs)) \<subseteq># mset (shown ?rows) + mset (map slot_id xs)"
    and b: "set (shown ?rows) \<union> slot_id ` plain xs \<subseteq> set (shown (foldl (add_loose self) ?rows xs))"
    by blast+
  have "mset (shown (foldl (add_loose self) rows (s # xs))) \<subseteq># mset (shown rows) + {#slot_id s#} + mset (map slot_id xs)"
    using subset_mset.order_trans [OF a subset_mset.add_right_mono [OF one(1)]] by (simp only: foldl_Cons)
  moreover have "set (shown rows) \<union> slot_id ` plain (s # xs) \<subseteq> set (shown (foldl (add_loose self) rows (s # xs)))"
    using one(2) b unfolding plain_Cons foldl_Cons by blast
  ultimately show ?case by (simp only: list.map mset.simps) (simp add: ac_simps del: set_concat set_map mset_concat)
qed (simp del: set_concat set_map)

lemma loose_rows_shown:
  assumes f: "filed self"
  shows "distinct (shown (make_loose_rows self))" "set (shown (make_loose_rows self)) \<subseteq> items_of self None"
    "slot_id ` plain (slots self (rx_loose self)) \<subseteq> set (shown (make_loose_rows self))"
proof -
  have I: "distinct (rx_loose self)" "set (rx_loose self) = items_of self None" "items_keyed self" using f by (simp_all add: filed_def)
  have ids: "map slot_id (slots self (rx_loose self)) = rx_loose self" by (rule slots_all [OF I(3)]) (auto simp: I(2) items_of_def)
  note fold = fold_loose_shown [of self "[]" "slots self (rx_loose self)", folded make_loose_rows_def, unfolded ids]
  from fold have "mset (shown (make_loose_rows self)) \<subseteq># mset (rx_loose self)" by simp
  from mset_le_distinct [OF this I(1)] I(2)
  show "distinct (shown (make_loose_rows self))" "set (shown (make_loose_rows self)) \<subseteq> items_of self None" by blast+
  from fold show "slot_id ` plain (slots self (rx_loose self)) \<subseteq> set (shown (make_loose_rows self))"
    by blast
qed

lemma regroup_shown:
  "shown (regroup self) = concat (map (\<lambda>(t, d). shown (turn_rows self t d)) (rx_turns self)) @ shown (make_loose_rows self)"
proof -
  have "shown (concat (map f xs)) = concat (map (\<lambda>x. shown (f x)) xs)" for f :: "string \<times> reduced_turn \<Rightarrow> transcript_row list" and xs
    by (induction xs) simp_all
  then have "shown (concat (map (\<lambda>(t, d). turn_rows self t d) (rx_turns self)))
      = concat (map (\<lambda>x. shown (case x of (t, d) \<Rightarrow> turn_rows self t d)) (rx_turns self))" .
  also have "\<dots> = concat (map (\<lambda>(t, d). shown (turn_rows self t d)) (rx_turns self))"
    by (intro arg_cong [of _ _ concat] map_cong) auto
  finally show ?thesis by (simp add: regroup_def)
qed

lemma slot_at:
  "map_of (rx_items self) i = Some slot \<Longrightarrow> i \<in> set ids \<Longrightarrow> slot \<in> set (slots self ids)"
  by (force simp: slots_def List.map_filter_def)

lemma filed_regroup_shown:
  assumes f: "filed self"
  shows "distinct (shown (regroup self))" "set (shown (regroup self)) \<subseteq> dom (map_of (rx_items self))"
    "{i. \<exists>slot. map_of (rx_items self) i = Some slot \<and> \<not> is_notice (sl_item slot)} \<subseteq> set (shown (regroup self))"
proof -
  have of: "items_of self owner \<subseteq> owned self owner" "items_of self owner \<subseteq> dom (map_of (rx_items self))" for owner
    by (auto simp: owned_def items_of_def)
  have keys: "distinct (map fst (rx_turns self))" and keyed: "items_keyed self" using f by (simp_all add: filed_def)
  show "distinct (shown (regroup self))"
    unfolding regroup_shown
    using turn_rows_shown(1,2) [OF f] loose_rows_shown(1,2) [OF f] of(1) by (intro owners_distinct [OF f]) (blast+)
  show "set (shown (regroup self)) \<subseteq> dom (map_of (rx_items self))"
  proof
    fix i
    assume "i \<in> set (shown (regroup self))"
    then consider t d where "(t, d) \<in> set (rx_turns self)" "i \<in> set (shown (turn_rows self t d))" | "i \<in> set (shown (make_loose_rows self))"
      unfolding regroup_shown by auto
    then show "i \<in> dom (map_of (rx_items self))"
      using turn_rows_shown(2) [OF f] loose_rows_shown(2) [OF f] of(2) keys by cases (blast dest: map_of_is_SomeI)+
  qed
  show "{i. \<exists>slot. map_of (rx_items self) i = Some slot \<and> \<not> is_notice (sl_item slot)} \<subseteq> set (shown (regroup self))"
  proof clarify
    fix i slot
    assume s: "map_of (rx_items self) i = Some slot" "\<not> is_notice (sl_item slot)"
    have i: "slot_id slot = i" using keyed s(1) by (simp add: items_keyed_def)
    show "i \<in> set (shown (regroup self))"
    proof (cases "sl_turn slot")
      case None
      then have "i \<in> set (rx_loose self)" using f s(1) by (auto simp: filed_def items_of_def)
      with slot_at [OF s(1)] s(2) i have "i \<in> set (shown (make_loose_rows self))" using loose_rows_shown(3) [OF f] by blast
      then show ?thesis by (simp add: regroup_shown)
    next
      case (Some t)
      with s(1) have mem: "i \<in> items_of self (Some t)" by (simp add: items_of_def)
      then obtain d where d: "map_of (rx_turns self) t = Some d" using f by (cases "map_of (rx_turns self) t") (auto simp: filed_def)
      with f mem have "i \<in> set (td_items d)" by (simp add: filed_def)
      with slot_at [OF s(1)] have "slot \<in> set (sorted_slots self d)" by (simp add: sorted_slots_def)
      with s(2) i have "i \<in> set (shown (turn_rows self t d))" using turn_rows_shown(3) [OF f d] by blast
      with map_of_SomeD [OF d] show ?thesis by (auto simp: regroup_shown)
    qed
  qed
qed

text \<open>
  C16. The transcript shows everything once.  After any events, no item appears twice in the rows, no row points to an
  item that does not exist, and every item appears unless it is a notice (the only thing left out is a notice that
  repeats the error shown right before it).
\<close>
theorem transcript_shows_items_once:
  "case emit_all reduce_item (reducer_new depth) items of (self, _) \<Rightarrow>
     distinct (concat (map row_item_ids (regroup self)))
     \<and> set (concat (map row_item_ids (regroup self))) \<subseteq> dom (map_of (rx_items self))
     \<and> {i. \<exists>slot. map_of (rx_items self) i = Some slot \<and> \<not> is_notice (sl_item slot)}
         \<subseteq> set (concat (map row_item_ids (regroup self)))"
proof -
  obtain self ops where e: "emit_all reduce_item (reducer_new depth) items = (self, ops)" by fastforce
  have "filed self" using emit_events_fresh [OF new_fresh, of depth items] by (simp add: e fresh_def)
  from filed_regroup_shown [OF this] show ?thesis by (simp only: e prod.case)
qed

end
