(* ===== verification/Gateway_Auth.thy ===== *)
theory Gateway_Auth
  imports Rust_Str "HOL-Library.Word"
begin

unbundle bit_operations_syntax

text \<open>
  Pairing and bearer tokens of the gateway (\<open>crates/mobius-gateway/src/auth.rs\<close>), the publication of the
  state file it relies on (\<open>publication.rs\<close>) and the credentials that carry the channel key
  (\<open>channel.rs\<close>).  An operation takes the state of the store, which includes the file on disk, and returns
  the state it leaves, also when it fails.  SHA-256, UUIDs and the JSON codec are the functions of
  \<open>auth_env\<close>; what the file system answers to each call is an \<open>io_env\<close>.
\<close>

subsection \<open>Errors and publication\<close>

datatype gateway_error =
    GConfig string
  | GProtocol string
  | GUnauthorized
  | GIo string
  | GJson string
  | GMobius error
  | GSqlite string
  | PublicationApplied gateway_error

type_synonym 'a gres = "gateway_error + 'a"

definition io_res :: "string + 'a \<Rightarrow> 'a gres" where
  "io_res r = (case r of Inl e \<Rightarrow> Inl (GIo e) | Inr x \<Rightarrow> Inr x)"

definition json_res :: "string + 'a \<Rightarrow> 'a gres" where
  "json_res r = (case r of Inl e \<Rightarrow> Inl (GJson e) | Inr x \<Rightarrow> Inr x)"

text \<open>The answers of the file system to the calls of one publication.\<close>

record io_env =
  io_has_parent :: bool
  io_create_dir :: "string + unit"
  io_open_parent :: "string + unit"
  io_temp :: "string + unit"
  io_permissions :: "string + unit"
  io_write :: "string + unit"
  io_sync :: "string + unit"
  io_rename :: "string + unit"
  io_sync_parent :: "string + unit"

fun applied_error :: "gateway_error \<Rightarrow> gateway_error" where
  "applied_error (PublicationApplied e) = PublicationApplied e"
| "applied_error e = PublicationApplied e"

definition publish_file :: "io_env \<Rightarrow> string option \<Rightarrow> string \<Rightarrow> bool \<Rightarrow> string option \<times> unit gres" where
  "publish_file io file contents create_new =
     (case (if \<not> io_has_parent io then Inl (GConfig ''publication path has no parent'')
            else res_bind (io_res (io_open_parent io)) (\<lambda>_. res_bind (io_res (io_temp io)) (\<lambda>_.
                 res_bind (io_res (io_permissions io)) (\<lambda>_. res_bind (io_res (io_write io)) (\<lambda>_.
                 io_res (io_sync io)))))) of
        Inl e \<Rightarrow> (file, Inl e)
      | Inr _ \<Rightarrow>
          (if create_new \<and> file \<noteq> None then (file, Inl (GIo ''file exists''))
           else (case io_res (io_rename io) of
               Inl e \<Rightarrow> (file, Inl e)
             | Inr _ \<Rightarrow> (Some contents, (case io_res (io_sync_parent io) of
                   Inl e \<Rightarrow> Inl (applied_error e)
                 | Inr _ \<Rightarrow> Inr ())))))"

text \<open>\<open>Outcome\<close>: an applied write with the error that kept it from being confirmed.\<close>

definition outcome_applied :: "unit gres \<Rightarrow> gateway_error option gres" where
  "outcome_applied r = (case r of
      Inr _ \<Rightarrow> Inr None
    | Inl (PublicationApplied e) \<Rightarrow> Inr (Some (PublicationApplied e))
    | Inl e \<Rightarrow> Inl e)"

definition outcome_confirm :: "gateway_error option \<Rightarrow> unit gres" where
  "outcome_confirm o' = (case o' of None \<Rightarrow> Inr () | Some e \<Rightarrow> Inl e)"

subsection \<open>Credentials\<close>

type_synonym byte = "8 word"

definition hex_digit :: "byte \<Rightarrow> char" where
  "hex_digit w = char_of (unat (if w < 10 then 48 + w else 87 + w))"

definition hex_value :: "char \<Rightarrow> byte" where
  "hex_value c = (let w = (of_char c :: byte) in if 48 \<le> w \<and> w \<le> 57 then w - 48 else w - 97 + 10)"

definition is_lower_hex :: "char \<Rightarrow> bool" where
  "is_lower_hex c = (let n = (of_char c :: nat) in (48 \<le> n \<and> n \<le> 57) \<or> (97 \<le> n \<and> n \<le> 102))"

fun hex_bytes :: "byte list \<Rightarrow> string" where
  "hex_bytes [] = []"
| "hex_bytes (b # bs) = hex_digit (drop_bit 4 b) # hex_digit (take_bit 4 b) # hex_bytes bs"

fun decode_hex :: "string \<Rightarrow> byte list" where
  "decode_hex (high # low # s) = (push_bit 4 (hex_value high) OR hex_value low) # decode_hex s"
| "decode_hex _ = []"

definition credential :: "byte list \<Rightarrow> string \<Rightarrow> string" where
  "credential public secret = ''m1.'' @ hex_bytes public @ ''.'' @ secret"

definition split_once :: "char \<Rightarrow> string \<Rightarrow> (string \<times> string) option" where
  "split_once c s = (if c \<in> set s then Some (takeWhile (\<lambda>x. x \<noteq> c) s, tl (dropWhile (\<lambda>x. x \<noteq> c) s)) else None)"

definition credential_invalid :: gateway_error where
  "credential_invalid = GConfig ''this WebSocket gateway requires a new pairing code with its encryption identity; pair again''"

definition credential_key :: "string \<Rightarrow> byte list gres" where
  "credential_key cred = (case Option.bind (strip_prefix ''m1.'' cred) (split_once CHR ''.'') of
      None \<Rightarrow> Inl credential_invalid
    | Some (key, secret) \<Rightarrow>
        (if length key \<noteq> 64 \<or> \<not> (length secret = 32 \<or> length secret = 64)
            \<or> \<not> list_all is_lower_hex (key @ secret)
         then Inl credential_invalid else Inr (decode_hex key)))"

subsection \<open>Authentication state\<close>

record auth_config =
  acf_paired_clients :: nat
  acf_pairing_lifetime_seconds :: nat

record pending_pairing =
  pp_digest :: string
  pp_expires_at :: int

record client_token =
  cl_id :: string
  cl_label :: string
  cl_digest :: string
  cl_created_at :: int

record auth_state =
  au_pending_pairing :: "pending_pairing option"
  au_clients :: "client_token list"

record client_identity =
  ci_id :: string
  ci_label :: string

record issued_token =
  it_client_id :: string
  it_token :: string

record pairing_grant =
  pg_code :: string
  pg_expires_at :: int

datatype pairing_status = PairingPending | PairingConsumed | PairingReplaced

record auth_env =
  ae_digest :: "string \<Rightarrow> string"
  ae_uuid_parse :: "string \<Rightarrow> string + string"
  ae_uuid_of_bytes :: "string \<Rightarrow> string"
  ae_print :: "auth_state \<Rightarrow> string + string"
  ae_parse :: "string \<Rightarrow> string + auth_state"

record auth_store =
  as_file :: "string option"
  as_state :: auth_state
  as_public :: "byte list"
  as_config :: auth_config

definition MAX_CLIENT_CREDENTIAL_BYTES :: nat where "MAX_CLIENT_CREDENTIAL_BYTES = 512"
definition MAX_CLIENT_LABEL_BYTES :: nat where "MAX_CLIENT_LABEL_BYTES = 128"
definition MAX_AUTH_STATE_BYTES :: nat where "MAX_AUTH_STATE_BYTES = 2 * 1024 * 1024"
definition REVOKED_PAIRING_EXPIRY :: int where "REVOKED_PAIRING_EXPIRY = 0"
definition MAX_CAPACITY :: nat where "MAX_CAPACITY = 4096"
definition LOCAL_CLIENT_ID :: string where "LOCAL_CLIENT_ID = ''00000000-0000-0000-0000-000000000001''"
definition LOCAL_CLIENT_LABEL :: string where
  "LOCAL_CLIENT_LABEL = ''Local m'' @ [CHR 0xC3, CHR 0xB6] @ ''bius CLI''"

definition is_local_operator :: "string \<Rightarrow> bool" where
  "is_local_operator i \<longleftrightarrow> i = LOCAL_CLIENT_ID"

definition bounded :: "string \<Rightarrow> nat \<Rightarrow> nat \<Rightarrow> nat \<Rightarrow> unit gres" where
  "bounded name v low high = (if low \<le> v \<and> v \<le> high then Inr ()
     else Inl (GConfig (name @ '' must be between '' @ show_nat low @ '' and '' @ show_nat high)))"

definition auth_config_validate :: "auth_config \<Rightarrow> unit gres" where
  "auth_config_validate cf = res_bind (bounded ''auth.paired_clients'' (acf_paired_clients cf) 1 MAX_CAPACITY)
     (\<lambda>_. bounded ''auth.pairing_lifetime_seconds'' (acf_pairing_lifetime_seconds cf) 1 86400)"

definition client_identity_of :: "client_token \<Rightarrow> client_identity" where
  "client_identity_of c = \<lparr>ci_id = cl_id c, ci_label = cl_label c\<rparr>"

text \<open>\<open>char::is_control\<close> over UTF-8 bytes: the C0 controls, DEL and the two-byte C1 controls.\<close>

fun has_control :: "string \<Rightarrow> bool" where
  "has_control [] = False"
| "has_control (c # cs) = ((of_char c :: nat) < 32 \<or> (of_char c :: nat) = 127
     \<or> ((of_char c :: nat) = 0xC2 \<and> cs \<noteq> [] \<and> 0x80 \<le> (of_char (hd cs) :: nat) \<and> (of_char (hd cs) :: nat) \<le> 0x9F)
     \<or> has_control cs)"

definition label_invalid :: gateway_error where
  "label_invalid = GConfig (''client label must be canonical, control-free, and 1'' @ [CHR 0xE2, CHR 0x80, CHR 0x93]
     @ show_nat MAX_CLIENT_LABEL_BYTES @ '' bytes'')"

definition validate_client_label :: "string \<Rightarrow> unit gres" where
  "validate_client_label label =
     (if label = [] \<or> label \<noteq> trim label \<or> MAX_CLIENT_LABEL_BYTES < length label \<or> has_control label
      then Inl label_invalid else Inr ())"

fun validate_clients :: "auth_env \<Rightarrow> string list \<Rightarrow> string list \<Rightarrow> client_token list \<Rightarrow> unit gres" where
  "validate_clients env client_ids token_digests [] = Inr ()"
| "validate_clients env client_ids token_digests (c # cs) = (case ae_uuid_parse env (cl_id c) of
      Inl e \<Rightarrow> Inl (GConfig (''authentication client ID is invalid: '' @ e))
    | Inr canonical \<Rightarrow>
        (if canonical \<noteq> cl_id c then Inl (GConfig ''authentication client ID must be canonical'')
         else if cl_id c \<in> set client_ids then Inl (GConfig ''authentication state contains duplicate client IDs'')
         else if cl_digest c \<in> set token_digests then Inl (GConfig ''authentication state contains duplicate token digests'')
         else res_bind (validate_client_label (cl_label c))
           (\<lambda>_. validate_clients env (cl_id c # client_ids) (cl_digest c # token_digests) cs)))"

definition validate_auth_state :: "auth_env \<Rightarrow> auth_state \<Rightarrow> unit gres" where
  "validate_auth_state env st =
     (if MAX_CAPACITY < length (au_clients st) then Inl (GConfig ''authentication state exceeds the client limit'')
      else if au_pending_pairing st = None \<and> au_clients st = []
      then Inl (GConfig ''authentication state has neither pairing nor client access'')
      else validate_clients env [] [] (au_clients st))"

definition credential_matches :: "auth_env \<Rightarrow> string \<Rightarrow> string \<Rightarrow> bool" where
  "credential_matches env candidate expected \<longleftrightarrow>
     candidate \<noteq> [] \<and> length candidate \<le> MAX_CLIENT_CREDENTIAL_BYTES \<and> ae_digest env candidate = expected"

definition pairing_client_id :: "auth_env \<Rightarrow> string \<Rightarrow> string" where
  "pairing_client_id env code = ae_uuid_of_bytes env (take 16 (ae_digest env code))"

definition random_secret :: "string list \<Rightarrow> nat \<Rightarrow> string" where
  "random_secret fresh parts = concat (take parts fresh)"

definition new_pairing_grant :: "byte list \<Rightarrow> nat \<Rightarrow> int \<Rightarrow> string list \<Rightarrow> pairing_grant gres" where
  "new_pairing_grant public lifetime_seconds now fresh =
     (if i64_max < int lifetime_seconds then Inl (GConfig ''pairing lifetime is too large'')
      else (case i64_checked_add now (int lifetime_seconds) of
          None \<Rightarrow> Inl (GConfig ''pairing expiry overflow'')
        | Some expires_at \<Rightarrow> Inr \<lparr>pg_code = credential public (random_secret fresh 1), pg_expires_at = expires_at\<rparr>))"

definition save_auth_state ::
    "auth_env \<Rightarrow> io_env \<Rightarrow> string option \<Rightarrow> auth_state \<Rightarrow> bool \<Rightarrow> string option \<times> unit gres" where
  "save_auth_state env io file st create_new =
     (case (if \<not> io_has_parent io then Inl (GConfig ''authentication path has no parent'')
            else res_bind (io_res (io_create_dir io)) (\<lambda>_. res_bind (validate_auth_state env st) (\<lambda>_.
                 json_res (ae_print env st)))) of
        Inl e \<Rightarrow> (file, Inl e)
      | Inr contents \<Rightarrow> publish_file io file contents create_new)"

subsection \<open>Operations\<close>

definition publish_state ::
    "auth_env \<Rightarrow> io_env \<Rightarrow> auth_store \<Rightarrow> auth_state \<Rightarrow> (auth_state \<Rightarrow> auth_state) \<Rightarrow> auth_store \<times> unit gres" where
  "publish_state env io self st undo = (case save_auth_state env io (as_file self) st False of
      (file, r) \<Rightarrow> (case outcome_applied r of
          Inr publication \<Rightarrow> (self\<lparr>as_file := file, as_state := st\<rparr>, outcome_confirm publication)
        | Inl e \<Rightarrow> (self\<lparr>as_file := file, as_state := undo st\<rparr>, Inl e)))"

definition then_issue :: "auth_store \<times> unit gres \<Rightarrow> 'a \<Rightarrow> auth_store \<times> 'a gres" where
  "then_issue p x = (case p of (self, r) \<Rightarrow> (self, res_bind r (\<lambda>_. Inr x)))"

definition initialize_validated ::
    "auth_env \<Rightarrow> io_env \<Rightarrow> string option \<Rightarrow> auth_config \<Rightarrow> byte list gres \<Rightarrow> int \<Rightarrow> string list
      \<Rightarrow> string option \<times> (auth_store \<times> pairing_grant) gres" where
  "initialize_validated env io file cf identity now fresh =
     (case (if \<not> io_has_parent io then Inl (GConfig ''authentication path has no parent'')
            else res_bind (io_res (io_create_dir io)) (\<lambda>_. res_bind identity (\<lambda>public.
                 res_bind (new_pairing_grant public (acf_pairing_lifetime_seconds cf) now fresh) (\<lambda>grant. Inr (public, grant))))) of
        Inl e \<Rightarrow> (file, Inl e)
      | Inr (public, grant) \<Rightarrow>
          (let st = \<lparr>au_pending_pairing = Some \<lparr>pp_digest = ae_digest env (pg_code grant), pp_expires_at = pg_expires_at grant\<rparr>,
                 au_clients = []\<rparr>
           in case save_auth_state env io file st True of
                (file', r) \<Rightarrow> (file', res_bind r (\<lambda>_.
                   Inr (\<lparr>as_file = file', as_state = st, as_public = public, as_config = cf\<rparr>, grant)))))"

definition initialize ::
    "auth_env \<Rightarrow> io_env \<Rightarrow> string option \<Rightarrow> auth_config \<Rightarrow> byte list gres \<Rightarrow> int \<Rightarrow> string list
      \<Rightarrow> string option \<times> (auth_store \<times> pairing_grant) gres" where
  "initialize env io file cf identity now fresh = (case auth_config_validate cf of
      Inl e \<Rightarrow> (file, Inl e)
    | Inr _ \<Rightarrow> initialize_validated env io file cf identity now fresh)"

definition open_store :: "auth_env \<Rightarrow> string option \<Rightarrow> bool \<Rightarrow> auth_config \<Rightarrow> byte list gres \<Rightarrow> auth_store gres" where
  "open_store env file regular cf identity = res_bind (auth_config_validate cf) (\<lambda>_. case file of
      None \<Rightarrow> Inl (GIo ''no such file'')
    | Some contents \<Rightarrow>
        (if \<not> regular then Inl (GConfig ''authentication state must be a regular file'')
         else if MAX_AUTH_STATE_BYTES < length contents then Inl (GConfig ''authentication state is too large'')
         else res_bind (json_res (ae_parse env contents)) (\<lambda>st. res_bind (validate_auth_state env st) (\<lambda>_.
              res_bind identity (\<lambda>public.
                Inr \<lparr>as_file = file, as_state = st, as_public = public, as_config = cf\<rparr>)))))"

definition pairing_code_accepted :: "auth_env \<Rightarrow> auth_state \<Rightarrow> string \<Rightarrow> int \<Rightarrow> bool" where
  "pairing_code_accepted env st code now = (case au_pending_pairing st of
      None \<Rightarrow> False
    | Some pending \<Rightarrow> \<not> (pp_expires_at pending \<le> now \<or> \<not> credential_matches env code (pp_digest pending)))"

definition pair_at ::
    "auth_env \<Rightarrow> io_env \<Rightarrow> auth_store \<Rightarrow> string \<Rightarrow> string \<Rightarrow> int \<Rightarrow> string list \<Rightarrow> auth_store \<times> issued_token gres" where
  "pair_at env io self code client_label now fresh = (case validate_client_label client_label of
      Inl e \<Rightarrow> (self, Inl e)
    | Inr _ \<Rightarrow>
        (let st = as_state self in
         if \<not> pairing_code_accepted env st code now then (self, Inl GUnauthorized)
         else if acf_paired_clients (as_config self) \<le> length (au_clients st)
         then (self, Inl (GConfig ''paired client limit reached''))
         else
           (let token = credential (as_public self) (random_secret fresh 2);
                pending = au_pending_pairing st;
                st' = st\<lparr>au_pending_pairing := None, au_clients := au_clients st @ [\<lparr>cl_id = pairing_client_id env code,
                  cl_label = client_label, cl_digest = ae_digest env token, cl_created_at = now\<rparr>]\<rparr>
            in then_issue (publish_state env io self st'
                 (\<lambda>s. s\<lparr>au_clients := butlast (au_clients s), au_pending_pairing := pending\<rparr>))
                 \<lparr>it_client_id = pairing_client_id env code, it_token = token\<rparr>)))"

definition update_first :: "('a \<Rightarrow> bool) \<Rightarrow> ('a \<Rightarrow> 'a) \<Rightarrow> 'a list \<Rightarrow> 'a list" where
  "update_first P f xs = (case position P xs of None \<Rightarrow> xs | Some i \<Rightarrow> xs[i := f (xs ! i)])"

definition repair_pairing ::
    "auth_env \<Rightarrow> io_env \<Rightarrow> auth_store \<Rightarrow> string \<Rightarrow> string \<Rightarrow> string \<Rightarrow> int \<Rightarrow> string list \<Rightarrow> auth_store \<times> issued_token gres" where
  "repair_pairing env io self code replacing_token_digest client_label now fresh = (case validate_client_label client_label of
      Inl e \<Rightarrow> (self, Inl e)
    | Inr _ \<Rightarrow>
        (let st = as_state self in
         if \<not> pairing_code_accepted env st code now then (self, Inl GUnauthorized)
         else (case rposition (\<lambda>c. cl_digest c = replacing_token_digest) (au_clients st) of
             None \<Rightarrow> (self, Inl GUnauthorized)
           | Some index \<Rightarrow>
               (let client = au_clients st ! index;
                    token = credential (as_public self) (random_secret fresh 2);
                    client_id = cl_id client;
                    pending = au_pending_pairing st;
                    st' = st\<lparr>au_pending_pairing := None, au_clients := (au_clients st)[index := client\<lparr>
                      cl_label := client_label, cl_digest := ae_digest env token, cl_created_at := now\<rparr>]\<rparr>
                in then_issue (publish_state env io self st' (\<lambda>s. s\<lparr>au_pending_pairing := pending,
                       au_clients := update_first (\<lambda>c. cl_id c = client_id) (\<lambda>c. c\<lparr>cl_label := cl_label client,
                         cl_digest := cl_digest client, cl_created_at := cl_created_at client\<rparr>) (au_clients s)\<rparr>))
                     \<lparr>it_client_id = client_id, it_token = token\<rparr>))))"

definition provision_local_client ::
    "auth_env \<Rightarrow> io_env \<Rightarrow> auth_store \<Rightarrow> int \<Rightarrow> string list \<Rightarrow> auth_store \<times> issued_token gres" where
  "provision_local_client env io self now fresh =
     (let token = credential (as_public self) (random_secret fresh 2);
          st = as_state self;
          issued = \<lparr>it_client_id = LOCAL_CLIENT_ID, it_token = token\<rparr>
      in case position (\<lambda>c. cl_id c = LOCAL_CLIENT_ID) (au_clients st) of
           Some index \<Rightarrow>
             (let client = au_clients st ! index;
                  st' = st\<lparr>au_clients := (au_clients st)[index := client\<lparr>cl_digest := ae_digest env token, cl_created_at := now\<rparr>]\<rparr>
              in then_issue (publish_state env io self st' (\<lambda>s. s\<lparr>au_clients :=
                   update_first (\<lambda>c. cl_id c = LOCAL_CLIENT_ID) (\<lambda>c. c\<lparr>cl_digest := cl_digest client,
                     cl_created_at := cl_created_at client\<rparr>) (au_clients s)\<rparr>)) issued)
         | None \<Rightarrow>
             (if acf_paired_clients (as_config self) \<le> length (au_clients st)
              then (self, Inl (GConfig ''paired client limit reached''))
              else then_issue (publish_state env io self (st\<lparr>au_clients := au_clients st @ [\<lparr>cl_id = LOCAL_CLIENT_ID,
                     cl_label = LOCAL_CLIENT_LABEL, cl_digest = ae_digest env token, cl_created_at = now\<rparr>]\<rparr>)
                     (\<lambda>s. s\<lparr>au_clients := butlast (au_clients s)\<rparr>)) issued))"

definition create_pairing_code ::
    "auth_env \<Rightarrow> io_env \<Rightarrow> auth_store \<Rightarrow> int \<Rightarrow> string list \<Rightarrow> auth_store \<times> pairing_grant gres" where
  "create_pairing_code env io self now fresh =
     (case new_pairing_grant (as_public self) (acf_pairing_lifetime_seconds (as_config self)) now fresh of
        Inl e \<Rightarrow> (self, Inl e)
      | Inr grant \<Rightarrow>
          (let pending = au_pending_pairing (as_state self) in
           then_issue (publish_state env io self ((as_state self)\<lparr>au_pending_pairing := Some \<lparr>pp_digest = ae_digest env (pg_code grant),
               pp_expires_at = pg_expires_at grant\<rparr>\<rparr>) (\<lambda>s. s\<lparr>au_pending_pairing := pending\<rparr>)) grant))"

definition authenticate :: "auth_env \<Rightarrow> auth_store \<Rightarrow> string \<Rightarrow> client_identity gres" where
  "authenticate env self token =
     (if token = [] \<or> MAX_CLIENT_CREDENTIAL_BYTES < length token then Inl GUnauthorized
      else (case find (\<lambda>c. cl_digest c = ae_digest env token) (rev (au_clients (as_state self))) of
          None \<Rightarrow> Inl GUnauthorized
        | Some client \<Rightarrow> Inr (client_identity_of client)))"

definition auth_clients :: "auth_store \<Rightarrow> client_identity list" where
  "auth_clients self = map client_identity_of (au_clients (as_state self))"

definition unpair_client :: "auth_env \<Rightarrow> io_env \<Rightarrow> auth_store \<Rightarrow> string \<Rightarrow> string \<Rightarrow> auth_store \<times> bool gres" where
  "unpair_client env io self actor_id client_id =
     (if actor_id = client_id then (self, Inr False)
      else (let st = as_state self in
        if \<not> list_ex (\<lambda>c. cl_id c = actor_id) (au_clients st) then (self, Inr False)
        else (case position (\<lambda>c. cl_id c = client_id) (au_clients st) of
            None \<Rightarrow> (self, Inr False)
          | Some index \<Rightarrow>
              (let removed = au_clients st ! index
               in then_issue (publish_state env io self (st\<lparr>au_clients := remove_nth index (au_clients st)\<rparr>)
                    (\<lambda>s. s\<lparr>au_clients := take index (au_clients s) @ removed # drop index (au_clients s)\<rparr>)) True))))"

definition pairing_status_of :: "auth_env \<Rightarrow> auth_store \<Rightarrow> string \<Rightarrow> pairing_status" where
  "pairing_status_of env self code =
     (if list_ex (\<lambda>c. cl_id c = pairing_client_id env code) (au_clients (as_state self)) then PairingConsumed
      else (case au_pending_pairing (as_state self) of
          Some pending \<Rightarrow> (if credential_matches env code (pp_digest pending) then PairingPending else PairingReplaced)
        | None \<Rightarrow> PairingReplaced))"

definition revoke_pairing_code :: "auth_env \<Rightarrow> io_env \<Rightarrow> auth_store \<Rightarrow> string \<Rightarrow> string list \<Rightarrow> auth_store \<times> unit gres" where
  "revoke_pairing_code env io self code fresh = (case au_pending_pairing (as_state self) of
      None \<Rightarrow> (self, Inr ())
    | Some pending \<Rightarrow>
        (if \<not> credential_matches env code (pp_digest pending) then (self, Inr ())
         else publish_state env io self ((as_state self)\<lparr>au_pending_pairing := Some
             \<lparr>pp_digest = ae_digest env (random_secret fresh 1), pp_expires_at = REVOKED_PAIRING_EXPIRY\<rparr>\<rparr>)
           (\<lambda>s. s\<lparr>au_pending_pairing := Some pending\<rparr>)))"

text \<open>Any sequence of operations, each with the answers the file system gave it.\<close>

datatype auth_op =
    OpPair string string int "string list"
  | OpRepair string string string int "string list"
  | OpProvision int "string list"
  | OpCreateCode int "string list"
  | OpUnpair string string
  | OpRevoke string "string list"

fun auth_do :: "auth_env \<Rightarrow> auth_store \<Rightarrow> io_env \<times> auth_op \<Rightarrow> auth_store" where
  "auth_do env self (io, OpPair code label now fresh) = fst (pair_at env io self code label now fresh)"
| "auth_do env self (io, OpRepair code dig label now fresh) = fst (repair_pairing env io self code dig label now fresh)"
| "auth_do env self (io, OpProvision now fresh) = fst (provision_local_client env io self now fresh)"
| "auth_do env self (io, OpCreateCode now fresh) = fst (create_pairing_code env io self now fresh)"
| "auth_do env self (io, OpUnpair actor client) = fst (unpair_client env io self actor client)"
| "auth_do env self (io, OpRevoke code fresh) = fst (revoke_pairing_code env io self code fresh)"

definition auth_run :: "auth_env \<Rightarrow> auth_store \<Rightarrow> (io_env \<times> auth_op) list \<Rightarrow> auth_store" where
  "auth_run env self ops = foldl (auth_do env) self ops"

subsection \<open>The state and its file\<close>

definition codec_ok :: "auth_env \<Rightarrow> bool" where
  "codec_ok env \<longleftrightarrow> (\<forall>st contents. ae_print env st = Inr contents \<longrightarrow> ae_parse env contents = Inr st)"

definition auth_inv :: "auth_env \<Rightarrow> auth_store \<Rightarrow> bool" where
  "auth_inv env self \<longleftrightarrow> validate_auth_state env (as_state self) = Inr ()
     \<and> (\<exists>contents. as_file self = Some contents \<and> ae_parse env contents = Inr (as_state self))"

lemma validate_clients_iff:
  "validate_clients env ids digests cs = Inr () \<longleftrightarrow> distinct (map cl_id cs) \<and> distinct (map cl_digest cs)
     \<and> (\<forall>c \<in> set cs. ae_uuid_parse env (cl_id c) = Inr (cl_id c) \<and> cl_id c \<notin> set ids \<and> cl_digest c \<notin> set digests
          \<and> validate_client_label (cl_label c) = Inr ())"
proof (induction cs arbitrary: ids digests)
  case (Cons c cs)
  then show ?case by (auto simp: res_bind_Inr_iff split: sum.splits) (metis imageI)+
qed simp

lemma validate_auth_state_distinct:
  "validate_auth_state env st = Inr () \<Longrightarrow> distinct (map cl_id (au_clients st)) \<and> distinct (map cl_digest (au_clients st))"
  by (auto simp: validate_auth_state_def validate_clients_iff split: if_splits)

lemma io_res_not_applied: "io_res r \<noteq> Inl (PublicationApplied e)"
  by (auto simp: io_res_def split: sum.splits)

lemma publish_file_cases:
  "publish_file io file contents create_new = (Some contents, Inr ())
   \<or> (\<exists>e. publish_file io file contents create_new = (Some contents, Inl (PublicationApplied e)))
   \<or> (\<exists>e. publish_file io file contents create_new = (file, Inl e) \<and> (\<forall>e'. e \<noteq> PublicationApplied e'))"
proof -
  have "\<exists>e'. applied_error e = PublicationApplied e'" for e by (cases e) auto
  then show ?thesis
    unfolding publish_file_def by (auto simp: io_res_def res_bind_def split: sum.splits if_splits)
qed

text \<open>A save either leaves the file as it was and reports an unapplied error, or replaces it with the new state.\<close>

lemma save_auth_state_cases:
  "(\<exists>e. save_auth_state env io file st create_new = (file, Inl e) \<and> (\<forall>e'. e \<noteq> PublicationApplied e'))
   \<or> (\<exists>contents r. save_auth_state env io file st create_new = (Some contents, r) \<and> ae_print env st = Inr contents
        \<and> validate_auth_state env st = Inr () \<and> (r = Inr () \<or> (\<exists>e. r = Inl (PublicationApplied e))))"
proof -
  have v: "validate_client_label l \<noteq> Inl (PublicationApplied e)" for l e
    by (simp add: validate_client_label_def label_invalid_def)
  have "validate_clients env ids ds cs \<noteq> Inl (PublicationApplied e)" for ids ds cs e
    by (induction cs arbitrary: ids ds) (auto simp: res_bind_def v split: sum.splits)
  then have "validate_auth_state env st \<noteq> Inl (PublicationApplied e)" for e by (simp add: validate_auth_state_def)
  with publish_file_cases [of io "file" _ create_new] show ?thesis
    unfolding save_auth_state_def
    by (fastforce simp: io_res_def json_res_def res_bind_def split: sum.splits if_splits)
qed

lemma publish_state_cases:
  obtains (unchanged) e where "publish_state env io self st undo = (self\<lparr>as_state := undo st\<rparr>, Inl e)"
  | (changed) contents r where "publish_state env io self st undo = (self\<lparr>as_file := Some contents, as_state := st\<rparr>, r)"
      "ae_print env st = Inr contents" "validate_auth_state env st = Inr ()"
proof -
  from save_auth_state_cases [of env io "as_file self" st False] show ?thesis
  proof (elim disjE exE conjE)
    fix e
    assume "save_auth_state env io (as_file self) st False = (as_file self, Inl e)" "\<forall>e'. e \<noteq> PublicationApplied e'"
    then have "publish_state env io self st undo = (self\<lparr>as_state := undo st\<rparr>, Inl e)"
      by (simp add: publish_state_def outcome_applied_def split: gateway_error.splits)
    then show ?thesis by (rule unchanged)
  next
    fix contents r
    assume s: "save_auth_state env io (as_file self) st False = (Some contents, r)" and p: "ae_print env st = Inr contents"
      "validate_auth_state env st = Inr ()" and "r = Inr ()"
    then have "publish_state env io self st undo = (self\<lparr>as_file := Some contents, as_state := st\<rparr>, Inr ())"
      by (simp add: publish_state_def outcome_applied_def outcome_confirm_def)
    then show ?thesis by (rule changed [OF _ p])
  next
    fix contents r e
    assume s: "save_auth_state env io (as_file self) st False = (Some contents, r)" and p: "ae_print env st = Inr contents"
      "validate_auth_state env st = Inr ()" and "r = Inl (PublicationApplied e)"
    then have "publish_state env io self st undo = (self\<lparr>as_file := Some contents, as_state := st\<rparr>, Inl (PublicationApplied e))"
      by (simp add: publish_state_def outcome_applied_def outcome_confirm_def)
    then show ?thesis by (rule changed [OF _ p])
  qed
qed

text \<open>
  The contract of a publication with an undo: when the undo takes the new state back to the current one, the
  invariant is kept whatever the publication answers.  Every operation of the store is such a publication or
  changes nothing.
\<close>

locale undo_publication =
  fixes publish :: "'io \<Rightarrow> 's \<Rightarrow> 'a \<Rightarrow> ('a \<Rightarrow> 'a) \<Rightarrow> 's \<times> 'r"
    and state :: "'s \<Rightarrow> 'a" and inv :: "'s \<Rightarrow> bool"
  assumes publish_inv: "inv s \<Longrightarrow> undo a = state s \<Longrightarrow> inv (fst (publish io s a undo))"
begin

lemma run_inv:
  assumes "\<And>s p. inv s \<Longrightarrow> step s p = s \<or> (\<exists>io a undo. undo a = state s \<and> step s p = fst (publish io s a undo))"
    and "inv s"
  shows "inv (foldl step s ps)"
  using assms(2)
proof (induction ps arbitrary: s)
  case (Cons p ps)
  from assms(1) [OF Cons.prems, of p] Cons.prems have "inv (step s p)"
    by (elim disjE exE conjE) (simp_all add: publish_inv)
  then show ?case using Cons.IH by simp
qed simp

end

lemma publish_state_inv:
  assumes "codec_ok env" and inv: "auth_inv env self" and undo: "undo st = as_state self"
  shows "auth_inv env (fst (publish_state env io self st undo))"
proof (cases rule: publish_state_cases [of env io self st undo])
  case (unchanged e)
  with undo have "fst (publish_state env io self st undo) = self" by simp
  with inv show ?thesis by simp
next
  case (changed contents r)
  with assms(1) show ?thesis by (auto simp: auth_inv_def codec_ok_def)
qed

interpretation ap: undo_publication "publish_state env" as_state "\<lambda>self. codec_ok env \<and> auth_inv env self" for env
  by unfold_locales (simp add: publish_state_inv)

lemma update_first_undo:
  assumes "distinct (map k xs)" and "i < length xs" and "k (xs ! i) = v" and "k y = v" and "f y = xs ! i"
  shows "update_first (\<lambda>x. k x = v) f (xs[i := y]) = xs"
proof -
  have "position (\<lambda>x. k x = v) (xs[i := y]) = Some i"
    unfolding position_Some_iff using assms by (auto simp: distinct_conv_nth nth_list_update)
  with assms show ?thesis by (simp add: update_first_def)
qed

lemma then_issue_fst [simp]: "fst (then_issue p x) = fst p"
  by (simp add: then_issue_def split: prod.split)

lemma publishedI:
  "undo st = as_state self \<Longrightarrow> \<exists>io' st' undo'. undo' st' = as_state self
     \<and> fst (publish_state env io self st undo) = fst (publish_state env io' self st' undo')"
  by blast

lemma auth_do_undoes:
  assumes "auth_inv env self"
  shows "auth_do env self p = self
    \<or> (\<exists>io st undo. undo st = as_state self \<and> auth_do env self p = fst (publish_state env io self st undo))"
proof -
  obtain io op where p: "p = (io, op)" by fastforce
  have d: "distinct (map cl_id (au_clients (as_state self)))"
    using assms validate_auth_state_distinct by (auto simp: auth_inv_def)
  show ?thesis
  proof (cases op)
    case (OpPair code label now fresh)
    then show ?thesis by (auto simp: p pair_at_def Let_def intro!: publishedI split: sum.splits)
  next
    case (OpRepair code dig label now fresh)
    then show ?thesis
      by (auto simp: p repair_pairing_def Let_def update_first_undo [OF d] simp del: rposition_None
          intro!: publishedI dest!: rposition_SomeD split: sum.splits option.splits)
  next
    case (OpProvision now fresh)
    show ?thesis
    proof (cases "position (\<lambda>c. cl_id c = LOCAL_CLIENT_ID) (au_clients (as_state self))")
      case None
      then show ?thesis
        by (auto simp: p OpProvision provision_local_client_def Let_def simp del: position_None intro!: publishedI)
    next
      case (Some i)
      from position_SomeD [OF this] have "i < length (au_clients (as_state self))"
        "cl_id (au_clients (as_state self) ! i) = LOCAL_CLIENT_ID" by simp_all
      with Some show ?thesis
        by (auto simp: p OpProvision provision_local_client_def Let_def update_first_undo [OF d] intro!: publishedI)
    qed
  next
    case (OpCreateCode now fresh)
    then show ?thesis by (auto simp: p create_pairing_code_def Let_def intro!: publishedI split: sum.splits)
  next
    case (OpUnpair actor client)
    then show ?thesis
      by (auto simp: p unpair_client_def Let_def insert_remove_nth simp del: position_None
          intro!: publishedI dest!: position_SomeD split: option.splits)
  next
    case (OpRevoke code fresh)
    then show ?thesis by (auto simp: p revoke_pairing_code_def intro!: publishedI split: option.splits)
  qed
qed

subsection \<open>A sample store\<close>

definition sample_token :: string where
  "sample_token = credential (replicate 32 0) (concat (replicate 2 (replicate 32 CHR ''a'')))"

definition sample_client :: "string \<Rightarrow> string \<Rightarrow> client_token" where
  "sample_client i dig = \<lparr>cl_id = i, cl_label = ''mac'', cl_digest = dig, cl_created_at = 5\<rparr>"

definition sample_pending :: auth_state where
  "sample_pending = \<lparr>au_pending_pairing = Some \<lparr>pp_digest = ''code'', pp_expires_at = 100\<rparr>, au_clients = [sample_client ''one'' ''t1'']\<rparr>"

definition sample_paired :: auth_state where
  "sample_paired = \<lparr>au_pending_pairing = None, au_clients = [sample_client ''one'' ''t1'', sample_client ''code'' sample_token]\<rparr>"

definition sample_single :: auth_state where
  "sample_single = \<lparr>au_pending_pairing = None, au_clients = [sample_client ''one'' ''t1'']\<rparr>"

definition sample_auth_env :: auth_env where
  "sample_auth_env = \<lparr>ae_digest = \<lambda>s. s, ae_uuid_parse = Inr, ae_uuid_of_bytes = \<lambda>s. s,
     ae_print = \<lambda>st. if st = sample_pending then Inr ''pending'' else if st = sample_paired then Inr ''paired''
       else if st = sample_single then Inr ''single'' else Inl ''other'',
     ae_parse = \<lambda>s. if s = ''pending'' then Inr sample_pending else if s = ''paired'' then Inr sample_paired
       else if s = ''single'' then Inr sample_single else Inl ''other''\<rparr>"

definition io_ok :: io_env where
  "io_ok = \<lparr>io_has_parent = True, io_create_dir = Inr (), io_open_parent = Inr (), io_temp = Inr (), io_permissions = Inr (),
     io_write = Inr (), io_sync = Inr (), io_rename = Inr (), io_sync_parent = Inr ()\<rparr>"

definition sample_store :: "string \<Rightarrow> auth_state \<Rightarrow> auth_store" where
  "sample_store f st = \<lparr>as_file = Some f, as_state = st, as_public = replicate 32 0,
     as_config = \<lparr>acf_paired_clients = 32, acf_pairing_lifetime_seconds = 600\<rparr>\<rparr>"

lemma sample_codec: "codec_ok sample_auth_env"
  by (auto simp: codec_ok_def sample_auth_env_def split: if_splits)

lemma sample_label: "validate_client_label ''mac'' = Inr ()"
  by code_simp

lemma sample_token_fresh: "sample_token \<noteq> ''t1''"
  by (simp add: sample_token_def credential_def)

lemma sample_valid:
  "validate_auth_state sample_auth_env sample_pending = Inr ()" "validate_auth_state sample_auth_env sample_paired = Inr ()"
  "validate_auth_state sample_auth_env sample_single = Inr ()"
  by (simp_all add: validate_auth_state_def sample_pending_def sample_paired_def sample_single_def sample_client_def sample_auth_env_def
      MAX_CAPACITY_def sample_label sample_token_fresh)

lemma sample_states_differ: "sample_pending \<noteq> sample_paired" "sample_single \<noteq> sample_pending" "sample_single \<noteq> sample_paired"
  "sample_paired \<noteq> sample_pending"
  by (simp_all add: sample_pending_def sample_paired_def sample_single_def)

lemma sample_inv: "auth_inv sample_auth_env (sample_store ''pending'' sample_pending)"
  "auth_inv sample_auth_env (sample_store ''paired'' sample_paired)"
  by (simp_all add: auth_inv_def sample_store_def sample_valid) (simp_all add: sample_auth_env_def)

lemma publish_io_ok:
  "ae_print env st = Inr contents \<Longrightarrow> validate_auth_state env st = Inr () \<Longrightarrow>
     publish_state env io_ok self st undo = (self\<lparr>as_file := Some contents, as_state := st\<rparr>, Inr ())"
  by (simp add: publish_state_def save_auth_state_def publish_file_def io_ok_def io_res_def json_res_def
      outcome_applied_def outcome_confirm_def)

lemma sample_pair:
  "pair_at sample_auth_env io_ok (sample_store ''pending'' sample_pending) ''code'' ''mac'' 5 (replicate 2 (replicate 32 CHR ''a''))
     = (sample_store ''paired'' sample_paired, Inr \<lparr>it_client_id = ''code'', it_token = sample_token\<rparr>)"
proof -
  have "sample_pending\<lparr>au_pending_pairing := None, au_clients := au_clients sample_pending @ [sample_client ''code'' sample_token]\<rparr>
      = sample_paired" by (simp add: sample_pending_def sample_paired_def)
  then have p: "publish_state sample_auth_env io_ok (sample_store ''pending'' sample_pending)
      (sample_pending\<lparr>au_pending_pairing := None, au_clients := au_clients sample_pending @ [sample_client ''code'' sample_token]\<rparr>) undo
      = (sample_store ''paired'' sample_paired, Inr ())" for undo
    using sample_states_differ by (subst publish_io_ok [where contents = "''paired''"]) (simp_all add: sample_valid sample_store_def, simp add: sample_auth_env_def)
  have "pairing_client_id sample_auth_env ''code'' = ''code''" by (simp add: pairing_client_id_def sample_auth_env_def)
  moreover have "pairing_code_accepted sample_auth_env sample_pending ''code'' 5"
    by (simp add: pairing_code_accepted_def sample_pending_def credential_matches_def sample_auth_env_def MAX_CLIENT_CREDENTIAL_BYTES_def)
  moreover have "ae_digest sample_auth_env = (\<lambda>s. s)" by (simp add: sample_auth_env_def)
  moreover have "credential (replicate 32 0) (random_secret (replicate 2 (replicate 32 CHR ''a'')) 2) = sample_token"
    by (simp add: sample_token_def random_secret_def)
  moreover have "length (au_clients sample_pending) = 1" by (simp add: sample_pending_def)
  ultimately show ?thesis
    using p by (simp add: pair_at_def sample_label Let_def then_issue_def sample_client_def sample_store_def)
qed

subsection \<open>Properties\<close>

lemma run_keeps_inv: "codec_ok env \<Longrightarrow> auth_inv env self \<Longrightarrow> auth_inv env (auth_run env self ops)"
  unfolding auth_run_def using ap.run_inv [of env "auth_do env" self ops] auth_do_undoes by blast

text \<open>
  C19. The authentication state in memory and the state file always agree.  Starting from a store whose file
  holds its state, after any sequence of pairings, repairs, local provisioning, new codes, revocations and
  unpairings, whatever the file system answers to each step of each publication (so also when a publication
  fails halfway or is applied but not confirmed), the file decodes to exactly the state in memory and that
  state passes validation: at most the capacity of clients, with distinct canonical ids and distinct token
  digests, and never without both a pairing code and a client.  Reopening a file that is not over the size
  limit therefore gives back the same clients and the same pending code.
\<close>
theorem auth_store_consistent:
  assumes "codec_ok env" and "auth_inv env self"
  shows "auth_inv env (auth_run env self ops)
    \<and> (auth_config_validate cf = Inr () \<longrightarrow> identity = Inr public
        \<longrightarrow> length (the (as_file (auth_run env self ops))) \<le> MAX_AUTH_STATE_BYTES \<longrightarrow>
        open_store env (as_file (auth_run env self ops)) True cf identity
          = Inr \<lparr>as_file = as_file (auth_run env self ops), as_state = as_state (auth_run env self ops),
              as_public = public, as_config = cf\<rparr>)"
  using run_keeps_inv [OF assms, of ops] by (auto simp: auth_inv_def open_store_def json_res_def)

theorem auth_store_consistent_witness:
  "open_store sample_auth_env (Some ''paired'') True \<lparr>acf_paired_clients = 32, acf_pairing_lifetime_seconds = 600\<rparr> (Inr (replicate 32 0))
     = Inr (sample_store ''paired'' sample_paired)"
proof -
  let ?ops = "[(io_ok, OpPair ''code'' ''mac'' 5 (replicate 2 (replicate 32 CHR ''a'')))]"
  let ?cf = "\<lparr>acf_paired_clients = 32, acf_pairing_lifetime_seconds = 600\<rparr>"
  have run: "auth_run sample_auth_env (sample_store ''pending'' sample_pending) ?ops = sample_store ''paired'' sample_paired"
    unfolding auth_run_def foldl.simps auth_do.simps sample_pair by simp
  have "auth_config_validate ?cf = Inr ()" by (simp add: auth_config_validate_def bounded_def MAX_CAPACITY_def)
  with auth_store_consistent [OF sample_codec sample_inv(1), of ?ops ?cf "Inr (replicate 32 0)" "replicate 32 0"]
  show ?thesis unfolding run by (simp add: sample_store_def MAX_AUTH_STATE_BYTES_def)
qed

lemma initialize_inv:
  assumes "codec_ok env" and "initialize env io f cf identity now fresh = (f', Inr (self, grant))"
  shows "auth_inv env self \<and> as_file self = f' \<and> authenticate env self token = Inl GUnauthorized"
proof -
  from assms(2) obtain st public where "save_auth_state env io f st True = (f', Inr ())"
    and self: "self = \<lparr>as_file = f', as_state = st, as_public = public, as_config = cf\<rparr>" and "au_clients st = []"
    by (auto simp: initialize_def initialize_validated_def Let_def res_bind_Inr_iff split: sum.splits prod.splits if_splits)
  with save_auth_state_cases [of env io f st True] assms(1) show ?thesis
    by (auto simp: auth_inv_def codec_ok_def authenticate_def)
qed

lemma authenticate_iff:
  assumes "auth_inv env self"
  shows "authenticate env self token = Inr who \<longleftrightarrow> token \<noteq> [] \<and> length token \<le> MAX_CLIENT_CREDENTIAL_BYTES
    \<and> (\<exists>c \<in> set (au_clients (as_state self)). cl_digest c = ae_digest env token \<and> who = client_identity_of c)"
proof -
  have d: "distinct (map cl_digest (au_clients (as_state self)))"
    using assms validate_auth_state_distinct by (auto simp: auth_inv_def)
  then have u: "c = c'" if "c \<in> set (au_clients (as_state self))" "c' \<in> set (au_clients (as_state self))"
    "cl_digest c = cl_digest c'" for c c' using that by (simp add: distinct_map inj_on_def)
  show ?thesis
  proof (cases "find (\<lambda>c. cl_digest c = ae_digest env token) (rev (au_clients (as_state self)))")
    case None
    then have "\<forall>c \<in> set (au_clients (as_state self)). cl_digest c \<noteq> ae_digest env token" by simp
    with None show ?thesis by (simp add: authenticate_def del: find_rev_None)
  next
    case (Some c)
    then have "c \<in> set (au_clients (as_state self))" "cl_digest c = ae_digest env token"
      by (auto simp: find_Some_iff) (metis length_rev nth_mem set_rev)
    with Some u show ?thesis by (auto simp: authenticate_def) metis
  qed
qed

lemma pair_at_Inr:
  assumes "pair_at env io self code label now fresh = (self', Inr issued)"
  shows "pairing_code_accepted env (as_state self) code now \<and> validate_client_label label = Inr ()
    \<and> length (au_clients (as_state self)) < acf_paired_clients (as_config self)
    \<and> issued = \<lparr>it_client_id = pairing_client_id env code, it_token = credential (as_public self) (random_secret fresh 2)\<rparr>
    \<and> au_pending_pairing (as_state self') = None
    \<and> au_clients (as_state self') = au_clients (as_state self) @ [\<lparr>cl_id = pairing_client_id env code, cl_label = label,
         cl_digest = ae_digest env (it_token issued), cl_created_at = now\<rparr>]"
proof -
  from assms obtain st undo where g: "pairing_code_accepted env (as_state self) code now" "validate_client_label label = Inr ()"
    "length (au_clients (as_state self)) < acf_paired_clients (as_config self)"
    and issued: "issued = \<lparr>it_client_id = pairing_client_id env code, it_token = credential (as_public self) (random_secret fresh 2)\<rparr>"
    and p: "publish_state env io self st undo = (self', Inr ())"
    and st: "st = (as_state self)\<lparr>au_pending_pairing := None, au_clients := au_clients (as_state self) @
       [\<lparr>cl_id = pairing_client_id env code, cl_label = label,
         cl_digest = ae_digest env (credential (as_public self) (random_secret fresh 2)), cl_created_at = now\<rparr>]\<rparr>"
    by (auto simp: pair_at_def then_issue_def Let_def res_bind_Inr_iff split: sum.splits if_splits prod.splits)
  from p have "as_state self' = st" by (cases rule: publish_state_cases [of env io self st undo]) auto
  with g issued st show ?thesis by simp
qed

lemma publish_state_state: "as_state (fst (publish_state env io self st undo)) \<in> {st, undo st}"
  by (cases rule: publish_state_cases [of env io self st undo]) auto

lemma no_code_no_pairing:
  "au_pending_pairing (as_state self) = None \<Longrightarrow>
     fst (pair_at env io self code label now fresh) = self \<and> snd (pair_at env io self code label now fresh) \<noteq> Inr issued
   \<and> fst (repair_pairing env io self code dig label now fresh) = self \<and> snd (repair_pairing env io self code dig label now fresh) \<noteq> Inr issued"
  by (simp add: pair_at_def repair_pairing_def pairing_code_accepted_def Let_def split: sum.splits)

definition creates_code :: "io_env \<times> auth_op \<Rightarrow> bool" where
  "creates_code p = (case snd p of OpCreateCode _ _ \<Rightarrow> True | _ \<Rightarrow> False)"

lemma auth_do_no_code:
  assumes "au_pending_pairing (as_state self) = None" and "\<not> creates_code p"
  shows "au_pending_pairing (as_state (auth_do env self p)) = None"
proof -
  obtain io op where p: "p = (io, op)" by fastforce
  have pub: "au_pending_pairing (as_state (fst (publish_state env io self st undo))) = None"
    if "au_pending_pairing st = None" "au_pending_pairing (undo st) = None" for st undo
    using publish_state_state [of env io self st undo] that by auto
  show ?thesis
    using assms no_code_no_pairing [OF assms(1)]
    by (cases op) (auto simp: p creates_code_def provision_local_client_def unpair_client_def revoke_pairing_code_def Let_def
        simp del: position_None intro!: pub split: option.splits)
qed

lemma auth_run_no_code:
  "au_pending_pairing (as_state self) = None \<Longrightarrow> list_all (\<lambda>p. \<not> creates_code p) ops
    \<Longrightarrow> au_pending_pairing (as_state (auth_run env self ops)) = None"
proof (induction ops arbitrary: self)
  case (Cons p ops)
  then show ?case using auth_do_no_code [of self p env] by (simp add: auth_run_def)
qed (simp add: auth_run_def)

lemma length_hex_bytes: "length (hex_bytes bs) = 2 * length bs"
  by (induction bs) simp_all

lemma issued_token_length:
  assumes "length public = 32" and "list_all (\<lambda>u. length u = 32) fresh"
  shows "credential public (random_secret fresh 2) \<noteq> []
    \<and> length (credential public (random_secret fresh 2)) \<le> MAX_CLIENT_CREDENTIAL_BYTES"
proof -
  have "length (concat (take n fresh)) \<le> 32 * n" for n
    using assms(2)
  proof (induction fresh arbitrary: n)
    case (Cons u us)
    then show ?case by (cases n) auto
  qed simp
  from this [of 2] assms(1) show ?thesis
    by (simp add: credential_def random_secret_def length_hex_bytes MAX_CLIENT_CREDENTIAL_BYTES_def)
qed

text \<open>
  C20. A pairing code pairs exactly one client.  When a pairing succeeds, the code was the pending one, it was
  presented strictly before its expiry, and the number of clients was below the configured limit; the issued
  token authenticates as the new client and every other client keeps its place.  From then on, after any
  operations other than creating a new code, no code whatsoever can pair or repair a client.
\<close>
theorem pairing_single_use:
  assumes "codec_ok env" and "auth_inv env self"
    and "length (as_public self) = 32" and "list_all (\<lambda>u. length u = 32) fresh"
    and pair: "pair_at env io self code label now fresh = (self', Inr issued)"
  shows "(\<exists>pending. au_pending_pairing (as_state self) = Some pending \<and> now < pp_expires_at pending
        \<and> ae_digest env code = pp_digest pending)
    \<and> length (au_clients (as_state self)) < acf_paired_clients (as_config self)
    \<and> authenticate env self' (it_token issued) = Inr \<lparr>ci_id = it_client_id issued, ci_label = label\<rparr>
    \<and> auth_clients self' = auth_clients self @ [\<lparr>ci_id = it_client_id issued, ci_label = label\<rparr>]
    \<and> (\<forall>ops. list_all (\<lambda>p. \<not> creates_code p) ops \<longrightarrow> (\<forall>io code' dig label' now' fresh' issued'.
          snd (pair_at env io (auth_run env self' ops) code' label' now' fresh') \<noteq> Inr issued'
        \<and> snd (repair_pairing env io (auth_run env self' ops) code' dig label' now' fresh') \<noteq> Inr issued'))"
proof -
  note r = pair_at_Inr [OF pair]
  have "self' = auth_do env self (io, OpPair code label now fresh)" using pair by simp
  with run_keeps_inv [OF assms(1,2), of "[(io, OpPair code label now fresh)]"] have inv: "auth_inv env self'"
    by (simp add: auth_run_def)
  have "authenticate env self' (it_token issued) = Inr \<lparr>ci_id = it_client_id issued, ci_label = label\<rparr>"
    unfolding authenticate_iff [OF inv]
    using r issued_token_length [OF assms(3,4)] by (auto simp: client_identity_of_def)
  with r auth_run_no_code [of self'] no_code_no_pairing show ?thesis
    by (auto simp: pairing_code_accepted_def credential_matches_def auth_clients_def client_identity_of_def split: option.splits)
qed

theorem pairing_single_use_witness:
  "\<exists>self'. pair_at sample_auth_env io_ok (sample_store ''pending'' sample_pending) ''code'' ''mac'' 5
      (replicate 2 (replicate 32 CHR ''a'')) = (self', Inr \<lparr>it_client_id = ''code'', it_token = sample_token\<rparr>)
     \<and> authenticate sample_auth_env self' sample_token = Inr \<lparr>ci_id = ''code'', ci_label = ''mac''\<rparr>"
proof -
  have "length (as_public (sample_store ''pending'' sample_pending)) = 32" by (simp add: sample_store_def)
  moreover have "list_all (\<lambda>u. length u = 32) (replicate 2 (replicate 32 CHR ''a''))" by (simp add: list_all_iff)
  ultimately show ?thesis
    using pairing_single_use [OF sample_codec sample_inv(1) _ _ sample_pair] sample_pair by simp
qed

text \<open>Unpairing revokes exactly one client.  When an actor unpairs a client, the actor is itself paired and is
  another client; afterwards no token with the removed client's digest authenticates, every other token is
  answered as before, and the actor is still paired.\<close>

lemma unpair_revokes:
  assumes "codec_ok env" and "auth_inv env self"
    and unpair: "unpair_client env io self actor client = (self', Inr True)"
  shows "actor \<noteq> client \<and> actor \<in> ci_id ` set (auth_clients self')
    \<and> (\<exists>removed \<in> set (au_clients (as_state self)). cl_id removed = client
        \<and> (\<forall>token who. ae_digest env token = cl_digest removed \<longrightarrow> authenticate env self' token \<noteq> Inr who)
        \<and> (\<forall>token who. ae_digest env token \<noteq> cl_digest removed \<longrightarrow>
              (authenticate env self' token = Inr who \<longleftrightarrow> authenticate env self token = Inr who)))"
proof -
  let ?cs = "au_clients (as_state self)"
  from unpair obtain i st undo where a: "actor \<noteq> client" "actor \<in> cl_id ` set ?cs"
    and i: "position (\<lambda>c. cl_id c = client) ?cs = Some i"
    and p: "publish_state env io self st undo = (self', Inr ())" and st: "st = (as_state self)\<lparr>au_clients := remove_nth i ?cs\<rparr>"
    by (auto simp: unpair_client_def then_issue_def Let_def res_bind_Inr_iff list_ex_iff simp del: position_None
        split: if_splits option.splits prod.splits)
  from p st have cs': "au_clients (as_state self') = remove_nth i ?cs"
    by (cases rule: publish_state_cases [of env io self st undo]) auto
  have "self' = auth_do env self (io, OpUnpair actor client)" using unpair by simp
  with run_keeps_inv [OF assms(1,2), of "[(io, OpUnpair actor client)]"] have inv: "auth_inv env self'"
    by (simp add: auth_run_def)
  have d: "distinct (map cl_digest ?cs)" using assms(2) validate_auth_state_distinct by (auto simp: auth_inv_def)
  from position_SomeD [OF i] have i': "i < length ?cs" "cl_id (?cs ! i) = client" by auto
  have split_cs: "?cs = take i ?cs @ ?cs ! i # drop (Suc i) ?cs" using i'(1) by (simp add: id_take_nth_drop [symmetric])
  then have set_cs: "set ?cs = insert (?cs ! i) (set (remove_nth i ?cs))"
    by (metis (no_types) list.simps(15) remove_nth_def set_append Un_insert_right)
  have "distinct (map cl_digest (take i ?cs @ ?cs ! i # drop (Suc i) ?cs))" using d split_cs by metis
  then have fresh: "c \<in> set (remove_nth i ?cs) \<Longrightarrow> cl_digest c \<noteq> cl_digest (?cs ! i)" for c
    by (auto simp: remove_nth_def image_iff)
  have "?cs ! i \<in> set ?cs" using i' by simp
  moreover have "actor \<in> ci_id ` set (auth_clients self')"
    using a i'(2) set_cs cs' by (auto simp: auth_clients_def client_identity_of_def image_iff)
  ultimately show ?thesis
    using a(1) i'(2) authenticate_iff [OF inv] authenticate_iff [OF assms(2)] fresh set_cs unfolding cs' by (intro conjI bexI [of _ "?cs ! i"]) auto
qed

subsection \<open>Credentials carry the channel key\<close>

lemma small_byte:
  assumes "list_all P (map word_of_nat [0..<n])" and "unat b < n"
  shows "P (b :: byte)"
proof -
  from assms(2) have "unat b \<in> set [0..<n]" by simp
  with assms(1) have "P (word_of_nat (unat b))" unfolding list_all_iff set_map by blast
  then show ?thesis by simp
qed

lemma nibble_digit:
  assumes "w < 16"
  shows "hex_value (hex_digit w) = w \<and> is_lower_hex (hex_digit w)"
proof -
  have "list_all (\<lambda>w. hex_value (hex_digit w) = w \<and> is_lower_hex (hex_digit w)) (map word_of_nat [0..<16])" by code_simp
  moreover have "unat w < 16" using assms by (simp add: word_less_nat_alt)
  ultimately show ?thesis by (rule small_byte)
qed

lemma digit_nibble:
  assumes "is_lower_hex c"
  shows "hex_value c < 16 \<and> hex_digit (hex_value c) = c"
proof -
  have "list_all (\<lambda>n. hex_value (char_of n) < 16 \<and> hex_digit (hex_value (char_of n)) = char_of n) ([48..<58] @ [97..<103])"
    by code_simp
  moreover have "(of_char c :: nat) \<in> set ([48..<58] @ [97..<103])"
    using assms unfolding set_append set_upt is_lower_hex_def Let_def by auto
  ultimately have "hex_value (char_of (of_char c :: nat)) < 16
      \<and> hex_digit (hex_value (char_of (of_char c :: nat))) = char_of (of_char c :: nat)"
    unfolding list_all_iff by blast
  then show ?thesis by simp
qed

lemma nibbles_less: "drop_bit 4 b < 16 \<and> take_bit 4 b < 16" for b :: byte
proof -
  have "list_all (\<lambda>b :: byte. drop_bit 4 b < 16 \<and> take_bit 4 b < 16) (map word_of_nat [0..<256])" by code_simp
  moreover have "unat b < 256" using unsigned_less [of b] by simp
  ultimately show ?thesis by (rule small_byte)
qed

lemma nibbles_join: "push_bit 4 (drop_bit 4 b) OR take_bit 4 b = b" for b :: byte
  by (rule bit_eqI) (auto simp: bit_simps)

lemma nibbles_split:
  fixes h l :: byte
  assumes "h < 16" and "l < 16"
  shows "drop_bit 4 (push_bit 4 h OR l) = h \<and> take_bit 4 (push_bit 4 h OR l) = l"
proof -
  have "list_all (\<lambda>h :: byte. list_all (\<lambda>l. drop_bit 4 (push_bit 4 h OR l) = h \<and> take_bit 4 (push_bit 4 h OR l) = l)
      (map word_of_nat [0..<16])) (map word_of_nat [0..<16])" by code_simp
  from small_byte [OF this, of h] small_byte [where n = 16 and b = l] assms show ?thesis
    by (simp only: word_less_nat_alt) simp
qed

lemma byte_of_digits:
  assumes "is_lower_hex high" and "is_lower_hex low"
  shows "hex_bytes [push_bit 4 (hex_value high) OR hex_value low] = [high, low]"
  using digit_nibble [OF assms(1)] digit_nibble [OF assms(2)] nibbles_split [of "hex_value high" "hex_value low"]
  by (simp del: drop_bit_or take_bit_or)

lemma hex_bytes_Cons: "hex_bytes (b # bs) = hex_bytes [b] @ hex_bytes bs"
  by simp

lemma decode_hex_bytes: "decode_hex (hex_bytes bs) = bs"
  by (induction bs) (simp_all add: nibble_digit nibbles_less nibbles_join)

lemma hex_bytes_lower: "list_all is_lower_hex (hex_bytes bs)"
  by (induction bs) (simp_all add: nibble_digit nibbles_less)

lemma hex_decode_bytes: "list_all is_lower_hex s \<Longrightarrow> even (length s) \<Longrightarrow> hex_bytes (decode_hex s) = s"
proof (induction s rule: decode_hex.induct)
  case (1 high low s)
  then show ?case unfolding decode_hex.simps hex_bytes_Cons [of _ "decode_hex s"] by (subst byte_of_digits) auto
qed auto

lemma lower_hex_no_dot: "list_all is_lower_hex s \<Longrightarrow> CHR ''.'' \<notin> set s"
proof -
  have "\<not> is_lower_hex CHR ''.''" by code_simp
  then show "list_all is_lower_hex s \<Longrightarrow> CHR ''.'' \<notin> set s" by (auto simp: list_all_iff)
qed

lemma split_once_append: "c \<notin> set a \<Longrightarrow> split_once c (a @ c # b) = Some (a, b)"
  by (auto simp: split_once_def takeWhile_append dropWhile_append)

lemma split_once_SomeD: "split_once c s = Some (a, b) \<Longrightarrow> s = a @ c # b \<and> c \<notin> set a"
proof -
  assume s: "split_once c s = Some (a, b)"
  then have c: "c \<in> set s" and a: "a = takeWhile (\<lambda>x. x \<noteq> c) s" and b: "b = tl (dropWhile (\<lambda>x. x \<noteq> c) s)"
    by (auto simp: split_once_def split: if_splits)
  from c have ne: "dropWhile (\<lambda>x. x \<noteq> c) s \<noteq> []" by (auto simp: dropWhile_eq_Nil_conv)
  then have "hd (dropWhile (\<lambda>x. x \<noteq> c) s) = c" using hd_dropWhile [of "\<lambda>x. x \<noteq> c" s] by simp
  with ne b have "dropWhile (\<lambda>x. x \<noteq> c) s = c # b" by (cases "dropWhile (\<lambda>x. x \<noteq> c) s") simp_all
  with a have "s = a @ c # b" using takeWhile_dropWhile_id [of "\<lambda>x. x \<noteq> c" s] by simp
  moreover have "c \<notin> set a" using a by (auto dest: set_takeWhileD)
  ultimately show ?thesis by simp
qed

text \<open>A credential carries exactly one channel key.  Reading the key of a credential made from a 32-byte public
  key and a secret of one or two simple UUIDs gives that key back, and every credential the client accepts is
  the credential of the key it reads: no two spellings of a credential name the same key and secret.\<close>

lemma credential_key_roundtrip:
  "(length public = 32 \<and> (length secret = 32 \<or> length secret = 64) \<and> list_all is_lower_hex secret
      \<longrightarrow> credential_key (credential public secret) = Inr public)
   \<and> (credential_key cred = Inr key \<longrightarrow> length key = 32 \<and> (\<exists>s. cred = credential key s
        \<and> (length s = 32 \<or> length s = 64) \<and> list_all is_lower_hex s))"
proof (intro conjI impI)
  assume a: "length public = 32 \<and> (length secret = 32 \<or> length secret = 64) \<and> list_all is_lower_hex secret"
  have "split_once CHR ''.'' (hex_bytes public @ CHR ''.'' # secret) = Some (hex_bytes public, secret)"
    by (rule split_once_append [OF lower_hex_no_dot [OF hex_bytes_lower]])
  moreover have "strip_prefix ''m1.'' (credential public secret) = Some (hex_bytes public @ CHR ''.'' # secret)"
    unfolding credential_def strip_prefix_append by simp
  ultimately show "credential_key (credential public secret) = Inr public"
    using a by (simp add: credential_key_def length_hex_bytes hex_bytes_lower decode_hex_bytes)
next
  assume "credential_key cred = Inr key"
  then obtain k s where pre: "strip_prefix ''m1.'' cred = Some (k @ CHR ''.'' # s)" and k: "length k = 64" "list_all is_lower_hex k"
    and s: "length s = 32 \<or> length s = 64" "list_all is_lower_hex s" and key: "key = decode_hex k"
    by (auto simp: credential_key_def split: option.splits prod.splits if_splits dest!: split_once_SomeD
        elim!: Option.bind_eq_Some_conv [THEN iffD1, elim_format])
  have h: "hex_bytes key = k" using k key by (simp add: hex_decode_bytes)
  from pre h have "cred = credential key s" by (simp add: strip_prefix_Some credential_def)
  moreover have "length key = 32" using length_hex_bytes [of key] h k by simp
  ultimately show "length key = 32" "\<exists>s. cred = credential key s \<and> (length s = 32 \<or> length s = 64) \<and> list_all is_lower_hex s"
    using s by auto
qed

end
