(* ===== verification/Replay.thy ===== *)
theory Replay
  imports Transcript_Rows Journal Gateway_Auth
begin

text \<open>
  The replay window of a chat (\<open>crates/mobius-gateway/src/host/replay.rs\<close>) with the operations of the host that
  use it (\<open>host/session/events.rs\<close>, \<open>host/session/runtime.rs\<close>): journal events are projected once, reduced into the
  transcript, kept in a bounded window and broadcast; a client that reconnects gets the frames it missed, or the
  whole transcript when the window no longer holds them.  The presentation of the installed middleware is a
  \<open>render_events\<close>, and the encoders give the length of a frame and of a journal event in JSON.
\<close>

subsection \<open>Presentation\<close>

record render_events =
  re_render :: "event_msg \<Rightarrow> rendered_block list"
  re_preview_approvals :: "exec_approval_request_event \<Rightarrow> exec_approval_request_event"

text \<open>\<open>FrontendExtensions\<close>: the framework's own block first, then the block of each middleware by name.\<close>

definition extensions_render :: "(string \<times> (event_msg \<Rightarrow> frontend_block option)) list \<Rightarrow> event_msg \<Rightarrow> rendered_block list" where
  "extensions_render entries e = (case presentation e of Some b \<Rightarrow> [b] | None \<Rightarrow> [])
     @ List.map_filter (\<lambda>(name, render). map_option (\<lambda>block. \<lparr>rb_capability = name, rb_block = block\<rparr>) (render e)) entries"

definition extensions_preview_approvals :: "(string \<times> (event_msg \<Rightarrow> frontend_block option)) list
    \<Rightarrow> exec_approval_request_event \<Rightarrow> exec_approval_request_event" where
  "extensions_preview_approvals entries request = request\<lparr>ea_calls := map (\<lambda>call.
     call\<lparr>ac_preview := find (\<lambda>block. fb_role block = RoleTool) (map rb_block (extensions_render entries
       (ToolCallBegin \<lparr>tb_turn_id = ea_turn_id request, tb_call_id = ac_call_id call, tb_name = ac_name call,
          tb_arguments = ac_arguments call\<rparr>)))\<rparr>) (ea_calls request)\<rparr>"

definition frontend_extensions :: "(string \<times> (event_msg \<Rightarrow> frontend_block option)) list \<Rightarrow> render_events" where
  "frontend_extensions entries = \<lparr>re_render = extensions_render entries,
     re_preview_approvals = extensions_preview_approvals entries\<rparr>"

definition framework_presentation :: render_events where
  "framework_presentation = \<lparr>re_render = (\<lambda>e. case presentation e of Some b \<Rightarrow> [b] | None \<Rightarrow> []),
     re_preview_approvals = (\<lambda>request. request)\<rparr>"

subsection \<open>Frames\<close>

record rendered_preview =
  pv_kind :: frontend_preview_kind
  pv_state :: "frontend_list_item_state option"
  pv_symbol :: "frontend_symbol option"
  pv_duration_ms :: "nat option"
  pv_started_at_ms :: "int option"
  pv_id :: string
  pv_title :: string
  pv_subtitle :: string
  pv_page_id :: string
  pv_update :: frontend_preview_update
  pv_transcript :: transcript_page
  pv_next :: "op option"

record recorded_event =
  rc_sequence :: nat
  rc_recorded_at_ms :: int
  rc_event :: event
  rc_stream_metrics :: "stream_metrics list"
  rc_preview :: "rendered_preview option"

text \<open>The \<open>AgentEvent\<close> frame: the only server message that enters a replay window.\<close>

record agent_frame =
  fr_session_id :: string
  fr_record :: recorded_event
  fr_transcript :: "transcript_op list"

abbreviation frame_msg :: "agent_frame \<Rightarrow> event_msg" where
  "frame_msg frame \<equiv> ev_msg (rc_event (fr_record frame))"

record replay_entry =
  rp_frame :: agent_frame
  rp_bytes :: nat

definition MAX_FRAME_BYTES :: nat where "MAX_FRAME_BYTES = 50 * 1024 * 1024"
definition MAX_REPLAY_BYTES :: nat where "MAX_REPLAY_BYTES = MAX_FRAME_BYTES"
definition REPLAY_CAPACITY :: nat where "REPLAY_CAPACITY = 1024"
definition REPLAY_LOAD_PAGE_SIZE :: nat where "REPLAY_LOAD_PAGE_SIZE = 8"
definition FORK_SCAN_PAGE_SIZE :: nat where "FORK_SCAN_PAGE_SIZE = 256"

text \<open>What serde gives for the JSON of a frame and of a journal event, as lengths.\<close>

record replay_codec =
  rk_frame :: "agent_frame \<Rightarrow> string + nat"
  rk_journal :: "journal_event \<Rightarrow> string + nat"

definition encode_frame :: "replay_codec \<Rightarrow> agent_frame \<Rightarrow> nat gres" where
  "encode_frame rk frame = res_bind (json_res (rk_frame rk frame)) (\<lambda>payload_len.
     if payload_len = 0 \<or> MAX_FRAME_BYTES < payload_len
     then Inl (GProtocol (''encoded frame must be 1'' @ en_dash @ show_nat MAX_FRAME_BYTES @ '' bytes''))
     else Inr payload_len)"

definition replay_entry_new :: "replay_codec \<Rightarrow> agent_frame \<Rightarrow> replay_entry gres" where
  "replay_entry_new rk frame = res_bind (encode_frame rk frame) (\<lambda>encoded_len.
     Inr \<lparr>rp_frame = frame, rp_bytes = sat_mul encoded_len 2\<rparr>)"

definition event_sequence :: "agent_frame \<Rightarrow> nat option" where
  "event_sequence frame = Some (rc_sequence (fr_record frame))"

subsection \<open>Projecting a journal event\<close>

definition reducer_page :: "transcript_reducer \<Rightarrow> transcript_page" where
  "reducer_page self = \<lparr>xp_items = map sl_item (sort_key sl_position (map snd (rx_items self))),
     xp_rows = sort_rows (map snd (rx_rows self))\<rparr>"

text \<open>One preview event, with the nested events of a session history in its place.\<close>

fun reduce_preview_event :: "render_events \<Rightarrow> transcript_reducer \<Rightarrow> nat \<Rightarrow> int \<Rightarrow> string option \<Rightarrow> event_msg \<Rightarrow> transcript_reducer"
  and reduce_preview_events :: "render_events \<Rightarrow> transcript_reducer \<Rightarrow> nat \<Rightarrow> int \<Rightarrow> string option \<Rightarrow> event_msg list \<Rightarrow> transcript_reducer" where
  "reduce_preview_event re transcript sequence at submission (SessionHistory events) =
     reduce_preview_events re transcript sequence at submission events"
| "reduce_preview_event re transcript sequence at submission (Frontend (Widget _ _)) = transcript"
| "reduce_preview_event re transcript sequence at submission (Frontend (RemoveWidget _ _)) = transcript"
| "reduce_preview_event re transcript sequence at submission (Frontend (Picker _ _)) = transcript"
| "reduce_preview_event re transcript sequence at submission (Frontend (Preview _ _ _ _ _ _ _ _ _ _ _ _)) = transcript"
| "reduce_preview_event re transcript sequence at submission (Frontend (OpenSession _)) = transcript"
| "reduce_preview_event re transcript sequence at submission msg =
     fst (reduce_apply transcript sequence at \<lparr>ev_submission_id = submission, ev_msg = msg\<rparr> (re_render re msg))"
| "reduce_preview_events re transcript sequence at submission [] = transcript"
| "reduce_preview_events re transcript sequence at submission (e # es) =
     reduce_preview_events re (reduce_preview_event re transcript sequence at submission e) sequence at submission es"

definition take_preview :: "render_events \<Rightarrow> event_msg \<Rightarrow> event_msg \<times> rendered_preview option" where
  "take_preview re e = (case e of
      Frontend (Preview kind state symbol duration started i title subtitle page_id update events nxt) \<Rightarrow>
        (Frontend (Preview kind state symbol duration started i title subtitle page_id update [] nxt),
         Some \<lparr>pv_kind = kind, pv_state = state, pv_symbol = symbol, pv_duration_ms = duration, pv_started_at_ms = started,
           pv_id = i, pv_title = title, pv_subtitle = subtitle, pv_page_id = page_id, pv_update = update,
           pv_transcript = reducer_page (foldl (\<lambda>transcript (sequence, submission, at, msg).
             reduce_preview_event re transcript sequence at submission msg) (reducer_new 0) events),
           pv_next = nxt\<rparr>)
    | _ \<Rightarrow> (e, None))"

definition project_record :: "render_events \<Rightarrow> journal_event \<Rightarrow> recorded_event \<times> rendered_block list" where
  "project_record re journal =
     (let blocks = re_render re (ev_msg (je_event journal));
          (msg, preview) = take_preview re (ev_msg (je_event journal));
          msg = (case msg of ExecApprovalRequest request \<Rightarrow> ExecApprovalRequest (re_preview_approvals re request) | _ \<Rightarrow> msg)
      in (\<lparr>rc_sequence = je_sequence journal, rc_recorded_at_ms = je_recorded_at_ms journal,
            rc_event = (je_event journal)\<lparr>ev_msg := msg\<rparr>, rc_stream_metrics = je_stream_metrics journal,
            rc_preview = preview\<rparr>, blocks))"

datatype journal_sequence = AlreadyLoaded | Next

datatype journal_delivery = Live | LoadedStartup | ReplacementStartup

definition classify_journal_sequence :: "nat \<Rightarrow> nat \<Rightarrow> journal_delivery \<Rightarrow> journal_sequence gres" where
  "classify_journal_sequence current incoming delivery =
     (if incoming \<le> current \<and> delivery = LoadedStartup then Inr AlreadyLoaded
      else (case u64_checked_add current 1 of
          None \<Rightarrow> Inl (GConfig ''event sequence overflow'')
        | Some expected \<Rightarrow>
            if incoming \<noteq> expected
            then Inl (GMobius (CheckpointErr (''event journal delivery sequence is '' @ show_nat incoming
                   @ '', expected '' @ show_nat expected)))
            else Inr Next))"

definition validate_gateway_event :: "event_msg \<Rightarrow> unit gres" where
  "validate_gateway_event e = (case e of
      SessionHistory _ \<Rightarrow> Inl (GProtocol ''gateway agents must emit canonical events instead of nested session history'')
    | _ \<Rightarrow> Inr ())"

subsection \<open>The window\<close>

definition replayable_msg :: "event_msg \<Rightarrow> bool" where
  "replayable_msg msg = (case msg of
      SessionResumeRequested _ \<Rightarrow> False
    | Frontend (Preview _ _ _ _ _ _ _ _ _ _ _ _) \<Rightarrow> False
    | Frontend (Picker _ _) \<Rightarrow> False
    | Frontend (Widget _ _) \<Rightarrow> False
    | Frontend (RemoveWidget _ _) \<Rightarrow> False
    | Frontend (OpenSession _) \<Rightarrow> False
    | _ \<Rightarrow> True)"

definition replayable :: "agent_frame \<Rightarrow> bool" where
  "replayable frame = replayable_msg (frame_msg frame)"

text \<open>The loop that evicts the oldest entries while an entry of \<open>needed\<close> bytes does not fit.\<close>

fun evict :: "replay_entry list \<Rightarrow> nat \<Rightarrow> nat \<Rightarrow> bool \<Rightarrow> replay_entry list \<times> nat \<times> bool" where
  "evict [] replay_bytes needed truncated = ([], replay_bytes, truncated)"
| "evict (discarded # replay) replay_bytes needed truncated =
     (if REPLAY_CAPACITY \<le> length (discarded # replay) \<or> MAX_REPLAY_BYTES < sat_add replay_bytes needed
      then evict replay (replay_bytes - rp_bytes discarded) needed True
      else (discarded # replay, replay_bytes, truncated))"

definition push_replay :: "replay_entry list \<Rightarrow> nat \<Rightarrow> replay_entry \<Rightarrow> replay_entry list \<times> nat \<times> bool" where
  "push_replay replay replay_bytes entry =
     (case evict replay replay_bytes (rp_bytes entry) False of (replay, replay_bytes, truncated) \<Rightarrow>
       if rp_bytes entry \<le> MAX_REPLAY_BYTES
       then (replay @ [entry], sat_add replay_bytes (rp_bytes entry), truncated)
       else (replay, replay_bytes, True))"

fun is_append_text :: "transcript_op \<Rightarrow> bool" where
  "is_append_text (OpAppendText _ _) = True"
| "is_append_text _ = False"

definition appends_only :: "string \<Rightarrow> replay_entry \<Rightarrow> bool" where
  "appends_only model_step_id entry = (case frame_msg (rp_frame entry) of
      AssistantContentDelta delta \<Rightarrow> ad_model_step_id delta = model_step_id \<and> list_all is_append_text (fr_transcript (rp_frame entry))
    | _ \<Rightarrow> False)"

definition compact_replay_deltas :: "replay_entry list \<Rightarrow> nat \<Rightarrow> string \<Rightarrow> replay_entry list \<times> nat" where
  "compact_replay_deltas replay replay_bytes model_step_id =
     (filter (\<lambda>entry. \<not> appends_only model_step_id entry) replay,
      foldl (\<lambda>bytes entry. if appends_only model_step_id entry then bytes - rp_bytes entry else bytes) replay_bytes replay)"

type_synonym session_widgets = "(string \<times> frontend_widget) list"

definition update_widgets :: "session_widgets \<Rightarrow> event_msg \<Rightarrow> session_widgets" where
  "update_widgets widgets e = (case e of
      Frontend (Widget capability item) \<Rightarrow>
        (case position (\<lambda>(owner, widget). owner = capability \<and> fw_id widget = fw_id item) widgets of
           Some i \<Rightarrow> widgets[i := (fst (widgets ! i), item)]
         | None \<Rightarrow> widgets @ [(capability, item)])
    | Frontend (RemoveWidget capability i) \<Rightarrow> filter (\<lambda>(owner, widget). owner \<noteq> capability \<or> fw_id widget \<noteq> i) widgets
    | _ \<Rightarrow> widgets)"

definition attention_count :: "session_widgets \<Rightarrow> nat" where
  "attention_count widgets = min (length (concat (map (\<lambda>(_, widget). pending_attention_items widget) widgets))) u32_max"

definition update_token_usage :: "token_usage_info option \<Rightarrow> event_msg \<Rightarrow> token_usage_info option" where
  "update_token_usage token_usage e = (case e of
      TokenCount tokens \<Rightarrow> (case tk_info tokens of Some info \<Rightarrow> Some info | None \<Rightarrow> token_usage)
    | _ \<Rightarrow> token_usage)"

subsection \<open>The host of a chat\<close>

text \<open>The part of \<open>HostState\<close> that events change here; \<open>hs_sent\<close> is what was broadcast to the subscribers, in order.\<close>

record host_state =
  hs_session_id :: string
  hs_sequence :: nat
  hs_replay :: "replay_entry list"
  hs_replay_bytes :: nat
  hs_transcript :: transcript_reducer
  hs_widgets :: session_widgets
  hs_token_usage :: "token_usage_info option"
  hs_sent :: "agent_frame list"

definition record_and_publish :: "host_state \<Rightarrow> replay_entry \<Rightarrow> bool \<Rightarrow> host_state \<times> bool" where
  "record_and_publish self entry suppress_broadcast =
     (case (if replayable (rp_frame entry) then push_replay (hs_replay self) (hs_replay_bytes self) entry
            else (hs_replay self, hs_replay_bytes self, False)) of (replay, bytes, truncated) \<Rightarrow>
       (self\<lparr>hs_replay := replay, hs_replay_bytes := bytes,
             hs_sent := (if suppress_broadcast then hs_sent self else hs_sent self @ [rp_frame entry])\<rparr>, truncated))"

definition front_sequence :: "replay_entry list \<Rightarrow> nat option" where
  "front_sequence replay = (case replay of [] \<Rightarrow> None | entry # _ \<Rightarrow> event_sequence (rp_frame entry))"

definition note_frame :: "host_state \<Rightarrow> agent_frame \<Rightarrow> host_state" where
  "note_frame self frame =
     (let self = self\<lparr>hs_widgets := update_widgets (hs_widgets self) (frame_msg frame),
                      hs_token_usage := update_token_usage (hs_token_usage self) (frame_msg frame)\<rparr>
      in case frame_msg frame of
          AssistantMessage message \<Rightarrow>
            (case compact_replay_deltas (hs_replay self) (hs_replay_bytes self) (am_model_step_id message) of
              (replay, bytes) \<Rightarrow> self\<lparr>hs_replay := replay, hs_replay_bytes := bytes\<rparr>)
        | _ \<Rightarrow> self)"

definition project_and_publish :: "render_events \<Rightarrow> replay_codec \<Rightarrow> host_state \<Rightarrow> journal_event \<Rightarrow> journal_delivery
    \<Rightarrow> host_state \<times> agent_frame option gres" where
  "project_and_publish re rk self journal delivery =
     (case validate_gateway_event (ev_msg (je_event journal)) of
        Inl e \<Rightarrow> (self, Inl e)
      | Inr _ \<Rightarrow> (case classify_journal_sequence (hs_sequence self) (je_sequence journal) delivery of
          Inl e \<Rightarrow> (self, Inl e)
        | Inr kind \<Rightarrow> (case project_record re journal of (record, blocks) \<Rightarrow>
            (case (if kind = Next then reduce_apply (hs_transcript self) (je_sequence journal) (rc_recorded_at_ms record) (rc_event record) blocks
                   else (hs_transcript self, [])) of (transcript, ops) \<Rightarrow>
              (let self = self\<lparr>hs_transcript := transcript\<rparr>;
                   frame = \<lparr>fr_session_id = hs_session_id self, fr_record = record, fr_transcript = ops\<rparr>
               in case replay_entry_new rk frame of
                    Inl e \<Rightarrow> (self, Inl e)
                  | Inr entry \<Rightarrow>
                      (let self = note_frame self frame in
                       if kind = AlreadyLoaded then (self, Inr None)
                       else (case record_and_publish self entry (delivery \<noteq> Live) of (self, truncated) \<Rightarrow>
                         (let self = (if truncated then self\<lparr>hs_transcript := trim_before (hs_transcript self)
                                 (case front_sequence (hs_replay self) of Some s \<Rightarrow> s | None \<Rightarrow> sat_add (je_sequence journal) 1)\<rparr>
                               else self)
                          in (self\<lparr>hs_sequence := je_sequence journal\<rparr>, Inr (Some frame))))))))))"

text \<open>
  The events of the agent, one after another; the host stops at the first event it cannot apply.  The result is the
  list of the frames of the events.
\<close>

fun run_events :: "render_events \<Rightarrow> replay_codec \<Rightarrow> host_state \<Rightarrow> journal_event list \<Rightarrow> host_state \<times> agent_frame list gres" where
  "run_events re rk self [] = (self, Inr [])"
| "run_events re rk self (journal # events) = (case project_and_publish re rk self journal Live of
      (self, Inl e) \<Rightarrow> (self, Inl e)
    | (self, Inr frame) \<Rightarrow> (case run_events re rk self events of
          (self, Inl e) \<Rightarrow> (self, Inl e)
        | (self, Inr frames) \<Rightarrow> (self, Inr (case frame of Some f \<Rightarrow> f # frames | None \<Rightarrow> frames))))"

text \<open>The frames after \<open>last_sequence\<close>, while the window still holds them all.\<close>

definition replay_after :: "host_state \<Rightarrow> nat \<Rightarrow> agent_frame list option" where
  "replay_after self last_sequence =
     (let expired = last_sequence < hs_sequence self
            \<and> (case front_sequence (hs_replay self) of None \<Rightarrow> True | Some oldest \<Rightarrow> sat_add last_sequence 1 < oldest)
      in if hs_sequence self < last_sequence \<or> expired then None
         else Some (filter (\<lambda>frame. case event_sequence frame of Some sequence \<Rightarrow> last_sequence < sequence | None \<Rightarrow> False)
           (map rp_frame (hs_replay self))))"

subsection \<open>Loading a window from the journal\<close>

record load_scan =
  ld_latest_sequence :: nat
  ld_newest_first :: "journal_event list"
  ld_bytes :: nat
  ld_has_earlier :: bool

text \<open>The events of one page; the flag says that the byte limit ended the load.\<close>

fun load_events :: "replay_codec \<Rightarrow> load_scan \<Rightarrow> journal_event list \<Rightarrow> (load_scan \<times> bool) gres" where
  "load_events rk s [] = Inr (s, False)"
| "load_events rk s (journal # events) =
     (let s = s\<lparr>ld_latest_sequence := max (ld_latest_sequence s) (je_sequence journal)\<rparr> in
      res_bind (json_res (rk_journal rk journal)) (\<lambda>len.
        let s = s\<lparr>ld_bytes := sat_add (ld_bytes s) len\<rparr> in
        if MAX_REPLAY_BYTES < ld_bytes s then Inr (s\<lparr>ld_has_earlier := True\<rparr>, True)
        else load_events rk (s\<lparr>ld_newest_first := ld_newest_first s @ [journal]\<rparr>) events))"

function load_loop :: "replay_codec \<Rightarrow> journal_codec \<Rightarrow> session_db option \<Rightarrow> nat option \<Rightarrow> load_scan \<Rightarrow> load_scan gres" where
  "load_loop rk jc database before_sequence s =
     (let remaining = REPLAY_CAPACITY - length (ld_newest_first s) in
      if remaining = 0 then Inr (s\<lparr>ld_has_earlier := True\<rparr>)
      else (case event_page jc database before_sequence (min remaining REPLAY_LOAD_PAGE_SIZE) of
          Inl e \<Rightarrow> Inl (GMobius e)
        | Inr page \<Rightarrow>
            (case load_events rk (if before_sequence = None then s\<lparr>ld_latest_sequence := ep_latest_sequence page\<rparr> else s) (ep_events page) of
               Inl e \<Rightarrow> Inl e
             | Inr (s, stopped) \<Rightarrow> if stopped then Inr s
                 else (case ep_next_before_sequence page of
                     None \<Rightarrow> Inr s
                   | Some cursor \<Rightarrow> load_loop rk jc database (Some cursor) s))))"
  by pat_completeness auto
termination
  by (relation "measure (\<lambda>(rk, jc, database, cursor, s). rows_below database cursor)") (auto dest: event_page_next)

declare load_loop.simps [simp del]

text \<open>The columns of a session's summary that history reads, per session, and the journals.\<close>

record session_origin =
  so_parent_session_id :: "string option"
  so_parent_sequence :: "nat option"

record history_store =
  hi_codec :: journal_codec
  hi_journal :: "string \<Rightarrow> session_db option"
  hi_summary :: "string \<Rightarrow> session_origin option res"

definition is_turn_edge :: "journal_event \<Rightarrow> bool" where
  "is_turn_edge journal = (case ev_msg (je_event journal) of
      TurnStarted _ \<Rightarrow> True | TurnComplete _ \<Rightarrow> True | TurnAborted _ \<Rightarrow> True | _ \<Rightarrow> False)"

definition apply_start :: "transcript_reducer \<Rightarrow> journal_event \<Rightarrow> transcript_reducer" where
  "apply_start transcript journal =
     fst (reduce_apply transcript (je_sequence journal) (je_recorded_at_ms journal) (je_event journal) [])"

text \<open>A window that leaves out older events starts at a turn; agent starts in the gap before it still reach the reducer.\<close>

definition open_window :: "nat \<Rightarrow> journal_event list \<Rightarrow> journal_event list \<times> transcript_reducer" where
  "open_window latest_sequence events =
     (let start = (case position is_turn_start events of Some i \<Rightarrow> i | None \<Rightarrow> 0);
          left_out = take start events; events = drop start events;
          transcript = trim_before (reducer_new 0)
            (case events of [] \<Rightarrow> sat_add latest_sequence 1 | journal # _ \<Rightarrow> je_sequence journal);
          gap = takeWhile (\<lambda>journal. \<not> is_turn_edge journal) (rev left_out)
      in (events, foldl apply_start (follow_turn transcript) (filter is_configured gap)))"

record loaded_replay =
  lp_latest_sequence :: nat
  lp_replay :: "replay_entry list"
  lp_replay_bytes :: nat
  lp_transcript :: transcript_reducer
  lp_widgets :: session_widgets
  lp_token_usage :: "token_usage_info option"

fun load_frames :: "render_events \<Rightarrow> replay_codec \<Rightarrow> string \<Rightarrow> transcript_reducer \<times> replay_entry list \<times> nat \<times> bool
    \<Rightarrow> journal_event list \<Rightarrow> (transcript_reducer \<times> replay_entry list \<times> nat \<times> bool) gres" where
  "load_frames re rk session_id s [] = Inr s"
| "load_frames re rk session_id (transcript, replay, bytes, truncated) (journal # events) =
     (case project_record re journal of (record, blocks) \<Rightarrow>
       (case reduce_apply transcript (rc_sequence record) (rc_recorded_at_ms record) (rc_event record) blocks of (transcript, ops) \<Rightarrow>
         (let frame = \<lparr>fr_session_id = session_id, fr_record = record, fr_transcript = ops\<rparr> in
          if replayable frame
          then res_bind (replay_entry_new rk frame) (\<lambda>entry.
            case push_replay replay bytes entry of (replay, bytes, lost) \<Rightarrow>
              load_frames re rk session_id (transcript, replay, bytes, truncated \<or> lost) events)
          else load_frames re rk session_id (transcript, replay, bytes, truncated) events)))"

definition load_replay :: "render_events \<Rightarrow> replay_codec \<Rightarrow> history_store \<Rightarrow> string \<Rightarrow> loaded_replay gres" where
  "load_replay re rk store session_id =
     res_bind (load_loop rk (hi_codec store) (hi_journal store session_id) None
         \<lparr>ld_latest_sequence = 0, ld_newest_first = [], ld_bytes = 0, ld_has_earlier = False\<rparr>) (\<lambda>s.
     res_bind (if ld_has_earlier s then Inr (open_window (ld_latest_sequence s) (rev (ld_newest_first s)))
               else (case hi_summary store session_id of
                   Inl e \<Rightarrow> Inl (GMobius e)
                 | Inr summary \<Rightarrow> Inr (rev (ld_newest_first s),
                     (case Option.bind summary so_parent_session_id of
                        Some parent \<Rightarrow> fork_point (reducer_new 0) parent | None \<Rightarrow> reducer_new 0)))) (\<lambda>(events, transcript).
     res_bind (load_frames re rk session_id (transcript, [], 0, False) events) (\<lambda>(transcript, replay, bytes, truncated).
     Inr \<lparr>lp_latest_sequence = ld_latest_sequence s, lp_replay = replay, lp_replay_bytes = bytes,
          lp_transcript = (if truncated then trim_before transcript
              (case front_sequence replay of Some f \<Rightarrow> f | None \<Rightarrow> sat_add (ld_latest_sequence s) 1) else transcript),
          lp_widgets = foldl (\<lambda>widgets entry. update_widgets widgets (frame_msg (rp_frame entry))) [] replay,
          lp_token_usage = foldl (\<lambda>usage entry. update_token_usage usage (frame_msg (rp_frame entry))) None replay\<rparr>)))"

definition host_loaded :: "string \<Rightarrow> loaded_replay \<Rightarrow> host_state" where
  "host_loaded session_id loaded = \<lparr>hs_session_id = session_id, hs_sequence = lp_latest_sequence loaded,
     hs_replay = lp_replay loaded, hs_replay_bytes = lp_replay_bytes loaded, hs_transcript = lp_transcript loaded,
     hs_widgets = lp_widgets loaded, hs_token_usage = lp_token_usage loaded, hs_sent = []\<rparr>"

subsection \<open>Inherited history\<close>

record rejection =
  rj_code :: string
  rj_message :: string
  rj_fatal :: bool

definition rejection_new :: "string \<Rightarrow> string \<Rightarrow> rejection" where
  "rejection_new code message = \<lparr>rj_code = code, rj_message = message, rj_fatal = False\<rparr>"

definition internal :: "error \<Rightarrow> rejection" where
  "internal e = rejection_new ''gateway_error'' (error_display e)"

definition or_internal :: "'a res \<Rightarrow> rejection + 'a" where
  "or_internal r = (case r of Inl e \<Rightarrow> Inl (internal e) | Inr x \<Rightarrow> Inr x)"

record history_cursor =
  hc_session_id :: string
  hc_before_sequence :: nat

record session_history_page =
  hp_page :: transcript_page
  hp_next :: "history_cursor option"

text \<open>The chat a chat was forked from and the parent checkpoint it forked at.\<close>

definition fork_origin :: "history_store \<Rightarrow> string \<Rightarrow> rejection + (string \<times> nat) option" where
  "fork_origin store chat = res_bind (or_internal (hi_summary store chat)) (\<lambda>summary.
     Inr (Option.bind summary (\<lambda>s. Option.bind (so_parent_session_id s) (\<lambda>parent.
       map_option (\<lambda>sequence. (parent, sequence)) (so_parent_sequence s)))))"

definition is_cut :: "nat \<Rightarrow> journal_event \<Rightarrow> bool" where
  "is_cut sequence journal =
     (case (case ev_msg (je_event journal) of
         MessageMsg message \<Rightarrow> me_target message | AssistantMessage message \<Rightarrow> am_target message | _ \<Rightarrow> None) of
        Some target \<Rightarrow> checkpoint_sequence target \<le> sequence | None \<Rightarrow> False)"

function fork_cut_loop :: "nat \<Rightarrow> journal_codec \<Rightarrow> session_db option \<Rightarrow> nat \<Rightarrow> nat option \<Rightarrow> nat option res" where
  "fork_cut_loop page_size jc database sequence before_sequence =
     (case event_page jc database before_sequence page_size of
        Inl e \<Rightarrow> Inl e
      | Inr page \<Rightarrow> (case find (is_cut sequence) (ep_events page) of
            Some journal \<Rightarrow> Inr (Some (je_sequence journal))
          | None \<Rightarrow> (case ep_next_before_sequence page of
                None \<Rightarrow> Inr None
              | Some n \<Rightarrow> fork_cut_loop page_size jc database sequence (Some n))))"
  by pat_completeness auto
termination
  by (relation "measure (\<lambda>(page_size, jc, database, sequence, cursor). rows_below database cursor)") (auto dest: event_page_next)

declare fork_cut_loop.simps [simp del]

definition fork_cut :: "history_store \<Rightarrow> string \<Rightarrow> nat \<Rightarrow> rejection + nat option" where
  "fork_cut store chat sequence =
     or_internal (fork_cut_loop FORK_SCAN_PAGE_SIZE (hi_codec store) (hi_journal store chat) sequence None)"

text \<open>Walks up the forks.  \<open>None\<close> is a walk that never ends, which a cyclic ancestry would give.\<close>

partial_function (option) inherited_cursor :: "history_store \<Rightarrow> string \<Rightarrow> nat \<Rightarrow> (rejection + history_cursor option) option" where
  "inherited_cursor store parent parent_sequence = (case fork_cut store parent parent_sequence of
      Inl r \<Rightarrow> Some (Inl r)
    | Inr (Some found) \<Rightarrow> Some (Inr (Some \<lparr>hc_session_id = parent, hc_before_sequence = sat_add found 1\<rparr>))
    | Inr None \<Rightarrow> (case fork_origin store parent of
          Inl r \<Rightarrow> Some (Inl r)
        | Inr None \<Rightarrow> Some (Inr None)
        | Inr (Some origin) \<Rightarrow> inherited_cursor store (fst origin) (snd origin)))"

partial_function (option) fork_depth_from :: "history_store \<Rightarrow> string \<Rightarrow> string \<Rightarrow> nat \<Rightarrow> (rejection + nat) option" where
  "fork_depth_from store chat current depth =
     (if current = chat then Some (Inr depth)
      else (case fork_origin store current of
          Inl r \<Rightarrow> Some (Inl r)
        | Inr None \<Rightarrow> Some (Inl (rejection_new ''invalid_history_cursor''
            ''the history cursor names a chat this one was not forked from''))
        | Inr (Some origin) \<Rightarrow> fork_depth_from store chat (fst origin) (u32_sat_add depth 1)))"

definition fork_depth :: "history_store \<Rightarrow> string \<Rightarrow> string \<Rightarrow> (rejection + nat) option" where
  "fork_depth store session_id chat = fork_depth_from store chat session_id 0"

definition apply_journal :: "render_events \<Rightarrow> transcript_reducer \<Rightarrow> journal_event \<Rightarrow> transcript_reducer" where
  "apply_journal re transcript journal = fst (reduce_apply transcript (je_sequence journal) (je_recorded_at_ms journal)
     (je_event journal) (re_render re (ev_msg (je_event journal))))"

definition history_transcript :: "render_events \<Rightarrow> nat \<Rightarrow> journal_page \<Rightarrow> transcript_reducer" where
  "history_transcript re depth page =
     (let transcript = (if ep_next_before_sequence page \<noteq> None then follow_turn (reducer_new depth) else reducer_new depth);
          transcript = foldl (apply_journal re) transcript (rev (ep_events page))
      in if 0 < depth then finish_open_turns transcript else transcript)"

definition history_next :: "history_store \<Rightarrow> string \<Rightarrow> nat option \<Rightarrow> transcript_reducer
    \<Rightarrow> (rejection + transcript_reducer \<times> history_cursor option) option" where
  "history_next store chat next_before_sequence transcript = (case next_before_sequence of
      Some before_sequence \<Rightarrow> Some (Inr (transcript, Some \<lparr>hc_session_id = chat, hc_before_sequence = before_sequence\<rparr>))
    | None \<Rightarrow> (case fork_origin store chat of
          Inl r \<Rightarrow> Some (Inl r)
        | Inr None \<Rightarrow> Some (Inr (transcript, None))
        | Inr (Some (parent, parent_sequence)) \<Rightarrow>
            map_option (map_sum id (Pair (fork_point transcript parent))) (inherited_cursor store parent parent_sequence)))"

definition durable_history_page :: "render_events \<Rightarrow> history_store \<Rightarrow> string \<Rightarrow> history_cursor option
    \<Rightarrow> (rejection + session_history_page) option" where
  "durable_history_page re store session_id before =
     Option.bind (case before of
         None \<Rightarrow> Some (Inr (session_id, 0, None))
       | Some cursor \<Rightarrow> map_option (map_sum id (\<lambda>depth. (hc_session_id cursor, depth, Some (hc_before_sequence cursor))))
           (fork_depth store session_id (hc_session_id cursor))) (\<lambda>start.
     case start of Inl r \<Rightarrow> Some (Inl r) | Inr (chat, depth, before_sequence) \<Rightarrow>
     (case or_internal (event_turn_page (hi_codec store) (hi_journal store chat) before_sequence) of
        Inl r \<Rightarrow> Some (Inl r)
      | Inr page \<Rightarrow> map_option (map_sum id (\<lambda>(transcript, nxt). \<lparr>hp_page = reducer_page transcript, hp_next = nxt\<rparr>))
          (history_next store chat (ep_next_before_sequence page) (history_transcript re depth page))))"

text \<open>What a client gets when it opens the chat: the frames it missed, or the transcript and where history goes on.\<close>

datatype open_replay = Frames "agent_frame list" | FullTranscript nat transcript_page "history_cursor option"

definition transcript_next :: "history_store \<Rightarrow> host_state \<Rightarrow> (rejection + history_cursor option) option" where
  "transcript_next store self = (case history_before (hs_transcript self) of
      Some before_sequence \<Rightarrow> Some (Inr (Some \<lparr>hc_session_id = hs_session_id self, hc_before_sequence = before_sequence\<rparr>))
    | None \<Rightarrow> (case fork_origin store (hs_session_id self) of
          Inl r \<Rightarrow> Some (Inl r)
        | Inr (Some (parent, parent_sequence)) \<Rightarrow> inherited_cursor store parent parent_sequence
        | Inr None \<Rightarrow> Some (Inr None)))"

text \<open>The payload of \<open>session_opened\<close> (\<open>ready\<close>) is what the session reports; it is read first, and its failure is the answer.\<close>

definition snapshot_value :: "'ready res \<Rightarrow> history_store \<Rightarrow> host_state \<Rightarrow> nat option \<Rightarrow> (rejection + 'ready \<times> open_replay) option" where
  "snapshot_value ready store self last_sequence = (case or_internal ready of
      Inl r \<Rightarrow> Some (Inl r)
    | Inr payload \<Rightarrow> map_option (map_sum id (Pair payload)) (case Option.bind last_sequence (replay_after self) of
        Some frames \<Rightarrow> Some (Inr (Frames frames))
      | None \<Rightarrow> map_option (map_sum id (FullTranscript (hs_sequence self) (snapshot (hs_transcript self)))) (transcript_next store self)))"

end
