(* ===== verification/Replay_Resume.thy ===== *)
theory Replay_Resume
  imports Replay
begin

text \<open>
  The replay window and its clients.  A client that reconnects with the sequence it has seen gets either the whole
  transcript or exactly what it needs: the window drops frames (it evicts the oldest ones, skips frames a reconnect
  has no use for, and removes streamed deltas once the complete message is there), and the frames it keeps bring the
  client to the same state as all frames would.
\<close>

subsection \<open>Frames that can be left out\<close>

text \<open>Two clients that differ at most in the text of one item.\<close>

definition holds_text :: "transcript_item \<Rightarrow> bool" where
  "holds_text item \<longleftrightarrow> append_content [] (xi_content item) \<noteq> None"

definition differ_in_text :: "string \<Rightarrow> transcript_client \<Rightarrow> transcript_client \<Rightarrow> bool" where
  "differ_in_text i c d \<longleftrightarrow> vw_rows c = vw_rows d \<and> (\<forall>j. j \<noteq> i \<longrightarrow> vw_items c j = vw_items d j)
     \<and> (vw_items c i = vw_items d i
        \<or> (\<exists>a b. vw_items c i = Some a \<and> vw_items d i = Some b \<and> holds_text a \<and> holds_text b))"

lemma append_content_text: "append_content t content = Some content' \<Longrightarrow> holds_text (item\<lparr>xi_content := content'\<rparr>)"
  by (cases content) (auto simp: holds_text_def)

lemma holds_text_append: "holds_text item \<Longrightarrow> \<exists>content. append_content t (xi_content item) = Some content"
  by (cases "xi_content item") (auto simp: holds_text_def)

lemma append_holds_text: "append_content t (xi_content item) = Some content \<Longrightarrow> holds_text item"
  by (cases "xi_content item") (auto simp: holds_text_def)

lemma holds_text_no_block: "holds_text item \<Longrightarrow> client_append_block delta item = None"
  by (cases "xi_content item") (auto simp: holds_text_def client_append_block_def)

definition sets_item :: "string \<Rightarrow> transcript_op \<Rightarrow> bool" where
  "sets_item i op = (case op of OpItem item \<Rightarrow> xi_id item = i | _ \<Rightarrow> False)"

lemma differ_refl [simp]: "differ_in_text i c c"
  by (simp add: differ_in_text_def)

lemma differ_upd: "differ_in_text i c d \<Longrightarrow> differ_in_text i (c\<lparr>vw_items := (vw_items c)(j \<mapsto> x)\<rparr>) (d\<lparr>vw_items := (vw_items d)(j \<mapsto> x)\<rparr>)"
  by (auto simp: differ_in_text_def)

lemma client_op_differ:
  assumes d: "differ_in_text i c d" and a: "client_apply_op c op = Some c'"
  shows "\<exists>d'. client_apply_op d op = Some d' \<and> differ_in_text i c' d' \<and> (sets_item i op \<longrightarrow> c' = d')"
proof (cases op)
  case (OpItem item)
  let ?c = "c\<lparr>vw_items := (vw_items c)(xi_id item \<mapsto> item)\<rparr>" and ?d = "d\<lparr>vw_items := (vw_items d)(xi_id item \<mapsto> item)\<rparr>"
  have "?c = ?d" if "xi_id item = i"
    using d that by (cases c; cases d) (auto simp: differ_in_text_def fun_eq_iff)
  with OpItem a differ_upd [OF d, of "xi_id item" item] show ?thesis by (auto simp: sets_item_def)
next
  case (OpAppendText j t)
  show ?thesis
  proof (cases "j = i")
    case False
    with d have "vw_items d j = vw_items c j" by (simp add: differ_in_text_def)
    with OpAppendText a d differ_upd [OF d, of j] show ?thesis by (auto simp: sets_item_def split: option.splits)
  next
    case True
    show ?thesis
    proof (cases "vw_items c i")
      case None
      with d have "vw_items d i = None" by (auto simp: differ_in_text_def)
      with None OpAppendText True a d show ?thesis by (auto simp: sets_item_def)
    next
      case (Some x)
      with OpAppendText True a obtain content where x: "append_content t (xi_content x) = Some content"
        "c' = c\<lparr>vw_items := (vw_items c)(i \<mapsto> x\<lparr>xi_content := content\<rparr>)\<rparr>" by auto
      from d Some obtain y where y: "vw_items d i = Some y" "y = x \<or> holds_text y"
        by (cases "vw_items d i") (auto simp: differ_in_text_def)
      with append_holds_text [OF x(1)] have "holds_text y" by blast
      from holds_text_append [OF this] obtain content' where "append_content t (xi_content y) = Some content'" by blast
      with y OpAppendText True x d append_content_text [OF x(1), of x] append_content_text [of t "xi_content y" content' y]
      show ?thesis by (auto simp: sets_item_def differ_in_text_def)
    qed
  qed
next
  case (OpAppendBlock j delta)
  have "vw_items d j = vw_items c j"
  proof (cases "j = i")
    case True
    with OpAppendBlock a obtain x where "vw_items c i = Some x" "client_append_block delta x \<noteq> None" by (auto split: option.splits)
    with d holds_text_no_block True show ?thesis by (auto simp: differ_in_text_def)
  qed (use d in \<open>simp add: differ_in_text_def\<close>)
  with OpAppendBlock a differ_upd [OF d, of j] show ?thesis by (auto simp: sets_item_def split: option.splits)
qed (use a d in \<open>auto simp: sets_item_def differ_in_text_def split: option.splits if_splits\<close>)

lemma client_apply_differ:
  "differ_in_text i c d \<Longrightarrow> list_ex (sets_item i) ops \<Longrightarrow> client_apply c ops = Some c' \<Longrightarrow> client_apply d ops = Some c'"
proof (induction ops arbitrary: c d)
  case (Cons op ops)
  from Cons.prems(3) obtain c1 where c1: "client_apply_op c op = Some c1" "client_apply c1 ops = Some c'" by (auto split: Option.bind_splits)
  from client_op_differ [OF Cons.prems(1) c1(1)] obtain d1 where d1: "client_apply_op d op = Some d1" "differ_in_text i c1 d1"
    "sets_item i op \<longrightarrow> c1 = d1" by blast
  with c1 Cons.IH [OF d1(2)] Cons.prems(2) show ?case by auto
qed simp

text \<open>Text that is appended to an item a later op replaces need not be sent.\<close>

lemma append_superseded:
  assumes "client_apply c (OpAppendText i t # ops) = Some c'" and "list_ex (sets_item i) ops"
  shows "client_apply c ops = Some c'"
proof -
  from assms(1) obtain c1 where c1: "client_apply_op c (OpAppendText i t) = Some c1" "client_apply c1 ops = Some c'"
    by (auto split: Option.bind_splits)
  have "differ_in_text i c1 c"
  proof (cases "vw_items c i")
    case (Some x)
    with c1(1) obtain content where "append_content t (xi_content x) = Some content"
      "c1 = c\<lparr>vw_items := (vw_items c)(i \<mapsto> x\<lparr>xi_content := content\<rparr>)\<rparr>" by auto
    with Some append_content_text append_holds_text show ?thesis by (auto simp: differ_in_text_def)
  qed (use c1(1) in simp)
  from client_apply_differ [OF this assms(2) c1(2)] show ?thesis .
qed

text \<open>\<open>later\<close> makes an op superfluous: text appended to an item that \<open>later\<close> sets.\<close>

definition superseded_by :: "transcript_op list \<Rightarrow> transcript_op \<Rightarrow> bool" where
  "superseded_by later op = (case op of OpAppendText i _ \<Rightarrow> list_ex (sets_item i) later | _ \<Rightarrow> False)"

lemma superseded_mono: "superseded_by later op \<Longrightarrow> set later \<subseteq> set later' \<Longrightarrow> superseded_by later' op"
  by (auto simp: superseded_by_def list_ex_iff split: transcript_op.splits)

lemma ops_superseded:
  "client_apply c (ops @ later) = Some c' \<Longrightarrow> list_all (superseded_by later) ops \<Longrightarrow> client_apply c later = Some c'"
proof (induction ops arbitrary: c)
  case (Cons op ops)
  then obtain i t where op: "op = OpAppendText i t" "list_ex (sets_item i) later"
    by (auto simp: superseded_by_def split: transcript_op.splits)
  with append_superseded [of c i t "ops @ later" c'] Cons show ?case by (simp add: list_ex_iff) blast
qed simp

inductive thins :: "transcript_op list list \<Rightarrow> transcript_op list list \<Rightarrow> bool" where
  none: "thins [] []"
| keep: "thins xs ys \<Longrightarrow> thins (ops # xs) (ops # ys)"
| skip: "thins xs ys \<Longrightarrow> list_all (superseded_by (concat xs)) ops \<Longrightarrow> thins (ops # xs) ys"

lemma thins_apply: "thins xs ys \<Longrightarrow> client_apply c (concat xs) = Some c' \<Longrightarrow> client_apply c (concat ys) = Some c'"
proof (induction arbitrary: c rule: thins.induct)
  case (keep xs ys ops)
  then show ?case by (auto simp: client_apply_append split: Option.bind_splits)
next
  case (skip xs ys ops)
  from ops_superseded [of c ops "concat xs" c'] skip show ?case by simp
qed simp

lemma thins_refl: "thins xs xs"
  by (induction xs) (auto intro: thins.intros)

lemma superseded_all_mono: "list_all (superseded_by later) ops \<Longrightarrow> set later \<subseteq> set later' \<Longrightarrow> list_all (superseded_by later') ops"
  by (auto simp: list_all_iff intro: superseded_mono)

text \<open>A new frame at the end, kept or empty, and frames it supersedes.\<close>

lemma thins_snoc: "thins xs ys \<Longrightarrow> thins (xs @ [ops]) (ys @ [ops])"
proof (induction rule: thins.induct)
  case (skip xs ys o')
  then show ?case using superseded_all_mono [of "concat xs" o' "concat (xs @ [ops])"] by (auto intro: thins.skip)
qed (auto intro: thins.intros thins_refl)

lemma thins_snoc_empty: "thins xs ys \<Longrightarrow> thins (xs @ [[]]) ys"
proof (induction rule: thins.induct)
  case none
  show ?case by (auto intro: thins.intros)
next
  case (skip xs ys o')
  then show ?case using superseded_all_mono [of "concat xs" o' "concat (xs @ [[]])"] by (auto intro: thins.skip)
qed (auto intro: thins.intros)

lemma thins_filter:
  "thins xs (map f zs) \<Longrightarrow> (\<And>z. z \<in> set zs \<Longrightarrow> \<not> P z \<Longrightarrow> list_all (superseded_by ops) (f z))
    \<Longrightarrow> thins (xs @ [ops]) (map f (filter P zs) @ [ops])"
proof (induction xs "map f zs" arbitrary: zs rule: thins.induct)
  case none
  then show ?case by (auto intro: thins_refl)
next
  case (keep xs ys o')
  then obtain z zs' where z: "zs = z # zs'" "o' = f z" "ys = map f zs'" by auto
  with keep have ih: "thins (xs @ [ops]) (map f (filter P zs') @ [ops])" by simp
  show ?case
  proof (cases "P z")
    case True
    with ih z show ?thesis by (auto intro: thins.keep)
  next
    case False
    with keep.prems z have "list_all (superseded_by (concat (xs @ [ops]))) o'"
      using superseded_all_mono [of ops o' "concat (xs @ [ops])"] by simp
    with ih False z show ?thesis by (auto intro: thins.skip)
  qed
next
  case (skip xs o')
  then have "thins (xs @ [ops]) (map f (filter P zs) @ [ops])" by simp
  moreover have "list_all (superseded_by (concat (xs @ [ops]))) o'"
    using skip superseded_all_mono [of "concat xs" o' "concat (xs @ [ops])"] by simp
  ultimately show ?case by (auto intro: thins.skip)
qed

subsection \<open>What the reducer sends for streamed text\<close>

text \<open>Ops of rows and whole items append no text.\<close>

lemma item_ops_no_text: "op \<in> set (item_ops items changed) \<Longrightarrow> \<not> is_append_text op"
  by (auto simp: item_ops_def List.map_filter_def split: option.splits)

lemma emit_all_ops: "(\<And>s x op. op \<in> set (snd (f s x)) \<Longrightarrow> P op) \<Longrightarrow> op \<in> set (snd (emit_all f s xs)) \<Longrightarrow> P op"
  by (induction xs arbitrary: s) (auto simp: split_beta)

lemma put_row_no_text: "op \<in> set (snd (put_row known row)) \<Longrightarrow> \<not> is_append_text op"
  by (auto simp: put_row_def split: option.splits if_splits)

lemma remove_row_no_text: "op \<in> set (snd (remove_row rows known i)) \<Longrightarrow> \<not> is_append_text op"
  by (auto simp: remove_row_def split: if_splits)

lemma replace_rows_no_text: "op \<in> set (fst (snd (replace_rows known previous rows))) \<Longrightarrow> \<not> is_append_text op"
  using emit_all_ops [of "remove_row rows" "\<lambda>op. \<not> is_append_text op" op known previous, OF remove_row_no_text]
    emit_all_ops [of put_row "\<lambda>op. \<not> is_append_text op" op "fst (emit_all (remove_row rows) known previous)" rows, OF put_row_no_text]
  by (auto simp: replace_rows_def split_beta)

lemma publish_turn_no_text: "op \<in> set (snd (publish_turn self t)) \<Longrightarrow> \<not> is_append_text op"
  using replace_rows_no_text by (fastforce simp: publish_turn_def split_beta split: option.splits)

lemma reduce_publish_text:
  assumes "op \<in> set (snd (reduce_publish self step))" and "is_append_text op"
  shows "op \<in> set (zs_ops step)"
proof -
  have "op \<notin> set (snd (emit_all publish_turn self (zs_turns step)))"
    using emit_all_ops [of publish_turn "\<lambda>op. \<not> is_append_text op" op self "zs_turns step"] publish_turn_no_text assms(2) by blast
  moreover have "op \<notin> set (snd (publish_loose self'))" for self'
    using replace_rows_no_text assms(2) by (fastforce simp: publish_loose_def split_beta)
  moreover have "op \<notin> set (item_ops items changed)" for items changed using item_ops_no_text assms(2) by blast
  ultimately show ?thesis using assms(1) by (auto simp: reduce_publish_def split_beta split: if_splits)
qed

lemma set_item_ops [simp]: "zs_ops (snd (set_item self step i index content f)) = zs_ops step"
  by (simp add: set_item_def Let_def split: option.split)

lemma edit_if_ops [simp]: "zs_ops (snd (edit_if self step i P f)) = zs_ops step"
  by (simp add: edit_if_def split: option.split)

lemma append_block_ops [simp]: "zs_ops (snd (append_block self step i block ends_turn)) = zs_ops step"
  by (simp add: append_block_def Let_def split_beta split: option.split transcript_item_content.split)

lemma put_block_ops [simp]: "zs_ops (snd (put_block self step offset rendered ends_turn)) = zs_ops step"
  by (simp add: put_block_def Let_def split_beta)

lemma put_blocks_ops [simp]: "zs_ops (snd (put_blocks self step offset blocks ends_turn)) = zs_ops step"
proof (induction blocks arbitrary: self step offset)
  case (Cons rendered blocks)
  obtain self' step' where p: "put_block self step offset rendered ends_turn = (self', step')" by fastforce
  with put_block_ops [of self step offset rendered ends_turn] Cons.IH [of self' step' "Suc offset"] show ?case by simp
qed simp

lemma own_report_ops [simp]: "zs_ops (snd (own_report self step msg first)) = zs_ops step"
  by (auto simp: own_report_def Let_def split: event_msg.split option.split)

lemma reduce_apply_text:
  assumes "reduce_apply self sequence at e blocks = (self', ops)" and op: "op \<in> set ops" "is_append_text op"
  shows "op \<in> set (zs_ops (snd (reduce_event (self\<lparr>rx_last_event := Some (sequence, u32_sat_add (event_base self sequence)
    (u32_sat_add (min (length blocks) u32_max) BLOCK_INDEX_BASE))\<rparr>) (new_step sequence (event_base self sequence) at) e (blocks \<noteq> []))))"
proof -
  define self0 where "self0 = self\<lparr>rx_last_event := Some (sequence, u32_sat_add (event_base self sequence)
    (u32_sat_add (min (length blocks) u32_max) BLOCK_INDEX_BASE))\<rparr>"
  let ?step = "new_step sequence (event_base self sequence) at"
  obtain self1 step1 where r1: "reduce_event self0 ?step e (blocks \<noteq> []) = (self1, step1)" by fastforce
  obtain self2 step2 where r2: "put_blocks self1 step1 0 blocks (ends_turn_event (ev_msg e)) = (self2, step2)" by fastforce
  define first_block where "first_block = (case blocks of [] \<Rightarrow> None | rendered # _ \<Rightarrow> Some (block_id self1 step1 0 rendered))"
  obtain self3 step3 where r3: "own_report self2 step2 (ev_msg e) first_block = (self3, step3)" by fastforce
  have "reduce_apply self sequence at e blocks = reduce_publish (leave_turn (ev_msg e) self3) step3"
    unfolding reduce_apply_def Let_def self0_def [symmetric] r1 prod.case first_block_def [symmetric] r2 r3 by simp
  with assms have "op \<in> set (zs_ops step3)" using reduce_publish_text [of op "leave_turn (ev_msg e) self3" step3] by simp
  moreover have "zs_ops step3 = zs_ops step1"
    using put_blocks_ops [of self1 step1 0 blocks "ends_turn_event (ev_msg e)"] own_report_ops [of self2 step2 "ev_msg e" first_block]
    by (simp add: r2 r3)
  ultimately show ?thesis by (simp add: self0_def [symmetric] r1)
qed

definition stream_id :: "nat \<Rightarrow> string \<Rightarrow> model_step_content_phase \<Rightarrow> string" where
  "stream_id depth model_step phase = assistant_id (reducer_new depth) model_step phase"

lemma stream_id: "rx_depth self = depth \<Longrightarrow> assistant_id self model_step phase = stream_id depth model_step phase"
  by (auto simp: stream_id_def assistant_id_def reducer_id_def reducer_new_def)

text \<open>A streamed delta appends text to the item of its step and phase, and to no other.\<close>

lemma delta_text_ids:
  assumes r: "reduce_apply self sequence at e blocks = (self', ops)" and m: "ev_msg e = AssistantContentDelta delta"
    and op: "OpAppendText i t \<in> set ops"
  shows "i = stream_id (rx_depth self) (ad_model_step_id delta) (ad_phase delta)"
proof -
  have "i = assistant_id (s\<lparr>rx_current_turn := Some (ad_turn_id delta)\<rparr>) (ad_model_step_id delta) (ad_phase delta)"
    if "OpAppendText i t \<in> set (zs_ops (snd (assistant_delta s (new_step sequence base at) delta)))" for s base
    using that by (auto simp: assistant_delta_def append_text_def new_step_def Let_def split: option.splits if_splits)
  moreover let ?s = "self\<lparr>rx_last_event := Some (sequence, u32_sat_add (event_base self sequence)
    (u32_sat_add (min (length blocks) u32_max) BLOCK_INDEX_BASE))\<rparr>"
  have "OpAppendText i t \<in> set (zs_ops (snd (assistant_delta ?s (new_step sequence (event_base self sequence) at) delta)))"
    using reduce_apply_text [OF r op] m by (simp add: reduce_event_def)
  ultimately have "i = assistant_id (?s\<lparr>rx_current_turn := Some (ad_turn_id delta)\<rparr>) (ad_model_step_id delta) (ad_phase delta)"
    by blast
  also have "\<dots> = stream_id (rx_depth self) (ad_model_step_id delta) (ad_phase delta)" by (rule stream_id) simp
  finally show ?thesis .
qed

text \<open>An item marked whole is sent whole.\<close>

definition marked :: "string \<Rightarrow> transcript_reducer \<times> reduce_step \<Rightarrow> bool" where
  "marked i s \<longleftrightarrow> map_of (zs_items (snd s)) i = Some None \<and> map_of (rx_items (fst s)) i \<noteq> None"

lemma move_marked: "move s s' \<Longrightarrow> marked i s \<Longrightarrow> marked i s'"
  by (cases rule: move.cases) (auto simp: marked_def same_core_def set_slot_def update_conv' split: option.splits)

lemma moves_marked: "move\<^sup>*\<^sup>* s s' \<Longrightarrow> marked i s \<Longrightarrow> marked i s'"
  by (induction rule: rtranclp_induct) (auto intro: move_marked)

lemma set_item_marked: "items_keyed self \<Longrightarrow> marked i (set_item self step i index content f)"
  by (auto simp: marked_def set_item_def Let_def update_conv' items_keyed_def split: option.split)

lemma marked_sent:
  assumes "marked i (self, step)" and "items_keyed self"
  shows "list_ex (sets_item i) (snd (reduce_publish self step))"
proof -
  from assms obtain slot where slot: "map_of (rx_items self) i = Some slot" "xi_id (sl_item slot) = i"
    by (auto simp: marked_def items_keyed_def)
  from assms(1) have "(i, None) \<in> set (zs_items step)" by (auto simp: marked_def dest: map_of_SomeD)
  with slot(1) have "OpItem (sl_item slot) \<in> set (item_ops (rx_items self) (zs_items step))"
    by (force simp: item_ops_def List.map_filter_def)
  then have "OpItem (sl_item slot) \<in> set (snd (reduce_publish self step))" by (simp add: reduce_publish_def split_beta)
  with slot(2) show ?thesis by (auto simp: list_ex_iff sets_item_def intro!: bexI [of _ "OpItem (sl_item slot)"])
qed

definition phase_text :: "assistant_message_event \<Rightarrow> model_step_content_phase \<Rightarrow> string" where
  "phase_text message phase = join [LF] (map sc_text (filter (\<lambda>part. sc_phase part = phase) (am_content message)))"

lemma assistant_phase_marked:
  "items_keyed (fst s) \<Longrightarrow> phase_text message phase \<noteq> [] \<Longrightarrow> rx_depth (fst s) = depth
    \<Longrightarrow> marked (stream_id depth (am_model_step_id message) phase) (assistant_phase message s phase)"
  using stream_id [of "fst s" depth "am_model_step_id message" phase] set_item_marked
  by (simp add: assistant_phase_def Let_def phase_text_def)

lemma assistant_marked:
  assumes k: "items_keyed self" and t: "phase_text message phase \<noteq> []"
  shows "marked (stream_id (rx_depth self) (am_model_step_id message) phase) (assistant self step message)"
proof -
  have fold: "marked (stream_id (rx_depth (fst s)) (am_model_step_id message) phase) (foldl (assistant_phase message) s phases)"
    if "items_keyed (fst s)" "phase \<in> set phases" for s phases
    using that
  proof (induction phases arbitrary: s)
    case (Cons p phases)
    have m: "move\<^sup>*\<^sup>* s (assistant_phase message s p)" by (rule assistant_phase_moves [OF Cons.prems(1)])
    have k: "items_keyed (fst (assistant_phase message s p))" by (rule moves_items_keyed [OF m Cons.prems(1)])
    have d: "rx_depth (fst (assistant_phase message s p)) = rx_depth (fst s)" by (rule moves_depth [OF m])
    show ?case
    proof (cases "phase \<in> set phases")
      case True
      from Cons.IH [OF k True] d show ?thesis by simp
    next
      case False
      with Cons.prems(2) have "p = phase" by simp
      with assistant_phase_marked [OF Cons.prems(1) t refl] have "marked (stream_id (rx_depth (fst s)) (am_model_step_id message) phase)
        (assistant_phase message s p)" by simp
      moreover have "move\<^sup>*\<^sup>* s' (foldl (assistant_phase message) s' phases)" if "items_keyed (fst s')" for s'
        using that
      proof (induction phases arbitrary: s')
        case (Cons q phases)
        note m = assistant_phase_moves [OF Cons.prems, of message q]
        from Cons.IH [OF moves_items_keyed [OF m Cons.prems]] m show ?case by simp
      qed simp
      from moves_marked [OF this [OF k]] calculation show ?thesis by simp
    qed
  qed simp
  have "phase \<in> set [Reasoning, Commentary, FinalAnswer]" by (cases phase) simp_all
  from fold [OF _ this, of "(self\<lparr>rx_current_turn := Some (am_turn_id message)\<rparr>, step)"] k show ?thesis
    by (simp add: assistant_def items_keyed_def)
qed

text \<open>A complete message sends every item of its step that has text, whole.\<close>

lemma message_sets_items:
  assumes k: "items_keyed self" and r: "reduce_apply self sequence at e blocks = (self', ops)"
    and m: "ev_msg e = AssistantMessage message" and t: "phase_text message phase \<noteq> []"
  shows "list_ex (sets_item (stream_id (rx_depth self) (am_model_step_id message) phase)) ops"
proof -
  define self0 where "self0 = self\<lparr>rx_last_event := Some (sequence, u32_sat_add (event_base self sequence)
    (u32_sat_add (min (length blocks) u32_max) BLOCK_INDEX_BASE))\<rparr>"
  let ?step = "new_step sequence (event_base self sequence) at" and ?i = "stream_id (rx_depth self) (am_model_step_id message) phase"
  have k0: "items_keyed self0" using k by (simp add: self0_def items_keyed_def)
  obtain self1 step1 where r1: "assistant self0 ?step message = (self1, step1)" by fastforce
  have k1: "items_keyed self1" using moves_items_keyed [OF assistant_moves [OF k0, of ?step message]] k0 by (simp add: r1)
  have m1: "marked ?i (self1, step1)" using assistant_marked [OF k0 t, of ?step] r1 by (simp add: self0_def)
  obtain self2 step2 where r2: "put_blocks self1 step1 0 blocks False = (self2, step2)" by fastforce
  from put_blocks_moves [OF k1, of step1 0 blocks False] r2 have mv: "move\<^sup>*\<^sup>* (self1, step1) (self2, step2)" by simp
  have m2: "marked ?i (self2, step2)" by (rule moves_marked [OF mv m1])
  have k2: "items_keyed self2" using moves_items_keyed [OF mv] k1 by simp
  define first_block where "first_block = (case blocks of [] \<Rightarrow> None | rendered # _ \<Rightarrow> Some (block_id self1 step1 0 rendered))"
  have own: "own_report self2 step2 (ev_msg e) first_block = (self2, step2)" by (simp add: own_report_def m)
  have leave: "leave_turn (ev_msg e) self2 = self2" by (simp add: leave_turn_def finished_turn_id_def m)
  have re: "reduce_event self0 ?step e (blocks \<noteq> []) = (self1, step1)" by (simp add: reduce_event_def m r1)
  have et: "ends_turn_event (ev_msg e) = False" by (simp add: ends_turn_event_def m)
  have "reduce_apply self sequence at e blocks = reduce_publish self2 step2"
    unfolding reduce_apply_def Let_def self0_def [symmetric] re prod.case first_block_def [symmetric] et r2 own leave by simp
  with marked_sent [OF m2 k2] r show ?thesis by simp
qed

subsection \<open>One event of the host\<close>

lemma evict_suffix: "\<exists>k. fst (evict replay bytes needed truncated) = drop k replay"
proof (induction replay bytes needed truncated rule: evict.induct)
  case (2 discarded replay bytes needed truncated)
  show ?case
  proof (cases "REPLAY_CAPACITY \<le> length (discarded # replay) \<or> MAX_REPLAY_BYTES < sat_add bytes needed")
    case True
    with 2 obtain k where "fst (evict replay (bytes - rp_bytes discarded) needed True) = drop k replay" by blast
    with True show ?thesis by (intro exI [of _ "Suc k"]) simp
  next
    case False
    then show ?thesis by (intro exI [of _ 0]) simp
  qed
qed simp

lemma evict_all: "MAX_REPLAY_BYTES < needed \<Longrightarrow> fst (evict replay bytes needed truncated) = []"
proof (induction replay bytes needed truncated rule: evict.induct)
  case (2 discarded replay bytes needed truncated)
  have "MAX_REPLAY_BYTES < u64_max" by (simp add: MAX_REPLAY_BYTES_def MAX_FRAME_BYTES_def u64_max_def)
  with 2(2) have "MAX_REPLAY_BYTES < sat_add bytes needed" by (simp add: sat_add_def)
  with 2 show ?case by simp
qed simp

lemma push_replay_window:
  "\<exists>k. fst (push_replay replay bytes entry) = drop k replay @ [entry] \<or> fst (push_replay replay bytes entry) = []"
proof (cases "rp_bytes entry \<le> MAX_REPLAY_BYTES")
  case True
  with evict_suffix [of replay bytes "rp_bytes entry" False] show ?thesis by (auto simp: push_replay_def split_beta)
next
  case False
  with evict_all [of "rp_bytes entry" replay bytes False] show ?thesis by (auto simp: push_replay_def split_beta)
qed

text \<open>The window after a complete message has taken the deltas of its step out of it.\<close>

definition compacted :: "event_msg \<Rightarrow> replay_entry list \<Rightarrow> replay_entry list" where
  "compacted msg replay = (case msg of
      AssistantMessage message \<Rightarrow> filter (\<lambda>entry. \<not> appends_only (am_model_step_id message) entry) replay | _ \<Rightarrow> replay)"

lemma note_frame_fields [simp]:
  "hs_replay (note_frame self frame) = compacted (frame_msg frame) (hs_replay self)"
  "hs_transcript (note_frame self frame) = hs_transcript self" "hs_sequence (note_frame self frame) = hs_sequence self"
  "hs_session_id (note_frame self frame) = hs_session_id self"
  by (auto simp: note_frame_def compacted_def compact_replay_deltas_def Let_def split: event_msg.split)

lemma record_and_publish_fields:
  assumes "record_and_publish self entry suppress = (self', truncated)"
  shows "hs_replay self' = (if replayable (rp_frame entry) then fst (push_replay (hs_replay self) (hs_replay_bytes self) entry) else hs_replay self)"
    "hs_transcript self' = hs_transcript self" "hs_sequence self' = hs_sequence self" "hs_session_id self' = hs_session_id self"
  using assms by (auto simp: record_and_publish_def split_beta)

lemma entry_frame: "replay_entry_new rk frame = Inr entry \<Longrightarrow> rp_frame entry = frame"
  by (auto simp: replay_entry_new_def res_bind_Inr_iff)

lemma deliver_live:
  assumes "project_and_publish re rk self journal Live = (self', Inr result)"
  obtains recorded blocks transcript ops frame entry where "project_record re journal = (recorded, blocks)"
    "reduce_apply (hs_transcript self) (je_sequence journal) (rc_recorded_at_ms recorded) (rc_event recorded) blocks = (transcript, ops)"
    "frame = \<lparr>fr_session_id = hs_session_id self, fr_record = recorded, fr_transcript = ops\<rparr>" "result = Some frame"
    "je_sequence journal = Suc (hs_sequence self)" "hs_sequence self' = je_sequence journal" "rp_frame entry = frame"
    "hs_session_id self' = hs_session_id self"
    "hs_replay self' = compacted (frame_msg frame) (hs_replay self) \<and> \<not> replayable frame
      \<or> replayable frame \<and> (\<exists>k. hs_replay self' = drop k (compacted (frame_msg frame) (hs_replay self)) @ [entry] \<or> hs_replay self' = [])"
    "hs_transcript self' = transcript \<or> (\<exists>n. hs_transcript self' = trim_before transcript n)"
proof -
  obtain recorded blocks where pr: "project_record re journal = (recorded, blocks)" by fastforce
  from assms have v: "validate_gateway_event (ev_msg (je_event journal)) = Inr ()"
    by (auto simp: project_and_publish_def split: sum.splits)
  from assms v obtain kind where k: "classify_journal_sequence (hs_sequence self) (je_sequence journal) Live = Inr kind"
    by (auto simp: project_and_publish_def split: sum.splits)
  then have kind: "kind = Next" "je_sequence journal = Suc (hs_sequence self)"
    by (auto simp: classify_journal_sequence_def u64_checked_add_def split: if_splits option.splits)
  obtain transcript ops where ra: "reduce_apply (hs_transcript self) (je_sequence journal) (rc_recorded_at_ms recorded) (rc_event recorded) blocks
    = (transcript, ops)" by fastforce
  define frame where "frame = \<lparr>fr_session_id = hs_session_id self, fr_record = recorded, fr_transcript = ops\<rparr>"
  from assms v k kind pr ra obtain entry where en: "replay_entry_new rk frame = Inr entry"
    by (auto simp: project_and_publish_def Let_def frame_def split: sum.splits prod.splits)
  define self1 where "self1 = note_frame (self\<lparr>hs_transcript := transcript\<rparr>) frame"
  obtain self2 truncated where rp: "record_and_publish self1 entry False = (self2, truncated)" by fastforce
  define self3 where "self3 = (if truncated then self2\<lparr>hs_transcript := trim_before (hs_transcript self2)
    (case front_sequence (hs_replay self2) of Some s \<Rightarrow> s | None \<Rightarrow> sat_add (je_sequence journal) 1)\<rparr> else self2)"
  have eq: "self' = self3\<lparr>hs_sequence := je_sequence journal\<rparr>" "result = Some frame"
    using assms v k kind pr ra en rp
    by (simp_all add: project_and_publish_def Let_def frame_def [symmetric] self1_def [symmetric] self3_def [symmetric])
  note fields = record_and_publish_fields [OF rp]
  have window: "hs_replay self' = hs_replay self2" by (simp add: eq self3_def)
  have fr: "rp_frame entry = frame" by (rule entry_frame [OF en])
  show ?thesis
  proof (rule that [OF pr ra frame_def eq(2) kind(2) _ fr])
    show "hs_sequence self' = je_sequence journal" by (simp add: eq)
    show "hs_session_id self' = hs_session_id self" by (simp add: eq self3_def fields self1_def)
    show "hs_transcript self' = transcript \<or> (\<exists>n. hs_transcript self' = trim_before transcript n)"
      by (auto simp: eq self3_def fields self1_def)
    show "hs_replay self' = compacted (frame_msg frame) (hs_replay self) \<and> \<not> replayable frame
      \<or> replayable frame \<and> (\<exists>k. hs_replay self' = drop k (compacted (frame_msg frame) (hs_replay self)) @ [entry] \<or> hs_replay self' = [])"
      using push_replay_window [of "hs_replay self1" "hs_replay_bytes self1" entry]
      by (auto simp: window fields fr self1_def)
  qed
qed

text \<open>The frames a reconnect has no use for carry no ops, as long as nothing renders them.\<close>

lemma publish_nothing: "snd (reduce_publish self (new_step sequence base at)) = []"
  by (simp add: reduce_publish_def new_step_def item_ops_def List.map_filter_def)

lemma quiet_no_ops:
  assumes "reduce_apply self sequence at e [] = (self', ops)" and "\<not> replayable_msg (ev_msg e)"
  shows "ops = []"
proof -
  have "reduce_event s step e False = (s, step)" for s step
    using assms(2) by (auto simp: reduce_event_def replayable_msg_def split: event_msg.splits)
  moreover have "own_report s step (ev_msg e) None = (s, step)" for s step
    by (simp add: own_report_def split: event_msg.split)
  ultimately have "ops = snd (reduce_publish (leave_turn (ev_msg e) (self\<lparr>rx_last_event := Some (sequence, u32_sat_add (event_base self sequence)
      (u32_sat_add (min 0 u32_max) BLOCK_INDEX_BASE))\<rparr>)) (new_step sequence (event_base self sequence) at))"
    using assms(1) by (simp add: reduce_apply_def Let_def)
  then show ?thesis by (simp add: publish_nothing)
qed

lemma project_record_msg:
  assumes "project_record re journal = (recorded, blocks)"
  shows "rc_sequence recorded = je_sequence journal" "blocks = re_render re (ev_msg (je_event journal))"
    "replayable_msg (ev_msg (rc_event recorded)) = replayable_msg (ev_msg (je_event journal))"
    "ev_msg (rc_event recorded) = AssistantContentDelta delta \<longleftrightarrow> ev_msg (je_event journal) = AssistantContentDelta delta"
    "ev_msg (rc_event recorded) = AssistantMessage message \<longleftrightarrow> ev_msg (je_event journal) = AssistantMessage message"
  using assms
  by (auto simp: project_record_def take_preview_def replayable_msg_def Let_def split: event_msg.splits frontend_event.splits prod.splits)

subsection \<open>Resuming a client\<close>

text \<open>The steps and phases streamed by some events; a complete message must have text for each phase its step streamed.\<close>

definition streamed :: "journal_event list \<Rightarrow> (string \<times> model_step_content_phase) list" where
  "streamed events = List.map_filter (\<lambda>journal. case ev_msg (je_event journal) of
     AssistantContentDelta delta \<Rightarrow> Some (ad_model_step_id delta, ad_phase delta) | _ \<Rightarrow> None) events"

definition completes :: "(string \<times> model_step_content_phase) list \<Rightarrow> event_msg \<Rightarrow> bool" where
  "completes parts msg = (case msg of
      AssistantMessage message \<Rightarrow> list_all (\<lambda>(step, phase). step = am_model_step_id message \<longrightarrow> phase_text message phase \<noteq> []) parts
    | _ \<Rightarrow> True)"

definition well_streamed :: "journal_event list \<Rightarrow> bool" where
  "well_streamed events = list_all (\<lambda>k. completes (streamed (take k events)) (ev_msg (je_event (events ! k)))) [0..<length events]"

lemma well_streamed_snoc: "well_streamed (events @ [journal]) \<longleftrightarrow> well_streamed events \<and> completes (streamed events) (ev_msg (je_event journal))"
  by (auto simp: well_streamed_def list_all_iff nth_append)

lemma well_streamed_prefix: "well_streamed (xs @ ys) \<Longrightarrow> well_streamed xs"
proof (induction ys rule: rev_induct)
  case (snoc y ys)
  then show ?case using well_streamed_snoc [of "xs @ ys" y] by simp
qed simp

abbreviation frame_sequence :: "agent_frame \<Rightarrow> nat" where
  "frame_sequence frame \<equiv> rc_sequence (fr_record frame)"

text \<open>
  Since a client left at sequence \<open>L\<close>, \<open>past\<close> are the events and \<open>log\<close> their frames.  The window is an old part and a
  part of the log; unless it has lost something, the part is enough.
\<close>

definition window_covers :: "nat \<Rightarrow> replay_entry list \<Rightarrow> agent_frame list \<Rightarrow> bool" where
  "window_covers L replay log \<longleftrightarrow> (\<exists>old new. replay = old @ new \<and> (\<forall>e \<in> set old. frame_sequence (rp_frame e) \<le> L)
     \<and> (\<forall>e \<in> set new. rp_frame e \<in> set log) \<and> sorted_wrt (<) (map (frame_sequence \<circ> rp_frame) new)
     \<and> (log = [] \<or> (\<exists>oldest. front_sequence replay = Some oldest \<and> oldest \<le> Suc L)
        \<longrightarrow> thins (map fr_transcript log) (map (fr_transcript \<circ> rp_frame) new)))"

definition log_of :: "nat \<Rightarrow> nat \<Rightarrow> journal_event list \<Rightarrow> agent_frame list \<Rightarrow> bool" where
  "log_of L depth past log \<longleftrightarrow> map frame_sequence log = [Suc L..<Suc L + length log] \<and> length log = length past
     \<and> (\<forall>frame \<in> set log. \<forall>delta. frame_msg frame = AssistantContentDelta delta
          \<longrightarrow> (ad_model_step_id delta, ad_phase delta) \<in> set (streamed past)
            \<and> (\<forall>i t. OpAppendText i t \<in> set (fr_transcript frame) \<longrightarrow> i = stream_id depth (ad_model_step_id delta) (ad_phase delta)))"

lemma log_sequences: "log_of L depth past log \<Longrightarrow> frame \<in> set log \<Longrightarrow> L < frame_sequence frame"
  unfolding log_of_def by (metis (no_types, lifting) Suc_le_lessD atLeastLessThan_iff image_eqI set_map set_upt)

lemma front_append: "front_sequence (xs @ ys) = (if xs = [] then front_sequence ys else front_sequence xs)"
  by (cases xs) (simp_all add: front_sequence_def)

lemma front_in: "front_sequence xs = Some n \<Longrightarrow> \<exists>e \<in> set xs. frame_sequence (rp_frame e) = n"
  by (cases xs) (auto simp: front_sequence_def event_sequence_def)

lemma front_head: "front_sequence xs = Some n \<longleftrightarrow> xs \<noteq> [] \<and> frame_sequence (rp_frame (hd xs)) = n"
  by (cases xs) (auto simp: front_sequence_def event_sequence_def)

text \<open>The compacted part of the window, together with the complete message.\<close>

lemma compacted_thins:
  assumes t: "thins (map fr_transcript log) (map (fr_transcript \<circ> rp_frame) new)" and new: "\<forall>e \<in> set new. rp_frame e \<in> set log"
    and log: "log_of L depth past log" and complete: "completes (streamed past) msg"
    and sets: "\<And>message phase. msg = AssistantMessage message \<Longrightarrow> phase_text message phase \<noteq> []
      \<Longrightarrow> list_ex (sets_item (stream_id depth (am_model_step_id message) phase)) ops"
  shows "thins (map fr_transcript log @ [ops]) (map (fr_transcript \<circ> rp_frame) (compacted msg new) @ [ops])"
proof (cases "\<exists>message. msg = AssistantMessage message")
  case False
  then have "compacted msg new = new" by (auto simp: compacted_def split: event_msg.split)
  with thins_snoc [OF t] show ?thesis by simp
next
  case True
  then obtain message where m: "msg = AssistantMessage message" by blast
  have "list_all (superseded_by ops) ((fr_transcript \<circ> rp_frame) e)" if "e \<in> set new" "\<not> \<not> appends_only (am_model_step_id message) e" for e
  proof -
    from that obtain delta where d: "frame_msg (rp_frame e) = AssistantContentDelta delta" "ad_model_step_id delta = am_model_step_id message"
      "list_all is_append_text (fr_transcript (rp_frame e))" by (auto simp: appends_only_def split: event_msg.splits)
    from log that(1) new d have p: "(ad_model_step_id delta, ad_phase delta) \<in> set (streamed past)"
      and ids: "\<And>i t. OpAppendText i t \<in> set (fr_transcript (rp_frame e)) \<Longrightarrow> i = stream_id depth (ad_model_step_id delta) (ad_phase delta)"
      unfolding log_of_def by blast+
    from p complete m d(2) have "phase_text message (ad_phase delta) \<noteq> []" by (auto simp: completes_def list_all_iff)
    with sets [OF m] d(2) have set: "list_ex (sets_item (stream_id depth (ad_model_step_id delta) (ad_phase delta))) ops" by simp
    show ?thesis
      unfolding list_all_iff comp_apply
    proof
      fix op
      assume op: "op \<in> set (fr_transcript (rp_frame e))"
      with d(3) obtain i t where "op = OpAppendText i t" by (cases op) (auto simp: list_all_iff)
      with ids op set show "superseded_by ops op" by (auto simp: superseded_by_def)
    qed
  qed
  with thins_filter [OF t, of "\<lambda>e. \<not> appends_only (am_model_step_id message) e" ops] show ?thesis
    by (simp add: compacted_def m)
qed

lemma compacted_append: "compacted msg (xs @ ys) = compacted msg xs @ compacted msg ys"
  by (cases msg) (simp_all add: compacted_def)

lemma compacted_subset: "set (compacted msg xs) \<subseteq> set xs"
  by (cases msg) (auto simp: compacted_def)

lemma compacted_sorted: "sorted_wrt (<) (map f xs) \<Longrightarrow> sorted_wrt (<) (map f (compacted msg xs))"
  by (cases msg) (auto simp: compacted_def sorted_wrt_map intro: sorted_wrt_filter)

lemma compacted_quiet: "\<not> replayable_msg msg \<Longrightarrow> compacted msg xs = xs"
  by (cases msg) (simp_all add: compacted_def replayable_msg_def)

text \<open>The front of a window part: if it is early enough, nothing of the part is missing.\<close>

lemma front_sorted:
  assumes srt: "sorted_wrt (<) (map (frame_sequence \<circ> rp_frame) new)" and e: "e \<in> set new"
  shows "frame_sequence (rp_frame (hd new)) \<le> frame_sequence (rp_frame e)"
  using assms by (cases new) auto

lemma drop_front:
  assumes srt: "sorted_wrt (<) (map (frame_sequence \<circ> rp_frame) new)" and later: "\<forall>e \<in> set new. L < frame_sequence (rp_frame e)"
    and front: "front_sequence (drop j new) = Some oldest" "oldest \<le> Suc L"
  shows "drop j new = new"
proof (cases j)
  case (Suc m)
  from front(1) have ne: "drop j new \<noteq> []" and o: "frame_sequence (rp_frame (new ! j)) = oldest"
    by (auto simp: front_head hd_drop_conv_nth)
  from ne have j: "j < length new" by simp
  then have "0 < j" "frame_sequence (rp_frame (new ! 0)) < frame_sequence (rp_frame (new ! j))"
    using srt Suc by (simp_all add: sorted_wrt_iff_nth_less)
  moreover have "L < frame_sequence (rp_frame (new ! 0))" using later j by (auto intro!: nth_mem)
  ultimately show ?thesis using o front(2) by simp
qed simp

lemma deliver_window:
  assumes w: "window_covers L replay log" and log: "log_of L depth past log" and complete: "completes (streamed past) (frame_msg frame)"
    and sets: "\<And>message phase. frame_msg frame = AssistantMessage message \<Longrightarrow> phase_text message phase \<noteq> []
      \<Longrightarrow> list_ex (sets_item (stream_id depth (am_model_step_id message) phase)) (fr_transcript frame)"
    and quiet: "\<not> replayable frame \<Longrightarrow> fr_transcript frame = []" and e: "rp_frame entry = frame"
    and fs: "frame_sequence frame = Suc L + length log"
    and replay': "replay' = compacted (frame_msg frame) replay \<and> \<not> replayable frame
      \<or> replayable frame \<and> (\<exists>k. replay' = drop k (compacted (frame_msg frame) replay) @ [entry] \<or> replay' = [])"
  shows "window_covers L replay' (log @ [frame])"
proof -
  let ?msg = "frame_msg frame"
  from w obtain old new where on: "replay = old @ new" "\<forall>e \<in> set old. frame_sequence (rp_frame e) \<le> L" "\<forall>e \<in> set new. rp_frame e \<in> set log"
    and srt: "sorted_wrt (<) (map (frame_sequence \<circ> rp_frame) new)"
    and cover: "log = [] \<or> (\<exists>oldest. front_sequence replay = Some oldest \<and> oldest \<le> Suc L)
        \<Longrightarrow> thins (map fr_transcript log) (map (fr_transcript \<circ> rp_frame) new)"
    unfolding window_covers_def by blast
  let ?old = "compacted ?msg old" and ?new = "compacted ?msg new"
  have c: "compacted ?msg replay = ?old @ ?new" by (simp add: on(1) compacted_append)
  have old: "\<forall>e \<in> set ?old. frame_sequence (rp_frame e) \<le> L" using on(2) compacted_subset by blast
  have new: "\<forall>e \<in> set ?new. rp_frame e \<in> set log" using on(3) compacted_subset by blast
  have srt': "sorted_wrt (<) (map (frame_sequence \<circ> rp_frame) ?new)" by (rule compacted_sorted [OF srt])
  have later: "\<forall>e \<in> set ?new. L < frame_sequence (rp_frame e)" using new log_sequences [OF log] by blast
  have bound: "frame_sequence f < frame_sequence frame" if "f \<in> set log" for f
  proof -
    have "frame_sequence f \<in> set [Suc L..<Suc L + length log]" using log that unfolding log_of_def by (metis image_eqI set_map)
    then show ?thesis unfolding set_upt fs by simp
  qed
  have before: "thins (map fr_transcript log) (map (fr_transcript \<circ> rp_frame) new)"
    if "x \<in> set (?old @ ?new)" "frame_sequence (rp_frame x) \<le> Suc L" for x
  proof -
    have "\<exists>first. front_sequence replay = Some first \<and> first \<le> Suc L"
    proof (cases "old = []")
      case True
      then have "x \<in> set new" using that(1) compacted_subset [of ?msg old] compacted_subset [of ?msg new] by auto
      moreover from this have "front_sequence replay = Some (frame_sequence (rp_frame (hd new)))" using True on(1) by (auto simp: front_head)
      ultimately show ?thesis using front_sorted [OF srt] that(2) le_trans by blast
    next
      case False
      then have "front_sequence replay = Some (frame_sequence (rp_frame (hd old)))" by (simp add: on(1) front_head)
      moreover have "frame_sequence (rp_frame (hd old)) \<le> L" using on(2) False by simp
      ultimately show ?thesis by auto
    qed
    with cover show ?thesis by blast
  qed
  consider (quiet) "replay' = ?old @ ?new" "\<not> replayable frame" | (gone) "replay' = []"
    | (kept) k where "replay' = drop k (?old @ ?new) @ [entry]"
    using replay' unfolding c by blast
  then show ?thesis
  proof cases
    case quiet
    have n: "?new = new" using compacted_quiet quiet(2) by (simp add: replayable_def)
    have "thins (map fr_transcript (log @ [frame])) (map (fr_transcript \<circ> rp_frame) ?new)"
      if "front_sequence replay' = Some oldest" "oldest \<le> Suc L" for oldest
    proof -
      from front_in [OF that(1)] that(2) quiet(1) obtain x where "x \<in> set (?old @ ?new)" "frame_sequence (rp_frame x) \<le> Suc L" by auto
      from before [OF this] thins_snoc_empty show ?thesis by (simp add: n assms(5) [OF quiet(2)])
    qed
    with old new srt' quiet(1) show ?thesis unfolding window_covers_def by (intro exI [of _ ?old] exI [of _ ?new]) auto
  next
    case gone
    then show ?thesis unfolding window_covers_def by (intro exI [of _ "[]"]) (simp add: front_sequence_def)
  next
    case kept
    let ?j = "k - length ?old"
    let ?tail = "drop ?j ?new @ [entry]"
    have split: "replay' = drop k ?old @ ?tail" by (simp add: kept)
    have sub: "set (drop k ?old) \<subseteq> set ?old" "set (drop ?j ?new) \<subseteq> set ?new" by (rule set_drop_subset)+
    have mem: "\<forall>e \<in> set ?tail. rp_frame e \<in> set (log @ [frame])" using new sub(2) e by auto
    have "sorted_wrt (<) (map (frame_sequence \<circ> rp_frame) (drop ?j ?new))" using sorted_wrt_drop [OF srt', of ?j] by (simp add: drop_map)
    moreover have "\<forall>x \<in> set (drop ?j ?new). frame_sequence (rp_frame x) < frame_sequence frame" using new sub(2) bound by blast
    ultimately have sorted: "sorted_wrt (<) (map (frame_sequence \<circ> rp_frame) ?tail)" by (auto simp: sorted_wrt_append e)
    have "thins (map fr_transcript (log @ [frame])) (map (fr_transcript \<circ> rp_frame) ?tail)"
      if f: "front_sequence replay' = Some oldest" "oldest \<le> Suc L" for oldest
    proof -
      have whole: "drop ?j ?new = ?new \<and> thins (map fr_transcript log) (map (fr_transcript \<circ> rp_frame) new)"
      proof (cases "log = []")
        case True
        with on(3) have "new = []" by auto
        moreover from this have "?new = []" using compacted_subset [of ?msg new] by simp
        ultimately show ?thesis using cover True by simp
      next
        case False
        then have "Suc L < frame_sequence frame" by (simp add: fs)
        have ne: "drop k (?old @ ?new) \<noteq> []"
        proof
          assume "drop k (?old @ ?new) = []"
          then have "replay' = [entry]" by (simp add: kept)
          with f(1) e have "oldest = frame_sequence frame" by (simp add: front_head)
          with f(2) \<open>Suc L < frame_sequence frame\<close> show False by simp
        qed
        have fr: "front_sequence (drop k (?old @ ?new)) = Some oldest"
          using f(1) ne unfolding kept front_append by (simp only: if_False)
        from front_in [OF fr] f(2) obtain x where x: "x \<in> set (drop k (?old @ ?new))" "frame_sequence (rp_frame x) \<le> Suc L" by auto
        from x(1) have "x \<in> set (?old @ ?new)" by (rule in_set_dropD)
        note b = before [OF this x(2)]
        have "drop ?j ?new = ?new"
        proof (cases "drop k ?old = []")
          case True
          with fr have "front_sequence (drop ?j ?new) = Some oldest" by simp
          from drop_front [OF srt' later this f(2)] show ?thesis .
        qed simp
        with b show ?thesis by simp
      qed
      from whole have t: "thins (map fr_transcript log) (map (fr_transcript \<circ> rp_frame) new)" by simp
      from compacted_thins [OF t on(3) log complete sets] whole show ?thesis by (simp add: e)
    qed
    with split old sub(1) mem sorted show ?thesis unfolding window_covers_def
      by (intro exI [of _ "drop k ?old"] exI [of _ ?tail]) auto
  qed
qed

text \<open>The state of the host since a client left: the log, the window and a client that applied every frame.\<close>

definition followed :: "nat \<Rightarrow> transcript_client \<Rightarrow> journal_event list \<Rightarrow> agent_frame list \<Rightarrow> host_state \<Rightarrow> bool" where
  "followed L c past log self \<longleftrightarrow> hs_sequence self = L + length log \<and> log_of L (rx_depth (hs_transcript self)) past log
     \<and> window_covers L (hs_replay self) log
     \<and> (\<exists>c'. client_apply c (concat (map fr_transcript log)) = Some c' \<and> synced UNIV (hs_transcript self) c')"

text \<open>The presentation shows nothing for the events a reconnect leaves out.\<close>

definition quiet_events :: "render_events \<Rightarrow> journal_event list \<Rightarrow> bool" where
  "quiet_events re events = list_all (\<lambda>journal. replayable_msg (ev_msg (je_event journal)) \<or> re_render re (ev_msg (je_event journal)) = []) events"

lemma reduce_apply_depth: "items_keyed self \<Longrightarrow> rx_depth (fst (reduce_apply self sequence at e blocks)) = rx_depth self"
proof -
  assume k: "items_keyed self"
  obtain self' step where m: "move\<^sup>*\<^sup>* (self, new_step sequence (event_base self sequence) at) (self', step)"
    and r: "reduce_apply self sequence at e blocks = reduce_publish self' step" using reduce_apply_moves [OF k] by metis
  have turn: "rx_depth (fst (publish_turn s t)) = rx_depth s" for s t by (auto simp: publish_turn_def split: option.split prod.split)
  have "rx_depth (fst (emit_all publish_turn self' (zs_turns step))) = rx_depth self'"
    by (rule emit_all_inv [where P = "\<lambda>s. rx_depth s = rx_depth self'"]) (simp_all add: turn)
  then have "rx_depth (fst (reduce_publish self' step)) = rx_depth self'"
    by (auto simp: reduce_publish_def publish_loose_def split_beta)
  with r moves_depth [OF m] show ?thesis by simp
qed

lemma fold_depth: "(\<And>s x. rx_depth (f s x) = rx_depth s) \<Longrightarrow> rx_depth (foldl f s xs) = rx_depth s"
  by (induction xs arbitrary: s) auto

lemma trim_depth [simp]: "rx_depth (trim_before self n) = rx_depth self"
proof -
  have t: "rx_depth (drop_turn s i) = rx_depth s" and r: "rx_depth (drop_row s i) = rx_depth s" for s i
    by (auto simp: drop_turn_def drop_row_def split: option.split)
  show ?thesis by (simp add: trim_before_def trim_loose_def Let_def fold_depth t r)
qed

lemma synced_reduce:
  "synced UNIV self c \<Longrightarrow> reduce_apply self sequence at e blocks = (self', ops) \<Longrightarrow> \<exists>c'. client_apply c ops = Some c' \<and> synced UNIV self' c'"
  using session.round_ok [of self c "Reduce sequence at e blocks" self' ops] by (simp add: reduce_input_def)

lemma synced_trim: "synced UNIV self c \<Longrightarrow> synced UNIV (trim_before self n) c"
  using session.round_ok [of self c "Trim n" "trim_before self n" "[]"] by (simp add: reduce_input_def)

lemma followed_deliver:
  assumes f: "followed L c past log self" and d: "project_and_publish re rk self journal Live = (self', Inr result)"
    and complete: "completes (streamed past) (ev_msg (je_event journal))" and quiet: "quiet_events re [journal]"
  shows "\<exists>frame. result = Some frame \<and> followed L c (past @ [journal]) (log @ [frame]) self'"
proof -
  from f obtain c1 where c1: "client_apply c (concat (map fr_transcript log)) = Some c1" "synced UNIV (hs_transcript self) c1"
    and seq: "hs_sequence self = L + length log" and log: "log_of L (rx_depth (hs_transcript self)) past log"
    and w: "window_covers L (hs_replay self) log" unfolding followed_def by blast
  from c1(2) have keyed: "items_keyed (hs_transcript self)" by (simp add: synced_def in_sync_def)
  let ?depth = "rx_depth (hs_transcript self)"
  from d show ?thesis
  proof (rule deliver_live)
    fix recorded blocks transcript ops frame entry
    assume pr: "project_record re journal = (recorded, blocks)"
      and ra: "reduce_apply (hs_transcript self) (je_sequence journal) (rc_recorded_at_ms recorded) (rc_event recorded) blocks = (transcript, ops)"
      and frame: "frame = \<lparr>fr_session_id = hs_session_id self, fr_record = recorded, fr_transcript = ops\<rparr>" and res: "result = Some frame"
      and js: "je_sequence journal = Suc (hs_sequence self)" and s': "hs_sequence self' = je_sequence journal" and e: "rp_frame entry = frame"
      and win: "hs_replay self' = compacted (frame_msg frame) (hs_replay self) \<and> \<not> replayable frame
        \<or> replayable frame \<and> (\<exists>k. hs_replay self' = drop k (compacted (frame_msg frame) (hs_replay self)) @ [entry] \<or> hs_replay self' = [])"
      and tr: "hs_transcript self' = transcript \<or> (\<exists>n. hs_transcript self' = trim_before transcript n)"
    note msg = project_record_msg [OF pr]
    have fs: "frame_sequence frame = Suc L + length log" using msg(1) js seq frame by simp
    have delta: "frame_msg frame = AssistantContentDelta delta \<longleftrightarrow> ev_msg (je_event journal) = AssistantContentDelta delta" for delta
      using msg(4) frame by simp
    have sets: "list_ex (sets_item (stream_id ?depth (am_model_step_id message) phase)) (fr_transcript frame)"
      if "frame_msg frame = AssistantMessage message" "phase_text message phase \<noteq> []" for message phase
      using message_sets_items [OF keyed ra _ that(2)] that(1) frame by simp
    have silent: "fr_transcript frame = []" if "\<not> replayable frame"
    proof -
      have "\<not> replayable_msg (ev_msg (rc_event recorded))" using that frame by (simp add: replayable_def)
      moreover from this quiet msg have "blocks = []" by (simp add: quiet_events_def)
      ultimately show ?thesis using quiet_no_ops [of _ _ _ "rc_event recorded"] ra frame by simp
    qed
    have comp: "completes (streamed past) (frame_msg frame)"
      using complete msg(5) frame by (auto simp: completes_def split: event_msg.splits)
    have w': "window_covers L (hs_replay self') (log @ [frame])"
      by (rule deliver_window [OF w log comp sets silent e fs win])
    have "rx_depth transcript = ?depth" using reduce_apply_depth [OF keyed] ra by (metis fst_conv)
    then have depth: "rx_depth (hs_transcript self') = ?depth" using tr by auto
    have log': "log_of L ?depth (past @ [journal]) (log @ [frame])"
    proof -
      have "streamed (past @ [journal]) = streamed past @ streamed [journal]" by (simp add: streamed_def List.map_filter_def)
      moreover have "(ad_model_step_id delta, ad_phase delta) \<in> set (streamed [journal])"
        if "frame_msg frame = AssistantContentDelta delta" for delta
        using that delta by (simp add: streamed_def map_filter_simps)
      moreover have "i = stream_id ?depth (ad_model_step_id delta) (ad_phase delta)"
        if "frame_msg frame = AssistantContentDelta delta" "OpAppendText i t \<in> set (fr_transcript frame)" for delta i t
        using delta_text_ids [OF ra _ , of delta i t] that frame by simp
      moreover have "[Suc L..<Suc L + length (log @ [frame])] = [Suc L..<Suc L + length log] @ [Suc L + length log]" by simp
      ultimately show ?thesis using log fs unfolding log_of_def by (simp del: upt_Suc) blast
    qed
    from synced_reduce [OF c1(2) ra] obtain c2 where c2: "client_apply c1 ops = Some c2" "synced UNIV transcript c2" by blast
    then have "synced UNIV (hs_transcript self') c2" using tr synced_trim by auto
    moreover have "client_apply c (concat (map fr_transcript (log @ [frame]))) = Some c2"
      using c1(1) c2(1) frame by (simp add: client_apply_append)
    ultimately have "followed L c (past @ [journal]) (log @ [frame]) self'"
      unfolding followed_def using w' log' depth seq js s' by auto
    with res show ?thesis by blast
  qed
qed

lemma run_events_followed:
  "followed L c past log self \<Longrightarrow> run_events re rk self events = (self', Inr frames) \<Longrightarrow> quiet_events re events
    \<Longrightarrow> well_streamed (past @ events) \<Longrightarrow> followed L c (past @ events) (log @ frames) self'"
proof (induction events arbitrary: past log self frames)
  case (Cons journal events)
  from Cons.prems(2) obtain self1 result frames1 where d: "project_and_publish re rk self journal Live = (self1, Inr result)"
    and r: "run_events re rk self1 events = (self', Inr frames1)" and fr: "frames = (case result of Some f \<Rightarrow> f # frames1 | None \<Rightarrow> frames1)"
    by (auto split: prod.splits sum.splits)
  have "well_streamed (past @ [journal])" using Cons.prems(4) well_streamed_prefix [of "past @ [journal]" events] by simp
  then have "completes (streamed past) (ev_msg (je_event journal))" by (simp add: well_streamed_snoc)
  moreover have "quiet_events re [journal]" "quiet_events re events" using Cons.prems(3) by (simp_all add: quiet_events_def)
  ultimately obtain frame where "result = Some frame" "followed L c (past @ [journal]) (log @ [frame]) self1"
    using followed_deliver [OF Cons.prems(1) d] by blast
  with Cons.IH [OF _ r, of "past @ [journal]" "log @ [frame]"] Cons.prems(4) fr \<open>quiet_events re events\<close> show ?case by simp
qed simp

text \<open>The frames of a resume bring a client that left at \<open>L\<close> up to date.\<close>

lemma followed_replay:
  assumes f: "followed L c past log self" and r: "replay_after self L = Some frames"
  shows "\<exists>c'. client_apply c (concat (map fr_transcript frames)) = Some c' \<and> synced UNIV (hs_transcript self) c'"
proof -
  from f obtain c1 where c1: "client_apply c (concat (map fr_transcript log)) = Some c1" "synced UNIV (hs_transcript self) c1"
    and seq: "hs_sequence self = L + length log" and log: "log_of L (rx_depth (hs_transcript self)) past log"
    and w: "window_covers L (hs_replay self) log" unfolding followed_def by blast
  from w obtain old new where on: "hs_replay self = old @ new" "\<forall>e \<in> set old. frame_sequence (rp_frame e) \<le> L" "\<forall>e \<in> set new. rp_frame e \<in> set log"
    and cover: "log = [] \<or> (\<exists>oldest. front_sequence (hs_replay self) = Some oldest \<and> oldest \<le> Suc L)
        \<Longrightarrow> thins (map fr_transcript log) (map (fr_transcript \<circ> rp_frame) new)"
    unfolding window_covers_def by blast
  have frames: "frames = filter (\<lambda>frame. L < frame_sequence frame) (map rp_frame (hs_replay self))"
    using r by (auto simp: replay_after_def event_sequence_def Let_def split: if_splits)
  have "filter (\<lambda>frame. L < frame_sequence frame) (map rp_frame old) = []" using on(2) by (auto simp: filter_empty_conv)
  moreover have "filter (\<lambda>frame. L < frame_sequence frame) (map rp_frame new) = map rp_frame new"
    using on(3) log_sequences [OF log] by (auto simp: filter_id_conv)
  ultimately have "frames = map rp_frame new" by (simp add: frames on(1))
  moreover have "log = [] \<or> (\<exists>oldest. front_sequence (hs_replay self) = Some oldest \<and> oldest \<le> Suc L)"
  proof (cases "log = []")
    case False
    then have "L < hs_sequence self" by (simp add: seq)
    with r have "\<exists>oldest. front_sequence (hs_replay self) = Some oldest \<and> \<not> sat_add L 1 < oldest"
      by (auto simp: replay_after_def Let_def split: if_splits option.splits)
    moreover have "sat_add L 1 \<le> Suc L" by (simp add: sat_add_def)
    ultimately show ?thesis by (meson le_trans not_less)
  qed simp
  ultimately have "thins (map fr_transcript log) (map fr_transcript frames)" using cover by (simp add: comp_def)
  from thins_apply [OF this c1(1)] c1(2) show ?thesis by blast
qed

subsection \<open>Every state of a host\<close>

definition reducer_ok :: "transcript_reducer \<Rightarrow> bool" where
  "reducer_ok self \<longleftrightarrow> items_keyed self \<and> rows_keyed (rx_rows self) \<and> keys_distinct self"

lemma reducer_ok_synced: "synced H self c \<Longrightarrow> reducer_ok self"
  by (simp add: synced_def in_sync_def reducer_ok_def)

lemma reducer_ok_client: "reducer_ok self \<Longrightarrow> synced UNIV self (client_of self)"
  by (auto simp: reducer_ok_def synced_def in_sync_def agrees_def client_of_def item_view_def)

lemma reducer_ok_holds:
  assumes "reducer_ok self" and "vw_items (client_of self) \<subseteq>\<^sub>m vw_items c" and "vw_rows (client_of self) \<subseteq>\<^sub>m vw_rows c"
  shows "synced UNIV self c"
proof -
  have "vw_items c i = item_view self i \<or> item_view self i = None" for i
    using assms(2) by (cases "item_view self i") (auto simp: map_le_def client_of_def item_view_def dom_def)
  moreover have "vw_rows c i = map_of (rx_rows self) i \<or> map_of (rx_rows self) i = None" for i
    using assms(3) by (cases "map_of (rx_rows self) i") (auto simp: map_le_def client_of_def dom_def)
  ultimately show ?thesis using assms(1) by (auto simp: reducer_ok_def synced_def in_sync_def agrees_def)
qed

lemma synced_holds:
  assumes "synced UNIV self c"
  shows "vw_items (client_of self) \<subseteq>\<^sub>m vw_items c" "vw_rows (client_of self) \<subseteq>\<^sub>m vw_rows c"
  using assms agrees_known by (fastforce simp: synced_def in_sync_def map_le_def client_of_def item_view_def)+

lemma reducer_ok_same: "same_core self self' \<Longrightarrow> reducer_ok self' = reducer_ok self"
  by (simp add: reducer_ok_def same_core_def items_keyed_def keys_distinct_def)

lemma reducer_ok_new: "reducer_ok (reducer_new depth)"
  using synced_new reducer_ok_synced by blast

lemma reducer_ok_apply: "reducer_ok self \<Longrightarrow> reducer_ok (fst (reduce_apply self sequence at e blocks))"
  using synced_reduce [OF reducer_ok_client, of self sequence at e blocks] reducer_ok_synced
  by (metis prod.collapse)

lemma reducer_ok_trim: "reducer_ok self \<Longrightarrow> reducer_ok (trim_before self n)"
  using synced_trim [OF reducer_ok_client] reducer_ok_synced by blast

lemma reducer_ok_publish:
  assumes ok: "reducer_ok self" and m: "move\<^sup>*\<^sup>* (self, quiet_step sequence at) (self', step)"
  shows "reducer_ok (fst (reduce_publish self' step))"
proof -
  have s: "in_sync UNIV self (client_of self)" and k: "keys_distinct self" and keyed: "items_keyed self"
    using reducer_ok_client [OF ok] ok by (simp_all add: synced_def reducer_ok_def)
  have "step_rel UNIV (client_of self) (self, quiet_step sequence at)"
    using s by (simp add: step_rel_def quiet_step_def new_step_def pending_ok_def in_sync_def agrees_def)
  from moves_step_rel [OF m this] have rel: "step_rel UNIV (client_of self) (self', step)" .
  have keyed': "items_keyed self'" using moves_items_keyed [OF m] keyed by simp
  have rows: "rx_rows self' = rx_rows self" using moves_rows [OF m] by simp
  obtain self'' ops where p: "reduce_publish self' step = (self'', ops)" by fastforce
  from publish_ok [OF rel keyed' _ _ p] s rows have "\<exists>c'. in_sync UNIV self'' c'" by (auto simp: in_sync_def)
  moreover have "keys_distinct self''" using publish_distinct [of self' step] moves_keys_distinct [OF m] k p by simp
  ultimately show ?thesis by (auto simp: p reducer_ok_def in_sync_def)
qed

lemma reducer_ok_fork_point: "reducer_ok self \<Longrightarrow> reducer_ok (fork_point self parent)"
proof -
  assume ok: "reducer_ok self"
  let ?self = "self\<lparr>rx_current_turn := None\<rparr>"
  have ok': "reducer_ok ?self" using ok reducer_ok_same [of self ?self] by (simp add: same_core_def)
  obtain self' step where s: "set_item ?self (quiet_step 0 0) (reducer_id self ''fork-point'') 0 (ItemForkPoint parent) id = (self', step)"
    by fastforce
  have "move (?self, quiet_step 0 0) (self', step)"
    using set_item_moves [of ?self "reducer_id self ''fork-point''" id "quiet_step 0 0" 0 "ItemForkPoint parent"] s
      ok' ids_ok(4) [of self] by (simp add: reducer_ok_def)
  from reducer_ok_publish [OF ok' moves_one [OF this]] have "reducer_ok (fst (reduce_publish self' step))" .
  moreover have "same_core (fst (reduce_publish self' step)) (fork_point self parent)"
    by (simp add: fork_point_def s same_core_def)
  ultimately show ?thesis using reducer_ok_same by blast
qed

lemma reducer_ok_follow: "reducer_ok (follow_turn self) = reducer_ok self"
  by (rule reducer_ok_same) (simp add: follow_turn_def same_core_def)

lemma reducer_ok_fold: "(\<And>s x. reducer_ok s \<Longrightarrow> reducer_ok (f s x)) \<Longrightarrow> reducer_ok s \<Longrightarrow> reducer_ok (foldl f s xs)"
  by (induction xs arbitrary: s) auto

text \<open>The window of a host: its byte count is exact and within the limits, and it holds only events delivered so far.\<close>

definition window_within :: "replay_entry list \<Rightarrow> nat \<Rightarrow> bool" where
  "window_within replay bytes \<longleftrightarrow> bytes = sum_list (map rp_bytes replay) \<and> bytes \<le> MAX_REPLAY_BYTES \<and> length replay \<le> REPLAY_CAPACITY"

lemma evict_within:
  assumes "evict replay bytes needed truncated = (replay', bytes', truncated')" and "window_within replay bytes"
  shows "window_within replay' bytes' \<and> (replay' = [] \<or> length replay' < REPLAY_CAPACITY \<and> sat_add bytes' needed \<le> MAX_REPLAY_BYTES)"
  using assms
proof (induction replay bytes needed truncated rule: evict.induct)
  case (2 discarded replay bytes needed truncated)
  show ?case
  proof (cases "REPLAY_CAPACITY \<le> length (discarded # replay) \<or> MAX_REPLAY_BYTES < sat_add bytes needed")
    case True
    have "window_within replay (bytes - rp_bytes discarded)" using 2(3) by (auto simp: window_within_def)
    with 2(1) [OF True] 2(2) True show ?thesis by simp
  next
    case False
    with 2(2,3) show ?thesis by auto
  qed
qed (simp add: window_within_def)

lemma push_within:
  assumes "push_replay replay bytes entry = (replay', bytes', truncated)" and w: "window_within replay bytes"
  shows "window_within replay' bytes'"
proof -
  obtain r b t where e: "evict replay bytes (rp_bytes entry) False = (r, b, t)" by (metis prod_cases3)
  note ev = evict_within [OF e w]
  have max: "MAX_REPLAY_BYTES < u64_max" by (simp add: MAX_REPLAY_BYTES_def MAX_FRAME_BYTES_def u64_max_def)
  show ?thesis
  proof (cases "rp_bytes entry \<le> MAX_REPLAY_BYTES")
    case True
    have fits: "length r < REPLAY_CAPACITY \<and> b + rp_bytes entry \<le> MAX_REPLAY_BYTES"
      using ev True max by (auto simp: window_within_def sat_add_def REPLAY_CAPACITY_def split: if_splits)
    moreover from this max have "sat_add b (rp_bytes entry) = b + rp_bytes entry" by (simp add: sat_add_def)
    ultimately show ?thesis using assms(1) e True ev by (auto simp: push_replay_def window_within_def)
  next
    case False
    with assms(1) e ev show ?thesis by (auto simp: push_replay_def)
  qed
qed

lemma compact_bytes:
  "bytes = b0 + sum_list (map rp_bytes replay) \<Longrightarrow> foldl (\<lambda>bytes entry. if P entry then bytes - rp_bytes entry else bytes) bytes replay
     = b0 + sum_list (map rp_bytes (filter (\<lambda>e. \<not> P e) replay))"
proof (induction replay arbitrary: bytes b0)
  case (Cons e replay)
  show ?case
  proof (cases "P e")
    case True
    with Cons show ?thesis by simp
  next
    case False
    with Cons.IH [of bytes "b0 + rp_bytes e"] Cons.prems show ?thesis by simp
  qed
qed simp

lemma compact_within:
  assumes "window_within replay bytes"
  shows "case compact_replay_deltas replay bytes step of (replay', bytes') \<Rightarrow> window_within replay' bytes'"
proof -
  let ?P = "appends_only step"
  have "foldl (\<lambda>bytes entry. if ?P entry then bytes - rp_bytes entry else bytes) bytes replay = sum_list (map rp_bytes (filter (\<lambda>e. \<not> ?P e) replay))"
    using compact_bytes [of bytes 0 replay ?P] assms by (simp add: window_within_def)
  moreover have "sum_list (map rp_bytes (filter (\<lambda>e. \<not> ?P e) replay)) \<le> sum_list (map rp_bytes replay)"
    by (induction replay) auto
  moreover have "length (filter (\<lambda>e. \<not> ?P e) replay) \<le> REPLAY_CAPACITY"
    using assms length_filter_le [of "\<lambda>e. \<not> ?P e" replay] unfolding window_within_def by linarith
  ultimately show ?thesis using assms by (auto simp: compact_replay_deltas_def window_within_def)
qed

definition host_ok :: "host_state \<Rightarrow> bool" where
  "host_ok self \<longleftrightarrow> reducer_ok (hs_transcript self) \<and> (\<forall>e \<in> set (hs_replay self). frame_sequence (rp_frame e) \<le> hs_sequence self)
     \<and> window_within (hs_replay self) (hs_replay_bytes self)"

lemma note_frame_within:
  "window_within (hs_replay self) (hs_replay_bytes self) \<Longrightarrow> window_within (hs_replay (note_frame self frame)) (hs_replay_bytes (note_frame self frame))"
proof -
  assume w: "window_within (hs_replay self) (hs_replay_bytes self)"
  have "window_within r b" if "compact_replay_deltas (hs_replay self) (hs_replay_bytes self) step = (r, b)" for step r b
    using compact_within [OF w, of step] that by simp
  with w show ?thesis by (auto simp: note_frame_def Let_def split: event_msg.split prod.split)
qed
lemma classify_live: "classify_journal_sequence current incoming Live = Inr kind \<Longrightarrow> kind = Next"
  by (auto simp: classify_journal_sequence_def split: if_splits option.splits)

lemma deliver_within:
  assumes "project_and_publish re rk self journal Live = (self', Inr result)" and w: "window_within (hs_replay self) (hs_replay_bytes self)"
  shows "window_within (hs_replay self') (hs_replay_bytes self')"
proof -
  have pushed: "window_within (hs_replay s') (hs_replay_bytes s')"
    if "record_and_publish s entry False = (s', truncated)" "window_within (hs_replay s) (hs_replay_bytes s)" for s s' entry truncated
    using that push_within by (auto simp: record_and_publish_def split: if_splits prod.splits)
  have note': "window_within (hs_replay (note_frame (self\<lparr>hs_transcript := t\<rparr>) frame)) (hs_replay_bytes (note_frame (self\<lparr>hs_transcript := t\<rparr>) frame))" for t frame
    by (rule note_frame_within) (use w in simp)
  show ?thesis
    using assms(1) pushed [OF _ note']
    by (auto simp: project_and_publish_def Let_def dest!: classify_live split: sum.splits prod.splits if_splits)
qed

lemma deliver_host_ok:
  assumes d: "project_and_publish re rk self journal Live = (self', Inr result)" and ok: "host_ok self"
  shows "host_ok self'"
  using d
proof (rule deliver_live)
  fix recorded blocks transcript ops frame entry
  assume pr: "project_record re journal = (recorded, blocks)"
    and ra: "reduce_apply (hs_transcript self) (je_sequence journal) (rc_recorded_at_ms recorded) (rc_event recorded) blocks = (transcript, ops)"
    and frame: "frame = \<lparr>fr_session_id = hs_session_id self, fr_record = recorded, fr_transcript = ops\<rparr>"
    and js: "je_sequence journal = Suc (hs_sequence self)" and s': "hs_sequence self' = je_sequence journal" and e: "rp_frame entry = frame"
    and win: "hs_replay self' = compacted (frame_msg frame) (hs_replay self) \<and> \<not> replayable frame
      \<or> replayable frame \<and> (\<exists>k. hs_replay self' = drop k (compacted (frame_msg frame) (hs_replay self)) @ [entry] \<or> hs_replay self' = [])"
    and tr: "hs_transcript self' = transcript \<or> (\<exists>n. hs_transcript self' = trim_before transcript n)"
  have "set (drop k (compacted (frame_msg frame) (hs_replay self))) \<subseteq> set (hs_replay self)" for k
    using set_drop_subset compacted_subset by (rule subset_trans)
  then have "set (hs_replay self') \<subseteq> insert entry (set (hs_replay self))"
    using win compacted_subset [of "frame_msg frame" "hs_replay self"] by (elim disjE conjE exE) auto
  moreover have "frame_sequence (rp_frame entry) = hs_sequence self'" using e frame project_record_msg(1) [OF pr] s' by simp
  moreover have "hs_sequence self \<le> hs_sequence self'" using js s' by simp
  ultimately have "\<forall>x \<in> set (hs_replay self'). frame_sequence (rp_frame x) \<le> hs_sequence self'"
    using ok by (auto simp: host_ok_def dest!: subsetD intro: le_trans)
  moreover have "reducer_ok transcript" using reducer_ok_apply [of "hs_transcript self"] ok ra by (metis fst_conv host_ok_def)
  then have "reducer_ok (hs_transcript self')" using tr reducer_ok_trim by auto
  ultimately show ?thesis using deliver_within [OF d] ok by (simp add: host_ok_def)
qed

lemma run_events_host_ok: "run_events re rk self events = (self', Inr frames) \<Longrightarrow> host_ok self \<Longrightarrow> host_ok self'"
proof (induction events arbitrary: self frames)
  case (Cons journal events)
  from Cons.prems(1) obtain self1 result frames1 where "project_and_publish re rk self journal Live = (self1, Inr result)"
    "run_events re rk self1 events = (self', Inr frames1)" by (auto split: prod.splits sum.splits)
  with Cons.IH deliver_host_ok Cons.prems(2) show ?case by blast
qed simp

definition scan_bounded :: "load_scan \<Rightarrow> bool" where
  "scan_bounded s \<longleftrightarrow> (\<forall>journal \<in> set (ld_newest_first s). je_sequence journal \<le> ld_latest_sequence s)"

lemma load_events_bounded: "load_events rk s events = Inr (s', stopped) \<Longrightarrow> scan_bounded s \<Longrightarrow> scan_bounded s'"
proof (induction rk s events rule: load_events.induct)
  case (2 rk s journal events)
  let ?s = "s\<lparr>ld_latest_sequence := max (ld_latest_sequence s) (je_sequence journal)\<rparr>"
  have b: "scan_bounded ?s" using 2(3) by (auto simp: scan_bounded_def)
  from 2(2) obtain len where len: "json_res (rk_journal rk journal) = Inr len" by (auto simp: Let_def res_bind_Inr_iff)
  let ?t = "?s\<lparr>ld_bytes := sat_add (ld_bytes ?s) len\<rparr>"
  have t: "scan_bounded ?t" "scan_bounded (?t\<lparr>ld_newest_first := ld_newest_first ?t @ [journal]\<rparr>)" "scan_bounded (?t\<lparr>ld_has_earlier := True\<rparr>)"
    using b by (auto simp: scan_bounded_def)
  show ?case
  proof (cases "MAX_REPLAY_BYTES < ld_bytes ?t")
    case True
    with 2(2) len t(3) show ?thesis by (simp add: Let_def)
  next
    case False
    with 2(1) [OF refl refl, of len] 2(2) len t(2) show ?thesis by (simp add: Let_def)
  qed
qed simp

lemma load_loop_bounded:
  "load_loop rk jc database before s = Inr s' \<Longrightarrow> scan_bounded s \<Longrightarrow> (before = None \<Longrightarrow> ld_newest_first s = []) \<Longrightarrow> scan_bounded s'"
proof (induction rk jc database before s rule: load_loop.induct)
  case (1 rk jc database before s)
  show ?case
  proof (cases "REPLAY_CAPACITY - length (ld_newest_first s) = 0")
    case True
    with 1(2,3) show ?thesis by (subst (asm) load_loop.simps) (auto simp: scan_bounded_def)
  next
    case False
    let ?s = "\<lambda>page. if before = None then s\<lparr>ld_latest_sequence := ep_latest_sequence page\<rparr> else s"
    from False 1(2) obtain page s1 stopped where page: "event_page jc database before
        (min (REPLAY_CAPACITY - length (ld_newest_first s)) REPLAY_LOAD_PAGE_SIZE) = Inr page"
      and ev: "load_events rk (?s page) (ep_events page) = Inr (s1, stopped)"
      by (subst (asm) load_loop.simps) (auto simp: Let_def split: sum.splits prod.splits)
    have "scan_bounded (?s page)" using 1(3,4) by (auto simp: scan_bounded_def)
    from load_events_bounded [OF ev this] have b: "scan_bounded s1" .
    show ?thesis
    proof (cases "stopped \<or> ep_next_before_sequence page = None")
      case True
      with False 1(2) page ev b show ?thesis
        by (subst (asm) load_loop.simps) (auto simp: Let_def split: if_splits)
    next
      case cont: False
      then obtain n where n: "ep_next_before_sequence page = Some n" by auto
      with cont False 1(2) page ev have "load_loop rk jc database (Some n) s1 = Inr s'"
        by (subst (asm) load_loop.simps) (auto simp: Let_def)
      with 1(1) [OF refl _ page ev refl _ n] cont False b show ?thesis by simp
    qed
  qed
qed

lemma load_frames_ok:
  "load_frames re rk session_id (transcript, replay, bytes, truncated) events = Inr (transcript', replay', bytes', truncated')
    \<Longrightarrow> reducer_ok transcript \<Longrightarrow> window_within replay bytes
    \<Longrightarrow> reducer_ok transcript' \<and> window_within replay' bytes'
      \<and> (\<forall>e \<in> set replay'. e \<in> set replay \<or> frame_sequence (rp_frame e) \<in> je_sequence ` set events)"
proof (induction events arbitrary: transcript replay bytes truncated)
  case (Cons journal events)
  obtain recorded blocks where pr: "project_record re journal = (recorded, blocks)" by fastforce
  obtain tr ops where ra: "reduce_apply transcript (rc_sequence recorded) (rc_recorded_at_ms recorded) (rc_event recorded) blocks = (tr, ops)"
    by fastforce
  have ok: "reducer_ok tr" using reducer_ok_apply [OF Cons.prems(2)] ra by (metis fst_conv)
  let ?frame = "\<lparr>fr_session_id = session_id, fr_record = recorded, fr_transcript = ops\<rparr>"
  show ?case
  proof (cases "replayable ?frame")
    case False
    with Cons.prems(1) pr ra have "load_frames re rk session_id (tr, replay, bytes, truncated) events = Inr (transcript', replay', bytes', truncated')"
      by (simp add: Let_def)
    from Cons.IH [OF this ok Cons.prems(3)] show ?thesis by auto
  next
    case True
    with Cons.prems(1) pr ra obtain entry where en: "replay_entry_new rk ?frame = Inr entry" by (auto simp: Let_def res_bind_Inr_iff)
    obtain r b t where p: "push_replay replay bytes entry = (r, b, t)" by (metis prod_cases3)
    from True Cons.prems(1) pr ra en p
    have "load_frames re rk session_id (tr, r, b, truncated \<or> t) events = Inr (transcript', replay', bytes', truncated')" by (simp add: Let_def)
    from Cons.IH [OF this ok push_within [OF p Cons.prems(3)]] have ih: "reducer_ok transcript' \<and> window_within replay' bytes'
      \<and> (\<forall>e \<in> set replay'. e \<in> set r \<or> frame_sequence (rp_frame e) \<in> je_sequence ` set events)" .
    have "set r \<subseteq> insert entry (set replay)" using push_replay_window [of replay bytes entry] p by (auto dest: in_set_dropD)
    moreover have "frame_sequence (rp_frame entry) = je_sequence journal" using entry_frame [OF en] project_record_msg(1) [OF pr] by simp
    ultimately show ?thesis using ih by auto
  qed
qed simp

lemma open_window_ok:
  assumes "open_window latest events = (events', transcript)"
  shows "reducer_ok transcript" "set events' \<subseteq> set events"
proof -
  have "reducer_ok (foldl apply_start (follow_turn (trim_before (reducer_new 0) n)) js)" for n js
    by (rule reducer_ok_fold) (simp_all add: apply_start_def reducer_ok_apply reducer_ok_follow reducer_ok_trim reducer_ok_new)
  with assms show "reducer_ok transcript" "set events' \<subseteq> set events"
    by (auto simp: open_window_def Let_def dest: in_set_dropD)
qed

lemma load_replay_ok:
  assumes "load_replay re rk store session_id = Inr loaded"
  shows "host_ok (host_loaded session_id loaded)"
proof -
  let ?init = "\<lparr>ld_latest_sequence = 0, ld_newest_first = [], ld_bytes = 0, ld_has_earlier = False\<rparr>"
  from assms obtain s where s: "load_loop rk (hi_codec store) (hi_journal store session_id) None ?init = Inr s"
    by (auto simp: load_replay_def res_bind_Inr_iff)
  have b: "scan_bounded s" by (rule load_loop_bounded [OF s]) (simp_all add: scan_bounded_def)
  from assms s obtain events transcript where w: "(if ld_has_earlier s then Inr (open_window (ld_latest_sequence s) (rev (ld_newest_first s)))
      else (case hi_summary store session_id of
          Inl e \<Rightarrow> Inl (GMobius e)
        | Inr summary \<Rightarrow> Inr (rev (ld_newest_first s),
            (case Option.bind summary so_parent_session_id of
               Some parent \<Rightarrow> fork_point (reducer_new 0) parent | None \<Rightarrow> reducer_new 0)))) = Inr (events, transcript)"
    by (auto simp: load_replay_def res_bind_Inr_iff)
  have sub: "set events \<subseteq> set (ld_newest_first s)" "reducer_ok transcript"
    using w open_window_ok [of "ld_latest_sequence s" "rev (ld_newest_first s)" events transcript] reducer_ok_new reducer_ok_fork_point
    by (auto split: if_splits sum.splits option.splits)
  from assms s w obtain transcript' replay bytes truncated
    where fr: "load_frames re rk session_id (transcript, [], 0, False) events = Inr (transcript', replay, bytes, truncated)"
      and loaded: "lp_latest_sequence loaded = ld_latest_sequence s" "lp_replay loaded = replay" "lp_replay_bytes loaded = bytes"
        "lp_transcript loaded = (if truncated then trim_before transcript'
           (case front_sequence replay of Some f \<Rightarrow> f | None \<Rightarrow> sat_add (ld_latest_sequence s) 1) else transcript')"
    by (auto simp: load_replay_def res_bind_Inr_iff)
  have "window_within [] 0" by (simp add: window_within_def)
  from load_frames_ok [OF fr sub(2) this] have ok: "reducer_ok transcript'" "window_within replay bytes"
    "\<forall>e \<in> set replay. frame_sequence (rp_frame e) \<in> je_sequence ` set events" by auto
  have "reducer_ok (lp_transcript loaded)" using loaded(4) ok(1) reducer_ok_trim by auto
  moreover have "\<forall>e \<in> set replay. frame_sequence (rp_frame e) \<le> ld_latest_sequence s"
    using ok(3) sub(1) b unfolding scan_bounded_def by fastforce
  ultimately show ?thesis using ok(2) loaded(1-3) by (simp add: host_ok_def host_loaded_def)
qed

lemma followed_start:
  assumes "host_ok self" and "vw_items (client_of (hs_transcript self)) \<subseteq>\<^sub>m vw_items c" and "vw_rows (client_of (hs_transcript self)) \<subseteq>\<^sub>m vw_rows c"
  shows "followed (hs_sequence self) c [] [] self"
proof -
  have "synced UNIV (hs_transcript self) c" using assms reducer_ok_holds by (simp add: host_ok_def)
  moreover have "window_covers (hs_sequence self) (hs_replay self) []"
    unfolding window_covers_def using assms(1) by (intro exI [of _ "hs_replay self"] exI [of _ "[]"]) (auto simp: host_ok_def intro: thins.none)
  ultimately show ?thesis by (simp add: followed_def log_of_def)
qed

subsection \<open>A run to evaluate\<close>

text \<open>
  A chat with an empty journal, a codec that gives every frame 100 bytes, and three events of a streamed answer:
  the window compacts the second delta away when the whole message arrives.
\<close>

definition sample_replay_codec :: replay_codec where
  "sample_replay_codec = \<lparr>rk_frame = (\<lambda>_. Inr 100), rk_journal = (\<lambda>_. Inr 100)\<rparr>"

definition sample_store :: history_store where
  "sample_store = \<lparr>hi_codec = text_codec, hi_journal = (\<lambda>_. Some \<lparr>db_latest_event_sequence = 0, db_journal = [], db_transcript = []\<rparr>),
     hi_summary = (\<lambda>_. Inr None)\<rparr>"

definition sample_journal :: "nat \<Rightarrow> event_msg \<Rightarrow> journal_event" where
  "sample_journal n msg = \<lparr>je_sequence = n, je_recorded_at_ms = int n, je_event = \<lparr>ev_submission_id = None, ev_msg = msg\<rparr>, je_stream_metrics = []\<rparr>"

definition sample_delta :: "model_step_content_phase \<Rightarrow> string \<Rightarrow> event_msg" where
  "sample_delta phase text = AssistantContentDelta \<lparr>ad_session_id = ''s'', ad_turn_id = ''t'', ad_model_step_id = ''m'', ad_delta = text, ad_phase = phase\<rparr>"

definition sample_answer :: "event_msg" where
  "sample_answer = AssistantMessage \<lparr>am_session_id = ''s'', am_turn_id = ''t'', am_model_step_id = ''m'',
     am_content = [\<lparr>sc_output_index = 0, sc_part_index = 0, sc_phase = FinalAnswer, sc_text = ''Hello'', sc_annotations = []\<rparr>], am_target = None\<rparr>"

definition sample_loaded :: loaded_replay where
  "sample_loaded = projr (load_replay framework_presentation sample_replay_codec sample_store ''s'')"

definition sample_later :: "journal_event list" where
  "sample_later = [sample_journal 1 (sample_delta FinalAnswer ''He''), sample_journal 2 (sample_delta FinalAnswer ''llo''), sample_journal 3 sample_answer]"

definition sample_gap :: "journal_event list" where
  "sample_gap = [sample_journal 1 (sample_delta Commentary ''a''), sample_journal 2 (sample_delta Commentary ''b''), sample_journal 3 sample_answer]"

abbreviation sample_run :: "journal_event list \<Rightarrow> host_state \<times> agent_frame list gres" where
  "sample_run \<equiv> run_events framework_presentation sample_replay_codec (host_loaded ''s'' sample_loaded)"

lemmas replay_eval = sample_replay_codec_def sample_store_def sample_journal_def sample_delta_def sample_answer_def framework_presentation_def
  project_and_publish_def validate_gateway_event_def classify_journal_sequence_def u64_checked_add_def u64_max_def
  project_record_def take_preview_def replay_entry_new_def encode_frame_def json_res_def MAX_FRAME_BYTES_def MAX_REPLAY_BYTES_def
  REPLAY_CAPACITY_def REPLAY_LOAD_PAGE_SIZE_def sat_mul_def sat_add_def note_frame_def update_widgets_def update_token_usage_def
  record_and_publish_def push_replay_def replayable_def replayable_msg_def Let_def compact_replay_deltas_def appends_only_def

lemmas reduce_eval = reduce_apply_def event_base_def reducer_new_def reduce_event_def start_turn_def new_step_def touch_turn_def touch_def
  ends_turn_event_def own_report_def leave_turn_def finished_turn_id_def reduce_publish_def publish_turn_def publish_loose_def
  turn_rows_def sorted_slots_def placed_slots_def slots_def map_filter_simps rposition_def replace_rows_def sort_rows_def item_ops_def
  assistant_delta_def assistant_id_def reducer_id_def append_text_def set_item_def new_slot_def current_started_def file_item_def
  u32_sat_add_def u32_max_def item_place_def stands_alone_def notice_tone_def is_notice_def is_answer_def turn_place_def single_def
  put_row_def remove_row_def extends_def assistant_def assistant_phase_def own_def BLOCK_INDEX_BASE_def duration_ms_def

lemma sample_load_replay: "load_replay framework_presentation sample_replay_codec sample_store ''s'' = Inr sample_loaded" 
  by (simp add: sample_loaded_def load_replay_def load_loop.simps event_page_def replay_eval i64_max_def below_def)

lemma sample_loaded_eq: "sample_loaded = \<lparr>lp_latest_sequence = 0, lp_replay = [], lp_replay_bytes = 0, lp_transcript = reducer_new 0, lp_widgets = [], lp_token_usage = None\<rparr>"
  by (simp add: sample_loaded_def load_replay_def load_loop.simps event_page_def replay_eval i64_max_def below_def)

lemmas loose_eval = make_loose_rows_def add_loose_def is_activity_def replay_after_def front_sequence_def event_sequence_def client_empty_def
  append_content.simps client_of_def

lemma sample_run_later: "case sample_run sample_later of (self, r) \<Rightarrow> \<not> isl r \<and> map_option length (replay_after self 0) = Some 2"
  by (simp add: sample_loaded_eq host_loaded_def sample_later_def replay_eval reduce_eval loose_eval)

text \<open>
  What the hypothesis on streamed phases excludes.  The comment on the compaction says that the step's final item
  carries the whole text.  A phase that was streamed but for which the message has no text gets no final item, so
  a client that resumes after the compaction keeps the first delta only.
\<close>
lemma resume_gap: "case sample_run sample_gap of (self, r) \<Rightarrow> \<not> isl r
    \<and> (case replay_after self 0 of None \<Rightarrow> False | Some frames \<Rightarrow>
        (case client_apply client_empty (concat (map fr_transcript frames)) of None \<Rightarrow> False | Some c \<Rightarrow>
          vw_items c (stream_id 0 ''m'' Commentary) \<noteq> vw_items (client_of (hs_transcript self)) (stream_id 0 ''m'' Commentary)))"
  by (simp add: sample_loaded_eq host_loaded_def sample_gap_def replay_eval reduce_eval loose_eval stream_id_def)

text \<open>
  C17. A client that reconnects misses nothing.  A chat is loaded and runs; a client holds what the gateway showed at some
  point, drops out, and the chat goes on.  When the client comes back with the sequence it had reached, either the
  window has lost something and the client is given the whole transcript, or the frames it is given, from which evicted,
  transient and compacted frames are missing, can be applied one by one and leave it with every item and row of the
  transcript as it is now.  Two things are relied on: the presentation renders nothing for the transient events a
  resume leaves out, and a complete message has text for each phase that was streamed for its step.
\<close>
theorem reconnect_resumes:
  assumes "load_replay re rk store session_id = Inr loaded"
    and "run_events re rk (host_loaded session_id loaded) earlier = (left, Inr seen)"
    and "run_events re rk left later = (self, Inr missed)"
    and "quiet_events re later" and "well_streamed later"
    and "vw_items (client_of (hs_transcript left)) \<subseteq>\<^sub>m vw_items c" and "vw_rows (client_of (hs_transcript left)) \<subseteq>\<^sub>m vw_rows c"
  shows "case replay_after self (hs_sequence left) of
      Some frames \<Rightarrow> (\<exists>c'. client_apply c (concat (map fr_transcript frames)) = Some c'
        \<and> vw_items (client_of (hs_transcript self)) \<subseteq>\<^sub>m vw_items c' \<and> vw_rows (client_of (hs_transcript self)) \<subseteq>\<^sub>m vw_rows c')
    | None \<Rightarrow> client_from_page (snapshot (hs_transcript self)) = client_of (hs_transcript self)"
proof -
  have ok: "host_ok left" by (rule run_events_host_ok [OF assms(2) load_replay_ok [OF assms(1)]])
  have "followed (hs_sequence left) c later missed self"
    using run_events_followed [OF followed_start [OF ok assms(6,7)] assms(3,4)] assms(5) by simp
  note resume = followed_replay [OF this]
  have "reducer_ok (hs_transcript self)" using run_events_host_ok [OF assms(3) ok] by (simp add: host_ok_def)
  then have "client_from_page (snapshot (hs_transcript self)) = client_of (hs_transcript self)"
    by (intro client_from_snapshot) (simp_all add: reducer_ok_def)
  with resume synced_holds [of "hs_transcript self"] show ?thesis by (fastforce split: option.split)
qed

theorem reconnect_resumes_witness:
  "\<exists>left. run_events framework_presentation sample_replay_codec (host_loaded ''s'' sample_loaded) [] = (left, Inr []) \<and> hs_sequence left = 0
    \<and> (case sample_run sample_later of (self, r) \<Rightarrow> \<not> isl r \<and> (case replay_after self 0 of
        Some frames \<Rightarrow> length frames = 2 \<and> (\<exists>c'. client_apply client_empty (concat (map fr_transcript frames)) = Some c'
          \<and> vw_items (client_of (hs_transcript self)) \<subseteq>\<^sub>m vw_items c' \<and> vw_rows (client_of (hs_transcript self)) \<subseteq>\<^sub>m vw_rows c')
      | None \<Rightarrow> False))"
proof -
  obtain self r where run: "sample_run sample_later = (self, r)" by (cases "sample_run sample_later") simp
  with sample_run_later obtain missed where r: "r = Inr missed" and two: "map_option length (replay_after self 0) = Some 2"
    by (cases r) auto
  have later: "quiet_events framework_presentation sample_later" "well_streamed sample_later"
    by (simp_all add: quiet_events_def well_streamed_def completes_def streamed_def sample_later_def sample_journal_def sample_delta_def
        sample_answer_def replayable_msg_def phase_text_def map_filter_simps upt_rec numeral_eq_Suc)
  have zero: "hs_sequence (host_loaded ''s'' sample_loaded) = 0" by (simp add: host_loaded_def sample_loaded_eq)
  have start: "vw_items (client_of (hs_transcript (host_loaded ''s'' sample_loaded))) \<subseteq>\<^sub>m vw_items client_empty"
    "vw_rows (client_of (hs_transcript (host_loaded ''s'' sample_loaded))) \<subseteq>\<^sub>m vw_rows client_empty"
    by (simp_all add: host_loaded_def sample_loaded_eq reducer_new_def client_of_def client_empty_def map_le_def)
  note reconnect_resumes [of framework_presentation sample_replay_codec sample_store "''s''" sample_loaded "[]"
      "host_loaded ''s'' sample_loaded" "[]" sample_later self missed client_empty]
  from this [OF sample_load_replay _ _ later start] run r two zero show ?thesis by (auto split: option.splits)
qed

text \<open>
  C18. The replay window stays within its limits.  From loading on, whatever events arrive, the window holds at most
  1024 frames and 50 MiB, its byte count is exactly the sum of the sizes of the frames in it, and no frame of it is
  newer than the last event the host has taken.
\<close>
theorem replay_window_bounded:
  assumes "load_replay re rk store session_id = Inr loaded"
    and "run_events re rk (host_loaded session_id loaded) events = (self, Inr frames)"
  shows "length (hs_replay self) \<le> REPLAY_CAPACITY \<and> hs_replay_bytes self \<le> MAX_REPLAY_BYTES
    \<and> hs_replay_bytes self = sum_list (map rp_bytes (hs_replay self))
    \<and> list_all (\<lambda>entry. rc_sequence (fr_record (rp_frame entry)) \<le> hs_sequence self) (hs_replay self)"
  using run_events_host_ok [OF assms(2) load_replay_ok [OF assms(1)]]
  by (simp add: host_ok_def window_within_def list_all_iff)

theorem replay_window_bounded_witness:
  "case sample_run sample_later of (self, r) \<Rightarrow> \<not> isl r \<and> hs_replay self \<noteq> [] \<and> length (hs_replay self) \<le> REPLAY_CAPACITY
    \<and> hs_replay_bytes self \<le> MAX_REPLAY_BYTES \<and> hs_replay_bytes self = sum_list (map rp_bytes (hs_replay self))
    \<and> list_all (\<lambda>entry. rc_sequence (fr_record (rp_frame entry)) \<le> hs_sequence self) (hs_replay self)"
proof -
  obtain self r where run: "sample_run sample_later = (self, r)" by (cases "sample_run sample_later") simp
  with sample_run_later obtain missed where r: "r = Inr missed" and two: "map_option length (replay_after self 0) = Some 2"
    by (cases r) auto
  have "hs_replay self \<noteq> []" using two by (auto simp: replay_after_def split: if_splits)
  with replay_window_bounded [OF sample_load_replay run [unfolded r]] run r show ?thesis by simp
qed

end
