(* ===== verification/Spec2Isabelle.thy ===== *)
theory Spec2Isabelle
  imports Patch Turn Replay_Resume
begin

text \<open>
  \<^bold>\<open>A verification development for the moebius agent framework.\<close>

  Moebius runs agent sessions.  A frontend sends submissions to a session actor; the actor admits messages
  into a durable queue, runs turns (model steps and tool steps) and writes every change as a checkpoint
  together with the events that describe it.  Events are numbered and kept in a journal from which frontends
  reload the session.  Tools are registered in a catalog, their calls are bound, reviewed, executed and their
  bounded results are written back to the model context.  A gateway puts sessions behind authenticated
  connections.

  \<^bold>\<open>Theories and sources\<close> (paths under \<open>src/\<close>; the root crate is in \<open>src/src/\<close>).

  \<^item> \<^verbatim>\<open>Prelude\<close>: result type and its monad, checked and saturating integer operations at Rust's widths,
    lemmas on lists and options.  \<^verbatim>\<open>Rust_Str\<close>: \<open>str\<close> as UTF-8 bytes, character boundaries, trimming,
    splitting, searching.  \<^verbatim>\<open>Json\<close>: \<open>serde_json::Value\<close> and its accessors.
  \<^item> \<^verbatim>\<open>Protocol\<close>: \<open>lib.rs\<close>, \<open>identifier.rs\<close>, \<open>session_id.rs\<close>, \<open>protocol/mod.rs\<close>: errors, identifiers,
    submissions and their validation.  \<^verbatim>\<open>Events\<close>: \<open>protocol/events.rs\<close>, \<open>protocol/content.rs\<close>,
    \<open>protocol/frontend.rs\<close>: event payloads, ordered content, presentation.
  \<^item> \<^verbatim>\<open>Message_Queue\<close>: \<open>backend/model/mod.rs\<close> and the queued message of \<open>backend/checkpoint/mod.rs\<close>; the
    locale \<open>bounded_keyed_queue\<close> states what a bounded queue with unique keys promises and is interpreted on the
    queue's push.  \<^verbatim>\<open>Messages\<close>: \<open>middleware/messages.rs\<close> and the message operations of the middleware stack.
  \<^item> \<^verbatim>\<open>Journal\<close>: \<open>backend/checkpoint/sqlite_event.rs\<close> and the event queries of \<open>sqlite.rs\<close>; the locales
    \<open>newest_first_pages\<close> and \<open>page_loop\<close> carry the loops over pages (reply validation, newest turn page) and are
    interpreted on the journal's pages.
  \<^item> \<^verbatim>\<open>Delivery_Once\<close>: \<open>middleware/delivery_once.rs\<close>.  \<^verbatim>\<open>Checkpoint\<close>: \<open>backend/checkpoint/mod.rs\<close>, the
    checkpoint and its validation.  \<^verbatim>\<open>Store\<close>: \<open>backend/checkpoint/sqlite.rs\<close> and \<open>sqlite_context.rs\<close>, saving
    and loading; the locale \<open>durable_receipts\<close> lifts a per-save law to all later saves.
  \<^item> \<^verbatim>\<open>Recorder\<close>: \<open>agent/recorder.rs\<close> as a state machine over a store given by the locale \<open>event_store\<close>, which
    is interpreted on the SQLite model.  \<^verbatim>\<open>Routing\<close>: \<open>agent/input.rs\<close>, \<open>agent/mod.rs\<close>, \<open>agent/turn.rs\<close>:
    admission, routing during a turn, durable steps, execution accounting.
  \<^item> \<^verbatim>\<open>Arguments\<close>, \<^verbatim>\<open>Tool_Output\<close>, \<^verbatim>\<open>Patch\<close>, \<^verbatim>\<open>Approval\<close>, \<^verbatim>\<open>Catalog\<close>:
    \<open>middleware/tools/arguments.rs\<close>, the output limits and registry of \<open>middleware/tools.rs\<close>,
    \<open>middleware/tools/patch.rs\<close>, \<open>backend/sandbox/approval.rs\<close>.  \<^verbatim>\<open>Tool_Step\<close>: \<open>agent/tool_step.rs\<close>.
  \<^item> \<^verbatim>\<open>Gateway_Auth\<close>: \<open>crates/mobius-gateway/src/auth.rs\<close> with \<open>publication.rs\<close> and the credentials of
    \<open>channel.rs\<close>; the locale \<open>undo_publication\<close> states the contract every operation of the store uses.
  \<^item> \<^verbatim>\<open>Turn\<close>: \<open>agent/turn.rs\<close> and \<open>stage_message_input\<close> of \<open>agent/turn/model.rs\<close>: the start, the staged
    input, the completion, abort and failure of a turn.
  \<^item> \<^verbatim>\<open>Transcript\<close>: \<open>crates/mobius-gateway/src/host/transcript.rs\<close> and \<open>wire/transcript.rs\<close>, the reducer that turns events
    into the items and rows a client shows, and a client.  \<^verbatim>\<open>Transcript_Sync\<close>: every operation of the reducer is a
    sequence of moves of an inductive relation; the locale \<open>op_stream\<close> states what a loop that emits ops promises a
    client and is interpreted on the loops of the reducer and on whole sessions.
    \<^verbatim>\<open>Transcript_Rows\<close>: the rows kept incrementally are those of regrouping everything, and show every item once.
  \<^item> \<^verbatim>\<open>Replay\<close>: \<open>crates/mobius-gateway/src/host/replay.rs\<close> with the operations of \<open>host/session/events.rs\<close> and
    \<open>host/session/runtime.rs\<close> that use it: the window of recent frames a client resumes from, and the history a forked
    chat inherits.  \<^verbatim>\<open>Replay_Resume\<close>: what a client that comes back is given makes up for what it missed.

  \<^bold>\<open>How the state corresponds.\<close>  Structs are records with a two-letter prefix per record, enums are datatypes, a
  \<open>Result\<close> is a sum with the error on the left (\<open>'a res\<close>), \<open>&mut self\<close> is a state argument that is returned,
  also on the error paths, so that what a failed operation leaves behind is part of every statement.  Awaited
  calls run to completion before the next step; where the code really interleaves (the recorder task and its
  callers, the submission inbox) the model is a sequence of atomic steps and the theorems hold for every
  sequence.  Locks are taken for a whole operation in the source and need no counterpart here.
  SQL statements are list and map operations on the rows of one session inside one transaction.

  \<^bold>\<open>What the groups of lemmas show.\<close>  Admission is at most once and durable before it is acknowledged; a save
  followed by a load is the identity and a save within one context epoch only appends; the journal returns what
  was stored, in order, and its paging loops end with the answer of one search over the whole journal; the
  recorder publishes exactly the admitted events under consecutive numbers within its byte budget and fails
  closed; a tool runs only with the authority it needs, its arguments conform to its schema, its output is
  bounded and its results reach the context exactly once and in order; failed durable steps leave the live
  state as it was; a client of the gateway always shows the transcript the gateway holds, and that transcript shows
  every item once.

  \<^bold>\<open>Parameters.\<close>  Code outside the repository is an argument: the JSON reader and printer, SHA-256, UUIDs, the
  clock, event sizes, BM25 ranking, the diff library, tool handlers and middleware hooks.  A theorem that needs a
  law of such a parameter states it as a hypothesis and has a witness with a concrete instance.

  \<^bold>\<open>Bounds and fuel.\<close>  No definition uses fuel.  Loops whose recursion is not structural (page loops, argument
  walks, patch search, drains) are \<open>function\<close>s with a termination proof, so that returning is part of the
  definition.  Integer limits are those of the source (u64, i64, u32 and the constants of each module).

  \<^bold>\<open>Not modelled.\<close>  SQL column encodings, schema migration and connection handling; serde encodings beyond the
  items the model context is made of; the select loops that interleave a running future with new input, and
  cancellation inside an await; the model loop of a turn; the provider transports; process spawning and operating-system isolation; the
  gateway's sockets and the terminal frontend.
\<close>

end
